(* ===== verification/Gxb_Prelude.thy ===== *)
theory Gxb_Prelude
  imports Main "HOL-Library.Word"
begin

text \<open>
  Shared vocabulary of the development: results of fallible code, the two combinators that
  sequence them, the checked 64-bit integer the code calls \<open>share_type\<close>, the 128-bit
  integers it divides with, and the generic facts on lists the components use.

  \<^item> An exception of the source is a value of \<open>chain_error\<close>; a function that may throw
    returns \<open>'a result\<close>, with \<open>Inl\<close> for the exception.
  \<^item> \<open>share_type\<close> is \<open>fc::safe<int64_t>\<close>. The \<open>fc\<close> library is not part of the
    repository, so its four operations are a parameter \<open>S :: safe_ops\<close> of the definitions that
    use them, and the contract it documents (the exact result, or an exception when the result
    leaves the 64-bit range) is the locale \<open>checked_int64\<close>.
\<close>

section \<open>Results\<close>

text \<open>
  The exceptions: \<open>Assert_failed\<close> is \<open>FC_ASSERT\<close> (and \<open>FC_THROW\<close>),
  \<open>Object_not_found\<close> is the assertion of \<open>index::get\<close>, \<open>Uniqueness_violated\<close> those of
  \<open>generic_index\<close>, \<open>Arithmetic_exception\<close> those of \<open>fc::safe\<close>; the others are the named
  exceptions that \<open>GRAPHENE_ASSERT\<close> throws.
\<close>

datatype chain_error =
    Assert_failed
  | Object_not_found
  | Uniqueness_violated
  | Arithmetic_exception
  | Unlinkable_block_exception
  | Insufficient_fee
  | Transfer_from_account_not_whitelisted
  | Transfer_to_account_not_whitelisted
  | Transfer_restricted_transfer_asset
  | Transfer_restricted_transfer_to_contract
  | Override_transfer_not_permitted
  | Asset_reserve_invalid_on_mia
  | Tx_missing_active_auth
  | Tx_missing_owner_auth
  | Tx_missing_other_auth
  | Tx_irrelevant_sig
  | Tx_duplicate_sig
  | Invalid_committee_approval
  | Bad_rational
  | Undefined_behaviour
  | Undo_database_exception
  | Key_not_found
  | Pop_empty_chain
  | Internal_verify_auth_max_auth_exceeded
  | Internal_verify_auth_account_not_found
  | Account_create_max_auth_exceeded
  | Account_create_auth_account_not_found
  | Account_update_max_auth_exceeded
  | Account_update_auth_account_not_found
  | Account_create_buyback_incorrect_issuer
  | Account_create_buyback_already_exists
  | Account_create_buyback_too_many_markets

type_synonym 'a result = "chain_error + 'a"

definition rbind :: "'a result \<Rightarrow> ('a \<Rightarrow> 'b result) \<Rightarrow> 'b result" where
  "rbind m f = (case m of Inl e \<Rightarrow> Inl e | Inr x \<Rightarrow> f x)"

definition ensure :: "bool \<Rightarrow> chain_error \<Rightarrow> 'a result \<Rightarrow> 'a result" where
  "ensure b e m = (if b then m else Inl e)"

abbreviation fc_assert :: "bool \<Rightarrow> 'a result \<Rightarrow> 'a result" where
  "fc_assert b m \<equiv> ensure b Assert_failed m"

named_theorems result_simps "inversion of the result combinators"

lemma rbind_simps [simp]: "rbind (Inl e) f = Inl e" "rbind (Inr x) f = f x"
  by (simp_all add: rbind_def)

lemma rbind_Inr [result_simps]: "rbind m f = Inr y \<longleftrightarrow> (\<exists>x. m = Inr x \<and> f x = Inr y)"
  by (cases m) auto

lemma rbind_cong [fundef_cong]:
  "m = m' \<Longrightarrow> (\<And>x. m' = Inr x \<Longrightarrow> f x = f' x) \<Longrightarrow> rbind m f = rbind m' f'"
  by (cases m') auto

lemma ensure_simps [simp]: "ensure True e m = m" "ensure False e m = Inl e"
  by (simp_all add: ensure_def)

lemma ensure_Inr [result_simps]: "ensure b e m = Inr y \<longleftrightarrow> b \<and> m = Inr y"
  by (simp add: ensure_def)

lemma ensure_cong [fundef_cong]:
  "b = b' \<Longrightarrow> e = e' \<Longrightarrow> (b' \<Longrightarrow> m = m') \<Longrightarrow> ensure b e m = ensure b' e' m'"
  by (simp add: ensure_def)

lemma ensure_Inl: "ensure b e m = Inl e' \<longleftrightarrow> (\<not> b \<and> e = e') \<or> (b \<and> m = Inl e')"
  by (auto simp: ensure_def)

lemma rbind_Inl: "rbind m f = Inl e \<longleftrightarrow> m = Inl e \<or> (\<exists>x. m = Inr x \<and> f x = Inl e)"
  by (cases m) auto

text \<open>A loop over a list whose body may throw stops at the first exception.\<close>

fun fold_result :: "('a \<Rightarrow> 's \<Rightarrow> 's result) \<Rightarrow> 'a list \<Rightarrow> 's \<Rightarrow> 's result" where
  "fold_result f [] s = Inr s"
| "fold_result f (x # xs) s = rbind (f x s) (fold_result f xs)"

lemma fold_result_append:
  "fold_result f (xs @ ys) s = rbind (fold_result f xs s) (fold_result f ys)"
  by (induction xs arbitrary: s) (auto simp: rbind_def split: sum.splits)

lemma fold_result_invariant:
  assumes "fold_result f xs s = Inr s'" and "P s"
    and "\<And>x s s'. x \<in> set xs \<Longrightarrow> P s \<Longrightarrow> f x s = Inr s' \<Longrightarrow> P s'"
  shows "P s'"
  using assms
proof (induction xs arbitrary: s)
  case Nil
  then show ?case by simp
next
  case (Cons x xs)
  from Cons.prems(1) obtain t where t: "f x s = Inr t" and rest: "fold_result f xs t = Inr s'"
    by (auto simp: result_simps)
  have "P t" using Cons.prems(2,3) t by auto
  with rest Cons.prems(3) show ?case by (intro Cons.IH) auto
qed

section \<open>Checked 64-bit integers\<close>

type_synonym share_type = int

definition int64_max :: int where
  "int64_max = 9223372036854775807"

definition int64_min :: int where
  "int64_min = - 9223372036854775808"

definition in_int64 :: "int \<Rightarrow> bool" where
  "in_int64 x \<longleftrightarrow> int64_min \<le> x \<and> x \<le> int64_max"

lemmas int64_defs = in_int64_def int64_min_def int64_max_def

record safe_ops =
  safe_add :: "share_type \<Rightarrow> share_type \<Rightarrow> share_type result"
  safe_sub :: "share_type \<Rightarrow> share_type \<Rightarrow> share_type result"
  safe_mul :: "share_type \<Rightarrow> share_type \<Rightarrow> share_type result"
  safe_neg :: "share_type \<Rightarrow> share_type result"

locale checked_int64 =
  fixes S :: safe_ops
  assumes add_exact: "in_int64 (a + b) \<Longrightarrow> safe_add S a b = Inr (a + b)"
    and add_throws: "\<not> in_int64 (a + b) \<Longrightarrow> isl (safe_add S a b)"
    and sub_exact: "in_int64 (a - b) \<Longrightarrow> safe_sub S a b = Inr (a - b)"
    and sub_throws: "\<not> in_int64 (a - b) \<Longrightarrow> isl (safe_sub S a b)"
    and mul_exact: "in_int64 (a * b) \<Longrightarrow> safe_mul S a b = Inr (a * b)"
    and mul_throws: "\<not> in_int64 (a * b) \<Longrightarrow> isl (safe_mul S a b)"
    and neg_exact: "in_int64 (- a) \<Longrightarrow> safe_neg S a = Inr (- a)"
    and neg_throws: "\<not> in_int64 (- a) \<Longrightarrow> isl (safe_neg S a)"
begin

lemma safe_add_Inr [result_simps]: "safe_add S a b = Inr c \<longleftrightarrow> in_int64 (a + b) \<and> c = a + b"
  using add_exact [of a b] add_throws [of a b] by (cases "in_int64 (a + b)") auto

lemma safe_sub_Inr [result_simps]: "safe_sub S a b = Inr c \<longleftrightarrow> in_int64 (a - b) \<and> c = a - b"
  using sub_exact [of a b] sub_throws [of a b] by (cases "in_int64 (a - b)") auto

lemma safe_mul_Inr [result_simps]: "safe_mul S a b = Inr c \<longleftrightarrow> in_int64 (a * b) \<and> c = a * b"
  using mul_exact [of a b] mul_throws [of a b] by (cases "in_int64 (a * b)") auto

lemma safe_neg_Inr [result_simps]: "safe_neg S a = Inr c \<longleftrightarrow> in_int64 (- a) \<and> c = - a"
  using neg_exact [of a] neg_throws [of a] by (cases "in_int64 (- a)") auto

end

text \<open>An implementation of the contract, which the witnesses run on.\<close>

definition checked :: "int \<Rightarrow> share_type result" where
  "checked x = (if in_int64 x then Inr x else Inl Arithmetic_exception)"

definition int64_ops :: safe_ops where
  "int64_ops = \<lparr>safe_add = (\<lambda>a b. checked (a + b)), safe_sub = (\<lambda>a b. checked (a - b)),
     safe_mul = (\<lambda>a b. checked (a * b)), safe_neg = (\<lambda>a. checked (- a))\<rparr>"

lemma int64_ops_sel [simp]:
  "safe_add int64_ops a b = checked (a + b)" "safe_sub int64_ops a b = checked (a - b)"
  "safe_mul int64_ops a b = checked (a * b)" "safe_neg int64_ops a = checked (- a)"
  by (simp_all add: int64_ops_def)

interpretation safe64: checked_int64 int64_ops
  by unfold_locales (simp_all add: checked_def)

lemma int64_ops_checked: "checked_int64 int64_ops"
  by unfold_locales

type_synonym time_point_sec = nat
type_synonym account_id_type = nat

section \<open>Fixed-width machine integers\<close>

text \<open>
  \<open>uint128\<close> is the 128-bit unsigned integer of the proportional computations: operations wrap,
  division truncates. \<open>wrap64\<close> is the two's complement value a signed 64-bit product has when it
  overflows, \<open>to_uint64\<close> the low 64 bits read back as a signed amount.
\<close>

type_synonym u16 = "16 word"
type_synonym u32 = "32 word"
type_synonym uint128 = "128 word"

definition u128 :: "int \<Rightarrow> uint128" where
  "u128 x = word_of_int x"

definition wrap64 :: "int \<Rightarrow> int" where
  "wrap64 x = sint (word_of_int x :: 64 word)"

definition to_uint64 :: "uint128 \<Rightarrow> int" where
  "to_uint64 w = sint (ucast w :: 64 word)"

lemma wrap64_id: "in_int64 x \<Longrightarrow> wrap64 x = x"
  unfolding wrap64_def int64_defs by (simp add: sint_sbintrunc' signed_take_bit_int_eq_self)

lemma wrap64_in_int64: "in_int64 (wrap64 x)"
  using sint_greater_eq [of "word_of_int x :: 64 word"] sint_less [of "word_of_int x :: 64 word"]
  unfolding wrap64_def int64_defs by simp

lemma uint_u128: "0 \<le> x \<Longrightarrow> x < 2 ^ 128 \<Longrightarrow> uint (u128 x) = x"
  unfolding u128_def by (simp add: uint_word_of_int take_bit_int_eq_self)

lemma to_uint64_small: "uint w \<le> int64_max \<Longrightarrow> to_uint64 w = uint w"
proof -
  assume le: "uint w \<le> int64_max"
  have "(ucast w :: 64 word) = word_of_int (uint w)"
    by simp
  then have "to_uint64 w = wrap64 (uint w)"
    unfolding to_uint64_def wrap64_def by (simp only:)
  moreover from le have "in_int64 (uint w)"
    using uint_ge_0 [of w] unfolding int64_defs by linarith
  ultimately show ?thesis by (simp add: wrap64_id)
qed

lemma uint_mult_u128:
  "0 \<le> x \<Longrightarrow> 0 \<le> y \<Longrightarrow> x * y < 2 ^ 128 \<Longrightarrow> uint (u128 x * u128 y) = x * y"
  unfolding u128_def
  by (metis mult_nonneg_nonneg of_int_mult uint_u128 u128_def)

text \<open>Integer division of C++ truncates toward zero.\<close>

definition trunc_div :: "int \<Rightarrow> int \<Rightarrow> int" where
  "trunc_div a b = (if (0 \<le> a) = (0 \<le> b) then \<bar>a\<bar> div \<bar>b\<bar> else - (\<bar>a\<bar> div \<bar>b\<bar>))"

lemma trunc_div_nonneg: "0 \<le> a \<Longrightarrow> 0 \<le> b \<Longrightarrow> trunc_div a b = a div b"
  by (simp add: trunc_div_def)

section \<open>Sums and updates of lists\<close>

lemma sum_list_map_update:
  fixes f :: "'a \<Rightarrow> int"
  assumes "distinct (map fst xs)" and "map_of xs k = Some v"
  shows "(\<Sum>(i, x) \<leftarrow> xs. f (if i = k then v' else x)) = (\<Sum>(i, x) \<leftarrow> xs. f x) - f v + f v'"
  using assms
proof (induction xs)
  case Nil
  then show ?case by simp
next
  case (Cons p xs)
  obtain i x where p: "p = (i, x)" by force
  show ?case
  proof (cases "i = k")
    case True
    with Cons.prems p have v: "x = v" and notin: "k \<notin> fst ` set xs" by auto
    from notin have "(\<Sum>(i, x) \<leftarrow> xs. f (if i = k then v' else x)) = (\<Sum>(i, x) \<leftarrow> xs. f x)"
      by (intro arg_cong [where f = sum_list] map_cong) force+
    with True v p show ?thesis by simp
  next
    case False
    with Cons p show ?thesis by simp
  qed
qed

lemma find_Some_mem: "List.find P xs = Some x \<Longrightarrow> x \<in> set xs \<and> P x"
  by (auto simp: find_Some_iff)

lemma find_None_mem: "List.find P xs = None \<longleftrightarrow> (\<forall>x \<in> set xs. \<not> P x)"
  by (auto simp: find_None_iff)

end
