(* ===== verification/Object_Index.thy ===== *)
theory Object_Index
  imports Gxb_Prelude
begin

text \<open>
  The object index of \<open>libraries/db\<close>: \<open>object_id_type\<close> (object_id.hpp), the container
  operations of \<open>generic_index\<close> (generic_index.hpp) as \<open>primary_index\<close> (index.hpp) wraps
  them, and the contract every client of an index relies on, as the locale \<open>object_index\<close>.

  An index is the list of its objects in the order of the \<open>by_id\<close> key, each with its instance
  number, and the next instance to use. A secondary index that is declared unique is a list of keys
  of an object (\<open>uk\<close>); two objects clash when they share one.
\<close>

section \<open>Object identifiers\<close>

unbundle bit_operations_syntax

type_synonym object_id_type = "64 word"

definition GRAPHENE_DB_MAX_INSTANCE_ID :: "64 word" where
  "GRAPHENE_DB_MAX_INSTANCE_ID = drop_bit 16 (- 1)"

definition object_id :: "8 word \<Rightarrow> 8 word \<Rightarrow> 64 word \<Rightarrow> object_id_type result" where
  "object_id s t i =
     fc_assert (drop_bit 48 i = 0)
       (Inr (push_bit 56 (ucast s) OR push_bit 48 (ucast t) OR i))"

definition id_space :: "object_id_type \<Rightarrow> 8 word" where
  "id_space n = ucast (drop_bit 56 n)"

definition id_type :: "object_id_type \<Rightarrow> 8 word" where
  "id_type n = ucast (drop_bit 48 n AND 0x00ff)"

definition id_instance :: "object_id_type \<Rightarrow> 64 word" where
  "id_instance n = n AND GRAPHENE_DB_MAX_INSTANCE_ID"

definition id_plus :: "object_id_type \<Rightarrow> 64 word \<Rightarrow> object_id_type result" where
  "id_plus a d = object_id (id_space a) (id_type a) (id_instance a + d)"

lemma max_instance_mask: "GRAPHENE_DB_MAX_INSTANCE_ID = mask 48"
  by (rule bit_word_eqI) (auto simp: GRAPHENE_DB_MAX_INSTANCE_ID_def bit_simps)

lemma high_bits_zero:
  fixes i :: "64 word"
  assumes "drop_bit 48 i = 0" and "48 \<le> n"
  shows "\<not> bit i n"
proof
  assume "bit i n"
  then have "bit (drop_bit 48 i) (n - 48)"
    using assms(2) by (simp add: bit_drop_bit_eq)
  with assms(1) show False by simp
qed

lemma object_id_Inr [result_simps]:
  "object_id s t i = Inr n \<longleftrightarrow>
     drop_bit 48 i = 0 \<and> n = push_bit 56 (ucast s) OR push_bit 48 (ucast t) OR i"
  by (auto simp: object_id_def ensure_Inr)

lemma bit_8_word_beyond [simp]: "\<not> bit (w :: 8 word) (8 + n)"
  by (auto dest: bit_imp_le_length)

lemma id_space_pack:
  fixes s t :: "8 word"
  assumes "drop_bit 48 (i :: 64 word) = 0"
  shows "id_space (push_bit 56 (ucast s) OR push_bit 48 (ucast t) OR i) = s"
  unfolding id_space_def
  by (rule bit_word_eqI)
     (auto simp: bit_simps high_bits_zero [OF assms] not_le dest: bit_imp_le_length)

lemma id_type_pack:
  fixes s t :: "8 word"
  assumes "drop_bit 48 (i :: 64 word) = 0"
  shows "id_type (push_bit 56 (ucast s) OR push_bit 48 (ucast t) OR i) = t"
proof -
  have ff: "(0x00ff :: 64 word) = mask 8"
    by (simp add: mask_eq_exp_minus_1)
  show ?thesis
    unfolding id_type_def ff
    by (rule bit_word_eqI)
       (auto simp: bit_simps high_bits_zero [OF assms] not_le dest: bit_imp_le_length)
qed

lemma id_instance_pack:
  fixes s t :: "8 word"
  assumes "drop_bit 48 (i :: 64 word) = 0"
  shows "id_instance (push_bit 56 (ucast s) OR push_bit 48 (ucast t) OR i) = i"
  unfolding id_instance_def max_instance_mask
  by (rule bit_word_eqI)
     (auto simp: bit_simps not_le intro: high_bits_zero [OF assms, THEN notE] leI)

text \<open>An object id packs its space, type and 48-bit instance into 64 bits without loss, and refuses an
  instance that does not fit.
\<close>

theorem object_id_roundtrip:
  "(object_id s t i = Inr n \<longrightarrow> id_space n = s \<and> id_type n = t \<and> id_instance n = i) \<and>
   (drop_bit 48 i \<noteq> 0 \<longrightarrow> object_id s t i = Inl Assert_failed)"
  by (auto simp: object_id_Inr id_space_pack id_type_pack id_instance_pack) (simp add: object_id_def)

theorem object_id_roundtrip_witness:
  "object_id 1 2 3 = Inr 0x0102000000000003 \<and> id_space 0x0102000000000003 = 1 \<and>
   id_type 0x0102000000000003 = 2 \<and> id_instance 0x0102000000000003 = 3 \<and>
   object_id 1 2 0x0001000000000000 = Inl Assert_failed"
proof -
  have o: "object_id 1 2 3 = Inr 0x0102000000000003" by code_simp
  have d: "drop_bit 48 (0x0001000000000000 :: 64 word) \<noteq> 0" by code_simp
  from object_id_roundtrip [of 1 2 3 "0x0102000000000003"] o
    object_id_roundtrip [of 1 2 "0x0001000000000000"] d
  show ?thesis by blast
qed

section \<open>The container\<close>

record 'a index_table =
  next_id :: nat
  rows :: "(nat \<times> 'a) list"

definition empty_index :: "'a index_table" where
  "empty_index = \<lparr>next_id = 0, rows = []\<rparr>"

definition keys_clash :: "('a \<Rightarrow> 'k list) \<Rightarrow> 'a \<Rightarrow> 'a \<Rightarrow> bool" where
  "keys_clash uk x y \<longleftrightarrow> list_ex (\<lambda>k. k \<in> set (uk y)) (uk x)"

definition violates :: "('a \<Rightarrow> 'k list) \<Rightarrow> nat \<Rightarrow> 'a \<Rightarrow> (nat \<times> 'a) list \<Rightarrow> bool" where
  "violates uk i x rs \<longleftrightarrow> list_ex (\<lambda>(j, y). j = i \<or> keys_clash uk x y) rs"

definition index_find :: "'a index_table \<Rightarrow> nat \<Rightarrow> 'a option" where
  "index_find t i = map_of (rows t) i"

definition index_get :: "'a index_table \<Rightarrow> nat \<Rightarrow> 'a result" where
  "index_get t i = (case index_find t i of None \<Rightarrow> Inl Object_not_found | Some x \<Rightarrow> Inr x)"

definition index_insert :: "('a \<Rightarrow> 'k list) \<Rightarrow> nat \<Rightarrow> 'a \<Rightarrow> 'a index_table \<Rightarrow> 'a index_table result" where
  "index_insert uk i x t =
     ensure (\<not> violates uk i x (rows t)) Uniqueness_violated
       (Inr (t\<lparr>rows := insort_key fst (i, x) (rows t)\<rparr>))"

definition use_next_id :: "'a index_table \<Rightarrow> 'a index_table" where
  "use_next_id t = t\<lparr>next_id := Suc (next_id t)\<rparr>"

definition set_next_id :: "nat \<Rightarrow> 'a index_table \<Rightarrow> 'a index_table" where
  "set_next_id i t = t\<lparr>next_id := i\<rparr>"

definition index_create :: "('a \<Rightarrow> 'k list) \<Rightarrow> 'a \<Rightarrow> 'a index_table \<Rightarrow> (nat \<times> 'a index_table) result" where
  "index_create uk x t =
     rbind (index_insert uk (next_id t) x t) (\<lambda>t'. Inr (next_id t, use_next_id t'))"

definition index_modify ::
  "('a \<Rightarrow> 'k list) \<Rightarrow> nat \<Rightarrow> ('a \<Rightarrow> 'a result) \<Rightarrow> 'a index_table \<Rightarrow> 'a index_table result" where
  "index_modify uk i m t =
     rbind (index_get t i) (\<lambda>x.
     rbind (m x) (\<lambda>y.
     ensure (\<not> violates uk i y (filter (\<lambda>(j, z). j \<noteq> i) (rows t))) Uniqueness_violated
       (Inr (t\<lparr>rows := map (\<lambda>(j, z). (j, if j = i then y else z)) (rows t)\<rparr>))))"

definition index_remove :: "nat \<Rightarrow> 'a index_table \<Rightarrow> 'a index_table" where
  "index_remove i t = t\<lparr>rows := filter (\<lambda>(j, z). j \<noteq> i) (rows t)\<rparr>"

text \<open>Well-formed: keys distinct and below the next instance, no two objects clash.\<close>

definition index_ok :: "('a \<Rightarrow> 'k list) \<Rightarrow> 'a index_table \<Rightarrow> bool" where
  "index_ok uk t \<longleftrightarrow> distinct (map fst (rows t)) \<and> (\<forall>i \<in> fst ` set (rows t). i < next_id t) \<and>
     (\<forall>i x j y. (i, x) \<in> set (rows t) \<longrightarrow> (j, y) \<in> set (rows t) \<longrightarrow> i \<noteq> j \<longrightarrow> \<not> keys_clash uk x y)"

section \<open>Laws\<close>

lemma keys_clash_iff: "keys_clash uk x y \<longleftrightarrow> set (uk x) \<inter> set (uk y) \<noteq> {}"
  by (auto simp: keys_clash_def list_ex_iff)

lemma keys_clash_sym: "keys_clash uk x y \<longleftrightarrow> keys_clash uk y x"
  by (auto simp: keys_clash_iff)

lemma violates_iff: "violates uk i x rs \<longleftrightarrow> (\<exists>(j, y) \<in> set rs. j = i \<or> keys_clash uk x y)"
  by (auto simp: violates_def list_ex_iff)

lemma index_get_Inr [result_simps]: "index_get t i = Inr x \<longleftrightarrow> index_find t i = Some x"
  by (auto simp: index_get_def split: option.splits)

lemma index_find_mem:
  "distinct (map fst (rows t)) \<Longrightarrow> index_find t i = Some x \<longleftrightarrow> (i, x) \<in> set (rows t)"
  by (simp add: index_find_def map_of_eq_Some_iff)

lemma map_of_insort_new:
  "i \<notin> fst ` set rs \<Longrightarrow> map_of (insort_key fst (i, x) rs) = (map_of rs)(i \<mapsto> x)"
  by (induction rs) (auto simp: fun_eq_iff)

lemma map_of_replace:
  "map_of (map (\<lambda>(j, z). (j, if j = i then y else z)) rs) k =
     (if k = i \<and> map_of rs i \<noteq> None then Some y else map_of rs k)"
  by (induction rs) auto

lemma fst_comp_pair [simp]: "fst \<circ> (\<lambda>(j, z). (j, f j z)) = fst"
  by (simp add: fun_eq_iff)

lemma map_of_filter_neq: "map_of (filter (\<lambda>(j, z). j \<noteq> i) rs) = (map_of rs)(i := None)"
  by (induction rs) (auto simp: fun_eq_iff)

lemma insort_new_keys:
  "set (insort_key fst (i, x) rs) = insert (i, x) (set rs)"
  "distinct (map fst (insort_key fst (i, x) rs)) \<longleftrightarrow> i \<notin> fst ` set rs \<and> distinct (map fst rs)"
  by (simp add: set_insort_key) (induction rs; auto simp: set_insort_key)

lemma index_insert_find:
  assumes "index_insert uk i x t = Inr t'"
  shows "index_find t' = (index_find t)(i \<mapsto> x)" and "index_find t i = None"
    and "next_id t' = next_id t"
proof -
  from assms have v: "\<not> violates uk i x (rows t)"
    and t': "t' = t\<lparr>rows := insort_key fst (i, x) (rows t)\<rparr>"
    by (auto simp: index_insert_def result_simps)
  from v have "i \<notin> fst ` set (rows t)" by (force simp: violates_iff)
  then show "index_find t' = (index_find t)(i \<mapsto> x)" "index_find t i = None" "next_id t' = next_id t"
    by (auto simp: t' index_find_def map_of_insort_new map_of_eq_None_iff)
qed

lemma index_create_find:
  assumes "index_create uk x t = Inr (i, t')"
  shows "i = next_id t" and "index_find t' = (index_find t)(i \<mapsto> x)" and "index_find t i = None"
    and "next_id t' = Suc (next_id t)"
proof -
  from assms obtain u where u: "index_insert uk (next_id t) x t = Inr u" and i: "i = next_id t"
    and t': "t' = use_next_id u"
    by (auto simp: index_create_def result_simps)
  have "index_find t' = index_find u"
    by (rule ext) (simp add: t' use_next_id_def index_find_def)
  with index_insert_find [OF u] i t'
  show "i = next_id t" "index_find t' = (index_find t)(i \<mapsto> x)" "index_find t i = None"
    "next_id t' = Suc (next_id t)"
    by (simp_all add: use_next_id_def)
qed

lemma index_modify_find:
  assumes "index_modify uk i m t = Inr t'"
  obtains x y where "index_find t i = Some x" and "m x = Inr y"
    and "index_find t' = (index_find t)(i \<mapsto> y)" and "next_id t' = next_id t"
proof -
  from assms obtain x y where x: "index_find t i = Some x" and y: "m x = Inr y"
    and t': "t' = t\<lparr>rows := map (\<lambda>(j, z). (j, if j = i then y else z)) (rows t)\<rparr>"
    by (auto simp: index_modify_def result_simps)
  have "index_find t' = (index_find t)(i \<mapsto> y)"
    using x by (auto simp: t' index_find_def fun_eq_iff map_of_replace)
  with x y t' show ?thesis by (auto intro: that)
qed

lemma index_remove_find: "index_find (index_remove i t) = (index_find t)(i := None)"
  by (rule ext) (simp add: index_find_def index_remove_def map_of_filter_neq)

lemma index_ok_empty: "index_ok uk empty_index"
  by (simp add: index_ok_def empty_index_def)

lemma index_ok_create:
  assumes ok: "index_ok uk t" and c: "index_create uk x t = Inr (i, t')"
  shows "index_ok uk t'"
proof -
  from c have v: "\<not> violates uk (next_id t) x (rows t)"
    and t': "rows t' = insort_key fst (next_id t, x) (rows t)" "next_id t' = Suc (next_id t)"
    by (auto simp: index_create_def index_insert_def result_simps use_next_id_def)
  from v have clash: "\<not> keys_clash uk x y" "j \<noteq> next_id t" if "(j, y) \<in> set (rows t)" for j y
    using that by (auto simp: violates_iff)
  show ?thesis
    unfolding index_ok_def t' insort_new_keys
    using ok clash keys_clash_sym [of uk x] by (fastforce simp: index_ok_def)
qed

lemma index_ok_modify:
  assumes ok: "index_ok uk t" and m: "index_modify uk i m t = Inr t'"
  shows "index_ok uk t'"
proof -
  from m obtain y where v: "\<not> violates uk i y (filter (\<lambda>(j, z). j \<noteq> i) (rows t))"
    and t': "t' = t\<lparr>rows := map (\<lambda>(j, z). (j, if j = i then y else z)) (rows t)\<rparr>"
    by (auto simp: index_modify_def result_simps)
  from v have clash: "\<not> keys_clash uk y z" if "(j, z) \<in> set (rows t)" "j \<noteq> i" for j z
    using that by (auto simp: violates_iff)
  have keys: "fst ` set (rows t') = fst ` set (rows t)"
    by (simp add: t' image_image case_prod_beta)
  have no_clash: "\<not> keys_clash uk p q"
    if "(a, p) \<in> set (rows t')" "(b, q) \<in> set (rows t')" "a \<noteq> b" for a p b q
    using that ok clash keys_clash_sym [of uk y]
    by (auto simp: t' index_ok_def split: if_splits)
  show ?thesis
    using ok no_clash keys unfolding index_ok_def by (auto simp: t')
qed

lemma index_ok_remove: "index_ok uk t \<Longrightarrow> index_ok uk (index_remove i t)"
  by (auto simp: index_ok_def index_remove_def distinct_map_filter)

text \<open>When the operations succeed: a modification that adds no key, a creation without a clash.\<close>

lemma index_modify_succeeds:
  assumes ok: "index_ok uk t" and x: "index_find t i = Some x"
    and "\<exists>y. m x = Inr y \<and> set (uk y) \<subseteq> set (uk x)"
  shows "\<exists>t'. index_modify uk i m t = Inr t'"
proof -
  from assms(3) obtain y where y: "m x = Inr y" and keys: "set (uk y) \<subseteq> set (uk x)" by blast
  have "\<not> keys_clash uk y z" if "(j, z) \<in> set (rows t)" "j \<noteq> i" for j z
  proof -
    have "\<not> keys_clash uk x z"
      using ok x that unfolding index_ok_def by (metis index_find_mem)
    then show ?thesis using keys by (auto simp: keys_clash_iff)
  qed
  then have "\<not> violates uk i y (filter (\<lambda>(j, z). j \<noteq> i) (rows t))"
    by (auto simp: violates_iff)
  with x y show ?thesis by (simp add: index_modify_def index_get_def)
qed

lemma index_create_succeeds:
  assumes ok: "index_ok uk t" and new: "\<And>i z. index_find t i = Some z \<Longrightarrow> \<not> keys_clash uk x z"
  shows "\<exists>i t'. index_create uk x t = Inr (i, t')"
proof -
  have "(j, z) \<in> set (rows t) \<Longrightarrow> \<not> (j = next_id t \<or> keys_clash uk x z)" for j z
    using ok new [of j z] by (force simp: index_ok_def index_find_mem)
  then have "\<not> violates uk (next_id t) x (rows t)" by (auto simp: violates_iff)
  then show ?thesis by (simp add: index_create_def index_insert_def)
qed

text \<open>A criterion that evaluates: distinct ids and no secondary key twice.\<close>

lemma concat_keys_distinct:
  "distinct (concat (map (uk \<circ> snd) rs)) \<Longrightarrow> (i, x) \<in> set rs \<Longrightarrow> (j, y) \<in> set rs \<Longrightarrow> i \<noteq> j \<Longrightarrow>
    set (uk x) \<inter> set (uk y) = {}"
  by (induction rs) (auto simp: disjoint_iff, force+)

lemma index_okI:
  assumes "distinct (map fst (rows t))" "\<forall>i \<in> fst ` set (rows t). i < next_id t"
    and "distinct (concat (map (uk \<circ> snd) (rows t)))"
  shows "index_ok uk t"
  using assms concat_keys_distinct [of uk "rows t"] by (auto simp: index_ok_def keys_clash_iff)

section \<open>Sums over a table\<close>

definition table_sum :: "('a \<Rightarrow> int) \<Rightarrow> 'a index_table \<Rightarrow> int" where
  "table_sum f t = (\<Sum>(i, x) \<leftarrow> rows t. f x)"

lemma table_sum_empty [simp]: "table_sum f empty_index = 0"
  by (simp add: table_sum_def empty_index_def)

lemma table_sum_create:
  assumes "index_create uk x t = Inr (i, t')"
  shows "table_sum f t' = table_sum f t + f x"
proof -
  have ins: "(\<Sum>(i, x) \<leftarrow> insort_key fst (j, x) rs. f x) = (\<Sum>(i, x) \<leftarrow> rs. f x) + f x" for j :: nat and rs
    by (induction rs) auto
  show ?thesis
    using assms by (auto simp: index_create_def index_insert_def result_simps use_next_id_def table_sum_def ins)
qed

lemma table_sum_modify:
  assumes "index_ok uk t" and "index_modify uk i m t = Inr t'" and "index_find t i = Some x" and "m x = Inr y"
  shows "table_sum f t' = table_sum f t - f x + f y"
proof -
  have "rows t' = map (\<lambda>(j, z). (j, if j = i then y else z)) (rows t)"
    using assms(2-4) by (auto simp: index_modify_def result_simps)
  then have "table_sum f t' = (\<Sum>(j, z) \<leftarrow> rows t. f (if j = i then y else z))"
    by (simp add: table_sum_def comp_def split_def)
  also have "\<dots> = table_sum f t - f x + f y"
    unfolding table_sum_def using assms(1,3) by (intro sum_list_map_update) (auto simp: index_ok_def index_find_def)
  finally show ?thesis .
qed

lemma table_sum_remove:
  assumes "index_ok uk t" and "index_find t i = Some x"
  shows "table_sum f (index_remove i t) = table_sum f t - f x"
proof -
  have "(\<Sum>(j, z) \<leftarrow> filter (\<lambda>(j, z). j \<noteq> i) rs. f z) = (\<Sum>(j, z) \<leftarrow> rs. f z) - f x"
    if "distinct (map fst rs)" "map_of rs i = Some x" for rs
    using that
  proof (induction rs)
    case (Cons p rs)
    have "filter (\<lambda>(j, z). j \<noteq> i) rs = rs" if "i \<notin> fst ` set rs" for rs :: "(nat \<times> 'a) list"
      using that by (induction rs) auto
    with Cons show ?case by (cases p) (auto split: if_splits)
  qed simp
  with assms show ?thesis
    by (auto simp: table_sum_def index_remove_def index_ok_def index_find_def)
qed

section \<open>The contract of an index\<close>

locale object_index =
  fixes find :: "'t \<Rightarrow> nat \<Rightarrow> 'a option"
    and create :: "'a \<Rightarrow> 't \<Rightarrow> (nat \<times> 't) result"
    and modify :: "nat \<Rightarrow> ('a \<Rightarrow> 'a result) \<Rightarrow> 't \<Rightarrow> 't result"
    and remove :: "nat \<Rightarrow> 't \<Rightarrow> 't"
    and invar :: "'t \<Rightarrow> bool"
  assumes create_find: "create x t = Inr (i, t') \<Longrightarrow> find t' = (find t)(i \<mapsto> x)"
    and create_fresh: "create x t = Inr (i, t') \<Longrightarrow> find t i = None"
    and modify_find: "modify i m t = Inr t' \<Longrightarrow>
      \<exists>x y. find t i = Some x \<and> m x = Inr y \<and> find t' = (find t)(i \<mapsto> y)"
    and remove_find: "find (remove i t) = (find t)(i := None)"
    and invar_create: "invar t \<Longrightarrow> create x t = Inr (i, t') \<Longrightarrow> invar t'"
    and invar_modify: "invar t \<Longrightarrow> modify i m t = Inr t' \<Longrightarrow> invar t'"
    and invar_remove: "invar t \<Longrightarrow> invar (remove i t)"
begin

text \<open>Two facts the evaluators use: a frame law and that existing objects survive.\<close>

lemma modify_other: "modify i m t = Inr t' \<Longrightarrow> j \<noteq> i \<Longrightarrow> find t' j = find t j"
  using modify_find by fastforce

lemma create_keeps: "create x t = Inr (i, t') \<Longrightarrow> find t j = Some y \<Longrightarrow> find t' j = Some y"
  using create_find create_fresh by fastforce

lemma modify_keeps_dom: "modify i m t = Inr t' \<Longrightarrow> dom (find t') = dom (find t)"
  by (drule modify_find) (auto split: if_splits)

lemma remove_create: "create x t = Inr (i, t') \<Longrightarrow> find (remove i t') = find t"
  using create_find create_fresh by (auto simp: remove_find fun_eq_iff)

end

interpretation tbl: object_index index_find "index_create uk" "index_modify uk" index_remove
  "index_ok uk" for uk :: "'a \<Rightarrow> 'k list"
proof unfold_locales
  show "\<exists>x y. index_find t i = Some x \<and> m x = Inr y \<and> index_find t' = (index_find t)(i \<mapsto> y)"
    if "index_modify uk i m t = Inr t'" for i m t t'
    using that by (auto elim: index_modify_find)
qed (rule index_create_find index_ok_create index_ok_modify index_ok_remove index_remove_find;
     assumption)+

end
