(* ===== verification/Undo_Database.thy ===== *)
theory Undo_Database
  imports Object_Index "HOL-Library.AList"
begin

text \<open>
  \<open>graphene::db::undo_database\<close> (undo_database.hpp, undo_database.cpp) over an object database:
  what every create, modify and remove records in the state on top of the undo stack, and the four
  ways a session ends (undo, merge, commit, and the later \<open>pop_commit\<close>).

  An object id is the triple (space, type, instance); the objects are a map from ids, and each
  index (space, type) has its next instance. The hash containers of \<open>undo_state\<close> are association
  lists in an arbitrary order, so every statement covers each iteration order the hash tables may
  take. The undo stack keeps \<open>back()\<close> at the head of the list. \<open>unique_keys\<close> gives the keys of an object in
  the unique secondary indexes of its container; as in generic_index.hpp a creation, an insertion or a
  modification throws when it would give a key to a second object.

  The main results: \<open>revert_state_tracks\<close> (the state that a session recorded is exactly what is needed to
  restore the database; reverting it can only fail on a unique key that has been taken over) and
  \<open>tracks_merge\<close> (the 4x4 matrix in the comment of \<open>merge()\<close> is right: undoing the merged state undoes
  both).
\<close>

section \<open>State\<close>

type_synonym oid = "nat \<times> nat \<times> nat"
type_synonym index_id = "nat \<times> nat"

definition index_of :: "oid \<Rightarrow> index_id" where
  "index_of i = (fst i, fst (snd i))"

record 'v undo_state =
  old_values :: "(oid \<times> 'v) list"
  old_index_next_ids :: "(index_id \<times> oid) list"
  new_ids :: "oid list"
  removed :: "(oid \<times> 'v) list"

definition empty_undo_state :: "'v undo_state" where
  "empty_undo_state = \<lparr>old_values = [], old_index_next_ids = [], new_ids = [], removed = []\<rparr>"

record ('v, 'k) object_db =
  objects :: "oid \<rightharpoonup> 'v"
  next_ids :: "index_id \<Rightarrow> nat"
  active_sessions :: nat
  undo_disabled :: bool
  undo_stack :: "'v undo_state list"
  undo_max_size :: nat
  unique_keys :: "index_id \<Rightarrow> 'v \<Rightarrow> 'k list"

definition enable :: "('v, 'k) object_db \<Rightarrow> ('v, 'k) object_db" where
  "enable db = db\<lparr>undo_disabled := False\<rparr>"

definition disable :: "('v, 'k) object_db \<Rightarrow> ('v, 'k) object_db" where
  "disable db = db\<lparr>undo_disabled := True\<rparr>"

text \<open>A session handle: \<open>_apply_undo\<close> and \<open>_disable_on_exit\<close>.\<close>

record undo_session =
  apply_undo :: bool
  disable_on_exit :: bool

definition start_undo_session :: "bool \<Rightarrow> ('v, 'k) object_db \<Rightarrow> undo_session \<times> ('v, 'k) object_db" where
  "start_undo_session force_enable db =
     (if undo_disabled db \<and> \<not> force_enable then (\<lparr>apply_undo = True, disable_on_exit = False\<rparr>, db)
      else
        let off = undo_disabled db \<and> force_enable;
            db1 = (if force_enable then enable db else db);
            db2 = db1\<lparr>undo_stack := empty_undo_state # take (undo_max_size db1) (undo_stack db1),
                      active_sessions := Suc (active_sessions db1)\<rparr>
        in (\<lparr>apply_undo = True, disable_on_exit = off\<rparr>, db2))"

section \<open>What an operation records\<close>

definition top_state :: "('v, 'k) object_db \<Rightarrow> 'v undo_state" where
  "top_state db = (case undo_stack db of [] \<Rightarrow> empty_undo_state | s # _ \<Rightarrow> s)"

definition set_top :: "'v undo_state \<Rightarrow> ('v, 'k) object_db \<Rightarrow> ('v, 'k) object_db" where
  "set_top s db = db\<lparr>undo_stack := s # tl (undo_stack db)\<rparr>"

definition on_create :: "oid \<Rightarrow> ('v, 'k) object_db \<Rightarrow> ('v, 'k) object_db" where
  "on_create i db =
     (if undo_disabled db then db
      else
        let state = top_state db;
            next = (if map_of (old_index_next_ids state) (index_of i) = None
                    then AList.update (index_of i) i (old_index_next_ids state)
                    else old_index_next_ids state)
        in set_top (state\<lparr>old_index_next_ids := next, new_ids := List.insert i (new_ids state)\<rparr>) db)"

definition on_modify :: "oid \<Rightarrow> 'v \<Rightarrow> ('v, 'k) object_db \<Rightarrow> ('v, 'k) object_db" where
  "on_modify i v db =
     (if undo_disabled db then db
      else
        let state = top_state db
        in if i \<in> set (new_ids state) then set_top state db
           else if map_of (old_values state) i \<noteq> None then set_top state db
           else set_top (state\<lparr>old_values := AList.update i v (old_values state)\<rparr>) db)"

definition on_remove :: "oid \<Rightarrow> 'v \<Rightarrow> ('v, 'k) object_db \<Rightarrow> ('v, 'k) object_db" where
  "on_remove i v db =
     (if undo_disabled db then db
      else
        let state = top_state db
        in if i \<in> set (new_ids state) then
             set_top (state\<lparr>new_ids := removeAll i (new_ids state)\<rparr>) db
           else case map_of (old_values state) i of
             Some old \<Rightarrow>
               set_top (state\<lparr>removed := AList.update i old (removed state),
                              old_values := AList.delete i (old_values state)\<rparr>) db
           | None \<Rightarrow>
               if map_of (removed state) i \<noteq> None then set_top state db
               else set_top (state\<lparr>removed := AList.update i v (removed state)\<rparr>) db)"

text \<open>
  The operations of \<open>primary_index\<close> (index.hpp): the object is created, then \<open>on_create\<close> is
  told; \<open>on_modify\<close> and \<open>on_remove\<close> are told before the change.
\<close>

definition db_get :: "oid \<Rightarrow> ('v, 'k) object_db \<Rightarrow> 'v result" where
  "db_get i db = (case objects db i of None \<Rightarrow> Inl Object_not_found | Some v \<Rightarrow> Inr v)"

text \<open>
  Whether another object of the index holds a unique key of \<open>v\<close>. Instances are handed out in order, so the
  objects of an index lie below its next instance.
\<close>

definition key_taken :: "oid \<Rightarrow> 'v \<Rightarrow> ('v, 'k) object_db \<Rightarrow> bool" where
  "key_taken i v db =
     list_ex (\<lambda>n. n \<noteq> snd (snd i) \<and>
       (case objects db (fst i, fst (snd i), n) of None \<Rightarrow> False
        | Some w \<Rightarrow> keys_clash (unique_keys db (index_of i)) v w)) [0..<next_ids db (index_of i)]"

definition db_create :: "index_id \<Rightarrow> 'v \<Rightarrow> ('v, 'k) object_db \<Rightarrow> ('v, 'k) object_db result" where
  "db_create ix v db =
     (let i = (fst ix, snd ix, next_ids db ix)
      in ensure (objects db i = None \<and> \<not> key_taken i v db) Uniqueness_violated
           (Inr (on_create i (db\<lparr>objects := (objects db)(i \<mapsto> v),
                                 next_ids := (next_ids db)(ix := Suc (next_ids db ix))\<rparr>))))"

definition db_insert :: "oid \<Rightarrow> 'v \<Rightarrow> ('v, 'k) object_db \<Rightarrow> ('v, 'k) object_db result" where
  "db_insert i v db =
     ensure (objects db i = None \<and> \<not> key_taken i v db) Uniqueness_violated
       (Inr (on_create i (db\<lparr>objects := (objects db)(i \<mapsto> v)\<rparr>)))"

definition db_modify :: "oid \<Rightarrow> ('v \<Rightarrow> 'v) \<Rightarrow> ('v, 'k) object_db \<Rightarrow> ('v, 'k) object_db result" where
  "db_modify i m db =
     rbind (db_get i db) (\<lambda>v.
       let db1 = on_modify i v db
       in ensure (\<not> key_taken i (m v) db1) Uniqueness_violated
            (Inr (db1\<lparr>objects := (objects db1)(i \<mapsto> m v)\<rparr>)))"

text \<open>
  A creation that is refused leaves the database as it was. A modification that is refused does not: the
  container erases the object, as \<open>multi_index_container::modify\<close> of the Boost library documents.
\<close>

definition modify_refused :: "oid \<Rightarrow> 'v \<Rightarrow> ('v, 'k) object_db \<Rightarrow> ('v, 'k) object_db" where
  "modify_refused i v db = (let db1 = on_modify i v db in db1\<lparr>objects := (objects db1)(i := None)\<rparr>)"

definition db_remove :: "oid \<Rightarrow> ('v, 'k) object_db \<Rightarrow> ('v, 'k) object_db result" where
  "db_remove i db =
     rbind (db_get i db) (\<lambda>v.
       let db1 = on_remove i v db
       in Inr (db1\<lparr>objects := (objects db1)(i := None)\<rparr>))"

section \<open>How a session ends\<close>

definition set_index_next :: "index_id \<times> oid \<Rightarrow> ('v, 'k) object_db \<Rightarrow> ('v, 'k) object_db" where
  "set_index_next item db = db\<lparr>next_ids := (next_ids db)(fst item := snd (snd (snd item)))\<rparr>"

text \<open>The four loops that \<open>undo()\<close> and \<open>pop_commit()\<close> share.\<close>

definition revert_state :: "'v undo_state \<Rightarrow> ('v, 'k) object_db \<Rightarrow> ('v, 'k) object_db result" where
  "revert_state state db =
     rbind (fold_result (\<lambda>(i, v). db_modify i (\<lambda>_. v)) (old_values state) db) (\<lambda>db1.
     rbind (fold_result db_remove (new_ids state) db1) (\<lambda>db2.
       fold_result (\<lambda>(i, v). db_insert i v) (removed state)
         (fold set_index_next (old_index_next_ids state) db2)))"

definition undo :: "('v, 'k) object_db \<Rightarrow> ('v, 'k) object_db result" where
  "undo db =
     fc_assert (\<not> undo_disabled db)
     (fc_assert (active_sessions db > 0)
     (rbind (revert_state (top_state db) (disable db)) (\<lambda>db1.
        Inr (let db2 = enable (db1\<lparr>undo_stack := tl (undo_stack db1)\<rparr>)
             in db2\<lparr>active_sessions := active_sessions db2 - 1\<rparr>))))"

text \<open>\<open>merge()\<close>: the three loops that move \<open>state\<close> into \<open>prev_state\<close>.\<close>

definition merge_upd :: "oid \<times> 'v \<Rightarrow> 'v undo_state \<Rightarrow> 'v undo_state" where
  "merge_upd obj prev =
     (if fst obj \<in> set (new_ids prev) then prev
      else if map_of (old_values prev) (fst obj) \<noteq> None then prev
      else prev\<lparr>old_values := AList.update (fst obj) (snd obj) (old_values prev)\<rparr>)"

definition merge_new :: "oid \<Rightarrow> 'v undo_state \<Rightarrow> 'v undo_state" where
  "merge_new i prev = prev\<lparr>new_ids := List.insert i (new_ids prev)\<rparr>"

definition merge_next :: "index_id \<times> oid \<Rightarrow> 'v undo_state \<Rightarrow> 'v undo_state" where
  "merge_next item prev =
     (if map_of (old_index_next_ids prev) (fst item) = None
      then prev\<lparr>old_index_next_ids := AList.update (fst item) (snd item) (old_index_next_ids prev)\<rparr>
      else prev)"

definition merge_del :: "oid \<times> 'v \<Rightarrow> 'v undo_state \<Rightarrow> 'v undo_state" where
  "merge_del obj prev =
     (if fst obj \<in> set (new_ids prev) then prev\<lparr>new_ids := removeAll (fst obj) (new_ids prev)\<rparr>
      else case map_of (old_values prev) (fst obj) of
        Some old \<Rightarrow> prev\<lparr>removed := AList.update (fst obj) old (removed prev),
                         old_values := AList.delete (fst obj) (old_values prev)\<rparr>
      | None \<Rightarrow> prev\<lparr>removed := AList.update (fst obj) (snd obj) (removed prev)\<rparr>)"

definition merge_states :: "'v undo_state \<Rightarrow> 'v undo_state \<Rightarrow> 'v undo_state" where
  "merge_states state prev =
     fold merge_del (removed state)
       (fold merge_next (old_index_next_ids state)
         (fold merge_new (new_ids state)
           (fold merge_upd (old_values state) prev)))"

definition merge :: "('v, 'k) object_db \<Rightarrow> ('v, 'k) object_db result" where
  "merge db =
     fc_assert (active_sessions db > 0)
     (if active_sessions db = 1 \<and> length (undo_stack db) = 1
      then Inr (db\<lparr>undo_stack := [], active_sessions := 0\<rparr>)
      else case undo_stack db of
        state # prev # rest \<Rightarrow>
          Inr (db\<lparr>undo_stack := merge_states state prev # rest,
                  active_sessions := active_sessions db - 1\<rparr>)
      | _ \<Rightarrow> Inl Assert_failed)"

definition commit :: "('v, 'k) object_db \<Rightarrow> ('v, 'k) object_db result" where
  "commit db =
     fc_assert (active_sessions db > 0) (Inr (db\<lparr>active_sessions := active_sessions db - 1\<rparr>))"

definition pop_commit :: "('v, 'k) object_db \<Rightarrow> ('v, 'k) object_db result" where
  "pop_commit db =
     fc_assert (active_sessions db = 0)
     (fc_assert (undo_stack db \<noteq> [])
     (rbind (revert_state (top_state db) (disable db)) (\<lambda>db1.
        Inr (enable (db1\<lparr>undo_stack := tl (undo_stack db1)\<rparr>)))))"

text \<open>The handle's methods: \<open>commit\<close>, \<open>undo\<close>, \<open>merge\<close>, the move constructor, the
  assignment from another handle, the destructor.\<close>

definition session_commit :: "undo_session \<Rightarrow> ('v, 'k) object_db \<Rightarrow> (undo_session \<times> ('v, 'k) object_db) result" where
  "session_commit s db = rbind (commit db) (\<lambda>db'. Inr (s\<lparr>apply_undo := False\<rparr>, db'))"

definition session_undo :: "undo_session \<Rightarrow> ('v, 'k) object_db \<Rightarrow> (undo_session \<times> ('v, 'k) object_db) result" where
  "session_undo s db =
     rbind (if apply_undo s then undo db else Inr db) (\<lambda>db'. Inr (s\<lparr>apply_undo := False\<rparr>, db'))"

definition session_merge :: "undo_session \<Rightarrow> ('v, 'k) object_db \<Rightarrow> (undo_session \<times> ('v, 'k) object_db) result" where
  "session_merge s db =
     rbind (if apply_undo s then merge db else Inr db) (\<lambda>db'. Inr (s\<lparr>apply_undo := False\<rparr>, db'))"

definition session_move :: "undo_session \<Rightarrow> undo_session \<times> undo_session" where
  "session_move mv =
     (\<lparr>apply_undo = apply_undo mv, disable_on_exit = False\<rparr>, mv\<lparr>apply_undo := False\<rparr>)"

definition session_assign :: "undo_session \<Rightarrow> undo_session \<Rightarrow> ('v, 'k) object_db \<Rightarrow>
    (undo_session \<times> undo_session \<times> ('v, 'k) object_db) result" where
  "session_assign s mv db =
     rbind (if apply_undo s then undo db else Inr db) (\<lambda>db'.
       Inr (s\<lparr>apply_undo := apply_undo mv\<rparr>, mv\<lparr>apply_undo := False\<rparr>, db'))"

definition session_destroy :: "undo_session \<Rightarrow> ('v, 'k) object_db \<Rightarrow> ('v, 'k) object_db result" where
  "session_destroy s db =
     rbind (if apply_undo s then undo db else Inr db) (\<lambda>db'.
       Inr (if disable_on_exit s then disable db' else db'))"

section \<open>What the recorded state means\<close>

text \<open>
  \<open>tracks st O0 N0 Ob N\<close>: \<open>st\<close> records how the objects \<open>Ob\<close> and next instances \<open>N\<close> differ
  from \<open>O0\<close> and \<open>N0\<close>, the values they had when the session began.
\<close>

definition fresh_ids :: "(oid \<rightharpoonup> 'v) \<Rightarrow> (index_id \<Rightarrow> nat) \<Rightarrow> bool" where
  "fresh_ids Ob N \<longleftrightarrow> (\<forall>s t i. Ob (s, t, i) \<noteq> None \<longrightarrow> i < N (s, t))"

definition state_keys_distinct :: "'v undo_state \<Rightarrow> bool" where
  "state_keys_distinct st \<longleftrightarrow> distinct (map fst (old_values st)) \<and>
     distinct (map fst (old_index_next_ids st)) \<and> distinct (new_ids st) \<and>
     distinct (map fst (removed st))"

definition entry_ok :: "bool \<Rightarrow> 'v option \<Rightarrow> 'v option \<Rightarrow> 'v option \<Rightarrow> 'v option \<Rightarrow> bool" where
  "entry_ok is_new upd del before after \<longleftrightarrow>
     (if is_new then upd = None \<and> del = None \<and> before = None \<and> after \<noteq> None
      else case upd of
        Some v \<Rightarrow> del = None \<and> before = Some v \<and> after \<noteq> None
      | None \<Rightarrow> (case del of Some v \<Rightarrow> before = Some v \<and> after = None | None \<Rightarrow> after = before))"

definition tracks_objects ::
  "'v undo_state \<Rightarrow> (oid \<rightharpoonup> 'v) \<Rightarrow> (oid \<rightharpoonup> 'v) \<Rightarrow> bool" where
  "tracks_objects st O0 O1 \<longleftrightarrow>
     (\<forall>i. entry_ok (i \<in> set (new_ids st)) (map_of (old_values st) i) (map_of (removed st) i)
            (O0 i) (O1 i))"

definition tracks_next :: "'v undo_state \<Rightarrow> (index_id \<Rightarrow> nat) \<Rightarrow> (index_id \<Rightarrow> nat) \<Rightarrow> bool" where
  "tracks_next st N0 N1 \<longleftrightarrow>
     (\<forall>ix n. map_of (old_index_next_ids st) ix = Some n \<longrightarrow> snd (snd n) = N0 ix) \<and>
     (\<forall>ix. map_of (old_index_next_ids st) ix = None \<longrightarrow> N1 ix = N0 ix) \<and>
     (\<forall>ix. N0 ix \<le> N1 ix)"

definition new_above :: "'v undo_state \<Rightarrow> (index_id \<Rightarrow> nat) \<Rightarrow> bool" where
  "new_above st N0 \<longleftrightarrow> (\<forall>i \<in> set (new_ids st). N0 (index_of i) \<le> snd (snd i))"

definition tracks ::
  "'v undo_state \<Rightarrow> (oid \<rightharpoonup> 'v) \<Rightarrow> (index_id \<Rightarrow> nat) \<Rightarrow>
   (oid \<rightharpoonup> 'v) \<Rightarrow> (index_id \<Rightarrow> nat) \<Rightarrow> bool" where
  "tracks st O0 N0 O1 N1 \<longleftrightarrow> state_keys_distinct st \<and> tracks_objects st O0 O1 \<and>
     tracks_next st N0 N1 \<and> new_above st N0 \<and> fresh_ids O0 N0 \<and> fresh_ids O1 N1"

named_theorems undo_defs "the predicates on undo states"

lemmas [undo_defs] = state_keys_distinct_def tracks_next_def fresh_ids_def

lemma tracks_next_mono: "tracks_next st N0 N1 \<Longrightarrow> N0 ix \<le> N1 ix"
  unfolding tracks_next_def by blast

lemma tracks_objectsD:
  "tracks_objects st O0 O1 \<Longrightarrow>
     entry_ok (i \<in> set (new_ids st)) (map_of (old_values st) i) (map_of (removed st) i) (O0 i) (O1 i)"
  unfolding tracks_objects_def by (rule spec)

lemma tracks_objects_change:
  assumes "tracks_objects st O0 O1"
    and "\<And>j. j \<noteq> i \<Longrightarrow> j \<in> set (new_ids st') \<longleftrightarrow> j \<in> set (new_ids st)"
    and "\<And>j. j \<noteq> i \<Longrightarrow> map_of (old_values st') j = map_of (old_values st) j"
    and "\<And>j. j \<noteq> i \<Longrightarrow> map_of (removed st') j = map_of (removed st) j"
    and "entry_ok (i \<in> set (new_ids st')) (map_of (old_values st') i) (map_of (removed st') i)
           (O0 i) v"
  shows "tracks_objects st' O0 (O1(i := v))"
  unfolding tracks_objects_def
proof
  fix j
  show "entry_ok (j \<in> set (new_ids st')) (map_of (old_values st') j) (map_of (removed st') j)
          (O0 j) ((O1(i := v)) j)"
    using assms tracks_objectsD [OF assms(1), of j] by (cases "j = i") simp_all
qed

lemma tracks_empty: "fresh_ids Ob N \<Longrightarrow> tracks empty_undo_state Ob N Ob N"
  by (simp add: tracks_def undo_defs tracks_objects_def entry_ok_def new_above_def empty_undo_state_def)

subsection \<open>Every operation keeps it\<close>

text \<open>The state on top of the stack after an operation on an enabled database.\<close>

lemma on_create_fields [simp]:
  "objects (on_create i db) = objects db" "next_ids (on_create i db) = next_ids db"
  "active_sessions (on_create i db) = active_sessions db"
  "undo_disabled (on_create i db) = undo_disabled db"
  "undo_max_size (on_create i db) = undo_max_size db" "unique_keys (on_create i db) = unique_keys db"
  by (simp_all add: on_create_def set_top_def Let_def)

lemma on_modify_fields [simp]:
  "objects (on_modify i v db) = objects db" "next_ids (on_modify i v db) = next_ids db"
  "active_sessions (on_modify i v db) = active_sessions db"
  "undo_disabled (on_modify i v db) = undo_disabled db"
  "undo_max_size (on_modify i v db) = undo_max_size db" "unique_keys (on_modify i v db) = unique_keys db"
  by (simp_all add: on_modify_def set_top_def Let_def)

lemma on_remove_fields [simp]:
  "objects (on_remove i v db) = objects db" "next_ids (on_remove i v db) = next_ids db"
  "active_sessions (on_remove i v db) = active_sessions db"
  "undo_disabled (on_remove i v db) = undo_disabled db"
  "undo_max_size (on_remove i v db) = undo_max_size db" "unique_keys (on_remove i v db) = unique_keys db"
  by (auto simp: on_remove_def set_top_def Let_def split: option.split)

lemma top_state_Cons [simp]: "undo_stack db = st # rest \<Longrightarrow> top_state db = st"
  by (simp add: top_state_def)

lemma on_events_disabled [simp]:
  "undo_disabled db \<Longrightarrow> on_create i db = db" "undo_disabled db \<Longrightarrow> on_modify i v db = db"
  "undo_disabled db \<Longrightarrow> on_remove i v db = db"
  by (simp_all add: on_create_def on_modify_def on_remove_def)

lemma on_create_tracks:
  assumes tr: "tracks st O0 N0 (objects db) (next_ids db)" and st: "undo_stack db = st # rest"
    and en: "\<not> undo_disabled db" and i: "i = (s, t, next_ids db (s, t))"
    and db': "db' = db\<lparr>objects := (objects db)(i \<mapsto> v),
                        next_ids := (next_ids db)((s, t) := Suc (next_ids db (s, t)))\<rparr>"
  shows "\<exists>st'. undo_stack (on_create i db') = st' # rest \<and>
    tracks st' O0 N0 (objects db') (next_ids db')"
proof -
  have N0: "N0 (s, t) \<le> next_ids db (s, t)" using tr by (simp add: tracks_def tracks_next_def)
  have fresh0: "O0 i = None" using tr N0 unfolding i tracks_def fresh_ids_def by (metis not_le)
  let ?nx = "if map_of (old_index_next_ids st) (s, t) = None
    then AList.update (s, t) i (old_index_next_ids st) else old_index_next_ids st"
  let ?st' = "st\<lparr>old_index_next_ids := ?nx, new_ids := List.insert i (new_ids st)\<rparr>"
  have stack: "undo_stack (on_create i db') = ?st' # rest"
    using st en by (simp add: on_create_def db' set_top_def Let_def top_state_def i index_of_def)
  have keys: "state_keys_distinct ?st'"
    using tr by (auto simp: tracks_def state_keys_distinct_def distinct_update)
  have obj: "tracks_objects ?st' O0 (objects db')"
  proof -
    have "objects db' = (objects db)(i := Some v)" by (simp add: db')
    then show ?thesis
      by (simp only:, intro tracks_objects_change [of st])
         (use tr fresh0 tracks_objectsD [of st O0 "objects db" i] in
           \<open>auto simp: tracks_def entry_ok_def split: if_splits option.splits\<close>)
  qed
  have nxt: "tracks_next ?st' N0 (next_ids db')"
    using tr by (auto simp: tracks_def tracks_next_def db' update_conv' i le_SucI)
  have "fresh_ids (objects db') (next_ids db')"
    using tr by (auto simp: tracks_def fresh_ids_def db' i less_SucI)
  moreover have "new_above ?st' N0"
    using tr N0 by (auto simp: tracks_def new_above_def index_of_def i)
  ultimately show ?thesis using tr stack keys obj nxt unfolding tracks_def by blast
qed

lemma on_modify_tracks:
  assumes tr: "tracks st O0 N0 (objects db) (next_ids db)" and st: "undo_stack db = st # rest"
    and en: "\<not> undo_disabled db" and v: "objects db i = Some v"
  shows "\<exists>st'. undo_stack (on_modify i v db) = st' # rest \<and>
    tracks st' O0 N0 ((objects db)(i \<mapsto> w)) (next_ids db)"
proof -
  let ?Ob = "(objects db)(i \<mapsto> w)"
  have fr: "fresh_ids ?Ob (next_ids db)"
    using tr v by (auto simp: tracks_def fresh_ids_def)
  have tro: "tracks_objects st O0 (objects db)" using tr by (simp add: tracks_def)
  note ent = tracks_objectsD [OF tro, of i]
  have keep: "tracks_objects st O0 ?Ob"
    if "i \<in> set (new_ids st) \<or> map_of (old_values st) i \<noteq> None"
    by (rule tracks_objects_change [OF tro])
       (use that ent v in \<open>auto simp: entry_ok_def split: if_splits option.splits\<close>)
  let ?st' = "st\<lparr>old_values := AList.update i v (old_values st)\<rparr>"
  have add: "tracks_objects ?st' O0 ?Ob"
    if "i \<notin> set (new_ids st)" "map_of (old_values st) i = None"
    by (rule tracks_objects_change [OF tro])
       (use that ent v in \<open>auto simp: entry_ok_def update_conv' split: if_splits option.splits\<close>)
  have "state_keys_distinct ?st'" "tracks_next ?st' N0 (next_ids db)"
    using tr by (auto simp: tracks_def state_keys_distinct_def tracks_next_def distinct_update)
  with tr fr keep add have
    "i \<in> set (new_ids st) \<or> map_of (old_values st) i \<noteq> None \<Longrightarrow> tracks st O0 N0 ?Ob (next_ids db)"
    "i \<notin> set (new_ids st) \<Longrightarrow> map_of (old_values st) i = None \<Longrightarrow> tracks ?st' O0 N0 ?Ob (next_ids db)"
    by (simp_all add: tracks_def new_above_def)
  then show ?thesis
    using st en by (auto simp: on_modify_def Let_def set_top_def)
qed

lemma on_remove_tracks:
  assumes tr: "tracks st O0 N0 (objects db) (next_ids db)" and st: "undo_stack db = st # rest"
    and en: "\<not> undo_disabled db" and v: "objects db i = Some v"
  shows "\<exists>st'. undo_stack (on_remove i v db) = st' # rest \<and>
    tracks st' O0 N0 ((objects db)(i := None)) (next_ids db)"
proof -
  let ?Ob = "(objects db)(i := None)"
  have fr: "fresh_ids ?Ob (next_ids db)"
    using tr by (auto simp: tracks_def fresh_ids_def)
  have tro: "tracks_objects st O0 (objects db)" using tr by (simp add: tracks_def)
  note ent = tracks_objectsD [OF tro, of i]
  have rest: "tracks st' O0 N0 ?Ob (next_ids db)"
    if "state_keys_distinct st'" "old_index_next_ids st' = old_index_next_ids st"
      "set (new_ids st') \<subseteq> set (new_ids st)" "tracks_objects st' O0 ?Ob" for st'
    using that tr fr by (auto simp: tracks_def tracks_next_def new_above_def)
  have keys: "state_keys_distinct (st\<lparr>new_ids := removeAll i (new_ids st)\<rparr>)"
    "state_keys_distinct (st\<lparr>removed := AList.update i x (removed st)\<rparr>)"
    "state_keys_distinct (st\<lparr>removed := AList.update i x (removed st),
       old_values := AList.delete i (old_values st)\<rparr>)" for x
    using tr by (auto simp: tracks_def state_keys_distinct_def distinct_update distinct_delete
      distinct_removeAll)
  have new: "tracks (st\<lparr>new_ids := removeAll i (new_ids st)\<rparr>) O0 N0 ?Ob (next_ids db)"
    if "i \<in> set (new_ids st)"
    by (rule rest, rule keys, simp, force, rule tracks_objects_change [OF tro])
       (use that ent in \<open>auto simp: entry_ok_def\<close>)
  have old: "tracks (st\<lparr>removed := AList.update i x (removed st),
      old_values := AList.delete i (old_values st)\<rparr>) O0 N0 ?Ob (next_ids db)"
    if "i \<notin> set (new_ids st)" "map_of (old_values st) i = Some x" for x
    by (rule rest, rule keys, simp, force, rule tracks_objects_change [OF tro])
       (use that ent in \<open>auto simp: entry_ok_def update_conv' delete_conv'\<close>)
  have gone: "map_of (removed st) i = None"
    using ent v by (auto simp: entry_ok_def split: if_splits option.splits)
  have add: "tracks (st\<lparr>removed := AList.update i v (removed st)\<rparr>) O0 N0 ?Ob (next_ids db)"
    if "i \<notin> set (new_ids st)" "map_of (old_values st) i = None"
    by (rule rest, rule keys, simp, force, rule tracks_objects_change [OF tro])
       (use that ent gone v in \<open>auto simp: entry_ok_def update_conv' split: option.splits\<close>)
  show ?thesis
    using st en new old gone add by (auto simp: on_remove_def Let_def set_top_def split: option.split)
qed

section \<open>Reverting a state\<close>

text \<open>
  No object of \<open>A\<close> shares a unique key with another object of \<open>B\<close> in the same index.
\<close>

definition keys_apart :: "(index_id \<Rightarrow> 'v \<Rightarrow> 'k list) \<Rightarrow> (oid \<rightharpoonup> 'v) \<Rightarrow> (oid \<rightharpoonup> 'v) \<Rightarrow> bool" where
  "keys_apart uk A B \<longleftrightarrow> (\<forall>i v j w. A i = Some v \<longrightarrow> B j = Some w \<longrightarrow> i \<noteq> j \<longrightarrow> index_of i = index_of j \<longrightarrow>
     \<not> keys_clash (uk (index_of i)) v w)"

lemma keys_apart_mono: "keys_apart uk A B \<Longrightarrow> A' \<subseteq>\<^sub>m A \<Longrightarrow> B' \<subseteq>\<^sub>m B \<Longrightarrow> keys_apart uk A' B'"
  unfolding keys_apart_def map_le_def by (metis domI)

lemma keys_apart_upd:
  assumes "keys_apart uk (A(i \<mapsto> v)) B" and "keys_apart uk (A(i \<mapsto> v)) (A(i \<mapsto> v))" and "A i = None"
  shows "keys_apart uk A (B(i \<mapsto> v))"
  unfolding keys_apart_def
proof (intro allI impI)
  fix j u k w
  assume j: "A j = Some u" and k: "(B(i \<mapsto> v)) k = Some w" and "j \<noteq> k" and "index_of j = index_of k"
  have "j \<noteq> i" using j assms(3) by auto
  then have "(A(i \<mapsto> v)) j = Some u" using j by simp
  moreover have "k = i \<and> w = v \<or> k \<noteq> i \<and> B k = Some w" using k by (simp split: if_splits)
  ultimately show "\<not> keys_clash (uk (index_of j)) u w"
    using assms(1,2) \<open>j \<noteq> k\<close> \<open>index_of j = index_of k\<close> unfolding keys_apart_def by (metis fun_upd_same)
qed

lemma key_taken_apart:
  assumes "keys_apart (unique_keys db) A (objects db)" and "A i = Some v"
  shows "\<not> key_taken i v db"
proof
  assume "key_taken i v db"
  then obtain n w where "n \<noteq> snd (snd i)" "objects db (fst i, fst (snd i), n) = Some w" "keys_clash (unique_keys db (index_of i)) v w"
    by (auto simp: key_taken_def list_ex_iff split: option.splits)
  moreover from this(1) have "i \<noteq> (fst i, fst (snd i), n)" by (cases i) auto
  moreover have "index_of i = index_of (fst i, fst (snd i), n)" by (simp add: index_of_def)
  ultimately show False using assms unfolding keys_apart_def by blast
qed

lemma key_takenI:
  assumes "objects db j = Some w" "j \<noteq> i" "index_of j = index_of i" "snd (snd j) < next_ids db (index_of j)"
    and "keys_clash (unique_keys db (index_of i)) v w"
  shows "key_taken i v db"
proof -
  have "j = (fst i, fst (snd i), snd (snd j))" using assms(3) by (cases i; cases j) (simp add: index_of_def)
  then have "objects db (fst i, fst (snd i), snd (snd j)) = Some w" using assms(1) by simp
  moreover have "snd (snd j) \<noteq> snd (snd i)" using assms(2,3) by (cases i; cases j) (auto simp: index_of_def)
  moreover have "snd (snd j) \<in> set [0..<next_ids db (index_of i)]" using assms(3,4) by simp
  ultimately show ?thesis using assms(5) unfolding key_taken_def list_ex_iff by (intro bexI [of _ "snd (snd j)"]) simp_all
qed

text \<open>
  The four loops on a disabled database, in closed form. The loops that write objects give the closed form or
  throw, and they do not throw when the keys they write are free.
\<close>

definition throws_unless :: "bool \<Rightarrow> 'a \<Rightarrow> 'a result \<Rightarrow> bool" where
  "throws_unless P x r \<longleftrightarrow> r = Inr x \<or> (r = Inl Uniqueness_violated \<and> \<not> P)"

lemma revert_step:
  assumes step: "write i v db = (if key_taken i v db then Inl Uniqueness_violated else Inr (db\<lparr>objects := (objects db)(i \<mapsto> v)\<rparr>))"
    and IH: "throws_unless (keys_apart (unique_keys db) (map_of xs) ((objects db)(i \<mapsto> v)) \<and> keys_apart (unique_keys db) (map_of xs) (map_of xs))
      x (fold_result (\<lambda>(i, v). write i v) xs (db\<lparr>objects := (objects db)(i \<mapsto> v)\<rparr>))"
    and i: "map_of xs i = None" and p: "p = (i, v)"
  shows "throws_unless (keys_apart (unique_keys db) (map_of (p # xs)) (objects db) \<and> keys_apart (unique_keys db) (map_of (p # xs)) (map_of (p # xs)))
    x (fold_result (\<lambda>(i, v). write i v) (p # xs) db)"
proof (cases "key_taken i v db")
  case True
  then have "\<not> keys_apart (unique_keys db) (map_of (p # xs)) (objects db)" using key_taken_apart [of db "map_of (p # xs)" i v] p by auto
  with True step p show ?thesis by (simp add: throws_unless_def)
next
  case False
  let ?uk = "unique_keys db"
  have le: "map_of xs \<subseteq>\<^sub>m (map_of xs)(i \<mapsto> v)" using i by (auto simp: map_le_def)
  have "keys_apart ?uk (map_of xs) ((objects db)(i \<mapsto> v)) \<and> keys_apart ?uk (map_of xs) (map_of xs)"
    if "keys_apart ?uk (map_of (p # xs)) (objects db)" "keys_apart ?uk (map_of (p # xs)) (map_of (p # xs))"
    using that p i keys_apart_upd [of ?uk "map_of xs" i v "objects db"] keys_apart_mono [OF _ le le, of ?uk] by simp
  with IH False step p show ?thesis by (auto simp: throws_unless_def)
qed

lemma revert_modify:
  assumes "undo_disabled db" and "distinct (map fst xs)"
    and "\<And>i. i \<in> fst ` set xs \<Longrightarrow> objects db i \<noteq> None"
  shows "throws_unless (keys_apart (unique_keys db) (map_of xs) (objects db) \<and> keys_apart (unique_keys db) (map_of xs) (map_of xs))
    (db\<lparr>objects := objects db ++ map_of xs\<rparr>) (fold_result (\<lambda>(i, v). db_modify i (\<lambda>_. v)) xs db)"
  using assms
proof (induction xs arbitrary: db)
  case Nil
  then show ?case by (simp add: throws_unless_def)
next
  case (Cons p xs)
  obtain i v where p: "p = (i, v)" by (cases p)
  let ?db = "db\<lparr>objects := (objects db)(i \<mapsto> v)\<rparr>" and ?uk = "unique_keys db"
  have i: "map_of xs i = None" using Cons.prems(2) p by (simp add: map_of_eq_None_iff)
  obtain x where "objects db i = Some x" using Cons.prems(3) [of i] p by auto
  then have step: "db_modify i (\<lambda>_. v) db = (if key_taken i v db then Inl Uniqueness_violated else Inr ?db)"
    using Cons.prems(1) by (simp add: db_modify_def db_get_def Let_def ensure_def)
  have sum: "(objects db)(i \<mapsto> v) ++ map_of xs = objects db ++ map_of (p # xs)"
    using i p by (simp add: map_add_upd_left dom_def)
  have IH: "throws_unless (keys_apart ?uk (map_of xs) ((objects db)(i \<mapsto> v)) \<and> keys_apart ?uk (map_of xs) (map_of xs))
      (db\<lparr>objects := objects db ++ map_of (p # xs)\<rparr>) (fold_result (\<lambda>(i, v). db_modify i (\<lambda>_. v)) xs ?db)"
  proof -
    have "throws_unless (keys_apart (unique_keys ?db) (map_of xs) (objects ?db) \<and> keys_apart (unique_keys ?db) (map_of xs) (map_of xs))
        (?db\<lparr>objects := objects ?db ++ map_of xs\<rparr>) (fold_result (\<lambda>(i, v). db_modify i (\<lambda>_. v)) xs ?db)"
      using Cons.prems p by (intro Cons.IH) auto
    then show ?thesis unfolding sum [symmetric] by simp
  qed
  show ?case
    by (rule revert_step [of "\<lambda>i v. db_modify i (\<lambda>_. v)", OF step IH i p])
qed

lemma revert_remove:
  assumes "undo_disabled db" and "distinct xs" and "\<And>i. i \<in> set xs \<Longrightarrow> objects db i \<noteq> None"
  shows "fold_result db_remove xs db = Inr (db\<lparr>objects := (objects db) |` (- set xs)\<rparr>)"
  using assms
proof (induction xs arbitrary: db)
  case Nil
  then show ?case by simp
next
  case (Cons i xs)
  let ?db = "db\<lparr>objects := (objects db)(i := None)\<rparr>"
  obtain x where "objects db i = Some x" using Cons.prems(3) [of i] by auto
  then have step: "db_remove i db = Inr ?db"
    using Cons.prems(1) by (simp add: db_remove_def db_get_def Let_def)
  have "fold_result db_remove xs ?db = Inr (?db\<lparr>objects := objects ?db |` (- set xs)\<rparr>)"
    using Cons.prems by (intro Cons.IH) auto
  moreover have "(objects db)(i := None) |` (- set xs) = objects db |` (- set (i # xs))"
    by (auto simp: restrict_map_def fun_eq_iff)
  ultimately show ?case using step by simp
qed

lemma revert_insert:
  assumes "undo_disabled db" and "distinct (map fst xs)"
    and "\<And>i. i \<in> fst ` set xs \<Longrightarrow> objects db i = None"
  shows "throws_unless (keys_apart (unique_keys db) (map_of xs) (objects db) \<and> keys_apart (unique_keys db) (map_of xs) (map_of xs))
    (db\<lparr>objects := objects db ++ map_of xs\<rparr>) (fold_result (\<lambda>(i, v). db_insert i v) xs db)"
  using assms
proof (induction xs arbitrary: db)
  case Nil
  then show ?case by (simp add: throws_unless_def)
next
  case (Cons p xs)
  obtain i v where p: "p = (i, v)" by (cases p)
  let ?db = "db\<lparr>objects := (objects db)(i \<mapsto> v)\<rparr>" and ?uk = "unique_keys db"
  have i: "map_of xs i = None" using Cons.prems(2) p by (simp add: map_of_eq_None_iff)
  have step: "db_insert i v db = (if key_taken i v db then Inl Uniqueness_violated else Inr ?db)"
    using Cons.prems p by (simp add: db_insert_def ensure_def)
  have sum: "(objects db)(i \<mapsto> v) ++ map_of xs = objects db ++ map_of (p # xs)"
    using i p by (simp add: map_add_upd_left dom_def)
  have IH: "throws_unless (keys_apart ?uk (map_of xs) ((objects db)(i \<mapsto> v)) \<and> keys_apart ?uk (map_of xs) (map_of xs))
      (db\<lparr>objects := objects db ++ map_of (p # xs)\<rparr>) (fold_result (\<lambda>(i, v). db_insert i v) xs ?db)"
  proof -
    have "throws_unless (keys_apart (unique_keys ?db) (map_of xs) (objects ?db) \<and> keys_apart (unique_keys ?db) (map_of xs) (map_of xs))
        (?db\<lparr>objects := objects ?db ++ map_of xs\<rparr>) (fold_result (\<lambda>(i, v). db_insert i v) xs ?db)"
      using Cons.prems p by (intro Cons.IH) auto
    then show ?thesis unfolding sum [symmetric] by simp
  qed
  show ?case
    by (rule revert_step [of db_insert, OF step IH i p])
qed

lemma revert_next:
  assumes "distinct (map fst xs)"
  shows "fold set_index_next xs db =
    db\<lparr>next_ids := (\<lambda>ix. case map_of xs ix of None \<Rightarrow> next_ids db ix | Some n \<Rightarrow> snd (snd n))\<rparr>"
  using assms
proof (induction xs arbitrary: db)
  case Nil
  then show ?case by simp
next
  case (Cons p xs)
  then have "map_of xs (fst p) = None" by (simp add: map_of_eq_None_iff)
  with Cons show ?case
    by (cases p) (auto simp: set_index_next_def fun_eq_iff split: option.split)
qed

lemma tracks_objects_le:
  assumes "tracks_objects st O0 O1"
  shows "map_of (old_values st) \<subseteq>\<^sub>m O0 |` dom O1" "map_of (old_values st) \<subseteq>\<^sub>m O0" "map_of (removed st) \<subseteq>\<^sub>m O0"
proof -
  note ent = tracks_objectsD [OF assms]
  have "O0 i = Some v \<and> O1 i \<noteq> None" if "map_of (old_values st) i = Some v" for i v
    using that ent [of i] by (auto simp: entry_ok_def split: if_splits)
  then show "map_of (old_values st) \<subseteq>\<^sub>m O0 |` dom O1" "map_of (old_values st) \<subseteq>\<^sub>m O0"
    by (auto simp: map_le_def restrict_map_def)
  have "O0 i = Some v" if "map_of (removed st) i = Some v" for i v
    using that ent [of i] by (auto simp: entry_ok_def split: if_splits option.splits)
  then show "map_of (removed st) \<subseteq>\<^sub>m O0" by (auto simp: map_le_def)
qed

text \<open>
  Reverting the recorded state restores the objects and the next instances, or throws; it does not throw when
  no object that lives on has lost a key to another object.
\<close>

lemma revert_state_tracks:
  assumes tr: "tracks st O0 N0 (objects db) (next_ids db)" and dis: "undo_disabled db"
    and uniq: "keys_apart (unique_keys db) O0 O0"
  shows "throws_unless (keys_apart (unique_keys db) (O0 |` dom (objects db)) (objects db))
    (db\<lparr>objects := O0, next_ids := N0\<rparr>) (revert_state st db)"
proof -
  let ?uk = "unique_keys db"
  from tr have keys: "distinct (map fst (old_values st))" "distinct (map fst (old_index_next_ids st))"
      "distinct (new_ids st)" "distinct (map fst (removed st))"
    and obj: "tracks_objects st O0 (objects db)" and nxt: "tracks_next st N0 (next_ids db)"
    by (simp_all add: tracks_def state_keys_distinct_def)
  note ent = tracks_objectsD [OF obj]
  note old = tracks_objects_le [OF obj]
  have in_old: "objects db i \<noteq> None" if "i \<in> fst ` set (old_values st)" for i
    using that ent [of i] map_of_eq_None_iff [of "old_values st" i]
    by (auto simp: entry_ok_def split: if_splits option.splits)
  let ?O1 = "objects db ++ map_of (old_values st)"
  have in_new: "?O1 i \<noteq> None" if "i \<in> set (new_ids st)" for i
    using that ent [of i] by (auto simp: entry_ok_def map_add_def split: option.splits)
  let ?O2 = "?O1 |` (- set (new_ids st))"
  have in_rem: "?O2 i = None" if "i \<in> fst ` set (removed st)" for i
    using that ent [of i] map_of_eq_None_iff [of "removed st" i]
    by (auto simp: entry_ok_def map_add_def restrict_map_def split: if_splits option.splits)
  have objs: "?O2 ++ map_of (removed st) = O0"
  proof
    fix i
    show "(?O2 ++ map_of (removed st)) i = O0 i"
      using ent [of i] by (auto simp: entry_ok_def map_add_def restrict_map_def
        split: if_splits option.splits)
  qed
  have O2: "?O2 \<subseteq>\<^sub>m O0"
    unfolding map_le_def
  proof
    fix i assume i: "i \<in> dom ?O2"
    then have "map_of (removed st) i = None" using in_rem [of i] map_of_eq_None_iff [of "removed st" i] by (metis domIff)
    then show "?O2 i = O0 i" using fun_cong [OF objs, of i] by (simp add: map_add_def)
  qed
  have nexts: "(\<lambda>ix. case map_of (old_index_next_ids st) ix of
      None \<Rightarrow> next_ids (db\<lparr>objects := ?O2\<rparr>) ix | Some n \<Rightarrow> snd (snd n)) = N0"
    using nxt by (auto simp: tracks_next_def fun_eq_iff split: option.split)
  have m: "throws_unless (keys_apart ?uk (map_of (old_values st)) (objects db) \<and> keys_apart ?uk (map_of (old_values st)) (map_of (old_values st)))
      (db\<lparr>objects := ?O1\<rparr>) (fold_result (\<lambda>(i, v). db_modify i (\<lambda>_. v)) (old_values st) db)"
    using dis keys(1) in_old by (rule revert_modify)
  have r: "fold_result db_remove (new_ids st) (db\<lparr>objects := ?O1\<rparr>) = Inr (db\<lparr>objects := ?O2\<rparr>)"
    using dis keys(3) in_new by (subst revert_remove) simp_all
  have "throws_unless (keys_apart ?uk (map_of (removed st)) ?O2 \<and> keys_apart ?uk (map_of (removed st)) (map_of (removed st)))
      (db\<lparr>objects := O0, next_ids := N0\<rparr>) (fold_result (\<lambda>(i, v). db_insert i v) (removed st) (db\<lparr>objects := ?O2, next_ids := N0\<rparr>))"
  proof -
    let ?d = "db\<lparr>objects := ?O2, next_ids := N0\<rparr>"
    have "?d\<lparr>objects := objects ?d ++ map_of (removed st)\<rparr> = db\<lparr>objects := O0, next_ids := N0\<rparr>" using objs by simp
    moreover have "undo_disabled ?d" "\<And>i. i \<in> fst ` set (removed st) \<Longrightarrow> objects ?d i = None" using dis in_rem by simp_all
    note revert_insert [OF this(1) keys(4) this(2)]
    ultimately show ?thesis by (simp only:) simp
  qed
  moreover have "keys_apart ?uk (map_of (removed st)) ?O2 \<and> keys_apart ?uk (map_of (removed st)) (map_of (removed st))"
    using keys_apart_mono [OF uniq old(3) O2] keys_apart_mono [OF uniq old(3) old(3)] by blast
  ultimately have i: "fold_result (\<lambda>(i, v). db_insert i v) (removed st) (db\<lparr>objects := ?O2, next_ids := N0\<rparr>) =
      Inr (db\<lparr>objects := O0, next_ids := N0\<rparr>)"
    by (simp add: throws_unless_def)
  have n: "fold set_index_next (old_index_next_ids st) (db\<lparr>objects := ?O2\<rparr>) =
      db\<lparr>objects := ?O2, next_ids := N0\<rparr>"
    by (simp only: revert_next [OF keys(2)] nexts)
  have "keys_apart ?uk (map_of (old_values st)) (objects db) \<and> keys_apart ?uk (map_of (old_values st)) (map_of (old_values st))"
    if "keys_apart ?uk (O0 |` dom (objects db)) (objects db)"
    using keys_apart_mono [OF that old(1) map_le_refl] keys_apart_mono [OF uniq old(2) old(2)] by blast
  with m show ?thesis
    unfolding revert_state_def by (auto simp: throws_unless_def r n i)
qed

section \<open>Merging\<close>

lemma merge_upd_fold:
  assumes "distinct (map fst xs)"
  shows "new_ids (fold merge_upd xs p) = new_ids p" "removed (fold merge_upd xs p) = removed p"
      "old_index_next_ids (fold merge_upd xs p) = old_index_next_ids p"
    and "map_of (old_values (fold merge_upd xs p)) i =
      (case map_of (old_values p) i of Some v \<Rightarrow> Some v
       | None \<Rightarrow> if i \<in> set (new_ids p) then None else map_of xs i)"
    and "distinct (map fst (old_values p)) \<Longrightarrow> distinct (map fst (old_values (fold merge_upd xs p)))"
proof -
  show "new_ids (fold merge_upd xs p) = new_ids p" "removed (fold merge_upd xs p) = removed p"
      "old_index_next_ids (fold merge_upd xs p) = old_index_next_ids p"
    by (induction xs arbitrary: p) (auto simp: merge_upd_def)
  show "map_of (old_values (fold merge_upd xs p)) i =
      (case map_of (old_values p) i of Some v \<Rightarrow> Some v
       | None \<Rightarrow> if i \<in> set (new_ids p) then None else map_of xs i)"
    using assms
  proof (induction xs arbitrary: p)
    case (Cons x xs)
    then have "map_of xs (fst x) = None" by (simp add: map_of_eq_None_iff)
    with Cons show ?case
      by (cases x) (auto simp: merge_upd_def update_conv' split: option.splits)
  qed (simp split: option.split)
  show "distinct (map fst (old_values p)) \<Longrightarrow> distinct (map fst (old_values (fold merge_upd xs p)))"
    by (induction xs arbitrary: p) (auto simp: merge_upd_def distinct_update)
qed

lemma merge_new_fold:
  "fold merge_new xs p = p\<lparr>new_ids := fold List.insert xs (new_ids p)\<rparr>"
  by (induction xs arbitrary: p) (auto simp: merge_new_def)

lemma fold_insert_set:
  "set (fold List.insert xs ys) = set xs \<union> set ys"
  "distinct ys \<Longrightarrow> distinct (fold List.insert xs ys)"
  by (induction xs arbitrary: ys) auto

lemma merge_next_fold:
  assumes "distinct (map fst xs)"
  shows "new_ids (fold merge_next xs p) = new_ids p" "removed (fold merge_next xs p) = removed p"
      "old_values (fold merge_next xs p) = old_values p"
    and "map_of (old_index_next_ids (fold merge_next xs p)) i =
      (case map_of (old_index_next_ids p) i of Some v \<Rightarrow> Some v | None \<Rightarrow> map_of xs i)"
    and "distinct (map fst (old_index_next_ids p)) \<Longrightarrow>
      distinct (map fst (old_index_next_ids (fold merge_next xs p)))"
proof -
  show "new_ids (fold merge_next xs p) = new_ids p" "removed (fold merge_next xs p) = removed p"
      "old_values (fold merge_next xs p) = old_values p"
    by (induction xs arbitrary: p) (auto simp: merge_next_def)
  show "map_of (old_index_next_ids (fold merge_next xs p)) i =
      (case map_of (old_index_next_ids p) i of Some v \<Rightarrow> Some v | None \<Rightarrow> map_of xs i)"
    using assms
  proof (induction xs arbitrary: p)
    case (Cons x xs)
    then have "map_of xs (fst x) = None" by (simp add: map_of_eq_None_iff)
    with Cons show ?case
      by (cases x) (auto simp: merge_next_def update_conv' split: option.splits)
  qed (simp split: option.split)
  show "distinct (map fst (old_index_next_ids p)) \<Longrightarrow>
      distinct (map fst (old_index_next_ids (fold merge_next xs p)))"
    by (induction xs arbitrary: p) (auto simp: merge_next_def distinct_update)
qed

text \<open>The fourth loop, object by object.\<close>

definition del_step :: "'v option \<Rightarrow> bool \<times> 'v option \<times> 'v option \<Rightarrow> bool \<times> 'v option \<times> 'v option" where
  "del_step del entry =
     (case del of None \<Rightarrow> entry
      | Some y \<Rightarrow>
        (case entry of (is_new, upd, old_del) \<Rightarrow>
          if is_new then (False, upd, old_del)
          else (case upd of Some x \<Rightarrow> (False, None, Some x) | None \<Rightarrow> (False, None, Some y))))"

abbreviation entry_of :: "'v undo_state \<Rightarrow> oid \<Rightarrow> bool \<times> 'v option \<times> 'v option" where
  "entry_of st i \<equiv> (i \<in> set (new_ids st), map_of (old_values st) i, map_of (removed st) i)"

lemma merge_del_entry:
  "entry_of (merge_del obj p) i = (if i = fst obj then del_step (Some (snd obj)) (entry_of p i) else entry_of p i)"
  by (auto simp: merge_del_def del_step_def update_conv' delete_conv' split: option.split)

lemma merge_del_keys: "state_keys_distinct p \<Longrightarrow> state_keys_distinct (merge_del obj p)"
  by (auto simp: merge_del_def state_keys_distinct_def distinct_update distinct_delete
      distinct_removeAll split: option.split)

lemma merge_del_next [simp]: "old_index_next_ids (merge_del obj p) = old_index_next_ids p"
  by (auto simp: merge_del_def split: option.split)

lemma merge_del_fold:
  assumes "distinct (map fst xs)"
  shows "entry_of (fold merge_del xs p) i = del_step (map_of xs i) (entry_of p i)"
    and "state_keys_distinct p \<Longrightarrow> state_keys_distinct (fold merge_del xs p)"
    and "old_index_next_ids (fold merge_del xs p) = old_index_next_ids p"
proof -
  show "entry_of (fold merge_del xs p) i = del_step (map_of xs i) (entry_of p i)"
    using assms
  proof (induction xs arbitrary: p)
    case Nil
    then show ?case by (simp add: del_step_def)
  next
    case (Cons x xs)
    then have none: "map_of xs (fst x) = None" by (simp add: map_of_eq_None_iff)
    have "entry_of (fold merge_del (x # xs) p) i = del_step (map_of xs i) (entry_of (merge_del x p) i)"
      using Cons by simp
    also have "\<dots> = del_step (map_of (x # xs) i) (entry_of p i)"
      unfolding merge_del_entry using none by (auto simp: del_step_def)
    finally show ?case .
  qed
  show "state_keys_distinct p \<Longrightarrow> state_keys_distinct (fold merge_del xs p)"
    by (induction xs arbitrary: p) (auto simp: merge_del_keys)
  show "old_index_next_ids (fold merge_del xs p) = old_index_next_ids p"
    by (induction xs arbitrary: p) auto
qed

text \<open>The matrix of \<open>merge()\<close>: composing two changes of one object composes their entries.\<close>

lemma entry_compose:
  assumes "entry_ok nA uA dA v0 v1" and "entry_ok nB uB dB v1 v2"
    and "entry = del_step dB (nA \<or> nB, (case uA of Some v \<Rightarrow> Some v | None \<Rightarrow> if nA then None else uB), dA)"
  shows "entry_ok (fst entry) (fst (snd entry)) (snd (snd entry)) v0 v2 \<or> (dA \<noteq> None \<and> nB)"
  using assms by (auto simp: entry_ok_def del_step_def split: if_splits option.splits)

lemma tracks_merge:
  assumes A: "tracks a O0 N0 O1 N1" and B: "tracks b O1 N1 O2 N2"
  shows "tracks (merge_states b a) O0 N0 O2 N2"
proof -
  from B have db: "distinct (map fst (old_values b))" "distinct (map fst (old_index_next_ids b))"
      "distinct (new_ids b)" "distinct (map fst (removed b))"
    by (simp_all add: tracks_def state_keys_distinct_def)
  from A have da: "distinct (map fst (old_values a))" "distinct (map fst (old_index_next_ids a))"
      "distinct (new_ids a)" "distinct (map fst (removed a))"
    by (simp_all add: tracks_def state_keys_distinct_def)
  define p where "p = fold merge_next (old_index_next_ids b)
    (fold merge_new (new_ids b) (fold merge_upd (old_values b) a))"
  have m: "merge_states b a = fold merge_del (removed b) p"
    by (simp add: merge_states_def p_def)
  note folds = merge_upd_fold [OF db(1)] merge_new_fold merge_next_fold [OF db(2)] fold_insert_set
  have pkeys: "state_keys_distinct p"
    using da unfolding p_def by (simp add: state_keys_distinct_def folds)
  have pent: "entry_of p i = (i \<in> set (new_ids a) \<or> i \<in> set (new_ids b),
      (case map_of (old_values a) i of Some v \<Rightarrow> Some v
       | None \<Rightarrow> if i \<in> set (new_ids a) then None else map_of (old_values b) i),
      map_of (removed a) i)" for i
    unfolding p_def by (auto simp: folds)
  have pnext: "map_of (old_index_next_ids p) ix = (case map_of (old_index_next_ids a) ix of
      Some v \<Rightarrow> Some v | None \<Rightarrow> map_of (old_index_next_ids b) ix)" for ix
    unfolding p_def by (simp add: folds)
  have objs: "tracks_objects a O0 O1" "tracks_objects b O1 O2"
    using A B by (simp_all add: tracks_def)
  have obj: "tracks_objects (merge_states b a) O0 O2"
    unfolding tracks_objects_def
  proof
    fix i
    let ?e = "entry_of (merge_states b a) i"
    have e: "?e = del_step (map_of (removed b) i) (entry_of p i)"
      unfolding m by (rule merge_del_fold [OF db(4)])
    have no_reuse: "\<not> (map_of (removed a) i \<noteq> None \<and> i \<in> set (new_ids b))"
    proof
      assume *: "map_of (removed a) i \<noteq> None \<and> i \<in> set (new_ids b)"
      then have "N1 (index_of i) \<le> snd (snd i)"
        using B by (auto simp: tracks_def new_above_def)
      moreover have "O0 i \<noteq> None"
        using * A tracks_objectsD [of a O0 O1 i]
        by (auto simp: tracks_def entry_ok_def split: if_splits option.splits)
      then have "snd (snd i) < N0 (index_of i)"
        using A by (cases i) (auto simp: tracks_def fresh_ids_def index_of_def)
      moreover have "N0 (index_of i) \<le> N1 (index_of i)"
        using A by (auto simp: tracks_def intro: tracks_next_mono)
      ultimately show False by simp
    qed
    have "entry_ok (fst ?e) (fst (snd ?e)) (snd (snd ?e)) (O0 i) (O2 i)"
      using entry_compose [OF tracks_objectsD [OF objs(1)] tracks_objectsD [OF objs(2)]
        e [unfolded pent]] no_reuse by blast
    then show "entry_ok (i \<in> set (new_ids (merge_states b a))) (map_of (old_values (merge_states b a)) i)
        (map_of (removed (merge_states b a)) i) (O0 i) (O2 i)"
      by simp
  qed
  have trn: "tracks_next a N0 N1" "tracks_next b N1 N2"
    using A B by (simp_all add: tracks_def)
  have onid: "map_of (old_index_next_ids (merge_states b a)) ix = (case map_of (old_index_next_ids a) ix of
      Some v \<Rightarrow> Some v | None \<Rightarrow> map_of (old_index_next_ids b) ix)" for ix
    unfolding m merge_del_fold(3) [OF db(4)] by (rule pnext)
  have nxt: "tracks_next (merge_states b a) N0 N2"
    unfolding tracks_next_def onid
  proof (intro conjI allI impI)
    fix ix n
    show "snd (snd n) = N0 ix" if "(case map_of (old_index_next_ids a) ix of
        Some v \<Rightarrow> Some v | None \<Rightarrow> map_of (old_index_next_ids b) ix) = Some n"
      using trn that unfolding tracks_next_def by (metis option.case_eq_if option.collapse option.inject)
    show "N2 ix = N0 ix" if "(case map_of (old_index_next_ids a) ix of
        Some v \<Rightarrow> Some v | None \<Rightarrow> map_of (old_index_next_ids b) ix) = None"
      using trn that unfolding tracks_next_def by (metis option.case_eq_if option.distinct(1))
    show "N0 ix \<le> N2 ix"
      using trn [THEN tracks_next_mono] by (rule order_trans)
  qed
  have above: "new_above (merge_states b a) N0"
    unfolding new_above_def
  proof
    fix i
    assume "i \<in> set (new_ids (merge_states b a))"
    then have "fst (del_step (map_of (removed b) i) (entry_of p i))"
      unfolding m merge_del_fold(1) [OF db(4), symmetric] by simp
    then have "i \<in> set (new_ids a) \<or> i \<in> set (new_ids b)"
      unfolding pent by (auto simp: del_step_def split: option.splits if_splits)
    then show "N0 (index_of i) \<le> snd (snd i)"
      using A B tracks_next_mono [OF trn(1), of "index_of i"]
      by (auto simp: tracks_def new_above_def intro: order_trans)
  qed
  show ?thesis
    using A B obj nxt above merge_del_fold(2) [OF db(4) pkeys] unfolding tracks_def m by blast
qed

section \<open>Sessions\<close>

text \<open>
  Histories of a database inside one session: operations, and inner sessions that are undone or
  merged before the outer one ends. A session may begin only while the active sessions fit the
  size limit of the stack: \<open>start_undo_session\<close> drops the oldest states beyond it.
\<close>

datatype 'v db_op = Create index_id 'v | Modify oid "'v \<Rightarrow> 'v" | Remove oid

fun run_op :: "'v db_op \<Rightarrow> ('v, 'k) object_db \<Rightarrow> ('v, 'k) object_db result" where
  "run_op (Create ix v) db = db_create ix v db"
| "run_op (Modify i m) db = db_modify i m db"
| "run_op (Remove i) db = db_remove i db"

abbreviation start :: "('v, 'k) object_db \<Rightarrow> ('v, 'k) object_db" where
  "start db \<equiv> snd (start_undo_session False db)"

inductive history :: "('v, 'k) object_db \<Rightarrow> ('v, 'k) object_db \<Rightarrow> bool" where
  nothing: "history d d"
| op: "history d d1 \<Longrightarrow> run_op p d1 = Inr d2 \<Longrightarrow> history d d2"
| undone: "history d d1 \<Longrightarrow> active_sessions d1 \<le> undo_max_size d1 \<Longrightarrow> history (start d1) d2 \<Longrightarrow>
     undo d2 = Inr d3 \<Longrightarrow> history d d3"
| merged: "history d d1 \<Longrightarrow> active_sessions d1 \<le> undo_max_size d1 \<Longrightarrow> history (start d1) d2 \<Longrightarrow>
     merge d2 = Inr d3 \<Longrightarrow> history d d3"

text \<open>A database inside a session that began with objects \<open>O0\<close> and next instances \<open>N0\<close>.\<close>

definition in_session ::
  "(oid \<rightharpoonup> 'v) \<Rightarrow> (index_id \<Rightarrow> nat) \<Rightarrow> nat \<Rightarrow> ('v, 'k) object_db \<Rightarrow> bool" where
  "in_session O0 N0 k db \<longleftrightarrow> \<not> undo_disabled db \<and> active_sessions db = Suc k \<and>
     k < length (undo_stack db) \<and>
     (\<exists>st rest. undo_stack db = st # rest \<and> tracks st O0 N0 (objects db) (next_ids db))"

lemma in_session_fresh: "in_session O0 N0 k db \<Longrightarrow> fresh_ids (objects db) (next_ids db)"
  by (auto simp: in_session_def tracks_def)

lemma start_fields [simp]:
  assumes "\<not> undo_disabled db"
  shows "objects (start db) = objects db" "next_ids (start db) = next_ids db"
    "undo_disabled (start db) = False" "undo_max_size (start db) = undo_max_size db"
    "active_sessions (start db) = Suc (active_sessions db)"
    "undo_stack (start db) = empty_undo_state # take (undo_max_size db) (undo_stack db)"
    "unique_keys (start db) = unique_keys db"
  using assms by (simp_all add: start_undo_session_def Let_def)

lemma start_in_session:
  assumes "\<not> undo_disabled db" and "active_sessions db \<le> undo_max_size db"
    and "active_sessions db \<le> length (undo_stack db)" and "fresh_ids (objects db) (next_ids db)"
  shows "in_session (objects db) (next_ids db) (active_sessions db) (start db)"
  using assms by (simp add: in_session_def tracks_empty)

abbreviation unique_ok :: "('v, 'k) object_db \<Rightarrow> bool" where
  "unique_ok db \<equiv> keys_apart (unique_keys db) (objects db) (objects db)"

lemma key_taken_on_modify [simp]: "key_taken i w (on_modify j v db) = key_taken i w db"
  by (simp add: key_taken_def cong: option.case_cong)

lemma unique_write:
  assumes "unique_ok db" and "fresh_ids (objects db) (next_ids db)" and "\<not> key_taken i v db"
  shows "keys_apart (unique_keys db) ((objects db)(i \<mapsto> v)) ((objects db)(i \<mapsto> v))"
proof -
  have new: "\<not> keys_clash (unique_keys db (index_of i)) v w" if "objects db j = Some w" "j \<noteq> i" "index_of j = index_of i" for j w
    using that assms(2,3) key_takenI [of db j w i v] by (cases j) (auto simp: fresh_ids_def index_of_def)
  show ?thesis
    unfolding keys_apart_def
  proof (intro allI impI)
    fix j u k w
    assume jk: "((objects db)(i \<mapsto> v)) j = Some u" "((objects db)(i \<mapsto> v)) k = Some w" "j \<noteq> k" "index_of j = index_of k"
    show "\<not> keys_clash (unique_keys db (index_of j)) u w"
    proof (cases "j = i")
      case True
      then have "u = v" "objects db k = Some w" "k \<noteq> i" using jk(1-3) by simp_all
      then show ?thesis using new [of k w] True jk(4) by simp
    next
      case False
      then have j: "objects db j = Some u" using jk(1) by simp
      show ?thesis
      proof (cases "k = i")
        case True
        then have "w = v" using jk(2) by simp
        then show ?thesis using new [OF j False] True jk(4) keys_clash_sym by metis
      next
        case False
        then have "objects db k = Some w" using jk(2) by simp
        with j jk(3,4) assms(1) show ?thesis unfolding keys_apart_def by blast
      qed
    qed
  qed
qed

lemma run_op_unique:
  assumes op: "run_op p db = Inr db'" and ok: "unique_ok db" "fresh_ids (objects db) (next_ids db)"
  shows "unique_ok db'"
proof (cases p)
  case (Create ix v)
  with op show ?thesis by (auto simp: db_create_def Let_def ensure_Inr intro: unique_write [OF ok])
next
  case (Modify i m)
  with op show ?thesis
    by (auto simp: db_modify_def db_get_def Let_def ensure_Inr split: option.splits intro: unique_write [OF ok])
next
  case (Remove i)
  moreover have "(objects db)(i := None) \<subseteq>\<^sub>m objects db" by (auto simp: map_le_def)
  ultimately show ?thesis using op keys_apart_mono [OF ok(1)]
    by (auto simp: db_remove_def db_get_def Let_def split: option.splits)
qed

lemma run_op_in_session:
  assumes ss: "in_session O0 N0 k db" and op: "run_op p db = Inr db'"
  shows "in_session O0 N0 k db' \<and> tl (undo_stack db') = tl (undo_stack db) \<and>
    undo_max_size db' = undo_max_size db \<and> unique_keys db' = unique_keys db"
proof -
  from ss obtain st rest where en: "\<not> undo_disabled db" and st: "undo_stack db = st # rest"
    and tr: "tracks st O0 N0 (objects db) (next_ids db)"
    by (auto simp: in_session_def)
  show ?thesis
  proof (cases p)
    case (Create ix v)
    obtain s t where ix: "ix = (s, t)" by (cases ix)
    let ?i = "(s, t, next_ids db (s, t))"
    let ?db = "db\<lparr>objects := (objects db)(?i \<mapsto> v), next_ids := (next_ids db)((s, t) := Suc (next_ids db (s, t)))\<rparr>"
    from op Create ix have db': "db' = on_create ?i ?db"
      by (simp add: db_create_def Let_def ensure_Inr)
    from on_create_tracks [OF tr st en refl refl, of s t v]
    show ?thesis using ss st en unfolding db' in_session_def by auto
  next
    case (Modify i m)
    with op obtain v where v: "objects db i = Some v"
      and db': "db' = (on_modify i v db)\<lparr>objects := (objects db)(i \<mapsto> m v)\<rparr>"
      by (auto simp: db_modify_def db_get_def Let_def ensure_Inr split: option.splits)
    from on_modify_tracks [OF tr st en v, of "m v"]
    show ?thesis using ss st en unfolding db' in_session_def by auto
  next
    case (Remove i)
    with op obtain v where v: "objects db i = Some v"
      and db': "db' = (on_remove i v db)\<lparr>objects := (objects db)(i := None)\<rparr>"
      by (auto simp: db_remove_def db_get_def Let_def split: option.splits)
    from on_remove_tracks [OF tr st en v]
    show ?thesis using ss st en unfolding db' in_session_def by auto
  qed
qed

lemma undo_in_session:
  assumes "in_session O0 N0 k db" and uniq: "keys_apart (unique_keys db) O0 O0"
  shows "throws_unless (keys_apart (unique_keys db) (O0 |` dom (objects db)) (objects db))
    (db\<lparr>objects := O0, next_ids := N0, undo_stack := tl (undo_stack db), active_sessions := k\<rparr>) (undo db)"
proof -
  from assms(1) obtain st rest where en: "\<not> undo_disabled db" and st: "undo_stack db = st # rest"
    and k: "active_sessions db = Suc k" and tr: "tracks st O0 N0 (objects db) (next_ids db)"
    by (auto simp: in_session_def)
  have "throws_unless (keys_apart (unique_keys db) (O0 |` dom (objects db)) (objects db))
      ((disable db)\<lparr>objects := O0, next_ids := N0\<rparr>) (revert_state st (disable db))"
    using revert_state_tracks [of st O0 N0 "disable db"] tr uniq by (simp add: disable_def)
  then show ?thesis
    using en st k by (auto simp: throws_unless_def undo_def Let_def enable_def disable_def)
qed

lemma merge_in_session:
  assumes outer: "in_session O0 N0 k d1" and inner: "in_session (objects d1) (next_ids d1) (Suc k) d2"
    and stack: "undo_stack d1 = a # rest" "tl (undo_stack d2) = a # rest'"
  obtains st where "merge d2 = Inr (d2\<lparr>undo_stack := st # rest', active_sessions := Suc k\<rparr>)"
    and "in_session O0 N0 k (d2\<lparr>undo_stack := st # rest', active_sessions := Suc k\<rparr>)"
proof -
  from inner obtain b where b: "undo_stack d2 = b # a # rest'" and act: "active_sessions d2 = Suc (Suc k)"
    and trb: "tracks b (objects d1) (next_ids d1) (objects d2) (next_ids d2)"
    and en: "\<not> undo_disabled d2"
    using stack(2) by (auto simp: in_session_def)
  have tra: "tracks a O0 N0 (objects d1) (next_ids d1)"
    using outer stack(1) by (auto simp: in_session_def)
  have "merge d2 = Inr (d2\<lparr>undo_stack := merge_states b a # rest', active_sessions := Suc k\<rparr>)"
    using b act by (simp add: merge_def)
  moreover have "in_session O0 N0 k (d2\<lparr>undo_stack := merge_states b a # rest', active_sessions := Suc k\<rparr>)"
    using tracks_merge [OF tra trb] en inner b by (simp add: in_session_def)
  ultimately show ?thesis by (rule that)
qed

text \<open>The state in which an inner session begins, and what it leaves on the stack.\<close>

lemma inner_session:
  assumes d1: "in_session O0 N0 k d1" and fits: "active_sessions d1 \<le> undo_max_size d1"
    and a: "undo_stack d1 = a # rest"
  shows "in_session (objects d1) (next_ids d1) (Suc k) (start d1)"
    and "take (Suc k) (tl (undo_stack (start d1))) = a # take k rest"
  using d1 fits a start_in_session [of d1] in_session_fresh [OF d1]
  by (auto simp: in_session_def min_def)

text \<open>
  A history keeps the session it runs in, and the states of the sessions around it.
\<close>

lemma history_in_session:
  assumes "history d d'" and "in_session O0 N0 k d" and "unique_ok d"
  shows "in_session O0 N0 k d' \<and> take k (tl (undo_stack d')) = take k (tl (undo_stack d)) \<and> unique_ok d' \<and> unique_keys d' = unique_keys d"
  using assms
proof (induction arbitrary: O0 N0 k rule: history.induct)
  case (nothing d)
  then show ?case by simp
next
  case (op d d1 p d2)
  from op.IH [OF op.prems] run_op_in_session [of O0 N0 k d1 p d2] run_op_unique [of p d1 d2] in_session_fresh [of O0 N0 k d1] op.hyps
  show ?case by auto
next
  case (undone d d1 d2 d3)
  from undone.IH(1) [OF undone.prems] have d1: "in_session O0 N0 k d1"
    "take k (tl (undo_stack d1)) = take k (tl (undo_stack d))" "unique_ok d1" "unique_keys d1 = unique_keys d" by blast+
  then obtain a rest where a: "undo_stack d1 = a # rest" by (auto simp: in_session_def)
  note inner = inner_session [OF d1(1) undone.hyps(2) a]
  have en: "\<not> undo_disabled d1" using d1(1) by (simp add: in_session_def)
  then have "unique_ok (start d1)" using d1(3) by simp
  from undone.IH(2) [OF inner(1) this] inner(2) en have d2: "in_session (objects d1) (next_ids d1) (Suc k) d2"
    "take (Suc k) (tl (undo_stack d2)) = a # take k rest" "unique_ok d2" "unique_keys d2 = unique_keys d1" by auto
  then obtain rest' where r: "tl (undo_stack d2) = a # rest'" "take k rest' = take k rest"
    by (cases "tl (undo_stack d2)") auto
  have d3: "d3 = d2\<lparr>objects := objects d1, next_ids := next_ids d1, undo_stack := tl (undo_stack d2),
      active_sessions := Suc k\<rparr>"
    using undone.hyps(4) undo_in_session [OF d2(1)] d1(3) d2(4) by (simp add: throws_unless_def)
  have "in_session O0 N0 k d3"
    using d1(1) d2(1) a r(1) unfolding d3 in_session_def by auto
  moreover have "take k (tl (undo_stack d3)) = take k (tl (undo_stack d))"
    using r d1(2) a by (simp add: d3)
  moreover have "unique_ok d3" "unique_keys d3 = unique_keys d" using d1(3,4) d2(4) by (simp_all add: d3)
  ultimately show ?case by blast
next
  case (merged d d1 d2 d3)
  from merged.IH(1) [OF merged.prems] have d1: "in_session O0 N0 k d1"
    "take k (tl (undo_stack d1)) = take k (tl (undo_stack d))" "unique_ok d1" "unique_keys d1 = unique_keys d" by blast+
  then obtain a rest where a: "undo_stack d1 = a # rest" by (auto simp: in_session_def)
  note inner = inner_session [OF d1(1) merged.hyps(2) a]
  have en: "\<not> undo_disabled d1" using d1(1) by (simp add: in_session_def)
  then have "unique_ok (start d1)" using d1(3) by simp
  from merged.IH(2) [OF inner(1) this] inner(2) en have d2: "in_session (objects d1) (next_ids d1) (Suc k) d2"
    "take (Suc k) (tl (undo_stack d2)) = a # take k rest" "unique_ok d2" "unique_keys d2 = unique_keys d1" by auto
  then obtain rest' where r: "tl (undo_stack d2) = a # rest'" "take k rest' = take k rest"
    by (cases "tl (undo_stack d2)") auto
  from merge_in_session [OF d1(1) d2(1) a r(1)] obtain st
    where "merge d2 = Inr (d2\<lparr>undo_stack := st # rest', active_sessions := Suc k\<rparr>)"
      and ss: "in_session O0 N0 k (d2\<lparr>undo_stack := st # rest', active_sessions := Suc k\<rparr>)" .
  with merged.hyps(4) have d3: "d3 = d2\<lparr>undo_stack := st # rest', active_sessions := Suc k\<rparr>" by simp
  show ?case using ss r(2) d1(2,4) d2(3,4) a by (simp add: d3)
qed

section \<open>Properties\<close>

text \<open>
  A session can give a unique key of one object to another: \<open>key_given_away\<close> says that an object that lived
  before the session and still lives had a key then that another object holds now.
\<close>

definition key_given_away :: "('v, 'k) object_db \<Rightarrow> ('v, 'k) object_db \<Rightarrow> bool" where
  "key_given_away db db' \<longleftrightarrow> (\<exists>i v j w. objects db i = Some v \<and> objects db' i \<noteq> None \<and> objects db' j = Some w \<and> i \<noteq> j \<and>
     index_of i = index_of j \<and> keys_clash (unique_keys db (index_of i)) v w)"

lemma key_given_away_iff:
  "unique_keys db' = unique_keys db \<Longrightarrow>
    keys_apart (unique_keys db') (objects db |` dom (objects db')) (objects db') \<longleftrightarrow> \<not> key_given_away db db'"
proof -
  assume uk: "unique_keys db' = unique_keys db"
  have "(objects db |` dom (objects db')) i = Some v \<longleftrightarrow> objects db i = Some v \<and> objects db' i \<noteq> None" for i v
    by (auto simp: restrict_map_def)
  then show ?thesis unfolding keys_apart_def key_given_away_def uk by blast
qed

text \<open>
  C1. Undoing a session restores the database. From any state whose active sessions fit the undo
  stack and whose unique keys are unique, whatever operations succeeded in the session (creations, modifications,
  removals, inner sessions that were undone or merged), \<open>undo()\<close> either gives back exactly the objects, the next
  instance of every index and the number of active sessions from before the session, or it throws the
  violation of a unique key. It can only throw when the session gave a unique key away: an object that lives on
  had a key before the session that another object holds now. (Then the destructor of the session lets the exception
  out and the process ends.)
\<close>

theorem undo_restores_database:
  assumes "\<not> undo_disabled db" and "active_sessions db \<le> undo_max_size db"
    and "active_sessions db \<le> length (undo_stack db)" and "fresh_ids (objects db) (next_ids db)"
    and "keys_apart (unique_keys db) (objects db) (objects db)"
    and "history (snd (start_undo_session False db)) db'"
  shows "(\<exists>db''. undo db' = Inr db'' \<and> objects db'' = objects db \<and> next_ids db'' = next_ids db \<and>
      active_sessions db'' = active_sessions db \<and> \<not> undo_disabled db'') \<or>
    (undo db' = Inl Uniqueness_violated \<and> key_given_away db db')"
proof -
  have h: "in_session (objects db) (next_ids db) (active_sessions db) db'" "unique_keys db' = unique_keys db"
    using start_in_session [OF assms(1-4)] history_in_session [OF assms(6)] assms(1,5) by auto
  have "keys_apart (unique_keys db') (objects db) (objects db)" using assms(5) h(2) by simp
  from undo_in_session [OF h(1) this] h(1) show ?thesis
    unfolding key_given_away_iff [OF h(2)] throws_unless_def by (auto simp: in_session_def)
qed

text \<open>
  C10. A committed session can still be popped. Committing the only active session and calling
  \<open>pop_commit()\<close> restores the objects and the next instances from before the session, takes the session's
  state off the stack and leaves recording enabled with no session active; it throws only when the session gave a
  unique key away.
\<close>

theorem pop_commit_restores_database:
  assumes "\<not> undo_disabled db" and "active_sessions db = 0"
    and "fresh_ids (objects db) (next_ids db)" and "keys_apart (unique_keys db) (objects db) (objects db)"
    and "history (snd (start_undo_session False db)) db'"
  shows "\<exists>db1. commit db' = Inr db1 \<and> objects db1 = objects db' \<and>
    ((\<exists>db2. pop_commit db1 = Inr db2 \<and> objects db2 = objects db \<and> next_ids db2 = next_ids db \<and>
       undo_stack db2 = tl (undo_stack db1) \<and> active_sessions db2 = 0 \<and> \<not> undo_disabled db2) \<or>
     (pop_commit db1 = Inl Uniqueness_violated \<and> key_given_away db db'))"
proof -
  have ss: "in_session (objects db) (next_ids db) 0 db'" and uk: "unique_keys db' = unique_keys db"
    using start_in_session [of db] assms history_in_session [OF assms(5)] by auto
  then obtain st rest where st: "undo_stack db' = st # rest"
    and tr: "tracks st (objects db) (next_ids db) (objects db') (next_ids db')"
    and act: "active_sessions db' = Suc 0"
    by (auto simp: in_session_def)
  let ?db1 = "db'\<lparr>active_sessions := 0\<rparr>"
  have c: "commit db' = Inr ?db1" using act by (simp add: commit_def)
  have "throws_unless (\<not> key_given_away db db') ((disable ?db1)\<lparr>objects := objects db, next_ids := next_ids db\<rparr>)
      (revert_state st (disable ?db1))"
    using revert_state_tracks [of st "objects db" "next_ids db" "disable ?db1"] tr uk assms(4)
    by (simp add: disable_def key_given_away_iff [OF uk, symmetric])
  then have "(\<exists>db2. pop_commit ?db1 = Inr db2 \<and> objects db2 = objects db \<and> next_ids db2 = next_ids db \<and>
      undo_stack db2 = tl (undo_stack ?db1) \<and> active_sessions db2 = 0 \<and> \<not> undo_disabled db2) \<or>
      (pop_commit ?db1 = Inl Uniqueness_violated \<and> key_given_away db db')"
    using st by (auto simp: throws_unless_def pop_commit_def enable_def disable_def)
  with c show ?thesis by auto
qed

text \<open>When the key was given to an object created in the session, \<open>undo()\<close> does throw: new objects are removed last.\<close>

lemma fold_result_throws:
  assumes "x \<in> set xs" and "P s" and "\<And>y s s'. y \<in> set xs \<Longrightarrow> P s \<Longrightarrow> f y s = Inr s' \<Longrightarrow> P s'" and "\<And>s. P s \<Longrightarrow> isl (f x s)"
  shows "isl (fold_result f xs s)"
  using assms
proof (induction xs arbitrary: s)
  case (Cons y xs)
  show ?case
  proof (cases "f y s")
    case (Inr s')
    then have "P s'" using Cons.prems(3) [of y s s'] Cons.prems(2) by simp
    moreover have "x \<in> set xs" using Cons.prems(1,2) Cons.prems(4) [of s] Inr by auto
    ultimately have "isl (fold_result f xs s')"
      by (intro Cons.IH) (use Cons.prems(3,4) in \<open>auto dest: Cons.prems(3) [rotated]\<close>)
    then show ?thesis using Inr by simp
  qed simp
qed simp

lemma undo_refuses_taken_key:
  assumes ss: "in_session O0 N0 k db" and uniq: "keys_apart (unique_keys db) O0 O0"
    and i: "O0 i = Some v" "objects db i \<noteq> None" "objects db i \<noteq> Some v"
    and j: "O0 j = None" "objects db j = Some w" "index_of j = index_of i" and clash: "keys_clash (unique_keys db (index_of i)) v w"
  shows "undo db = Inl Uniqueness_violated"
proof -
  from ss obtain st rest where en: "\<not> undo_disabled db" and st: "undo_stack db = st # rest" and k: "active_sessions db = Suc k"
    and tr: "tracks st O0 N0 (objects db) (next_ids db)" by (auto simp: in_session_def)
  have obj: "tracks_objects st O0 (objects db)" using tr by (simp add: tracks_def)
  have "map_of (old_values st) i = Some v" "map_of (old_values st) j = None"
    using tracks_objectsD [OF obj, of i] tracks_objectsD [OF obj, of j] i j by (auto simp: entry_ok_def split: if_splits option.splits)
  then have mem: "(i, v) \<in> set (old_values st)" "j \<notin> fst ` set (old_values st)" by (auto dest: map_of_SomeD simp: map_of_eq_None_iff)
  have below: "snd (snd j) < next_ids db (index_of j)"
    using j(2) in_session_fresh [OF ss] by (cases j) (auto simp: fresh_ids_def index_of_def)
  have "isl (fold_result (\<lambda>(i, v). db_modify i (\<lambda>_. v)) (old_values st) (disable db))"
  proof (rule fold_result_throws [OF mem(1), where P = "\<lambda>d. objects d j = Some w \<and> next_ids d = next_ids db \<and> unique_keys d = unique_keys db"])
    show "objects (disable db) j = Some w \<and> next_ids (disable db) = next_ids db \<and> unique_keys (disable db) = unique_keys db"
      using j(2) by (simp add: disable_def)
    show "objects d' j = Some w \<and> next_ids d' = next_ids db \<and> unique_keys d' = unique_keys db"
      if "y \<in> set (old_values st)" "objects d j = Some w \<and> next_ids d = next_ids db \<and> unique_keys d = unique_keys db"
        "(case y of (i, v) \<Rightarrow> db_modify i (\<lambda>_. v)) d = Inr d'" for y d d'
    proof -
      have "fst y \<noteq> j" using that(1) mem(2) by auto
      with that(2,3) show ?thesis
        by (cases y) (auto simp: db_modify_def db_get_def Let_def ensure_Inr split: option.splits)
    qed
    show "isl ((case (i, v) of (i, v) \<Rightarrow> db_modify i (\<lambda>_. v)) d)"
      if "objects d j = Some w \<and> next_ids d = next_ids db \<and> unique_keys d = unique_keys db" for d
    proof -
      have "key_taken i v d" using that j below clash i(1) by (intro key_takenI [of d j w]) auto
      then show ?thesis by (auto simp: db_modify_def db_get_def Let_def ensure_def split: option.splits)
    qed
  qed
  then have "isl (undo db)" using en st k
    by (auto simp: undo_def revert_state_def isl_def)
  then show ?thesis using undo_in_session [OF ss uniq] by (auto simp: throws_unless_def)
qed

text \<open>After a modification that was refused the session cannot be undone: its object is missing.\<close>

lemma undo_after_refused_modify:
  assumes ss: "in_session O0 N0 k db" and v: "objects db i = Some v"
  shows "isl (undo (modify_refused i v db))"
proof -
  let ?d = "modify_refused i v db"
  from ss obtain st rest where en: "\<not> undo_disabled db" and st: "undo_stack db = st # rest" and k: "active_sessions db = Suc k"
    by (auto simp: in_session_def)
  obtain st' where st': "undo_stack ?d = st' # rest" and rec: "i \<in> set (new_ids st') \<or> i \<in> fst ` set (old_values st')"
  proof -
    have "i \<in> fst ` set (old_values st)" if "map_of (old_values st) i \<noteq> None" using that map_of_eq_None_iff [of "old_values st" i] by auto
    moreover have "i \<in> fst ` set (AList.update i v (old_values st))" by (simp add: dom_update)
    ultimately show thesis
      using that [of st] that [of "st\<lparr>old_values := AList.update i v (old_values st)\<rparr>"] en st
      by (cases "i \<in> set (new_ids st) \<or> map_of (old_values st) i \<noteq> None")
         (auto simp del: split_paired_All split_paired_Ex simp: modify_refused_def on_modify_def set_top_def Let_def)
  qed
  let ?P = "\<lambda>d :: ('a, 'b) object_db. objects d i = None"
  have P: "?P (disable ?d)" by (simp add: disable_def modify_refused_def Let_def)
  have upd: "?P d'" if "?P d" "(case y of (i, v) \<Rightarrow> db_modify i (\<lambda>_. v)) d = Inr d'" for y d d'
    using that by (cases y) (auto simp: db_modify_def db_get_def Let_def ensure_Inr split: option.splits)
  have "isl (revert_state st' (disable ?d))"
  proof (cases "i \<in> fst ` set (old_values st')")
    case True
    then obtain x where x: "(i, x) \<in> set (old_values st')" by auto
    have "isl (fold_result (\<lambda>(i, v). db_modify i (\<lambda>_. v)) (old_values st') (disable ?d))"
      by (rule fold_result_throws [OF x, where P = ?P]) (use P upd in \<open>auto simp: db_modify_def db_get_def\<close>)
    then show ?thesis by (auto simp: revert_state_def isl_def)
  next
    case False
    show ?thesis
    proof (cases "fold_result (\<lambda>(i, v). db_modify i (\<lambda>_. v)) (old_values st') (disable ?d)")
      case (Inr d1)
      have "?P d1" using Inr P upd by (rule fold_result_invariant)
      then have "isl (fold_result db_remove (new_ids st') d1)"
        by (rule fold_result_throws [of i, where P = ?P, rotated])
           (use rec False in \<open>auto simp: db_remove_def db_get_def Let_def split: option.splits\<close>)
      with Inr show ?thesis by (auto simp: revert_state_def isl_def)
    qed (simp add: revert_state_def)
  qed
  then show ?thesis using st' by (auto simp: undo_def isl_def ensure_def)
qed

text \<open>A session that renames an object and then creates another, with the name \<open>x\<close>.\<close>

definition sample_db :: "(nat, nat) object_db" where
  "sample_db = \<lparr>objects = [(1, 2, 0) \<mapsto> 5], next_ids = (\<lambda>ix. if ix = (1, 2) then 1 else 0),
     active_sessions = 0, undo_disabled = False, undo_stack = [], undo_max_size = 256,
     unique_keys = (\<lambda>ix v. [v])\<rparr>"

definition sample_session :: "nat \<Rightarrow> (nat, nat) object_db result" where
  "sample_session x = rbind (run_op (Modify (1, 2, 0) Suc) (start sample_db)) (run_op (Create (1, 2) x))"

definition session_end :: "nat \<Rightarrow> (nat, nat) object_db" where
  "session_end x = projr (sample_session x)"

lemma sample_fresh: "fresh_ids (objects sample_db) (next_ids sample_db)" "unique_ok sample_db"
  by (auto simp: fresh_ids_def keys_apart_def sample_db_def split: if_splits)

lemma sample_history: "\<not> isl (sample_session x) \<Longrightarrow> history (start sample_db) (session_end x)"
  unfolding session_end_def sample_session_def
  by (cases "run_op (Modify (1, 2, 0) Suc) (start sample_db)")
     (auto simp del: run_op.simps simp: isl_def intro!: history.op [OF history.op [OF history.nothing]] split: sum.splits)

theorem undo_restores_database_witness:
  "(\<exists>db''. undo (session_end 9) = Inr db'' \<and> objects db'' = objects sample_db \<and> next_ids db'' = next_ids sample_db) \<and>
   undo (session_end 5) = Inl Uniqueness_violated \<and> key_given_away sample_db (session_end 5)"
proof -
  have h: "history (start sample_db) (session_end 9)" "history (start sample_db) (session_end 5)"
    by (rule sample_history, code_simp)+
  have u: "\<not> isl (undo (session_end 9))" "isl (undo (session_end 5))" by code_simp+
  have d: "\<not> undo_disabled sample_db" "active_sessions sample_db \<le> undo_max_size sample_db" "active_sessions sample_db \<le> length (undo_stack sample_db)"
    by (simp_all add: sample_db_def)
  from undo_restores_database [OF d sample_fresh h(1)] undo_restores_database [OF d sample_fresh h(2)] u
  show ?thesis by auto
qed

theorem pop_commit_restores_database_witness:
  "\<exists>db1 db2. commit (session_end 9) = Inr db1 \<and> pop_commit db1 = Inr db2 \<and> objects db2 = objects sample_db"
proof -
  have h: "history (start sample_db) (session_end 9)" by (rule sample_history) code_simp
  have u: "\<not> isl (rbind (commit (session_end 9)) pop_commit)" by code_simp
  have d: "\<not> undo_disabled sample_db" "active_sessions sample_db = 0" by (simp_all add: sample_db_def)
  from pop_commit_restores_database [OF d sample_fresh h] u show ?thesis by auto
qed

text \<open>
  Moving a session handle forgets \<open>_disable_on_exit\<close>. A session started with
  \<open>force_enable\<close> on a disabled database promises to disable it again when the handle is
  destroyed; the move constructor copies only \<open>_apply_undo\<close>, so after one move the destructor
  leaves the database enabled, whatever happens in between.
\<close>

theorem moved_session_stays_enabled:
  assumes "undo_disabled db" and "(s, db1) = start_undo_session True db"
    and "(s', old) = session_move s" and "session_destroy s' db2 = Inr db3"
    and "\<not> undo_disabled db2"
  shows "disable_on_exit s \<and> \<not> disable_on_exit s' \<and> \<not> undo_disabled db3"
  using assms
  by (auto simp: start_undo_session_def session_move_def session_destroy_def undo_def Let_def
      result_simps enable_def)

theorem moved_session_stays_enabled_witness:
  "\<exists>db3. session_destroy (fst (session_move (fst (start_undo_session True (disable sample_db)))))
      (snd (start_undo_session True (disable sample_db))) = Inr db3 \<and> \<not> undo_disabled db3"
proof -
  let ?r = "start_undo_session True (disable sample_db)"
  let ?m = "session_move (fst ?r)"
  obtain db3 where d: "session_destroy (fst ?m) (snd ?r) = Inr db3"
    by (simp add: session_move_def session_destroy_def start_undo_session_def Let_def disable_def
        enable_def undo_def revert_state_def top_state_def empty_undo_state_def sample_db_def)
  have "undo_disabled (disable sample_db)" "\<not> undo_disabled (snd ?r)"
    by (simp_all add: start_undo_session_def Let_def disable_def enable_def)
  from moved_session_stays_enabled [OF this(1) prod.collapse prod.collapse d this(2)] d
  show ?thesis by blast
qed

end
