(* ===== verification/Block.thy ===== *)
theory Block
  imports Gxb_Prelude
begin

text \<open>
  Blocks (protocol/block.hpp, protocol/block.cpp): headers, the block number that a block id
  carries in its first word, and the Merkle root over the transactions of a block.

  The hash functions and the byte reversal come from the \<open>fc\<close> library; they are the record
  \<open>fc_hash\<close>, a parameter of the definitions, and the two facts the code relies on are the locale
  \<open>block_hashing\<close>. A digest is a number; a \<open>block_id_type\<close> is the list of its five 32-bit words.
\<close>

section \<open>Headers\<close>

unbundle bit_operations_syntax

type_synonym block_id_type = "u32 list"
type_synonym digest_type = nat

record block_header =
  bh_previous :: block_id_type
  bh_timestamp :: nat
  bh_witness :: nat
  bh_transaction_merkle_root :: digest_type

record signed_block_header = block_header +
  bh_witness_signature :: nat

record 'tx signed_block = signed_block_header +
  bh_transactions :: "'tx list"

record fc_hash =
  endian_reverse_u32 :: "u32 \<Rightarrow> u32"
  sha224 :: "signed_block_header \<Rightarrow> u32 list"

definition zero_block_id :: block_id_type where
  "zero_block_id = [0, 0, 0, 0, 0]"

definition num_from_id :: "fc_hash \<Rightarrow> block_id_type \<Rightarrow> u32" where
  "num_from_id F i = endian_reverse_u32 F (i ! 0)"

definition block_num :: "fc_hash \<Rightarrow> 'a block_header_scheme \<Rightarrow> u32" where
  "block_num F h = num_from_id F (bh_previous h) + 1"

definition header_id :: "fc_hash \<Rightarrow> signed_block_header \<Rightarrow> block_id_type" where
  "header_id F h = take 5 ((sha224 F h)[0 := endian_reverse_u32 F (block_num F h)])"

definition block_id :: "fc_hash \<Rightarrow> 'tx signed_block \<Rightarrow> block_id_type" where
  "block_id F b = header_id F (signed_block_header.truncate b)"

lemma block_num_truncate [simp]:
  "block_num F (signed_block_header.truncate b) = block_num F b"
  by (simp add: block_num_def signed_block_header.truncate_def)

locale block_hashing =
  fixes F :: fc_hash
  assumes reverse_reverse: "endian_reverse_u32 F (endian_reverse_u32 F w) = w"
    and sha224_length: "length (sha224 F h) = 7"
begin

lemma num_from_header_id: "num_from_id F (header_id F h) = block_num F h"
proof -
  have "0 < length (sha224 F h)" by (simp add: sha224_length)
  then show ?thesis by (simp add: num_from_id_def header_id_def reverse_reverse)
qed

lemma num_from_block_id: "num_from_id F (block_id F b) = block_num F b"
  by (simp add: block_id_def num_from_header_id)

lemma child_num:
  assumes "bh_previous c = block_id F b"
  shows "block_num F c = block_num F b + 1"
  by (simp add: block_num_def [of F c] assms num_from_block_id)

end

text \<open>The byte reversal of a 32-bit word is an instance of the first law.\<close>

definition byte_reverse :: "u32 \<Rightarrow> u32" where
  "byte_reverse w = push_bit 24 w OR push_bit 8 (w AND push_bit 8 (mask 8))
     OR drop_bit 8 (w AND push_bit 16 (mask 8)) OR drop_bit 24 w"

lemma bit_byte_reverse:
  assumes "r < 8"
  shows "bit (byte_reverse w) r = bit w (24 + r)" and "bit (byte_reverse w) (8 + r) = bit w (16 + r)"
    and "bit (byte_reverse w) (16 + r) = bit w (8 + r)" and "bit (byte_reverse w) (24 + r) = bit w r"
  using assms by (auto simp: byte_reverse_def bit_simps dest: bit_imp_le_length)

lemma byte_reverse_reverse: "byte_reverse (byte_reverse w) = w"
proof (rule bit_word_eqI)
  fix n assume "n < LENGTH(32)"
  then have "n div 8 < 4" by (simp add: div_less_iff_less_mult)
  moreover define r where "r = n mod 8"
  ultimately have "n = r \<or> n = 8 + r \<or> n = 16 + r \<or> n = 24 + r"
    by presburger
  moreover have "r < 8" by (simp add: r_def)
  ultimately show "bit (byte_reverse (byte_reverse w)) n = bit w n"
    by (auto simp: bit_byte_reverse)
qed

definition sample_hash :: fc_hash where
  "sample_hash = \<lparr>endian_reverse_u32 = byte_reverse,
     sha224 = (\<lambda>h. [0, of_nat (bh_witness h), of_nat (bh_timestamp h), 0, 0, 0, 0])\<rparr>"

interpretation sample: block_hashing sample_hash
  by unfold_locales (simp_all add: sample_hash_def byte_reverse_reverse)

lemma sample_hashing: "block_hashing sample_hash"
  by unfold_locales

section \<open>The Merkle root\<close>

text \<open>
  \<open>calculate_merkle_root\<close> works in place on the vector \<open>ids\<close>: \<open>pair_pass\<close> is the inner
  \<open>for\<close> loop, which writes slot \<open>k\<close> from slots \<open>i\<close> and \<open>i + 1\<close>, and \<open>merkle_while\<close> the
  outer loop on \<open>current_number_of_hashes\<close>. \<open>H\<close> is \<open>digest_type::hash\<close> of a pair.
\<close>

function pair_pass :: "(digest_type \<Rightarrow> digest_type \<Rightarrow> digest_type) \<Rightarrow> nat \<Rightarrow> nat \<Rightarrow> nat \<Rightarrow>
    digest_type list \<Rightarrow> nat \<times> digest_type list" where
  "pair_pass H i_max i k ids =
     (if i < i_max then pair_pass H i_max (i + 2) (k + 1) (ids[k := H (ids ! i) (ids ! (i + 1))])
      else (k, ids))"
  by pat_completeness auto
termination
  by (relation "measure (\<lambda>(H, i_max, i, k, ids). i_max - i)") auto

declare pair_pass.simps [simp del]

definition merkle_body :: "(digest_type \<Rightarrow> digest_type \<Rightarrow> digest_type) \<Rightarrow> nat \<Rightarrow> digest_type list \<Rightarrow>
    nat \<times> digest_type list" where
  "merkle_body H n ids =
     (let i_max = n - n mod 2; (k, ids') = pair_pass H i_max 0 0 ids
      in if n mod 2 = 1 then (k + 1, ids'[k := ids' ! i_max]) else (k, ids'))"

lemma pair_pass_count:
  "fst (pair_pass H m i k ids) \<le> k + (m - i + 1) div 2"
proof (induction H m i k ids rule: pair_pass.induct)
  case (1 H m i k ids)
  show ?case
  proof (cases "i < m")
    case True
    have "k + 1 + (m - (i + 2) + 1) div 2 \<le> k + (m - i + 1) div 2"
      using True by (cases "i + 1 < m") auto
    with "1.IH" [OF True] True show ?thesis
      by (subst pair_pass.simps) simp
  next
    case False
    then show ?thesis by (subst pair_pass.simps) simp
  qed
qed

lemma merkle_body_decreases:
  assumes "1 < n"
  shows "fst (merkle_body H n ids) < n"
proof -
  define k where "k = fst (pair_pass H (n - n mod 2) 0 0 ids)"
  have "k \<le> (n - n mod 2 + 1) div 2"
    using pair_pass_count [of H "n - n mod 2" 0 0 ids] by (simp add: k_def)
  moreover have "fst (merkle_body H n ids) = (if n mod 2 = 1 then k + 1 else k)"
    by (simp add: merkle_body_def Let_def k_def split: prod.splits)
  ultimately show ?thesis using assms by presburger
qed

function merkle_while :: "(digest_type \<Rightarrow> digest_type \<Rightarrow> digest_type) \<Rightarrow> nat \<Rightarrow> digest_type list \<Rightarrow>
    digest_type list" where
  "merkle_while H n ids =
     (if 1 < n then case merkle_body H n ids of (n', ids') \<Rightarrow> merkle_while H n' ids' else ids)"
  by auto
termination
proof (relation "measure (\<lambda>(H, n, ids). n)")
  show "((H, n', ids'), H, n, ids) \<in> measure (\<lambda>(H, n, ids). n)"
    if "1 < n" and "(n', ids') = merkle_body H n ids" for H n ids n' ids'
    using merkle_body_decreases [OF that(1), of H ids] that(2) by (metis case_prod_conv fst_conv in_measure)
qed simp

declare merkle_while.simps [simp del]

definition calculate_merkle_root :: "(digest_type \<Rightarrow> digest_type \<Rightarrow> digest_type) \<Rightarrow>
    (digest_type \<Rightarrow> digest_type) \<Rightarrow> ('tx \<Rightarrow> digest_type) \<Rightarrow> 'tx signed_block \<Rightarrow> digest_type" where
  "calculate_merkle_root H checksum merkle_digest b =
     (if bh_transactions b = [] then 0
      else checksum (merkle_while H (length (bh_transactions b))
             (map merkle_digest (bh_transactions b)) ! 0))"

text \<open>The reference: hash neighbours in pairs, an odd last one is carried over, until one is left.\<close>

fun pair_up :: "('a \<Rightarrow> 'a \<Rightarrow> 'a) \<Rightarrow> 'a list \<Rightarrow> 'a list" where
  "pair_up H (x # y # zs) = H x y # pair_up H zs"
| "pair_up H zs = zs"

lemma length_pair_up [simp]: "length (pair_up H xs) = (length xs + 1) div 2"
  by (induction H xs rule: pair_up.induct) auto

function merkle_tree :: "('a \<Rightarrow> 'a \<Rightarrow> 'a) \<Rightarrow> 'a list \<Rightarrow> 'a" where
  "merkle_tree H xs = (if 1 < length xs then merkle_tree H (pair_up H xs) else hd xs)"
  by pat_completeness auto
termination
  by (relation "measure (\<lambda>(H, xs). length xs)") auto

declare merkle_tree.simps [simp del]

lemma pair_up_append: "even (length xs) \<Longrightarrow> pair_up H (xs @ ys) = pair_up H xs @ pair_up H ys"
  by (induction H xs rule: pair_up.induct) auto

lemma pair_pass_spec:
  assumes "i = 2 * k" "even m" "i \<le> m" "m \<le> length ids"
  shows "pair_pass H m i k ids =
    (m div 2, take k ids @ pair_up H (take (m - i) (drop i ids)) @ drop (m div 2) ids)"
  using assms
proof (induction H m i k ids rule: pair_pass.induct)
  case (1 H m i k ids)
  show ?case
  proof (cases "i < m")
    case True
    then have i2: "i + 2 \<le> m" and len: "i + 1 < length ids" and k: "k < m div 2" "k < i + 2"
      using "1.prems" by (auto elim!: evenE)
    let ?ids = "ids[k := H (ids ! i) (ids ! (i + 1))]"
    have d: "drop i ids = ids ! i # ids ! (i + 1) # drop (i + 2) ids"
      using len by (simp add: Cons_nth_drop_Suc)
    obtain j where j: "m - i = Suc (Suc j)"
      using i2 by (metis add_2_eq_Suc le_Suc_ex add_diff_cancel_left' ab_semigroup_add_class.add_ac(1))
    then have "m - (i + 2) = j" by simp
    with j have "take (m - i) (drop i ids) = ids ! i # ids ! (i + 1) # take (m - (i + 2)) (drop (i + 2) ids)"
      unfolding d by simp
    moreover have "take (k + 1) ?ids = take k ids @ [H (ids ! i) (ids ! (i + 1))]"
      using len "1.prems"(1) by (simp add: take_Suc_conv_app_nth)
    moreover have "pair_pass H m (i + 2) (k + 1) ?ids = (m div 2,
        take (k + 1) ?ids @ pair_up H (take (m - (i + 2)) (drop (i + 2) ?ids)) @ drop (m div 2) ?ids)"
      using "1.IH" [OF True] "1.prems" i2 by simp
    ultimately show ?thesis
      using True k by (subst pair_pass.simps) simp
  next
    case False
    with "1.prems" have "i = m" by simp
    with "1.prems" show ?thesis
      by (subst pair_pass.simps) (auto elim!: evenE)
  qed
qed

lemma merkle_body_spec:
  assumes "1 < n" "n \<le> length ids"
  shows "fst (merkle_body H n ids) = (n + 1) div 2"
    and "take ((n + 1) div 2) (snd (merkle_body H n ids)) = pair_up H (take n ids)"
    and "length (snd (merkle_body H n ids)) = length ids"
proof -
  define m where "m = n - n mod 2"
  have m: "even m" "m \<le> length ids" "0 < m"
    using assms unfolding m_def by (presburger, linarith, presburger)
  have pass: "pair_pass H m 0 0 ids = (m div 2, pair_up H (take m ids) @ drop (m div 2) ids)"
    using pair_pass_spec [of 0 0 m ids H] m by simp
  let ?ids = "pair_up H (take m ids) @ drop (m div 2) ids"
  have pl: "length (pair_up H (take m ids)) = m div 2"
    using m by (auto elim!: evenE simp: min_def)
  have len: "length ?ids = length ids"
    unfolding length_append pl using m by simp
  have "fst (merkle_body H n ids) = (n + 1) div 2 \<and>
      take ((n + 1) div 2) (snd (merkle_body H n ids)) = pair_up H (take n ids) \<and>
      length (snd (merkle_body H n ids)) = length ids"
  proof (cases "even n")
    case True
    then have "m = n" "n mod 2 = 0" "(n + 1) div 2 = n div 2"
      by (auto simp: m_def elim!: evenE)
    with pass pl len m show ?thesis
      by (simp add: merkle_body_def Let_def m_def)
  next
    case False
    then obtain q where q: "n = 2 * q + 1" by (elim oddE)
    then have mq: "m = 2 * q" "n mod 2 = 1" by (auto simp: m_def)
    have sl: "?ids ! m = ids ! m"
      using pl m mq assms q by (simp add: nth_append mult_2)
    have "take n ids = take m ids @ [ids ! m]"
      using assms q mq by (simp add: take_Suc_conv_app_nth)
    then have "pair_up H (take n ids) = pair_up H (take m ids) @ [ids ! m]"
      using m by (simp add: pair_up_append min_def)
    moreover have "take (q + 1) (?ids[q := ids ! m]) = pair_up H (take m ids) @ [ids ! m]"
      using pl mq assms q by (simp add: list_update_append take_Suc_conv_app_nth nth_append)
    ultimately show ?thesis
      using pass sl len mq q unfolding merkle_body_def m_def [symmetric] Let_def by simp
  qed
  then show "fst (merkle_body H n ids) = (n + 1) div 2"
    and "take ((n + 1) div 2) (snd (merkle_body H n ids)) = pair_up H (take n ids)"
    and "length (snd (merkle_body H n ids)) = length ids" by auto
qed

lemma merkle_while_spec:
  assumes "0 < n" "n \<le> length ids"
  shows "merkle_while H n ids ! 0 = merkle_tree H (take n ids)"
  using assms
proof (induction H n ids rule: merkle_while.induct)
  case (1 H n ids)
  show ?case
  proof (cases "1 < n")
    case True
    obtain n' ids' where b: "merkle_body H n ids = (n', ids')" by force
    note spec = merkle_body_spec [OF True "1.prems"(2), of H, unfolded b fst_conv snd_conv]
    have "0 < n'" "n' \<le> length ids'" using spec True "1.prems" by auto
    from "1.IH" [OF True b [symmetric] this]
    have "merkle_while H n' ids' ! 0 = merkle_tree H (take n' ids')" .
    moreover have "merkle_tree H (take n ids) = merkle_tree H (pair_up H (take n ids))"
      using True "1.prems" by (subst merkle_tree.simps) simp
    ultimately show ?thesis
      using True spec b by (subst merkle_while.simps) simp
  next
    case False
    with "1.prems" have "n = 1" "ids \<noteq> []" by auto
    then show ?thesis
      by (subst merkle_while.simps, subst merkle_tree.simps) (simp add: hd_conv_nth)
  qed
qed

text \<open>C15.
  \<open>calculate_merkle_root\<close>, which overwrites one vector in place, returns the checksum of the root
  of the binary hash tree over the transactions' digests, and the null checksum for no transaction.
\<close>

theorem merkle_root_is_tree:
  "calculate_merkle_root H checksum merkle_digest b =
     (if bh_transactions b = [] then 0
      else checksum (merkle_tree H (map merkle_digest (bh_transactions b))))"
  using merkle_while_spec [of "length (bh_transactions b)" "map merkle_digest (bh_transactions b)" H]
  by (simp add: calculate_merkle_root_def)

text \<open>
  The number a block id carries is the number of the block, so a block that names another as its
  predecessor has the successor number (modulo the 32 bits of a block number).
\<close>

theorem block_id_carries_num:
  assumes "block_hashing F"
  shows "num_from_id F (block_id F b) = block_num F b \<and>
    (bh_previous c = block_id F b \<longrightarrow> block_num F c = block_num F b + 1)"
  using block_hashing.num_from_block_id [OF assms] block_hashing.child_num [OF assms] by blast

definition sample_block :: "nat signed_block" where
  "sample_block = \<lparr>bh_previous = zero_block_id, bh_timestamp = 5, bh_witness = 7,
     bh_transaction_merkle_root = 0, bh_witness_signature = 0, bh_transactions = []\<rparr>"

theorem block_id_carries_num_witness:
  "block_hashing sample_hash \<and> num_from_id sample_hash (block_id sample_hash sample_block) = 1 \<and>
   block_num sample_hash (sample_block\<lparr>bh_previous := block_id sample_hash sample_block\<rparr>) = 2"
proof -
  have one: "block_num sample_hash sample_block = 1"
    by (simp add: block_num_def num_from_id_def sample_block_def zero_block_id_def sample_hash_def
        byte_reverse_def)
  then show ?thesis
    using block_id_carries_num [OF sample_hashing, of sample_block
        "sample_block\<lparr>bh_previous := block_id sample_hash sample_block\<rparr>"] sample_hashing
    by simp
qed

end
