(* ===== verification/Fork_Database.thy ===== *)
theory Fork_Database
  imports Block
begin

text \<open>
  The fork database (fork_database.hpp, fork_database.cpp): a tree of recent blocks linked by weak
  pointers to their predecessors.

  Items live in a store indexed by the order of their allocation. The owners of an item are the two
  indices, the head and the shared pointers callers hold (\<open>fd_held\<close>); \<open>lock\<close> of a weak pointer
  yields the item while one of them owns it. An index is the list of its items in the order of its
  \<open>block_num\<close> key. Block numbers are 32-bit words.
\<close>

section \<open>State\<close>

record 'tx fork_item =
  fi_prev :: "nat option"
  fi_num :: u32
  fi_invalid :: bool
  fi_id :: block_id_type
  fi_data :: "'tx signed_block"

record 'tx fork_database =
  fd_store :: "'tx fork_item list"
  fd_max_size :: u32
  fd_unlinked_index :: "nat list"
  fd_index :: "nat list"
  fd_head :: "nat option"
  fd_held :: "nat list"

definition new_fork_item :: "fc_hash \<Rightarrow> 'tx signed_block \<Rightarrow> 'tx fork_item" where
  "new_fork_item F d = \<lparr>fi_prev = None, fi_num = block_num F d, fi_invalid = False,
     fi_id = block_id F d, fi_data = d\<rparr>"

definition previous_id :: "'tx fork_item \<Rightarrow> block_id_type" where
  "previous_id it = bh_previous (fi_data it)"

definition new_fork_database :: "'tx fork_database" where
  "new_fork_database = \<lparr>fd_store = [], fd_max_size = 1024, fd_unlinked_index = [], fd_index = [],
     fd_head = None, fd_held = []\<rparr>"

definition item :: "'tx fork_database \<Rightarrow> nat \<Rightarrow> 'tx fork_item" where
  "item d r = fd_store d ! r"

definition num_of :: "'tx fork_database \<Rightarrow> nat \<Rightarrow> u32" where
  "num_of d r = fi_num (item d r)"

definition alive :: "'tx fork_database \<Rightarrow> nat \<Rightarrow> bool" where
  "alive d r \<longleftrightarrow> r \<in> set (fd_index d) \<or> r \<in> set (fd_unlinked_index d) \<or> fd_head d = Some r \<or>
     r \<in> set (fd_held d)"

definition lock_prev :: "'tx fork_database \<Rightarrow> nat \<Rightarrow> nat option" where
  "lock_prev d r = (case fi_prev (item d r) of
     None \<Rightarrow> None | Some p \<Rightarrow> if alive d p then Some p else None)"

definition find_id :: "'tx fork_database \<Rightarrow> nat list \<Rightarrow> block_id_type \<Rightarrow> nat option" where
  "find_id d idx i = List.find (\<lambda>r. fi_id (item d r) = i) idx"

text \<open>Insertion into the multi-index: refused when the id is present, after equal numbers otherwise.\<close>

definition idx_insert :: "'tx fork_database \<Rightarrow> nat \<Rightarrow> nat list \<Rightarrow> nat list" where
  "idx_insert d r idx =
     (if find_id d idx (fi_id (item d r)) \<noteq> None then idx
      else takeWhile (\<lambda>x. num_of d x \<le> num_of d r) idx @ r #
             dropWhile (\<lambda>x. num_of d x \<le> num_of d r) idx)"

section \<open>Operations\<close>

definition fork_reset :: "'tx fork_database \<Rightarrow> 'tx fork_database" where
  "fork_reset d = d\<lparr>fd_head := None, fd_index := []\<rparr>"

definition pop_block :: "'tx fork_database \<Rightarrow> 'tx fork_database result" where
  "pop_block d = (case fd_head d of
     None \<Rightarrow> Inl Assert_failed
   | Some h \<Rightarrow> (case lock_prev d h of
       None \<Rightarrow> Inl Assert_failed
     | Some p \<Rightarrow> Inr (d\<lparr>fd_head := Some p\<rparr>)))"

definition start_block :: "fc_hash \<Rightarrow> 'tx signed_block \<Rightarrow> 'tx fork_database \<Rightarrow> 'tx fork_database" where
  "start_block F b d =
     (let r = length (fd_store d); d1 = d\<lparr>fd_store := fd_store d @ [new_fork_item F b]\<rparr>
      in d1\<lparr>fd_index := idx_insert d1 r (fd_index d1), fd_head := Some r\<rparr>)"

definition in_range :: "'tx fork_database \<Rightarrow> u32 \<Rightarrow> bool" where
  "in_range d n \<longleftrightarrow> (case fd_head d of None \<Rightarrow> True
     | Some h \<Rightarrow> max 0 (uint (num_of d h) - uint (fd_max_size d)) < uint n)"

definition link_item :: "'tx fork_database \<Rightarrow> nat \<Rightarrow> 'tx fork_database result" where
  "link_item d r =
     (if fd_head d \<noteq> None \<and> previous_id (item d r) \<noteq> zero_block_id
      then case find_id d (fd_index d) (previous_id (item d r)) of
             None \<Rightarrow> Inl Unlinkable_block_exception
           | Some p \<Rightarrow> Inr (d\<lparr>fd_store := (fd_store d)[r := (item d r)\<lparr>fi_prev := Some p\<rparr>]\<rparr>)
      else Inr d)"

definition min_num :: "'tx fork_database \<Rightarrow> u32 \<Rightarrow> u32" where
  "min_num d n = n - min (fd_max_size d) n"

definition insert_item :: "'tx fork_database \<Rightarrow> nat \<Rightarrow> 'tx fork_database" where
  "insert_item d r =
     (let d1 = d\<lparr>fd_index := idx_insert d r (fd_index d)\<rparr> in
      case fd_head d1 of
        None \<Rightarrow> d1\<lparr>fd_head := Some r\<rparr>
      | Some h \<Rightarrow>
          if num_of d1 r > num_of d1 h
          then d1\<lparr>fd_head := Some r,
                  fd_index := dropWhile (\<lambda>x. num_of d1 x < min_num d1 (num_of d1 r)) (fd_index d1),
                  fd_unlinked_index :=
                    filter (\<lambda>x. num_of d1 x \<noteq> num_of d1 r - fd_max_size d1) (fd_unlinked_index d1)\<rparr>
          else d1)"

definition push_item :: "nat \<Rightarrow> 'tx fork_database \<Rightarrow> 'tx fork_database result" where
  "push_item r d =
     fc_assert (in_range d (num_of d r))
       (rbind (link_item d r) (\<lambda>d1. Inr (insert_item d1 r)))"

definition push_block :: "fc_hash \<Rightarrow> 'tx signed_block \<Rightarrow> 'tx fork_database \<Rightarrow>
    (nat option \<times> 'tx fork_database) result" where
  "push_block F b d =
     rbind (push_item (length (fd_store d)) (d\<lparr>fd_store := fd_store d @ [new_fork_item F b]\<rparr>))
       (\<lambda>d1. Inr (fd_head d1, d1))"

definition below_window :: "'tx fork_database \<Rightarrow> nat \<Rightarrow> nat \<Rightarrow> bool" where
  "below_window d h x \<longleftrightarrow> uint (num_of d x) < max 0 (uint (num_of d h) - uint (fd_max_size d))"

definition set_max_size :: "u32 \<Rightarrow> 'tx fork_database \<Rightarrow> 'tx fork_database" where
  "set_max_size s d =
     (let d1 = d\<lparr>fd_max_size := s\<rparr> in
      case fd_head d1 of
        None \<Rightarrow> d1
      | Some h \<Rightarrow> d1\<lparr>fd_index := dropWhile (below_window d1 h) (fd_index d1),
                     fd_unlinked_index := dropWhile (below_window d1 h) (fd_unlinked_index d1)\<rparr>)"

definition fetch_block :: "block_id_type \<Rightarrow> 'tx fork_database \<Rightarrow> nat option" where
  "fetch_block i d = (case find_id d (fd_index d) i of
     Some r \<Rightarrow> Some r | None \<Rightarrow> find_id d (fd_unlinked_index d) i)"

definition is_known_block :: "block_id_type \<Rightarrow> 'tx fork_database \<Rightarrow> bool" where
  "is_known_block i d \<longleftrightarrow> (find_id d (fd_index d) i \<noteq> None) \<or> (find_id d (fd_unlinked_index d) i \<noteq> None)"

definition fetch_block_by_number :: "u32 \<Rightarrow> 'tx fork_database \<Rightarrow> nat list" where
  "fetch_block_by_number n d =
     takeWhile (\<lambda>x. num_of d x = n) (dropWhile (\<lambda>x. num_of d x \<noteq> n) (fd_index d))"

definition set_head :: "nat option \<Rightarrow> 'tx fork_database \<Rightarrow> 'tx fork_database" where
  "set_head h d = d\<lparr>fd_head := h\<rparr>"

definition fork_remove :: "block_id_type \<Rightarrow> 'tx fork_database \<Rightarrow> 'tx fork_database" where
  "fork_remove i d =
     (let d1 = d\<lparr>fd_index := filter (\<lambda>r. fi_id (item d r) \<noteq> i) (fd_index d)\<rparr> in
      case fd_head d1 of
        None \<Rightarrow> d1
      | Some h \<Rightarrow> if fi_id (item d1 h) = i
                  then case pop_block d1 of Inl _ \<Rightarrow> d1\<lparr>fd_head := None\<rparr> | Inr d2 \<Rightarrow> d2
                  else d1)"

text \<open>
  The three loops of \<open>fetch_branch_from\<close>. Nothing in the types forbids a cycle of \<open>prev\<close> links,
  so the loops are partial: \<open>None\<close> is a loop that does not return.
\<close>

partial_function (option) walk_down ::
  "'tx fork_database \<Rightarrow> u32 \<Rightarrow> nat \<Rightarrow> nat list \<Rightarrow> (nat list \<times> nat) result option" where
  "walk_down d n r acc =
     (if num_of d r > n
      then case lock_prev d r of
             None \<Rightarrow> Some (Inl Assert_failed)
           | Some p \<Rightarrow> walk_down d n p (acc @ [r])
      else Some (Inr (acc, r)))"

partial_function (option) walk_both ::
  "'tx fork_database \<Rightarrow> nat \<Rightarrow> nat \<Rightarrow> nat list \<Rightarrow> nat list \<Rightarrow> (nat list \<times> nat list) result option" where
  "walk_both d r s acc1 acc2 =
     (if previous_id (item d r) \<noteq> previous_id (item d s)
      then case lock_prev d r of
             None \<Rightarrow> Some (Inl Assert_failed)
           | Some p \<Rightarrow> (case lock_prev d s of
               None \<Rightarrow> Some (Inl Assert_failed)
             | Some q \<Rightarrow> walk_both d p q (acc1 @ [r]) (acc2 @ [s]))
      else Some (Inr (acc1 @ [r], acc2 @ [s])))"

definition fetch_branch_from :: "block_id_type \<Rightarrow> block_id_type \<Rightarrow> 'tx fork_database \<Rightarrow>
    (nat list \<times> nat list) result option" where
  "fetch_branch_from first second d =
     (case find_id d (fd_index d) first of
        None \<Rightarrow> Some (Inl Assert_failed)
      | Some r \<Rightarrow> (case find_id d (fd_index d) second of
          None \<Rightarrow> Some (Inl Assert_failed)
        | Some s \<Rightarrow> (case walk_down d (num_of d s) r [] of
            None \<Rightarrow> None
          | Some (Inl e) \<Rightarrow> Some (Inl e)
          | Some (Inr (acc1, r')) \<Rightarrow> (case walk_down d (num_of d r') s [] of
              None \<Rightarrow> None
            | Some (Inl e) \<Rightarrow> Some (Inl e)
            | Some (Inr (acc2, s')) \<Rightarrow> walk_both d r' s' acc1 acc2))))"

section \<open>Well-formed fork databases\<close>

definition item_ok :: "fc_hash \<Rightarrow> 'tx fork_database \<Rightarrow> nat \<Rightarrow> bool" where
  "item_ok F d r \<longleftrightarrow> fi_num (item d r) = block_num F (fi_data (item d r)) \<and>
     fi_id (item d r) = block_id F (fi_data (item d r)) \<and>
     (\<forall>p. fi_prev (item d r) = Some p \<longrightarrow> p < r \<and> fi_id (item d p) = previous_id (item d r))"

definition idx_ok :: "'tx fork_database \<Rightarrow> nat list \<Rightarrow> bool" where
  "idx_ok d idx \<longleftrightarrow> sorted (map (num_of d) idx) \<and> distinct (map (\<lambda>r. fi_id (item d r)) idx)"

definition fork_wf :: "fc_hash \<Rightarrow> 'tx fork_database \<Rightarrow> bool" where
  "fork_wf F d \<longleftrightarrow> (\<forall>r < length (fd_store d). item_ok F d r) \<and>
     (\<forall>r. alive d r \<longrightarrow> r < length (fd_store d)) \<and> fd_unlinked_index d = [] \<and> idx_ok d (fd_index d)"

lemma item_upd [simp]:
  "item (d\<lparr>fd_index := xs\<rparr>) = item d" "item (d\<lparr>fd_unlinked_index := xs\<rparr>) = item d"
  "item (d\<lparr>fd_head := h\<rparr>) = item d" "item (d\<lparr>fd_held := xs\<rparr>) = item d"
  "item (d\<lparr>fd_max_size := s\<rparr>) = item d"
  by (simp_all add: item_def fun_eq_iff)

lemma num_of_upd [simp]:
  "num_of (d\<lparr>fd_index := xs\<rparr>) = num_of d" "num_of (d\<lparr>fd_unlinked_index := xs\<rparr>) = num_of d"
  "num_of (d\<lparr>fd_head := h\<rparr>) = num_of d" "num_of (d\<lparr>fd_held := xs\<rparr>) = num_of d"
  "num_of (d\<lparr>fd_max_size := s\<rparr>) = num_of d"
  by (simp_all add: num_of_def fun_eq_iff)

lemma item_ok_upd [simp]:
  "item_ok F (d\<lparr>fd_index := xs\<rparr>) = item_ok F d" "item_ok F (d\<lparr>fd_unlinked_index := xs\<rparr>) = item_ok F d"
  "item_ok F (d\<lparr>fd_head := h\<rparr>) = item_ok F d" "item_ok F (d\<lparr>fd_held := xs\<rparr>) = item_ok F d"
  "item_ok F (d\<lparr>fd_max_size := s\<rparr>) = item_ok F d"
  by (simp_all add: item_ok_def fun_eq_iff)

lemma idx_ok_upd [simp]:
  "idx_ok (d\<lparr>fd_index := xs\<rparr>) = idx_ok d" "idx_ok (d\<lparr>fd_unlinked_index := xs\<rparr>) = idx_ok d"
  "idx_ok (d\<lparr>fd_head := h\<rparr>) = idx_ok d" "idx_ok (d\<lparr>fd_held := xs\<rparr>) = idx_ok d"
  "idx_ok (d\<lparr>fd_max_size := s\<rparr>) = idx_ok d"
  by (simp_all add: idx_ok_def fun_eq_iff)

lemma find_id_Some: "find_id d idx i = Some r \<Longrightarrow> r \<in> set idx \<and> fi_id (item d r) = i"
  by (auto simp: find_id_def dest: find_Some_mem)

lemma find_id_None: "find_id d idx i = None \<longleftrightarrow> (\<forall>r \<in> set idx. fi_id (item d r) \<noteq> i)"
  by (auto simp: find_id_def find_None_mem)

lemma set_idx_insert: "set (idx_insert d r idx) \<subseteq> insert r (set idx)" "set idx \<subseteq> set (idx_insert d r idx)"
proof -
  let ?P = "\<lambda>x. num_of d x \<le> num_of d r"
  have "set idx = set (takeWhile ?P idx) \<union> set (dropWhile ?P idx)"
    by (metis set_append takeWhile_dropWhile_id)
  then show "set (idx_insert d r idx) \<subseteq> insert r (set idx)" "set idx \<subseteq> set (idx_insert d r idx)"
    by (auto simp: idx_insert_def)
qed

lemma sorted_insert_mid:
  "sorted (xs @ zs) \<Longrightarrow> \<forall>x \<in> set xs. x \<le> y \<Longrightarrow> \<forall>z \<in> set zs. y \<le> z \<Longrightarrow> sorted (xs @ y # zs)"
  for y :: "'a :: linorder"
  by (auto simp: sorted_append)

lemma idx_ok_insert:
  assumes "idx_ok d idx"
  shows "idx_ok d (idx_insert d r idx)"
proof (cases "find_id d idx (fi_id (item d r)) = None")
  case True
  let ?P = "\<lambda>x. num_of d x \<le> num_of d r"
  let ?T = "takeWhile ?P idx" and ?D = "dropWhile ?P idx"
  have split: "idx = ?T @ ?D" by simp
  have ids: "map (\<lambda>r. fi_id (item d r)) idx = map (\<lambda>r. fi_id (item d r)) ?T @ map (\<lambda>r. fi_id (item d r)) ?D"
    by (metis map_append split)
  have srt: "sorted (map (num_of d) ?T @ map (num_of d) ?D)"
    using assms by (metis idx_ok_def map_append split)
  have T: "\<forall>x \<in> set ?T. num_of d x \<le> num_of d r" by (auto dest: set_takeWhileD)
  have D: "\<forall>x \<in> set ?D. num_of d r \<le> num_of d x"
  proof (cases ?D)
    case (Cons y ys)
    then have "\<not> ?P y" by (metis dropWhile_eq_Cons_conv)
    moreover have "\<forall>x \<in> set ?D. num_of d y \<le> num_of d x"
      using srt Cons by (auto simp: sorted_append)
    ultimately show ?thesis by fastforce
  next
    case Nil
    then show ?thesis by (metis empty_iff list.set(1))
  qed
  have "sorted (map (num_of d) ?T @ num_of d r # map (num_of d) ?D)"
    by (rule sorted_insert_mid [OF srt]) (use T D in simp_all)
  moreover have "distinct (map (\<lambda>r. fi_id (item d r)) ?T @ fi_id (item d r) # map (\<lambda>r. fi_id (item d r)) ?D)"
    using assms True ids unfolding idx_ok_def find_id_None
    by (auto dest: set_takeWhileD set_dropWhileD)
  ultimately show ?thesis
    using True by (simp add: idx_insert_def idx_ok_def)
qed (use assms in \<open>auto simp: idx_insert_def\<close>)

lemma idx_ok_dropWhile: "idx_ok d idx \<Longrightarrow> idx_ok d (dropWhile P idx)"
  by (metis (no_types, lifting) distinct_append idx_ok_def map_append sorted_append takeWhile_dropWhile_id)

lemma idx_ok_filter: "idx_ok d idx \<Longrightarrow> idx_ok d (filter P idx)"
  by (simp add: idx_ok_def sorted_filter distinct_map_filter)

lemma item_append [simp]:
  "r < length (fd_store d) \<Longrightarrow> item (d\<lparr>fd_store := fd_store d @ xs\<rparr>) r = item d r"
  "item (d\<lparr>fd_store := fd_store d @ [x]\<rparr>) (length (fd_store d)) = x"
  by (simp_all add: item_def nth_append)

lemma alive_store [simp]: "alive (d\<lparr>fd_store := st\<rparr>) r = alive d r"
  by (simp add: alive_def)

lemma idx_ok_cong:
  "idx_ok d idx \<Longrightarrow> (\<And>r. r \<in> set idx \<Longrightarrow> fi_num (item d' r) = fi_num (item d r) \<and> fi_id (item d' r) = fi_id (item d r))
    \<Longrightarrow> idx_ok d' idx"
  unfolding idx_ok_def num_of_def by (simp cong: map_cong)

lemma fork_wf_alloc:
  assumes wf: "fork_wf F d"
  shows "fork_wf F (d\<lparr>fd_store := fd_store d @ [new_fork_item F b]\<rparr>)"
proof -
  let ?d = "d\<lparr>fd_store := fd_store d @ [new_fork_item F b]\<rparr>"
  have "item_ok F ?d r" if "r < length (fd_store ?d)" for r
  proof (cases "r = length (fd_store d)")
    case True
    then show ?thesis by (simp add: item_ok_def new_fork_item_def)
  next
    case False
    with that have r: "r < length (fd_store d)" by simp
    with wf have "item_ok F d r" by (simp add: fork_wf_def)
    moreover have "item ?d p = item d p" if "p < r" for p
      using that r by simp
    ultimately show ?thesis
      using r unfolding item_ok_def previous_id_def item_append(1) [OF r] by metis
  qed
  moreover have "idx_ok ?d (fd_index d)"
    by (rule idx_ok_cong [of d]) (use wf in \<open>auto simp: fork_wf_def alive_def\<close>)
  ultimately show ?thesis
    using wf by (auto simp: fork_wf_def intro: less_SucI)
qed

lemma fork_wf_link:
  assumes wf: "fork_wf F d" and r: "Suc r = length (fd_store d)" "\<not> alive d r"
    and l: "link_item d r = Inr d'"
  shows "fork_wf F d'" and "fd_index d' = fd_index d" and "fd_head d' = fd_head d"
    and "length (fd_store d') = length (fd_store d)" and "fd_held d' = fd_held d"
    and "num_of d' = num_of d" and "fi_id (item d' x) = fi_id (item d x)"
proof -
  have "fork_wf F d' \<and> fd_index d' = fd_index d \<and> fd_head d' = fd_head d \<and>
    length (fd_store d') = length (fd_store d) \<and> fd_held d' = fd_held d \<and> num_of d' = num_of d \<and>
    (\<forall>x. fi_id (item d' x) = fi_id (item d x))"
  proof (cases "fd_head d \<noteq> None \<and> previous_id (item d r) \<noteq> zero_block_id")
    case True
    with l obtain p where p: "find_id d (fd_index d) (previous_id (item d r)) = Some p"
      and d': "d' = d\<lparr>fd_store := (fd_store d)[r := (item d r)\<lparr>fi_prev := Some p\<rparr>]\<rparr>"
      by (auto simp: link_item_def split: option.splits)
    from find_id_Some [OF p] have ps: "p \<in> set (fd_index d)" "fi_id (item d p) = previous_id (item d r)"
      by auto
    with wf r have "p < length (fd_store d)" "p \<noteq> r" by (auto simp: fork_wf_def alive_def)
    with r have pr: "p < r" by simp
    have it: "item d' x = (if x = r then (item d r)\<lparr>fi_prev := Some p\<rparr> else item d x)" for x
      using r by (auto simp: d' item_def nth_list_update)
    have num: "num_of d' = num_of d" by (simp add: num_of_def it fun_eq_iff)
    have ids: "fi_id (item d' x) = fi_id (item d x)" "previous_id (item d' x) = previous_id (item d x)" for x
      by (simp_all add: it previous_id_def)
    have "item_ok F d' x" if "x < length (fd_store d)" for x
    proof -
      have "item_ok F d x" using wf that by (simp add: fork_wf_def)
      then show ?thesis
        unfolding item_ok_def ids by (cases "x = r") (simp_all add: it pr ps)
    qed
    moreover have "idx_ok d' (fd_index d)"
      by (rule idx_ok_cong [of d]) (use wf in \<open>simp_all add: it fork_wf_def\<close>)
    ultimately have "fork_wf F d'"
      using wf by (simp add: fork_wf_def d')
    with d' num ids show ?thesis by simp
  qed (use l wf in \<open>auto simp: link_item_def\<close>)
  then show "fork_wf F d'" "fd_index d' = fd_index d" "fd_head d' = fd_head d"
    "length (fd_store d') = length (fd_store d)" "fd_held d' = fd_held d" "num_of d' = num_of d"
    "fi_id (item d' x) = fi_id (item d x)"
    by auto
qed

lemma fork_wf_idx_head:
  assumes "fork_wf F d" and "idx_ok d xs" and "\<And>x. x \<in> set xs \<Longrightarrow> x < length (fd_store d)"
    and "\<And>x. h = Some x \<Longrightarrow> x < length (fd_store d)"
  shows "fork_wf F (d\<lparr>fd_index := xs, fd_head := h\<rparr>)"
  using assms by (auto simp: fork_wf_def alive_def)

lemma fork_wf_unlinked:
  "fork_wf F d \<Longrightarrow> us = [] \<Longrightarrow> fork_wf F (d\<lparr>fd_unlinked_index := us\<rparr>)"
  by (auto simp: fork_wf_def alive_def)

section \<open>Every operation keeps a fork database well-formed\<close>

lemma fork_wf_alive: "fork_wf F d \<Longrightarrow> alive d r \<Longrightarrow> r < length (fd_store d)"
  by (simp add: fork_wf_def)

lemma lock_prev_alive: "lock_prev d r = Some p \<Longrightarrow> alive d p \<and> fi_prev (item d r) = Some p"
  by (auto simp: lock_prev_def split: option.splits if_splits)

lemma fork_wf_new: "fork_wf F new_fork_database"
  by (simp add: fork_wf_def new_fork_database_def alive_def idx_ok_def)

lemma fork_wf_head: "fork_wf F d \<Longrightarrow> (\<And>x. h = Some x \<Longrightarrow> alive d x) \<Longrightarrow> fork_wf F (d\<lparr>fd_head := h\<rparr>)"
  by (auto simp: fork_wf_def alive_def)

lemma fork_wf_pop: "fork_wf F d \<Longrightarrow> pop_block d = Inr d' \<Longrightarrow> fork_wf F d'"
  by (auto simp: pop_block_def split: option.splits intro!: fork_wf_head dest: lock_prev_alive)

lemma fork_wf_index_subset:
  assumes "fork_wf F d" "idx_ok d xs" "set xs \<subseteq> set (fd_index d)"
  shows "fork_wf F (d\<lparr>fd_index := xs\<rparr>)"
  using assms by (auto simp: fork_wf_def alive_def)

lemma fork_wf_reset: "fork_wf F d \<Longrightarrow> fork_wf F (fork_reset d)"
  by (auto simp: fork_wf_def fork_reset_def alive_def idx_ok_def)

lemma fork_wf_remove:
  assumes "fork_wf F d"
  shows "fork_wf F (fork_remove i d)"
proof -
  let ?d = "d\<lparr>fd_index := filter (\<lambda>r. fi_id (item d r) \<noteq> i) (fd_index d)\<rparr>"
  have d1: "fork_wf F ?d"
    using assms by (intro fork_wf_index_subset idx_ok_filter) (auto simp: fork_wf_def)
  have "fork_wf F (?d\<lparr>fd_head := None\<rparr>)"
    by (rule fork_wf_head [OF d1]) simp
  with d1 show ?thesis
    by (auto simp: fork_remove_def Let_def split: option.splits sum.splits dest: fork_wf_pop)
qed

lemma fork_wf_set_max_size:
  assumes "fork_wf F d"
  shows "fork_wf F (set_max_size s d)"
proof -
  have d1: "fork_wf F (d\<lparr>fd_max_size := s\<rparr>)"
    using assms by (simp add: fork_wf_def alive_def)
  have "fork_wf F (d\<lparr>fd_max_size := s, fd_index := dropWhile P (fd_index d)\<rparr>)" for P
    using fork_wf_index_subset [OF d1, of "dropWhile P (fd_index d)"] assms
    by (auto simp: fork_wf_def idx_ok_dropWhile dest: set_dropWhileD)
  moreover have "fd_unlinked_index d = []" using assms by (simp add: fork_wf_def)
  ultimately show ?thesis
    using d1 by (simp add: set_max_size_def Let_def fork_wf_unlinked split: option.splits)
qed

lemma fork_wf_insert_item:
  assumes wf: "fork_wf F d" and r: "r < length (fd_store d)"
  shows "fork_wf F (insert_item d r)"
proof -
  let ?i = "idx_insert d r (fd_index d)"
  have ok: "idx_ok d ?i" and un: "fd_unlinked_index d = []"
    using wf by (auto simp: fork_wf_def intro: idx_ok_insert)
  have bound: "x < length (fd_store d)" if "x \<in> set ?i" for x
    using that set_idx_insert(1) [of d r "fd_index d"] r wf by (auto simp: fork_wf_def alive_def)
  have bound': "x < length (fd_store d)" if "x \<in> set (dropWhile P ?i)" for x P
    using bound set_dropWhileD [OF that] by blast
  have wf_i: "fork_wf F (d\<lparr>fd_index := ?i\<rparr>)"
    using wf ok bound by (auto simp: fork_wf_def alive_def)
  have wf_r: "fork_wf F (d\<lparr>fd_index := ?i, fd_head := Some r\<rparr>)"
    by (rule fork_wf_idx_head [OF wf ok]) (auto simp: r bound)
  have "fork_wf F (d\<lparr>fd_index := dropWhile P ?i, fd_head := Some r\<rparr>)" for P
    by (rule fork_wf_idx_head [OF wf idx_ok_dropWhile [OF ok]]) (auto simp: r dest: bound')
  then have wf_d: "fork_wf F (d\<lparr>fd_head := Some r, fd_index := dropWhile P ?i\<rparr>)" for P
    by (simp add: fork_wf_def alive_def)
  show ?thesis
  proof (cases "fd_head d")
    case None
    with wf_r show ?thesis by (simp add: insert_item_def)
  next
    case (Some h)
    show ?thesis
    proof (cases "num_of d r > num_of d h")
      case True
      have "fd_unlinked_index d = []" by (rule un)
      with Some True fork_wf_unlinked [OF wf_d] show ?thesis
        by (simp add: insert_item_def Let_def)
    qed (use Some wf_i in \<open>simp add: insert_item_def\<close>)
  qed
qed

lemma push_block_cases:
  assumes wf: "fork_wf F d" and p: "push_block F b d = Inr (h, d')"
  obtains d1 where "fork_wf F d1" and "h = fd_head d'" and "d' = insert_item d1 (length (fd_store d))"
    and "in_range d (block_num F b)" and "length (fd_store d1) = Suc (length (fd_store d))"
    and "fd_index d1 = fd_index d" and "fd_head d1 = fd_head d"
    and "\<forall>x < length (fd_store d). num_of d1 x = num_of d x"
    and "num_of d1 (length (fd_store d)) = block_num F b"
    and "fd_max_size d1 = fd_max_size d" and "fi_id (item d1 (length (fd_store d))) = block_id F b"
proof -
  let ?r = "length (fd_store d)" and ?d = "d\<lparr>fd_store := fd_store d @ [new_fork_item F b]\<rparr>"
  from p obtain d1 where range: "in_range ?d (num_of ?d ?r)" and l: "link_item ?d ?r = Inr d1"
    and d': "d' = insert_item d1 ?r" and h: "h = fd_head d'"
    by (auto simp: push_block_def push_item_def result_simps)
  have wf0: "fork_wf F ?d" by (rule fork_wf_alloc [OF wf])
  have na: "\<not> alive ?d ?r" using fork_wf_alive [OF wf] by auto
  note L = fork_wf_link [OF wf0 _ na l, simplified]
  have n: "num_of ?d ?r = block_num F b" "x < ?r \<Longrightarrow> num_of ?d x = num_of d x" for x
    by (simp_all add: num_of_def new_fork_item_def)
  have i: "fi_id (item ?d ?r) = block_id F b" by (simp add: new_fork_item_def)
  have "in_range d (block_num F b)"
    using range n wf by (auto simp: in_range_def fork_wf_def alive_def split: option.splits)
  moreover have "fd_max_size d1 = fd_max_size d"
    using l by (auto simp: link_item_def split: if_splits option.splits)
  ultimately show ?thesis
    using L n i d' h by (intro that [of d1]) auto
qed

lemma fork_wf_push: "fork_wf F d \<Longrightarrow> push_block F b d = Inr (h, d') \<Longrightarrow> fork_wf F d'"
  by (erule (1) push_block_cases) (simp add: fork_wf_insert_item)

lemma fork_wf_start:
  assumes wf: "fork_wf F d"
  shows "fork_wf F (start_block F b d)"
proof -
  let ?r = "length (fd_store d)" and ?d = "d\<lparr>fd_store := fd_store d @ [new_fork_item F b]\<rparr>"
  have wf0: "fork_wf F ?d" by (rule fork_wf_alloc [OF wf])
  have "fork_wf F (?d\<lparr>fd_index := idx_insert ?d ?r (fd_index d), fd_head := Some ?r\<rparr>)"
  proof (rule fork_wf_idx_head [OF wf0])
    show "idx_ok ?d (idx_insert ?d ?r (fd_index d))"
      using wf0 by (intro idx_ok_insert) (simp add: fork_wf_def)
    show "x < length (fd_store ?d)" if "x \<in> set (idx_insert ?d ?r (fd_index d))" for x
      using that set_idx_insert(1) [of ?d ?r "fd_index d"] wf by (auto simp: fork_wf_def alive_def intro: less_SucI)
  qed simp
  then show ?thesis by (simp add: start_block_def Let_def)
qed

section \<open>Reachable fork databases\<close>

text \<open>
  The calls a client can make, in any order. \<open>Hold\<close> and \<open>Drop\<close> are a caller keeping a shared
  pointer to an item it was given, and releasing all of them.
\<close>

inductive fork_reachable :: "fc_hash \<Rightarrow> 'tx fork_database \<Rightarrow> bool" for F where
  New: "fork_reachable F new_fork_database"
| Start: "fork_reachable F d \<Longrightarrow> fork_reachable F (start_block F b d)"
| Push: "fork_reachable F d \<Longrightarrow> push_block F b d = Inr (h, d') \<Longrightarrow> fork_reachable F d'"
| Pop: "fork_reachable F d \<Longrightarrow> pop_block d = Inr d' \<Longrightarrow> fork_reachable F d'"
| Reset: "fork_reachable F d \<Longrightarrow> fork_reachable F (fork_reset d)"
| Remove: "fork_reachable F d \<Longrightarrow> fork_reachable F (fork_remove i d)"
| Max_size: "fork_reachable F d \<Longrightarrow> fork_reachable F (set_max_size s d)"
| Set_head: "fork_reachable F d \<Longrightarrow> (\<forall>r. h = Some r \<longrightarrow> alive d r) \<Longrightarrow> fork_reachable F (set_head h d)"
| Hold: "fork_reachable F d \<Longrightarrow> alive d r \<Longrightarrow> fork_reachable F (d\<lparr>fd_held := r # fd_held d\<rparr>)"
| Drop: "fork_reachable F d \<Longrightarrow> fork_reachable F (d\<lparr>fd_held := []\<rparr>)"

lemma fork_reachable_wf: "fork_reachable F d \<Longrightarrow> fork_wf F d"
proof (induction rule: fork_reachable.induct)
  case (Set_head d h)
  then show ?case by (auto simp: set_head_def intro: fork_wf_head)
next
  case (Hold d r)
  then show ?case by (auto simp: fork_wf_def alive_def)
next
  case (Drop d)
  then show ?case by (auto simp: fork_wf_def alive_def)
qed (rule fork_wf_new fork_wf_start fork_wf_reset fork_wf_remove fork_wf_set_max_size
       fork_wf_push fork_wf_pop; assumption)+

section \<open>Pushing a block\<close>

text \<open>The window: no indexed block is more than \<open>_max_size\<close> below the head.\<close>

definition fork_window :: "'tx fork_database \<Rightarrow> bool" where
  "fork_window d \<longleftrightarrow> (\<forall>h x. fd_head d = Some h \<longrightarrow> x \<in> set (fd_index d) \<longrightarrow>
     uint (num_of d h) - uint (fd_max_size d) \<le> uint (num_of d x))"

lemma uint_min_num: "uint (min_num d n) = max 0 (uint n - uint (fd_max_size d))"
proof -
  let ?s = "fd_max_size d"
  show ?thesis
  proof (cases "?s \<le> n")
    case True
    then have "min ?s n = ?s" by simp
    with True show ?thesis by (simp add: min_num_def word_le_def uint_sub_if' max_def)
  next
    case False
    then have "min ?s n = n" by simp
    with False show ?thesis by (simp add: min_num_def word_le_def not_le max_def)
  qed
qed

lemma mem_dropWhile_sorted:
  fixes f :: "'a \<Rightarrow> 'b :: linorder"
  shows "sorted (map f xs) \<Longrightarrow> x \<in> set (dropWhile (\<lambda>y. f y < m) xs) \<longleftrightarrow> x \<in> set xs \<and> m \<le> f x"
  by (induction xs) auto

lemma idx_insert_known:
  "\<exists>x \<in> set (idx_insert d r idx). fi_id (item d x) = fi_id (item d r) \<and> (x = r \<or> x \<in> set idx)"
proof (cases "find_id d idx (fi_id (item d r))")
  case None
  then show ?thesis by (auto simp: idx_insert_def)
next
  case (Some y)
  with find_id_Some [OF Some] show ?thesis by (auto simp: idx_insert_def)
qed

lemma insert_item_effect:
  assumes wf: "fork_wf F d" and r: "r < length (fd_store d)"
  shows "\<exists>h. fd_head (insert_item d r) = Some h \<and>
      num_of (insert_item d r) h = (case fd_head d of None \<Rightarrow> num_of d r | Some g \<Rightarrow> max (num_of d g) (num_of d r))"
    and "fd_store (insert_item d r) = fd_store d" and "fd_max_size (insert_item d r) = fd_max_size d"
    and "num_of (insert_item d r) = num_of d"
proof -
  have it: "item (insert_item d r) = item d"
    by (auto simp: insert_item_def Let_def split: option.splits)
  then show n: "num_of (insert_item d r) = num_of d" by (simp add: num_of_def fun_eq_iff)
  show "\<exists>h. fd_head (insert_item d r) = Some h \<and>
      num_of (insert_item d r) h = (case fd_head d of None \<Rightarrow> num_of d r | Some g \<Rightarrow> max (num_of d g) (num_of d r))"
    unfolding n by (auto simp: insert_item_def Let_def max_def split: option.splits)
  show "fd_store (insert_item d r) = fd_store d" "fd_max_size (insert_item d r) = fd_max_size d"
    by (auto simp: insert_item_def Let_def split: option.splits)
qed

lemma insert_item_moves_head:
  assumes "fd_head d = Some h" and "num_of d r > num_of d h"
  shows "fd_index (insert_item d r) =
      dropWhile (\<lambda>x. num_of d x < min_num d (num_of d r)) (idx_insert d r (fd_index d))"
    and "fd_head (insert_item d r) = Some r"
  using assms by (simp_all add: insert_item_def Let_def min_num_def)

lemma insert_item_keeps_head:
  assumes "fd_head d = None \<or> (\<exists>h. fd_head d = Some h \<and> \<not> num_of d r > num_of d h)"
  shows "fd_index (insert_item d r) = idx_insert d r (fd_index d)"
    and "fd_head (insert_item d r) = (if fd_head d = None then Some r else fd_head d)"
  using assms by (auto simp: insert_item_def Let_def split: option.splits)

lemma insert_item_window:
  assumes wf: "fork_wf F d" and w: "fork_window d" and "fd_head d \<noteq> None" and range: "in_range d (num_of d r)"
  shows "fork_window (insert_item d r)"
proof -
  from assms(3) obtain h where h: "fd_head d = Some h" by auto
  have eff: "num_of (insert_item d r) = num_of d" "fd_max_size (insert_item d r) = fd_max_size d"
    by (auto simp: insert_item_def Let_def split: option.splits)
  have srt: "sorted (map (num_of d) (idx_insert d r (fd_index d)))"
    using wf idx_ok_insert by (fastforce simp: fork_wf_def idx_ok_def)
  show ?thesis
  proof (cases "num_of d r > num_of d h")
    case True
    show ?thesis
      unfolding fork_window_def eff insert_item_moves_head [of d, OF h True]
        mem_dropWhile_sorted [OF srt] word_le_def uint_min_num by auto
  next
    case False
    then have *: "fd_head d = None \<or> (\<exists>h. fd_head d = Some h \<and> \<not> num_of d r > num_of d h)"
      using h by auto
    show ?thesis
      using w range h set_idx_insert(1) [of d r "fd_index d"]
      unfolding fork_window_def eff insert_item_keeps_head [OF *] in_range_def by fastforce
  qed
qed

lemma insert_item_known:
  assumes wf: "fork_wf F d"
  shows "is_known_block (fi_id (item d r)) (insert_item d r) \<or>
    (\<exists>x \<in> set (fd_index d). fi_id (item d x) = fi_id (item d r) \<and> num_of d x \<noteq> num_of d r)"
proof -
  have it: "item (insert_item d r) = item d"
    by (auto simp: insert_item_def Let_def split: option.splits)
  obtain x where x: "x \<in> set (idx_insert d r (fd_index d))" "fi_id (item d x) = fi_id (item d r)"
    "x = r \<or> x \<in> set (fd_index d)"
    using idx_insert_known [of d r "fd_index d"] by blast
  have srt: "sorted (map (num_of d) (idx_insert d r (fd_index d)))"
    using wf idx_ok_insert by (fastforce simp: fork_wf_def idx_ok_def)
  have "uint (min_num d (num_of d r)) \<le> uint (num_of d r)"
    by (simp add: uint_min_num)
  then have le: "min_num d (num_of d r) \<le> num_of d r" by (simp add: word_le_def)
  have "x \<in> set (fd_index (insert_item d r)) \<or> (x \<in> set (fd_index d) \<and> num_of d x \<noteq> num_of d r)"
  proof (cases "fd_head d")
    case None
    with x show ?thesis by (simp add: insert_item_keeps_head)
  next
    case (Some h)
    show ?thesis
    proof (cases "num_of d r > num_of d h")
      case True
      with x le show ?thesis
        by (auto simp: insert_item_moves_head [OF Some] mem_dropWhile_sorted [OF srt])
    next
      case False
      with Some x show ?thesis by (simp add: insert_item_keeps_head)
    qed
  qed
  with x(2) it show ?thesis
    by (auto simp: is_known_block_def find_id_def find_None_mem)
qed

text \<open>C11.
  In every reachable fork database, a successful \<open>push_block\<close> makes the block known, returns the new
  head, whose number is the larger of the old head's and the block's, and keeps every indexed block
  within \<open>_max_size\<close> of the head when that held before.
\<close>

theorem push_block_effect:
  assumes hash: "block_hashing F" and reach: "fork_reachable F d"
    and push: "push_block F b d = Inr (h, d')"
  shows "is_known_block (block_id F b) d' \<and> h = fd_head d' \<and>
    (\<exists>r. h = Some r \<and> num_of d' r =
       (case fd_head d of None \<Rightarrow> block_num F b | Some g \<Rightarrow> max (num_of d g) (block_num F b))) \<and>
    (fd_head d \<noteq> None \<longrightarrow> fork_window d \<longrightarrow> fork_window d')"
proof -
  note wf = fork_reachable_wf [OF reach]
  obtain d1 where wf1: "fork_wf F d1" and h: "h = fd_head d'"
    and d': "d' = insert_item d1 (length (fd_store d))" and range: "in_range d (block_num F b)"
    and len: "length (fd_store d1) = Suc (length (fd_store d))"
    and idx: "fd_index d1 = fd_index d" and hd: "fd_head d1 = fd_head d"
    and num: "\<forall>x < length (fd_store d). num_of d1 x = num_of d x"
    and n: "num_of d1 (length (fd_store d)) = block_num F b"
    and ms: "fd_max_size d1 = fd_max_size d"
    and i: "fi_id (item d1 (length (fd_store d))) = block_id F b"
    by (rule push_block_cases [OF wf push]) (rule that)
  note same = idx hd ms and new = n i
  let ?r = "length (fd_store d)"
  have own: "x < length (fd_store d)" if "x \<in> set (fd_index d) \<or> fd_head d = Some x" for x
    using wf that by (auto simp: fork_wf_def alive_def)
  have same_num: "num_of d1 x = num_of d1 ?r"
    if "x \<in> set (fd_index d1)" "fi_id (item d1 x) = fi_id (item d1 ?r)" for x
  proof -
    have "x < length (fd_store d1)" "?r < length (fd_store d1)" using own [of x] that same len by auto
    then have "item_ok F d1 x" "item_ok F d1 ?r" using wf1 by (auto simp: fork_wf_def)
    with that show ?thesis
      by (metis block_hashing.num_from_block_id [OF hash] item_ok_def num_of_def)
  qed
  have known: "is_known_block (block_id F b) d'"
    using insert_item_known [OF wf1, of ?r] same_num new(2) by (auto simp: d')
  have "?r < length (fd_store d1)" by (simp add: len)
  note eff = insert_item_effect [OF wf1 this, folded d']
  have head: "\<exists>r. h = Some r \<and> num_of d' r =
      (case fd_head d of None \<Rightarrow> block_num F b | Some g \<Rightarrow> max (num_of d g) (block_num F b))"
    using eff(1) own num by (auto simp: h same new(1) split: option.splits)
  have "fork_window d'" if "fd_head d \<noteq> None" "fork_window d"
  proof -
    have "fork_window d1" "in_range d1 (num_of d1 ?r)"
      using that(2) range own num unfolding fork_window_def in_range_def same new(1)
      by (auto split: option.splits)
    with that(1) same show ?thesis unfolding d' by (intro insert_item_window [OF wf1]) simp_all
  qed
  with known head h show ?thesis by blast
qed

lemma previous_id_new: "previous_id (new_fork_item F b) = bh_previous b"
  by (simp add: previous_id_def new_fork_item_def)

lemma find_id_alloc:
  assumes "fork_wf F d"
  shows "find_id (d\<lparr>fd_store := fd_store d @ xs\<rparr>) (fd_index d) i = find_id d (fd_index d) i"
proof -
  have "\<And>r. r \<in> set (fd_index d) \<Longrightarrow> item (d\<lparr>fd_store := fd_store d @ xs\<rparr>) r = item d r"
    using assms by (auto simp: fork_wf_def alive_def)
  then show ?thesis unfolding find_id_def by (simp cong: find_cong)
qed

lemma in_range_alloc:
  assumes "fork_wf F d"
  shows "in_range (d\<lparr>fd_store := fd_store d @ xs\<rparr>) n = in_range d n"
  using assms by (auto simp: in_range_def num_of_def fork_wf_def alive_def split: option.splits)

text \<open>
  \<open>push_block\<close> throws exactly for a block that lies \<open>_max_size\<close> or more below the head (or is number 0), and, on a
  non-empty database, for one that names an unknown predecessor other than the null id. The comment of the code
  says that the latter are cached; they are refused.
\<close>

lemma push_block_errors:
  assumes reach: "fork_reachable F d"
  shows "push_block F b d = Inl e \<longleftrightarrow>
    (if \<exists>h. fd_head d = Some h \<and> uint (block_num F b) \<le> max 0 (uint (num_of d h) - uint (fd_max_size d)) then e = Assert_failed
     else fd_head d \<noteq> None \<and> bh_previous b \<noteq> zero_block_id \<and> \<not> is_known_block (bh_previous b) d \<and> e = Unlinkable_block_exception)"
proof -
  note wf = fork_reachable_wf [OF reach]
  let ?r = "length (fd_store d)" and ?d = "d\<lparr>fd_store := fd_store d @ [new_fork_item F b]\<rparr>"
  have n: "num_of ?d ?r = block_num F b" by (simp add: num_of_def) (simp add: new_fork_item_def)
  have un: "find_id d (fd_unlinked_index d) i = None" for i
    using wf by (simp add: fork_wf_def find_id_None)
  have l: "link_item ?d ?r = Inl e \<longleftrightarrow> fd_head d \<noteq> None \<and> bh_previous b \<noteq> zero_block_id \<and>
      \<not> is_known_block (bh_previous b) d \<and> e = Unlinkable_block_exception"
    by (auto simp: link_item_def previous_id_new find_id_alloc [OF wf] is_known_block_def un
        split: option.splits)
  have range: "in_range d (block_num F b) \<longleftrightarrow>
      \<not> (\<exists>h. fd_head d = Some h \<and> uint (block_num F b) \<le> max 0 (uint (num_of d h) - uint (fd_max_size d)))"
    by (auto simp: in_range_def not_le split: option.splits)
  show ?thesis
    unfolding push_block_def push_item_def n in_range_alloc [OF wf]
    by (cases "in_range d (block_num F b)") (use range in \<open>auto simp: ensure_Inl rbind_Inl l\<close>)
qed

section \<open>Branches\<close>

fun prev_chain :: "'tx fork_database \<Rightarrow> nat list \<Rightarrow> bool" where
  "prev_chain d (r # s # xs) \<longleftrightarrow> lock_prev d r = Some s \<and> prev_chain d (s # xs)"
| "prev_chain d xs \<longleftrightarrow> True"

lemma prev_chain_snoc: "prev_chain d (xs @ [r]) \<Longrightarrow> lock_prev d r = Some p \<Longrightarrow> prev_chain d (xs @ [r, p])"
  by (induction d xs rule: prev_chain.induct) auto

definition branch_from :: "'tx fork_database \<Rightarrow> nat \<Rightarrow> nat list \<Rightarrow> nat \<Rightarrow> bool" where
  "branch_from d a xs r \<longleftrightarrow> prev_chain d (xs @ [r]) \<and> hd (xs @ [r]) = a \<and> r < length (fd_store d)"

lemma branch_from_step:
  assumes "fork_wf F d" "branch_from d a xs r" "lock_prev d r = Some p"
  shows "branch_from d a (xs @ [r]) p"
proof -
  have "p < length (fd_store d)"
    using lock_prev_alive [OF assms(3)] fork_wf_alive [OF assms(1)] by blast
  moreover have "hd (xs @ [r, p]) = hd (xs @ [r])" by (cases xs) auto
  ultimately show ?thesis
    using assms prev_chain_snoc [of d xs r p] by (simp add: branch_from_def)
qed

lemma prev_older:
  assumes "fork_wf F d" "r < length (fd_store d)" "lock_prev d r = Some p"
  shows "p < r" and "fi_id (item d p) = previous_id (item d r)"
proof -
  have "item_ok F d r" using assms(1,2) by (simp add: fork_wf_def)
  with lock_prev_alive [OF assms(3)] show "p < r" "fi_id (item d p) = previous_id (item d r)"
    by (simp_all add: item_ok_def)
qed

lemma prev_num:
  assumes hash: "block_hashing F" and wf: "fork_wf F d" and r: "r < length (fd_store d)"
    and p: "lock_prev d r = Some p"
  shows "num_of d r = num_of d p + 1"
proof -
  have "p < length (fd_store d)" using prev_older(1) [OF wf r p] r by simp
  with wf r have "item_ok F d p" "item_ok F d r" by (simp_all add: fork_wf_def)
  moreover from this prev_older(2) [OF wf r p]
  have "bh_previous (fi_data (item d r)) = block_id F (fi_data (item d p))"
    by (simp add: item_ok_def previous_id_def)
  ultimately show ?thesis
    using block_hashing.child_num [OF hash] by (simp add: num_of_def item_ok_def)
qed

lemma word_pred_ge: "n < p + 1 \<Longrightarrow> n \<le> p" for n p :: u32
  by uint_arith

lemma walk_down_spec:
  assumes wf: "fork_wf F d" and hash: "block_hashing F" and "branch_from d a xs r"
  shows "\<exists>res. walk_down d n r xs = Some res \<and> (\<forall>ys s. res = Inr (ys, s) \<longrightarrow>
    branch_from d a ys s \<and> num_of d s = min (num_of d r) n \<and> (num_of d r \<le> n \<longrightarrow> ys = xs \<and> s = r))"
  using assms(3)
proof (induction r arbitrary: xs rule: less_induct)
  case (less r)
  have r: "r < length (fd_store d)" using less.prems by (simp add: branch_from_def)
  show ?case
  proof (cases "num_of d r > n")
    case True
    show ?thesis
    proof (cases "lock_prev d r")
      case None
      with True show ?thesis by (subst walk_down.simps) simp
    next
      case (Some p)
      have pr: "p < r" using prev_older(1) [OF wf r Some] .
      have num: "num_of d r = num_of d p + 1" by (rule prev_num [OF hash wf r Some])
      then have "n \<le> num_of d p" using True by (simp add: word_pred_ge)
      then have "min (num_of d p) n = n" "min (num_of d r) n = n" "num_of d p \<le> n \<longrightarrow> num_of d p = n"
        using True by auto
      moreover obtain res where "walk_down d n p (xs @ [r]) = Some res" "\<forall>ys s. res = Inr (ys, s) \<longrightarrow>
          branch_from d a ys s \<and> num_of d s = min (num_of d p) n"
        using less.IH [OF pr branch_from_step [OF wf less.prems Some]] by blast
      moreover have "walk_down d n r xs = walk_down d n p (xs @ [r])"
        using True Some by (subst walk_down.simps) simp
      ultimately show ?thesis
        using True by (metis linorder_not_le)
    qed
  next
    case False
    with less.prems show ?thesis by (subst walk_down.simps) auto
  qed
qed

lemma walk_both_spec:
  assumes wf: "fork_wf F d" and hash: "block_hashing F" and "branch_from d a xs r" "branch_from d b ys s"
    "num_of d r = num_of d s"
  shows "\<exists>res. walk_both d r s xs ys = Some res \<and> (\<forall>us vs. res = Inr (us, vs) \<longrightarrow>
    (\<exists>xs' r' ys' s'. us = xs @ xs' @ [r'] \<and> vs = ys @ ys' @ [s'] \<and> length xs' = length ys' \<and>
      branch_from d a (xs @ xs') r' \<and> branch_from d b (ys @ ys') s' \<and>
      num_of d r' = num_of d s' \<and> previous_id (item d r') = previous_id (item d s') \<and>
      list_all2 (\<lambda>x y. previous_id (item d x) \<noteq> previous_id (item d y)) xs' ys'))"
  using assms(3-)
proof (induction r arbitrary: xs ys s rule: less_induct)
  case (less r)
  have r: "r < length (fd_store d)" "s < length (fd_store d)"
    using less.prems by (simp_all add: branch_from_def)
  show ?case
  proof (cases "previous_id (item d r) = previous_id (item d s)")
    case True
    with less.prems show ?thesis
      by (subst walk_both.simps) (auto intro!: exI [of _ "[]"])
  next
    case False
    consider "lock_prev d r = None \<or> lock_prev d s = None"
      | p q where "lock_prev d r = Some p" "lock_prev d s = Some q" by fastforce
    then show ?thesis
    proof cases
      case 1
      with False show ?thesis by (subst walk_both.simps) (auto split: option.splits)
    next
      case (2 p q)
      have "num_of d p = num_of d q"
        using prev_num [OF hash wf r(1) 2(1)] prev_num [OF hash wf r(2) 2(2)] less.prems(3) by simp
      from less.IH [OF prev_older(1) [OF wf r(1) 2(1)] branch_from_step [OF wf less.prems(1) 2(1)]
          branch_from_step [OF wf less.prems(2) 2(2)] this]
      obtain res where res: "walk_both d p q (xs @ [r]) (ys @ [s]) = Some res"
        and post: "\<forall>us vs. res = Inr (us, vs) \<longrightarrow>
          (\<exists>xs' r' ys' s'. us = (xs @ [r]) @ xs' @ [r'] \<and> vs = (ys @ [s]) @ ys' @ [s'] \<and>
            length xs' = length ys' \<and> branch_from d a ((xs @ [r]) @ xs') r' \<and>
            branch_from d b ((ys @ [s]) @ ys') s' \<and> num_of d r' = num_of d s' \<and>
            previous_id (item d r') = previous_id (item d s') \<and>
            list_all2 (\<lambda>x y. previous_id (item d x) \<noteq> previous_id (item d y)) xs' ys')"
        by blast
      have "walk_both d r s xs ys = Some res"
        using False 2 res by (subst walk_both.simps) simp
      moreover have "\<exists>xs' r' ys' s'. us = xs @ xs' @ [r'] \<and> vs = ys @ ys' @ [s'] \<and> length xs' = length ys' \<and>
          branch_from d a (xs @ xs') r' \<and> branch_from d b (ys @ ys') s' \<and>
          num_of d r' = num_of d s' \<and> previous_id (item d r') = previous_id (item d s') \<and>
          list_all2 (\<lambda>x y. previous_id (item d x) \<noteq> previous_id (item d y)) xs' ys'"
        if "res = Inr (us, vs)" for us vs
      proof -
        from post that obtain xs' r' ys' s' where
          "us = (xs @ [r]) @ xs' @ [r']" "vs = (ys @ [s]) @ ys' @ [s']" "length xs' = length ys'"
          "branch_from d a ((xs @ [r]) @ xs') r'" "branch_from d b ((ys @ [s]) @ ys') s'"
          "num_of d r' = num_of d s'" "previous_id (item d r') = previous_id (item d s')"
          "list_all2 (\<lambda>x y. previous_id (item d x) \<noteq> previous_id (item d y)) xs' ys'"
          by blast
        with False show ?thesis
          by (intro exI [of _ "r # xs'"] exI [of _ r'] exI [of _ "s # ys'"] exI [of _ s']) simp
      qed
      ultimately show ?thesis by blast
    qed
  qed
qed

lemma walk_both_differ:
  assumes "list_all2 (\<lambda>x y. previous_id (item d x) \<noteq> previous_id (item d y)) xs' ys'"
    and "xs = [] \<or> ys = []" and "us = xs @ xs' @ [r]" and "vs = ys @ ys' @ [s]"
    and k: "0 < k" "k < length us" "k < length vs"
  shows "previous_id (item d (rev us ! k)) \<noteq> previous_id (item d (rev vs ! k))"
proof -
  have len: "length xs' = length ys'" using assms(1) by (rule list_all2_lengthD)
  obtain j where j: "k = Suc j" using k(1) by (cases k) auto
  then have jl: "j < length xs'" using assms(2-4) k len by auto
  then have "rev us ! k = rev xs' ! j" "rev vs ! k = rev ys' ! j"
    using assms(3,4) j len by (simp_all add: nth_append)
  with jl len show ?thesis
    using list_all2_nthD [OF assms(1), of "length xs' - Suc j"] by (simp add: rev_nth)
qed

text \<open>The contract of \<open>fetch_branch_from\<close> on two items.\<close>

definition branches_meet :: "'tx fork_database \<Rightarrow> nat \<Rightarrow> nat \<Rightarrow> nat list \<Rightarrow> nat list \<Rightarrow> bool" where
  "branches_meet d r s us vs \<longleftrightarrow> us \<noteq> [] \<and> vs \<noteq> [] \<and> hd us = r \<and> hd vs = s \<and>
     prev_chain d us \<and> prev_chain d vs \<and> num_of d (last us) = num_of d (last vs) \<and>
     previous_id (item d (last us)) = previous_id (item d (last vs)) \<and>
     (\<forall>k. 0 < k \<longrightarrow> k < length us \<longrightarrow> k < length vs \<longrightarrow>
        previous_id (item d (rev us ! k)) \<noteq> previous_id (item d (rev vs ! k)))"

lemma walk_both_meets:
  assumes "fork_wf F d" "block_hashing F" "branch_from d r xs r'" "branch_from d s ys s'"
    "num_of d r' = num_of d s'" "xs = [] \<or> ys = []"
  shows "\<exists>res. walk_both d r' s' xs ys = Some res \<and> (\<forall>us vs. res = Inr (us, vs) \<longrightarrow> branches_meet d r s us vs)"
proof -
  obtain res where wb: "walk_both d r' s' xs ys = Some res"
    and post: "\<forall>us vs. res = Inr (us, vs) \<longrightarrow>
      (\<exists>xs' x ys' y. us = xs @ xs' @ [x] \<and> vs = ys @ ys' @ [y] \<and> length xs' = length ys' \<and>
        branch_from d r (xs @ xs') x \<and> branch_from d s (ys @ ys') y \<and>
        num_of d x = num_of d y \<and> previous_id (item d x) = previous_id (item d y) \<and>
        list_all2 (\<lambda>x y. previous_id (item d x) \<noteq> previous_id (item d y)) xs' ys')"
    using walk_both_spec [OF assms(1-5)] by blast
  have "branches_meet d r s us vs" if "res = Inr (us, vs)" for us vs
  proof -
    from post that obtain xs' x ys' y where e: "us = xs @ xs' @ [x]" "vs = ys @ ys' @ [y]"
      and b: "branch_from d r (xs @ xs') x" "branch_from d s (ys @ ys') y"
      and m: "num_of d x = num_of d y" "previous_id (item d x) = previous_id (item d y)"
      and l: "list_all2 (\<lambda>x y. previous_id (item d x) \<noteq> previous_id (item d y)) xs' ys'" by blast
    have "previous_id (item d (rev us ! k)) \<noteq> previous_id (item d (rev vs ! k))"
      if "0 < k" "k < length us" "k < length vs" for k
      by (rule walk_both_differ [OF l assms(6) e that])
    with b m show ?thesis by (simp add: branches_meet_def branch_from_def e)
  qed
  with wb show ?thesis by blast
qed

lemma branch_from_start: "fork_wf F d \<Longrightarrow> find_id d (fd_index d) i = Some x \<Longrightarrow> branch_from d x [] x"
  by (drule find_id_Some) (auto simp: branch_from_def fork_wf_def alive_def)

lemma fetch_branches_meet:
  assumes wf: "fork_wf F d" and hash: "block_hashing F"
    and r: "find_id d (fd_index d) i = Some r" and s: "find_id d (fd_index d) j = Some s"
  shows "\<exists>res. fetch_branch_from i j d = Some res \<and> (\<forall>us vs. res = Inr (us, vs) \<longrightarrow> branches_meet d r s us vs)"
proof -
  obtain res1 where w1: "walk_down d (num_of d s) r [] = Some res1"
    and p1: "\<forall>xs r'. res1 = Inr (xs, r') \<longrightarrow> branch_from d r xs r' \<and>
      num_of d r' = min (num_of d r) (num_of d s) \<and> (num_of d r \<le> num_of d s \<longrightarrow> xs = [] \<and> r' = r)"
    using walk_down_spec [OF wf hash branch_from_start [OF wf r]] by blast
  show ?thesis
  proof (cases res1)
    case (Inl e)
    with r s w1 show ?thesis by (simp add: fetch_branch_from_def)
  next
    case (Inr q)
    then obtain xs r' where r1: "res1 = Inr (xs, r')" by (cases q) auto
    with p1 have b1: "branch_from d r xs r'" "num_of d r' = min (num_of d r) (num_of d s)"
      "num_of d r \<le> num_of d s \<longrightarrow> xs = []" by auto
    obtain res2 where w2: "walk_down d (num_of d r') s [] = Some res2"
      and p2: "\<forall>ys s'. res2 = Inr (ys, s') \<longrightarrow> branch_from d s ys s' \<and>
        num_of d s' = min (num_of d s) (num_of d r') \<and> (num_of d s \<le> num_of d r' \<longrightarrow> ys = [] \<and> s' = s)"
      using walk_down_spec [OF wf hash branch_from_start [OF wf s]] by blast
    show ?thesis
    proof (cases res2)
      case (Inl e)
      with r s w1 w2 r1 show ?thesis by (simp add: fetch_branch_from_def)
    next
      case (Inr q')
      then obtain ys s' where r2: "res2 = Inr (ys, s')" by (cases q') auto
      with p2 b1 have b2: "branch_from d s ys s'" "num_of d r' = num_of d s'" "xs = [] \<or> ys = []"
        by (auto simp: min_def split: if_splits)
      have "fetch_branch_from i j d = walk_both d r' s' xs ys"
        using r s w1 w2 r1 r2 by (simp add: fetch_branch_from_def)
      with walk_both_meets [OF wf hash b1(1) b2] show ?thesis by simp
    qed
  qed
qed

text \<open>C12.
  \<open>fetch_branch_from\<close> returns on every reachable fork database. When it does not throw, its two
  results are the chains of predecessors of the two given blocks, down to two blocks with the same
  number and the same predecessor; before that their predecessors differ.
\<close>

theorem fetch_branch_from_correct:
  assumes "block_hashing F" and "fork_reachable F d"
  shows "\<exists>res. fetch_branch_from i j d = Some res \<and> (\<forall>us vs. res = Inr (us, vs) \<longrightarrow>
    (\<exists>r s. find_id d (fd_index d) i = Some r \<and> find_id d (fd_index d) j = Some s \<and>
       branches_meet d r s us vs))"
proof (cases "find_id d (fd_index d) i = None \<or> find_id d (fd_index d) j = None")
  case True
  then show ?thesis by (auto simp: fetch_branch_from_def split: option.splits)
next
  case False
  then obtain r s where "find_id d (fd_index d) i = Some r" "find_id d (fd_index d) j = Some s"
    by auto
  with fetch_branches_meet [OF fork_reachable_wf [OF assms(2)] assms(1) this] show ?thesis by auto
qed

section \<open>A concrete fork\<close>

text \<open>Block 1, two children of it, and a child of the first: the branches meet below block 2.\<close>

definition plain_hash :: fc_hash where
  "plain_hash = \<lparr>endian_reverse_u32 = (\<lambda>w. w), sha224 = (\<lambda>h. [0, of_nat (bh_witness h), 0, 0, 0, 0, 0])\<rparr>"

lemma plain_hashing: "block_hashing plain_hash"
  by unfold_locales (simp_all add: plain_hash_def)

definition blk :: "nat \<Rightarrow> block_id_type \<Rightarrow> nat signed_block" where
  "blk w p = sample_block\<lparr>bh_witness := w, bh_previous := p\<rparr>"

definition id_1 :: block_id_type where
  "id_1 = [1, 1, 0, 0, 0]"

definition id_2a :: block_id_type where
  "id_2a = [2, 2, 0, 0, 0]"

definition id_2b :: block_id_type where
  "id_2b = [2, 3, 0, 0, 0]"

definition id_3 :: block_id_type where
  "id_3 = [3, 4, 0, 0, 0]"

definition fork_1 :: "nat fork_database" where
  "fork_1 = start_block plain_hash (blk 1 zero_block_id) new_fork_database"

definition push_all :: "nat signed_block list \<Rightarrow> nat fork_database result" where
  "push_all bs = fold_result (\<lambda>b d. rbind (push_block plain_hash b d) (\<lambda>(h, d'). Inr d')) bs fork_1"

definition fork_3 :: "nat fork_database" where
  "fork_3 = projr (push_all [blk 2 id_1, blk 3 id_1, blk 4 id_2a])"

lemma push_all_reachable: "push_all bs = Inr d \<Longrightarrow> fork_reachable plain_hash d"
  unfolding push_all_def
  by (erule fold_result_invariant [where P = "fork_reachable plain_hash"])
     (auto simp: fork_1_def result_simps split: prod.splits intro: fork_reachable.intros)

lemma fork_3_pushed: "push_all [blk 2 id_1, blk 3 id_1, blk 4 id_2a] = Inr fork_3"
  unfolding fork_3_def by code_simp

theorem fetch_branch_from_correct_witness:
  "block_hashing plain_hash \<and> fork_reachable plain_hash fork_3 \<and>
   fetch_branch_from id_3 id_2b fork_3 = Some (Inr ([3, 1], [2])) \<and> branches_meet fork_3 3 2 [3, 1] [2]"
proof -
  have r: "fork_reachable plain_hash fork_3" by (rule push_all_reachable [OF fork_3_pushed])
  have i: "find_id fork_3 (fd_index fork_3) id_3 = Some 3" by code_simp
  have j: "find_id fork_3 (fd_index fork_3) id_2b = Some 2" by code_simp
  have n: "num_of fork_3 3 = 3" "num_of fork_3 2 = 2" "num_of fork_3 1 = 2" by code_simp+
  have l: "lock_prev fork_3 3 = Some 1" by code_simp
  have p: "previous_id (item fork_3 1) = previous_id (item fork_3 2)" by code_simp
  have f: "fetch_branch_from id_3 id_2b fork_3 = Some (Inr ([3, 1], [2]))"
    by (simp del: One_nat_def add: fetch_branch_from_def i j n l p walk_down.simps [of fork_3 _ 3]
        walk_down.simps [of fork_3 _ 1] walk_down.simps [of fork_3 _ 2] walk_both.simps [of fork_3 1 2])
  from fetch_branch_from_correct [OF plain_hashing r, of id_3 id_2b]
  have "branches_meet fork_3 3 2 [3, 1] [2]" unfolding f i j by auto
  with r f plain_hashing show ?thesis by blast
qed

theorem push_block_effect_witness:
  "block_hashing plain_hash \<and> fork_reachable plain_hash fork_1 \<and>
   (\<exists>h d'. push_block plain_hash (blk 2 id_1) fork_1 = Inr (h, d') \<and>
     is_known_block id_2a d' \<and> fork_window d')"
proof -
  have r: "fork_reachable plain_hash fork_1"
    unfolding fork_1_def by (intro fork_reachable.intros)
  obtain h d' where p: "push_block plain_hash (blk 2 id_1) fork_1 = Inr (h, d')"
  proof -
    have "\<not> isl (push_block plain_hash (blk 2 id_1) fork_1)" by code_simp
    then show thesis using that by (cases "push_block plain_hash (blk 2 id_1) fork_1") auto
  qed
  have "fork_window fork_1"
    by (simp add: fork_window_def fork_1_def start_block_def new_fork_database_def idx_insert_def
        find_id_def num_of_def item_def)
  moreover have "fd_head fork_1 \<noteq> None" by (simp add: fork_1_def start_block_def Let_def)
  moreover have "block_id plain_hash (blk 2 id_1) = id_2a" by code_simp
  ultimately show ?thesis
    using push_block_effect [OF plain_hashing r p] r p plain_hashing by auto
qed

end
