(* ===== verification/Asset_Price.thy ===== *)
theory Asset_Price
  imports Complex_Main Gxb_Prelude
begin

text \<open>
  Amounts and prices (protocol/asset.hpp, protocol/asset.cpp): arithmetic on amounts of one asset,
  the order on prices by 128-bit cross multiplication, conversion of an amount by a price, and the
  two prices derived from a collateral ratio, whose terms are halved until they fit the supply.

  \<open>uint128_t\<close> is a 128-bit word. A \<open>boost::rational\<close> over 128-bit integers is a pair in lowest
  terms with a positive denominator; the terms the code builds stay below \<open>2 ^ 80\<close>.
\<close>

section \<open>Amounts\<close>

type_synonym asset_id_type = nat

record asset =
  amount :: share_type
  asset_id :: asset_id_type

definition mk_asset :: "share_type \<Rightarrow> asset_id_type \<Rightarrow> asset" where
  "mk_asset a i = \<lparr>amount = a, asset_id = i\<rparr>"

lemma mk_asset_sel [simp]: "amount (mk_asset a i) = a" "asset_id (mk_asset a i) = i"
  by (simp_all add: mk_asset_def)

lemma mk_asset_inject [simp]: "mk_asset a i = mk_asset b j \<longleftrightarrow> a = b \<and> i = j"
  by (simp add: mk_asset_def)

definition GRAPHENE_MAX_SHARE_SUPPLY :: int where
  "GRAPHENE_MAX_SHARE_SUPPLY = 100000000000000000"

definition asset_add :: "safe_ops \<Rightarrow> asset \<Rightarrow> asset \<Rightarrow> asset result" where
  "asset_add S a b =
     fc_assert (asset_id a = asset_id b)
       (rbind (safe_add S (amount a) (amount b)) (\<lambda>v. Inr (mk_asset v (asset_id a))))"

definition asset_sub :: "safe_ops \<Rightarrow> asset \<Rightarrow> asset \<Rightarrow> asset result" where
  "asset_sub S a b =
     fc_assert (asset_id a = asset_id b)
       (rbind (safe_sub S (amount a) (amount b)) (\<lambda>v. Inr (mk_asset v (asset_id a))))"

definition asset_neg :: "safe_ops \<Rightarrow> asset \<Rightarrow> asset result" where
  "asset_neg S a = rbind (safe_neg S (amount a)) (\<lambda>v. Inr (mk_asset v (asset_id a)))"

definition asset_lt :: "asset \<Rightarrow> asset \<Rightarrow> bool result" where
  "asset_lt a b = fc_assert (asset_id a = asset_id b) (Inr (amount a < amount b))"

definition asset_le :: "asset \<Rightarrow> asset \<Rightarrow> bool result" where
  "asset_le a b = (if a = b then Inr True else asset_lt a b)"

definition asset_gt :: "asset \<Rightarrow> asset \<Rightarrow> bool result" where
  "asset_gt a b = rbind (asset_le a b) (\<lambda>r. Inr (\<not> r))"

definition asset_ge :: "asset \<Rightarrow> asset \<Rightarrow> bool result" where
  "asset_ge a b = rbind (asset_lt a b) (\<lambda>r. Inr (\<not> r))"

lemma asset_ge_Inr [result_simps]:
  "asset_ge a b = Inr r \<longleftrightarrow> asset_id a = asset_id b \<and> r = (amount b \<le> amount a)"
  by (auto simp: asset_ge_def asset_lt_def result_simps)

lemma asset_gt_Inr [result_simps]:
  "asset_gt a b = Inr r \<longleftrightarrow> asset_id a = asset_id b \<and> r = (amount b < amount a)"
  by (cases a; cases b) (auto simp: asset_gt_def asset_le_def asset_lt_def result_simps)

definition scaled_precision_lut :: "share_type list" where
  "scaled_precision_lut = map (\<lambda>n. 10 ^ n) [0..<19]"

definition scaled_precision :: "nat \<Rightarrow> share_type result" where
  "scaled_precision p = fc_assert (p < 19) (Inr (scaled_precision_lut ! p))"

section \<open>Prices\<close>

record price =
  base :: asset
  quote :: asset

definition mk_price :: "asset \<Rightarrow> asset \<Rightarrow> price" where
  "mk_price b q = \<lparr>base = b, quote = q\<rparr>"

lemma mk_price_sel [simp]: "base (mk_price b q) = b" "quote (mk_price b q) = q"
  by (simp_all add: mk_price_def)

definition null_price :: price where
  "null_price = mk_price (mk_asset 0 0) (mk_asset 0 0)"

definition cross :: "asset \<Rightarrow> asset \<Rightarrow> uint128" where
  "cross a b = u128 (amount a) * u128 (amount b)"

definition price_eq :: "price \<Rightarrow> price \<Rightarrow> bool" where
  "price_eq a b \<longleftrightarrow>
     (asset_id (base a), asset_id (quote a)) = (asset_id (base b), asset_id (quote b)) \<and>
     cross (quote b) (base a) = cross (quote a) (base b)"

definition price_lt :: "price \<Rightarrow> price \<Rightarrow> bool" where
  "price_lt a b =
     (if asset_id (base a) < asset_id (base b) then True
      else if asset_id (base a) > asset_id (base b) then False
      else if asset_id (quote a) < asset_id (quote b) then True
      else if asset_id (quote a) > asset_id (quote b) then False
      else cross (quote b) (base a) < cross (quote a) (base b))"

definition price_le :: "price \<Rightarrow> price \<Rightarrow> bool" where
  "price_le a b \<longleftrightarrow> price_eq a b \<or> price_lt a b"

definition asset_times :: "asset \<Rightarrow> price \<Rightarrow> asset result" where
  "asset_times a b =
     (if asset_id a = asset_id (base b) then
        fc_assert (amount (base b) > 0)
          (let r = cross a (quote b) div u128 (amount (base b))
           in fc_assert (r \<le> u128 GRAPHENE_MAX_SHARE_SUPPLY)
                (Inr (mk_asset (to_uint64 r) (asset_id (quote b)))))
      else if asset_id a = asset_id (quote b) then
        fc_assert (amount (quote b) > 0)
          (let r = cross a (base b) div u128 (amount (quote b))
           in fc_assert (r \<le> u128 GRAPHENE_MAX_SHARE_SUPPLY)
                (Inr (mk_asset (to_uint64 r) (asset_id (base b)))))
      else Inl Assert_failed)"

definition asset_div :: "asset \<Rightarrow> asset \<Rightarrow> price result" where
  "asset_div b q = fc_assert (asset_id b \<noteq> asset_id q) (Inr (mk_price b q))"

definition price_inv :: "price \<Rightarrow> price" where
  "price_inv p = mk_price (quote p) (base p)"

definition price_max :: "asset_id_type \<Rightarrow> asset_id_type \<Rightarrow> price result" where
  "price_max b q = asset_div (mk_asset GRAPHENE_MAX_SHARE_SUPPLY b) (mk_asset 1 q)"

definition price_min :: "asset_id_type \<Rightarrow> asset_id_type \<Rightarrow> price result" where
  "price_min b q = asset_div (mk_asset 1 b) (mk_asset GRAPHENE_MAX_SHARE_SUPPLY q)"

definition unit_price :: "asset_id_type \<Rightarrow> price" where
  "unit_price a = mk_price (mk_asset 1 a) (mk_asset 1 a)"

definition price_is_null :: "price \<Rightarrow> bool" where
  "price_is_null p = price_eq p null_price"

definition price_validate :: "price \<Rightarrow> unit result" where
  "price_validate p =
     fc_assert (amount (base p) > 0)
     (fc_assert (amount (quote p) > 0)
     (fc_assert (asset_id (base p) \<noteq> asset_id (quote p)) (Inr ())))"

section \<open>Rationals and the collateral prices\<close>

type_synonym rational = "int \<times> int"

definition mk_rational :: "int \<Rightarrow> int \<Rightarrow> rational result" where
  "mk_rational n d =
     ensure (d \<noteq> 0) Bad_rational (let g = gcd n d in Inr (sgn d * n div g, \<bar>d\<bar> div g))"

definition rational_times :: "rational \<Rightarrow> rational \<Rightarrow> rational result" where
  "rational_times a b = mk_rational (fst a * fst b) (snd a * snd b)"

definition too_large :: "rational \<Rightarrow> bool" where
  "too_large cp \<longleftrightarrow> fst cp > GRAPHENE_MAX_SHARE_SUPPLY \<or> snd cp > GRAPHENE_MAX_SHARE_SUPPLY"

text \<open>
  The loop of both prices halves both terms while one exceeds the supply: \<open>call_price\<close> with
  \<open>(x >> 1) + 1\<close>, \<open>max_short_squeeze_price\<close> with \<open>(x >> 1) + (x & 1)\<close>.
\<close>

datatype halving = Plus_one | Round_up

fun halve :: "halving \<Rightarrow> int \<Rightarrow> int" where
  "halve Plus_one x = x div 2 + 1"
| "halve Round_up x = x div 2 + x mod 2"

lemma halve_bounds:
  "\<bar>halve h x\<bar> \<le> \<bar>x\<bar> + 1" "GRAPHENE_MAX_SHARE_SUPPLY < x \<Longrightarrow> \<bar>halve h x\<bar> + 2 < \<bar>x\<bar>"
  "0 < x \<Longrightarrow> 0 < halve h x"
proof -
  have "x div 2 * 2 + x mod 2 = x" "0 \<le> x mod 2" "x mod 2 \<le> 1" by simp_all
  then show "\<bar>halve h x\<bar> \<le> \<bar>x\<bar> + 1" "GRAPHENE_MAX_SHARE_SUPPLY < x \<Longrightarrow> \<bar>halve h x\<bar> + 2 < \<bar>x\<bar>"
    "0 < x \<Longrightarrow> 0 < halve h x"
    by (cases h; simp add: GRAPHENE_MAX_SHARE_SUPPLY_def; linarith)+
qed

lemma mk_rational_le:
  assumes "mk_rational n d = Inr (n', d')"
  shows "\<bar>n'\<bar> \<le> \<bar>n\<bar>" and "\<bar>d'\<bar> \<le> \<bar>d\<bar>"
proof -
  from assms have d: "d \<noteq> 0" "n' = sgn d * n div gcd n d" "d' = \<bar>d\<bar> div gcd n d"
    by (auto simp: mk_rational_def result_simps Let_def)
  then have g: "0 < gcd n d" "gcd n d dvd n" "gcd n d dvd d" by (auto simp: gcd_pos_int)
  have dv: "\<bar>x div gcd n d\<bar> \<le> \<bar>x\<bar>" if "gcd n d dvd x" for x
  proof -
    from that obtain k where k: "x = gcd n d * k" by (elim dvdE)
    with g(1) have "x div gcd n d = k" by simp
    moreover have "1 * \<bar>k\<bar> \<le> gcd n d * \<bar>k\<bar>" using g(1) by (intro mult_right_mono) linarith+
    ultimately show ?thesis using g(1) by (simp add: k abs_mult)
  qed
  have "\<bar>sgn d * n\<bar> = \<bar>n\<bar>" using d(1) by (simp add: abs_mult)
  then show "\<bar>n'\<bar> \<le> \<bar>n\<bar>" "\<bar>d'\<bar> \<le> \<bar>d\<bar>"
    using dv [of "sgn d * n"] dv [of "\<bar>d\<bar>"] g d by auto
qed

function shrink_rational :: "halving \<Rightarrow> rational \<Rightarrow> rational result" where
  "shrink_rational h cp =
     (if too_large cp
      then rbind (mk_rational (halve h (fst cp)) (halve h (snd cp))) (shrink_rational h)
      else Inr cp)"
  by pat_completeness auto
termination
proof (relation "measure (\<lambda>(h, cp). nat (\<bar>fst cp\<bar> + \<bar>snd cp\<bar>))")
  fix h :: halving and cp cp' :: rational
  assume big: "too_large cp" and m: "mk_rational (halve h (fst cp)) (halve h (snd cp)) = Inr cp'"
  have "\<bar>fst cp'\<bar> \<le> \<bar>halve h (fst cp)\<bar>" "\<bar>snd cp'\<bar> \<le> \<bar>halve h (snd cp)\<bar>"
    using mk_rational_le [of _ _ "fst cp'" "snd cp'"] m by auto
  moreover have "\<bar>halve h (fst cp)\<bar> + \<bar>halve h (snd cp)\<bar> < \<bar>fst cp\<bar> + \<bar>snd cp\<bar>"
    using big halve_bounds(1) [of h "fst cp"] halve_bounds(1) [of h "snd cp"]
      halve_bounds(2) [of "fst cp" h] halve_bounds(2) [of "snd cp" h] by (auto simp: too_large_def)
  moreover have "0 \<le> \<bar>halve h (fst cp)\<bar>" "0 \<le> \<bar>halve h (snd cp)\<bar>" by simp_all
  ultimately show "((h, cp'), h, cp) \<in> measure (\<lambda>(h, cp). nat (\<bar>fst cp\<bar> + \<bar>snd cp\<bar>))"
    by (simp, linarith)
qed simp

declare shrink_rational.simps [simp del]

definition GRAPHENE_COLLATERAL_RATIO_DENOM :: int where
  "GRAPHENE_COLLATERAL_RATIO_DENOM = 1000"

definition GRAPHENE_MIN_COLLATERAL_RATIO :: int where
  "GRAPHENE_MIN_COLLATERAL_RATIO = 1001"

definition GRAPHENE_MAX_COLLATERAL_RATIO :: int where
  "GRAPHENE_MAX_COLLATERAL_RATIO = 32000"

definition call_price :: "asset \<Rightarrow> asset \<Rightarrow> u16 \<Rightarrow> price result" where
  "call_price debt collateral collateral_ratio =
     rbind (mk_rational (amount debt) (amount collateral)) (\<lambda>swan.
     rbind (mk_rational (uint collateral_ratio) GRAPHENE_COLLATERAL_RATIO_DENOM) (\<lambda>ratio.
     rbind (rational_times swan ratio) (\<lambda>cp.
     rbind (shrink_rational Plus_one cp) (\<lambda>cp.
     rbind (asset_div (mk_asset (fst cp) (asset_id debt)) (mk_asset (snd cp) (asset_id collateral)))
       (\<lambda>p. Inr (price_inv p))))))"

record price_feed =
  settlement_price :: price
  core_exchange_rate_feed :: price
  maintenance_collateral_ratio :: u16
  maximum_short_squeeze_ratio :: u16

definition new_price_feed :: price_feed where
  "new_price_feed = \<lparr>settlement_price = null_price, core_exchange_rate_feed = null_price,
     maintenance_collateral_ratio = 1750, maximum_short_squeeze_ratio = 1500\<rparr>"

definition max_short_squeeze_price :: "price_feed \<Rightarrow> price result" where
  "max_short_squeeze_price f =
     (let sp = settlement_price f in
      rbind (mk_rational (amount (base sp)) (amount (quote sp))) (\<lambda>q.
      rbind (mk_rational GRAPHENE_COLLATERAL_RATIO_DENOM (uint (maximum_short_squeeze_ratio f))) (\<lambda>ratio.
      rbind (rational_times q ratio) (\<lambda>cp.
      rbind (shrink_rational Round_up cp) (\<lambda>cp.
        asset_div (mk_asset (fst cp) (asset_id (base sp))) (mk_asset (snd cp) (asset_id (quote sp))))))))"

definition price_feed_eq :: "price_feed \<Rightarrow> price_feed \<Rightarrow> bool" where
  "price_feed_eq a b \<longleftrightarrow> price_eq (settlement_price a) (settlement_price b) \<and>
     maintenance_collateral_ratio a = maintenance_collateral_ratio b \<and>
     maximum_short_squeeze_ratio a = maximum_short_squeeze_ratio b"

definition ratio_in_range :: "u16 \<Rightarrow> bool" where
  "ratio_in_range r \<longleftrightarrow>
     GRAPHENE_MIN_COLLATERAL_RATIO \<le> uint r \<and> uint r \<le> GRAPHENE_MAX_COLLATERAL_RATIO"

definition price_feed_validate :: "price_feed \<Rightarrow> unit result" where
  "price_feed_validate f =
     rbind (if \<not> price_is_null (settlement_price f) then price_validate (settlement_price f) else Inr ()) (\<lambda>_.
     fc_assert (ratio_in_range (maximum_short_squeeze_ratio f))
     (fc_assert (ratio_in_range (maintenance_collateral_ratio f))
     (rbind (max_short_squeeze_price f) (\<lambda>_. Inr ()))))"

definition price_feed_is_for :: "price_feed \<Rightarrow> asset_id_type \<Rightarrow> bool" where
  "price_feed_is_for f i =
     (if \<not> price_is_null (settlement_price f) then asset_id (base (settlement_price f)) = i
      else if \<not> price_is_null (core_exchange_rate_feed f)
           then asset_id (base (core_exchange_rate_feed f)) = i
      else True)"

section \<open>The order on prices\<close>

definition amount_ok :: "asset \<Rightarrow> bool" where
  "amount_ok a \<longleftrightarrow> 0 \<le> amount a \<and> amount a \<le> int64_max"

definition price_ok :: "price \<Rightarrow> bool" where
  "price_ok p \<longleftrightarrow> 0 < amount (base p) \<and> amount (base p) \<le> int64_max \<and>
     0 < amount (quote p) \<and> amount (quote p) \<le> int64_max"

lemma mult_int64_bound: "0 \<le> x \<Longrightarrow> x \<le> int64_max \<Longrightarrow> 0 \<le> y \<Longrightarrow> y \<le> int64_max \<Longrightarrow> x * y < 2 ^ 128"
proof -
  assume "0 \<le> x" "x \<le> int64_max" "0 \<le> y" "y \<le> int64_max"
  then have "x * y \<le> int64_max * int64_max" by (intro mult_mono) auto
  also have "\<dots> < 2 ^ 128" by (simp add: int64_max_def)
  finally show ?thesis .
qed

lemma uint_cross:
  "amount_ok a \<Longrightarrow> amount_ok b \<Longrightarrow> uint (cross a b) = amount a * amount b"
  unfolding cross_def amount_ok_def by (intro uint_mult_u128 mult_int64_bound) auto

lemma price_ok_amounts: "price_ok p \<Longrightarrow> amount_ok (base p) \<and> amount_ok (quote p)"
  by (auto simp: price_ok_def amount_ok_def)

text \<open>The value of a price: comparing cross products compares the values.\<close>

definition price_rat :: "price \<Rightarrow> rat" where
  "price_rat p = of_int (amount (base p)) / of_int (amount (quote p))"

lemma cross_compare:
  assumes "price_ok p" "price_ok q"
  shows "uint (cross (quote q) (base p)) < uint (cross (quote p) (base q)) \<longleftrightarrow> price_rat p < price_rat q"
    and "uint (cross (quote q) (base p)) = uint (cross (quote p) (base q)) \<longleftrightarrow> price_rat p = price_rat q"
proof -
  have pos: "(0::rat) < of_int (amount (quote p))" "(0::rat) < of_int (amount (quote q))"
    using assms by (auto simp: price_ok_def)
  have u: "uint (cross (quote q) (base p)) = amount (quote q) * amount (base p)"
    "uint (cross (quote p) (base q)) = amount (quote p) * amount (base q)"
    using assms by (auto simp: uint_cross dest!: price_ok_amounts)
  have "price_rat p < price_rat q \<longleftrightarrow>
      (of_int (amount (quote q) * amount (base p)) :: rat) < of_int (amount (quote p) * amount (base q))"
    using pos by (simp add: price_rat_def field_simps)
  then show "uint (cross (quote q) (base p)) < uint (cross (quote p) (base q)) \<longleftrightarrow> price_rat p < price_rat q"
    unfolding u of_int_less_iff by simp
  have "price_rat p = price_rat q \<longleftrightarrow>
      (of_int (amount (quote q) * amount (base p)) :: rat) = of_int (amount (quote p) * amount (base q))"
    using pos by (simp add: price_rat_def field_simps)
  then show "uint (cross (quote q) (base p)) = uint (cross (quote p) (base q)) \<longleftrightarrow> price_rat p = price_rat q"
    unfolding u of_int_eq_iff by simp
qed

text \<open>C16.
  On prices with positive amounts, the 128-bit comparison is exactly the lexicographic order on base
  asset, quote asset and the rational value base / quote: no product wraps.
\<close>

theorem price_order_is_rational:
  assumes "price_ok p" and "price_ok q"
  shows "(price_lt p q \<longleftrightarrow>
      asset_id (base p) < asset_id (base q) \<or> (asset_id (base p) = asset_id (base q) \<and>
      (asset_id (quote p) < asset_id (quote q) \<or> (asset_id (quote p) = asset_id (quote q) \<and>
      price_rat p < price_rat q)))) \<and>
    (price_eq p q \<longleftrightarrow> asset_id (base p) = asset_id (base q) \<and> asset_id (quote p) = asset_id (quote q) \<and>
      price_rat p = price_rat q) \<and>
    (price_lt p q \<or> price_eq p q \<or> price_lt q p)"
proof -
  note c = cross_compare [OF assms] cross_compare [OF assms(2,1)]
  have e: "cross (quote q) (base p) = cross (quote p) (base q) \<longleftrightarrow> price_rat p = price_rat q"
    using c(2) by (simp add: word_uint_eq_iff)
  show ?thesis
    unfolding price_lt_def price_eq_def word_less_def using c(1,3) e by auto
qed

theorem price_order_is_rational_witness:
  "price_lt (mk_price (mk_asset 3 1) (mk_asset 2 5)) (mk_price (mk_asset 5 1) (mk_asset 3 5)) \<and>
   \<not> price_lt (mk_price (mk_asset 5 1) (mk_asset 3 5)) (mk_price (mk_asset 3 1) (mk_asset 2 5))"
proof -
  have ok: "price_ok (mk_price (mk_asset 3 1) (mk_asset 2 5))"
    "price_ok (mk_price (mk_asset 5 1) (mk_asset 3 5))"
    by (simp_all add: price_ok_def int64_max_def)
  show ?thesis
    using price_order_is_rational [OF ok] price_order_is_rational [OF ok(2,1)]
    by (simp add: price_rat_def)
qed

section \<open>Converting an amount\<close>

lemma to_uint64_supply:
  "w \<le> u128 GRAPHENE_MAX_SHARE_SUPPLY \<Longrightarrow> to_uint64 w = uint w \<and> uint w \<le> GRAPHENE_MAX_SHARE_SUPPLY"
  using to_uint64_small [of w]
  by (simp add: word_le_def uint_u128 GRAPHENE_MAX_SHARE_SUPPLY_def int64_max_def)

lemma convert_floor:
  assumes "amount_ok a" "amount_ok n" "amount_ok d" "0 < amount d"
  shows "uint (cross a n div u128 (amount d)) = amount a * amount n div amount d"
proof -
  have "uint (u128 (amount d)) = amount d"
    using assms(3) by (intro uint_u128) (auto simp: amount_ok_def int64_max_def)
  then show ?thesis
    using assms by (simp add: uint_div uint_cross)
qed

lemma asset_times_Inr:
  assumes a: "amount_ok a" and p: "price_ok p" and ids: "asset_id (base p) \<noteq> asset_id (quote p)"
  shows "asset_times a p = Inr r \<longleftrightarrow>
     (\<exists>n d. ((asset_id a = asset_id (base p) \<and> d = base p \<and> n = quote p) \<or>
             (asset_id a = asset_id (quote p) \<and> d = quote p \<and> n = base p)) \<and>
       amount a * amount n div amount d \<le> GRAPHENE_MAX_SHARE_SUPPLY \<and>
       r = mk_asset (amount a * amount n div amount d) (asset_id n))"
proof -
  have ok: "amount_ok (base p)" "amount_ok (quote p)" "0 < amount (base p)" "0 < amount (quote p)"
    using p by (auto simp: price_ok_def amount_ok_def)
  have fits: "w \<le> u128 GRAPHENE_MAX_SHARE_SUPPLY \<longleftrightarrow> uint w \<le> GRAPHENE_MAX_SHARE_SUPPLY" for w
    by (simp add: word_le_def uint_u128 GRAPHENE_MAX_SHARE_SUPPLY_def)
  have conv: "fc_assert (cross a n div u128 (amount d) \<le> u128 GRAPHENE_MAX_SHARE_SUPPLY)
        (Inr (mk_asset (to_uint64 (cross a n div u128 (amount d))) i)) = Inr r \<longleftrightarrow>
      amount a * amount n div amount d \<le> GRAPHENE_MAX_SHARE_SUPPLY \<and>
      r = mk_asset (amount a * amount n div amount d) i"
    if "amount_ok n" "amount_ok d" "0 < amount d" for n d i
    using convert_floor [OF a that] to_uint64_supply [of "cross a n div u128 (amount d)"] fits
    by (auto simp: result_simps)
  show ?thesis
    using conv [of "quote p" "base p"] conv [of "base p" "quote p"] ok ids
    by (auto simp: asset_times_def Let_def)
qed

text \<open>C17.
  Converting a non-negative amount by a positive price succeeds exactly when the asset is one of the
  two of the price and the result fits the maximal supply. The result is the exact quotient rounded
  down, in the other asset; hence it never pays out more than the price allows.
\<close>

theorem asset_times_floor:
  assumes a: "amount_ok a" and p: "price_ok p" and ids: "asset_id (base p) \<noteq> asset_id (quote p)"
  shows "(asset_times a p = Inr r \<longleftrightarrow>
     (\<exists>n d. ((asset_id a = asset_id (base p) \<and> d = base p \<and> n = quote p) \<or>
             (asset_id a = asset_id (quote p) \<and> d = quote p \<and> n = base p)) \<and>
       amount a * amount n div amount d \<le> GRAPHENE_MAX_SHARE_SUPPLY \<and>
       r = mk_asset (amount a * amount n div amount d) (asset_id n))) \<and>
    (asset_times a p = Inr r \<longrightarrow> 0 \<le> amount r \<and> amount r \<le> GRAPHENE_MAX_SHARE_SUPPLY)"
proof -
  have ok: "amount_ok (base p)" "amount_ok (quote p)" "0 < amount (base p)" "0 < amount (quote p)"
    using p by (auto simp: price_ok_def amount_ok_def)
  have "0 \<le> amount a * amount n div amount d" if "n = base p \<or> n = quote p" "d = base p \<or> d = quote p" for n d
    using that a ok by (auto simp: amount_ok_def intro!: pos_imp_zdiv_nonneg_iff [THEN iffD2])
  then show ?thesis using asset_times_Inr [OF a p ids, of r] by fastforce
qed

theorem asset_times_floor_witness:
  "asset_times (mk_asset 7 1) (mk_price (mk_asset 2 1) (mk_asset 3 5)) = Inr (mk_asset 10 5)"
proof -
  have "amount_ok (mk_asset 7 1)" "price_ok (mk_price (mk_asset 2 1) (mk_asset 3 5))"
    "asset_id (base (mk_price (mk_asset 2 1) (mk_asset 3 5))) \<noteq> asset_id (quote (mk_price (mk_asset 2 1) (mk_asset 3 5)))"
    by (simp_all add: amount_ok_def price_ok_def int64_max_def)
  from asset_times_floor [OF this, of "mk_asset 10 5"] show ?thesis
    by (simp add: GRAPHENE_MAX_SHARE_SUPPLY_def)
qed

section \<open>The collateral prices\<close>

lemma mk_rational_pos:
  assumes "0 < n" "0 < d"
  shows "\<exists>n' d'. mk_rational n d = Inr (n', d') \<and> 0 < n' \<and> 0 < d' \<and> n' * d = n * d'"
proof -
  define g where "g = gcd n d"
  from assms have g: "0 < g" by (simp add: g_def)
  obtain a b where ab: "n = g * a" "d = g * b"
    unfolding g_def by (meson dvdE gcd_dvd1 gcd_dvd2)
  with assms g have "0 < a" "0 < b" by (auto simp: zero_less_mult_iff)
  moreover have "mk_rational n d = Inr (a, b)"
  proof -
    have "n div g = a" "d div g = b" using g ab by simp_all
    then show ?thesis using assms by (simp add: mk_rational_def Let_def flip: g_def)
  qed
  ultimately show ?thesis using ab by auto
qed

lemma shrink_fits:
  assumes "0 < fst cp" "0 < snd cp"
  shows "\<exists>n d. shrink_rational h cp = Inr (n, d) \<and> 0 < n \<and> 0 < d \<and>
    n \<le> GRAPHENE_MAX_SHARE_SUPPLY \<and> d \<le> GRAPHENE_MAX_SHARE_SUPPLY \<and>
    (\<not> too_large cp \<longrightarrow> (n, d) = cp)"
  using assms
proof (induction h cp rule: shrink_rational.induct)
  case (1 h cp)
  show ?case
  proof (cases "too_large cp")
    case True
    obtain n d where m: "mk_rational (halve h (fst cp)) (halve h (snd cp)) = Inr (n, d)" "0 < n" "0 < d"
      using mk_rational_pos [OF halve_bounds(3) [OF "1.prems"(1)] halve_bounds(3) [OF "1.prems"(2)]] by blast
    with "1.IH" [OF True m(1)] True show ?thesis
      by (subst shrink_rational.simps) auto
  next
    case False
    with "1.prems" show ?thesis
      by (subst shrink_rational.simps) (cases cp, auto simp: too_large_def)
  qed
qed

text \<open>
  For positive debt and collateral of two assets and a positive ratio, \<open>call_price\<close> returns (its
  halving loop ends) a price that passes \<open>validate\<close>, collateral over debt, with both amounts
  between 1 and the maximal supply.
\<close>

theorem call_price_valid:
  assumes "0 < amount debt" "0 < amount collateral" "collateral_ratio \<noteq> 0"
    and "asset_id debt \<noteq> asset_id collateral"
  shows "\<exists>p. call_price debt collateral collateral_ratio = Inr p \<and> price_validate p = Inr () \<and>
    asset_id (base p) = asset_id collateral \<and> asset_id (quote p) = asset_id debt \<and>
    amount (base p) \<le> GRAPHENE_MAX_SHARE_SUPPLY \<and> amount (quote p) \<le> GRAPHENE_MAX_SHARE_SUPPLY"
proof -
  obtain sn sd where swan: "mk_rational (amount debt) (amount collateral) = Inr (sn, sd)" "0 < sn" "0 < sd"
    using mk_rational_pos [OF assms(1,2)] by blast
  have "0 < uint collateral_ratio" using assms(3) by (metis uint_0_iff uint_ge_0 order_less_le)
  then obtain rn rd where ratio: "mk_rational (uint collateral_ratio) GRAPHENE_COLLATERAL_RATIO_DENOM = Inr (rn, rd)"
    "0 < rn" "0 < rd"
    using mk_rational_pos [of "uint collateral_ratio" GRAPHENE_COLLATERAL_RATIO_DENOM]
    by (auto simp: GRAPHENE_COLLATERAL_RATIO_DENOM_def)
  then have "0 < sn * rn" "0 < sd * rd" using swan by simp_all
  then obtain cn cd where cp: "rational_times (sn, sd) (rn, rd) = Inr (cn, cd)" "0 < cn" "0 < cd"
    using mk_rational_pos [of "sn * rn" "sd * rd"] by (auto simp: rational_times_def)
  obtain n d where "shrink_rational Plus_one (cn, cd) = Inr (n, d)" "0 < n" "0 < d"
    "n \<le> GRAPHENE_MAX_SHARE_SUPPLY" "d \<le> GRAPHENE_MAX_SHARE_SUPPLY"
    using shrink_fits [of "(cn, cd)" Plus_one] cp by auto
  with swan ratio cp assms(4) show ?thesis
    by (simp add: call_price_def asset_div_def price_inv_def price_validate_def)
qed

theorem call_price_valid_witness:
  "\<exists>p. call_price (mk_asset 1000 2) (mk_asset 2000 1) 1750 = Inr p \<and> price_validate p = Inr ()"
  using call_price_valid [of "mk_asset 1000 2" "mk_asset 2000 1" 1750] by auto

text \<open>A feed without a settlement price never validates: \<open>validate\<close> skips the check of a null
  settlement price but then computes \<open>max_short_squeeze_price\<close>, which throws on it.
\<close>

theorem null_feed_never_validates:
  assumes "settlement_price f = null_price"
  shows "price_is_null (settlement_price f) \<and> isl (price_feed_validate f)"
proof -
  have "price_is_null (settlement_price f)"
    by (simp add: assms price_is_null_def price_eq_def)
  moreover have "isl (max_short_squeeze_price f)"
    by (simp add: max_short_squeeze_price_def assms null_price_def mk_rational_def)
  ultimately show ?thesis
    by (cases "max_short_squeeze_price f") (auto simp: price_feed_validate_def ensure_def)
qed

theorem null_feed_never_validates_witness: "isl (price_feed_validate new_price_feed)"
  using null_feed_never_validates [of new_price_feed] by (simp add: new_price_feed_def)

end
