(* ===== verification/Vesting.thy ===== *)
theory Vesting
  imports Asset_Price
begin

text \<open>
  Vesting balances (vesting_balance_object.hpp, vesting_balance_object.cpp): the linear policy with a
  cliff, the coin-days policy, and the vesting balance object that dispatches to its policy.

  Times are seconds; the coin-seconds are 128-bit words and durations 32-bit words. An \<open>assert\<close> of
  the source, which release builds drop, is not a branch of the model: that its condition holds is a
  theorem.
\<close>

section \<open>Policies\<close>

record vesting_policy_context =
  vc_balance :: asset
  vc_now :: time_point_sec
  vc_amount :: asset

record linear_vesting_policy =
  begin_timestamp :: time_point_sec
  vesting_cliff_seconds :: u32
  vesting_duration_seconds :: u32
  begin_balance :: share_type

record cdd_vesting_policy =
  vesting_seconds :: u32
  coin_seconds_earned :: uint128
  start_claim :: time_point_sec
  coin_seconds_earned_last_update :: time_point_sec

datatype vesting_policy = Linear linear_vesting_policy | Cdd cdd_vesting_policy

record vesting_balance_object =
  vb_owner :: account_id_type
  vb_balance :: asset
  vb_policy :: vesting_policy

definition sum_below_max_shares :: "safe_ops \<Rightarrow> asset \<Rightarrow> asset \<Rightarrow> bool result" where
  "sum_below_max_shares S a b =
     (if amount a \<le> GRAPHENE_MAX_SHARE_SUPPLY \<and> amount b \<le> GRAPHENE_MAX_SHARE_SUPPLY
      then rbind (safe_add S (amount a) (amount b)) (\<lambda>s. Inr (s \<le> GRAPHENE_MAX_SHARE_SUPPLY))
      else Inr False)"

definition linear_total_vested :: "linear_vesting_policy \<Rightarrow> int \<Rightarrow> share_type" where
  "linear_total_vested p elapsed =
     (if elapsed < uint (vesting_duration_seconds p)
      then to_uint64 (u128 (begin_balance p) * u128 elapsed div u128 (uint (vesting_duration_seconds p)))
      else begin_balance p)"

definition linear_get_allowed_withdraw ::
  "safe_ops \<Rightarrow> linear_vesting_policy \<Rightarrow> vesting_policy_context \<Rightarrow> asset result" where
  "linear_get_allowed_withdraw S p ctx =
     (let i = asset_id (vc_balance ctx); elapsed = int (vc_now ctx) - int (begin_timestamp p) in
      if vc_now ctx > begin_timestamp p \<and> elapsed \<ge> uint (vesting_cliff_seconds p)
      then rbind (safe_sub S (begin_balance p) (amount (vc_balance ctx))) (\<lambda>withdrawn_already.
           rbind (safe_sub S (linear_total_vested p elapsed) withdrawn_already) (\<lambda>allowed.
             Inr (mk_asset allowed i)))
      else Inr (mk_asset 0 i))"

definition linear_is_deposit_allowed :: "safe_ops \<Rightarrow> vesting_policy_context \<Rightarrow> bool result" where
  "linear_is_deposit_allowed S ctx =
     (if asset_id (vc_amount ctx) = asset_id (vc_balance ctx)
      then sum_below_max_shares S (vc_amount ctx) (vc_balance ctx) else Inr False)"

definition linear_is_withdraw_allowed ::
  "safe_ops \<Rightarrow> linear_vesting_policy \<Rightarrow> vesting_policy_context \<Rightarrow> bool result" where
  "linear_is_withdraw_allowed S p ctx =
     (if asset_id (vc_amount ctx) = asset_id (vc_balance ctx)
      then rbind (linear_get_allowed_withdraw S p ctx) (asset_le (vc_amount ctx)) else Inr False)"

definition effective_seconds :: "cdd_vesting_policy \<Rightarrow> int" where
  "effective_seconds p = max (uint (vesting_seconds p)) 1"

definition compute_coin_seconds_earned :: "cdd_vesting_policy \<Rightarrow> vesting_policy_context \<Rightarrow> uint128" where
  "compute_coin_seconds_earned p ctx =
     (let b = u128 (amount (vc_balance ctx));
          delta = b * u128 (int (vc_now ctx) - int (coin_seconds_earned_last_update p));
          cap = b * u128 (effective_seconds p)
      in min (coin_seconds_earned p + delta) cap)"

definition update_coin_seconds_earned :: "vesting_policy_context \<Rightarrow> cdd_vesting_policy \<Rightarrow> cdd_vesting_policy" where
  "update_coin_seconds_earned ctx p =
     p\<lparr>coin_seconds_earned := compute_coin_seconds_earned p ctx,
       coin_seconds_earned_last_update := vc_now ctx\<rparr>"

definition cdd_get_allowed_withdraw :: "cdd_vesting_policy \<Rightarrow> vesting_policy_context \<Rightarrow> asset" where
  "cdd_get_allowed_withdraw p ctx =
     (if vc_now ctx \<le> start_claim p then mk_asset 0 (asset_id (vc_balance ctx))
      else mk_asset (to_uint64 (compute_coin_seconds_earned p ctx div u128 (effective_seconds p)))
             (asset_id (vc_balance ctx)))"

definition cdd_on_deposit_vested :: "vesting_policy_context \<Rightarrow> cdd_vesting_policy \<Rightarrow> cdd_vesting_policy" where
  "cdd_on_deposit_vested ctx p =
     (let p1 = update_coin_seconds_earned ctx p
      in p1\<lparr>coin_seconds_earned :=
              coin_seconds_earned p1 + u128 (wrap64 (amount (vc_amount ctx) * effective_seconds p1))\<rparr>)"

definition cdd_on_withdraw :: "vesting_policy_context \<Rightarrow> cdd_vesting_policy \<Rightarrow> cdd_vesting_policy" where
  "cdd_on_withdraw ctx p =
     (let p1 = update_coin_seconds_earned ctx p
      in p1\<lparr>coin_seconds_earned :=
              coin_seconds_earned p1 - u128 (amount (vc_amount ctx)) * u128 (effective_seconds p1)\<rparr>)"

definition cdd_is_withdraw_allowed :: "cdd_vesting_policy \<Rightarrow> vesting_policy_context \<Rightarrow> bool result" where
  "cdd_is_withdraw_allowed p ctx = asset_le (vc_amount ctx) (cdd_get_allowed_withdraw p ctx)"

definition cdd_is_deposit_allowed :: "safe_ops \<Rightarrow> vesting_policy_context \<Rightarrow> bool result" where
  "cdd_is_deposit_allowed S ctx =
     (if asset_id (vc_amount ctx) = asset_id (vc_balance ctx)
      then sum_below_max_shares S (vc_amount ctx) (vc_balance ctx) else Inr False)"

section \<open>The vesting balance object\<close>

definition vb_ctx :: "vesting_balance_object \<Rightarrow> time_point_sec \<Rightarrow> asset \<Rightarrow> vesting_policy_context" where
  "vb_ctx v now a = \<lparr>vc_balance = vb_balance v, vc_now = now, vc_amount = a\<rparr>"

definition vb_is_deposit_allowed ::
  "safe_ops \<Rightarrow> vesting_balance_object \<Rightarrow> time_point_sec \<Rightarrow> asset \<Rightarrow> bool result" where
  "vb_is_deposit_allowed S v now a = (case vb_policy v of
     Linear _ \<Rightarrow> linear_is_deposit_allowed S (vb_ctx v now a)
   | Cdd _ \<Rightarrow> cdd_is_deposit_allowed S (vb_ctx v now a))"

definition vb_is_deposit_vested_allowed ::
  "safe_ops \<Rightarrow> vesting_balance_object \<Rightarrow> time_point_sec \<Rightarrow> asset \<Rightarrow> bool result" where
  "vb_is_deposit_vested_allowed S v now a = (case vb_policy v of
     Linear _ \<Rightarrow> Inr False
   | Cdd _ \<Rightarrow> cdd_is_deposit_allowed S (vb_ctx v now a))"

definition vb_is_withdraw_allowed ::
  "safe_ops \<Rightarrow> vesting_balance_object \<Rightarrow> time_point_sec \<Rightarrow> asset \<Rightarrow> bool result" where
  "vb_is_withdraw_allowed S v now a = (case vb_policy v of
     Linear p \<Rightarrow> linear_is_withdraw_allowed S p (vb_ctx v now a)
   | Cdd p \<Rightarrow> cdd_is_withdraw_allowed p (vb_ctx v now a))"

definition vb_get_allowed_withdraw ::
  "safe_ops \<Rightarrow> vesting_balance_object \<Rightarrow> time_point_sec \<Rightarrow> asset result" where
  "vb_get_allowed_withdraw S v now = (case vb_policy v of
     Linear p \<Rightarrow> linear_get_allowed_withdraw S p (vb_ctx v now (mk_asset 0 0))
   | Cdd p \<Rightarrow> Inr (cdd_get_allowed_withdraw p (vb_ctx v now (mk_asset 0 0))))"

definition vb_deposit ::
  "safe_ops \<Rightarrow> time_point_sec \<Rightarrow> asset \<Rightarrow> vesting_balance_object \<Rightarrow> vesting_balance_object result" where
  "vb_deposit S now a v =
     (let pol = (case vb_policy v of Linear p \<Rightarrow> Linear p
                   | Cdd p \<Rightarrow> Cdd (update_coin_seconds_earned (vb_ctx v now a) p))
      in rbind (asset_add S (vb_balance v) a) (\<lambda>b. Inr (v\<lparr>vb_balance := b, vb_policy := pol\<rparr>)))"

definition vb_deposit_vested ::
  "safe_ops \<Rightarrow> time_point_sec \<Rightarrow> asset \<Rightarrow> vesting_balance_object \<Rightarrow> vesting_balance_object result" where
  "vb_deposit_vested S now a v = (case vb_policy v of
     Linear _ \<Rightarrow> Inl Assert_failed
   | Cdd p \<Rightarrow> rbind (asset_add S (vb_balance v) a) (\<lambda>b.
       Inr (v\<lparr>vb_balance := b, vb_policy := Cdd (cdd_on_deposit_vested (vb_ctx v now a) p)\<rparr>)))"

definition vb_withdraw ::
  "safe_ops \<Rightarrow> time_point_sec \<Rightarrow> asset \<Rightarrow> vesting_balance_object \<Rightarrow> vesting_balance_object result" where
  "vb_withdraw S now a v =
     (let pol = (case vb_policy v of Linear p \<Rightarrow> Linear p
                   | Cdd p \<Rightarrow> Cdd (cdd_on_withdraw (vb_ctx v now a) p))
      in rbind (asset_sub S (vb_balance v) a) (\<lambda>b. Inr (v\<lparr>vb_balance := b, vb_policy := pol\<rparr>)))"

section \<open>Exact values\<close>

definition vested_so_far :: "linear_vesting_policy \<Rightarrow> time_point_sec \<Rightarrow> share_type" where
  "vested_so_far p now =
     (if now > begin_timestamp p \<and> int now - int (begin_timestamp p) \<ge> uint (vesting_cliff_seconds p)
      then linear_total_vested p (int now - int (begin_timestamp p)) else 0)"

lemma uint_u32_bound: "uint (w :: u32) < 4294967296"
  using uint_lt2p [of w] by simp

lemma u128_supply_product:
  assumes "0 \<le> x" "x \<le> GRAPHENE_MAX_SHARE_SUPPLY" "0 \<le> y" "y \<le> 4294967296"
  shows "uint (u128 x * u128 y) = x * y" and "x * y \<le> 429496729600000000000000000"
proof -
  have le: "x * y \<le> GRAPHENE_MAX_SHARE_SUPPLY * 4294967296"
    using assms by (intro mult_mono) auto
  then show "x * y \<le> 429496729600000000000000000" by (simp add: GRAPHENE_MAX_SHARE_SUPPLY_def)
  with assms show "uint (u128 x * u128 y) = x * y" by (intro uint_mult_u128) auto
qed

lemma linear_total_vested_exact:
  assumes b: "0 \<le> begin_balance p" "begin_balance p \<le> GRAPHENE_MAX_SHARE_SUPPLY" and e: "0 \<le> elapsed"
  shows "linear_total_vested p elapsed =
    (if elapsed < uint (vesting_duration_seconds p)
     then begin_balance p * elapsed div uint (vesting_duration_seconds p) else begin_balance p)"
    and "0 \<le> linear_total_vested p elapsed" and "linear_total_vested p elapsed \<le> begin_balance p"
proof -
  let ?d = "uint (vesting_duration_seconds p)" and ?b = "begin_balance p"
  have ex: "linear_total_vested p elapsed = ?b * elapsed div ?d" "?b * elapsed div ?d \<le> ?b"
    if lt: "elapsed < ?d"
  proof -
    have u: "uint (u128 ?b * u128 elapsed) = ?b * elapsed"
      using u128_supply_product(1) [OF b e] lt uint_u32_bound [of "vesting_duration_seconds p"] by simp
    have ud: "uint (u128 ?d) = ?d"
      using uint_u32_bound [of "vesting_duration_seconds p"] by (intro uint_u128) auto
    have "?b * elapsed \<le> ?b * ?d" using b lt by (intro mult_left_mono) auto
    then show le: "?b * elapsed div ?d \<le> ?b"
      using zdiv_mono1 [of "?b * elapsed" "?b * ?d" ?d] lt e by simp
    have "uint (u128 ?b * u128 elapsed div u128 ?d) = ?b * elapsed div ?d"
      by (simp add: uint_div u ud)
    moreover from this le b have "to_uint64 (u128 ?b * u128 elapsed div u128 ?d) = ?b * elapsed div ?d"
      by (subst to_uint64_small) (auto simp: int64_max_def GRAPHENE_MAX_SHARE_SUPPLY_def)
    ultimately show "linear_total_vested p elapsed = ?b * elapsed div ?d"
      using lt by (simp add: linear_total_vested_def)
  qed
  then show eq: "linear_total_vested p elapsed = (if elapsed < ?d then ?b * elapsed div ?d else ?b)"
    by (simp add: linear_total_vested_def)
  show "0 \<le> linear_total_vested p elapsed"
    unfolding eq using b e by (simp add: pos_imp_zdiv_nonneg_iff)
  show "linear_total_vested p elapsed \<le> ?b"
    unfolding eq using ex(2) by simp
qed

lemma vested_so_far_bounds:
  assumes "0 \<le> begin_balance p" "begin_balance p \<le> GRAPHENE_MAX_SHARE_SUPPLY"
  shows "0 \<le> vested_so_far p now" and "vested_so_far p now \<le> begin_balance p"
    and "now \<le> now' \<Longrightarrow> vested_so_far p now \<le> vested_so_far p now'"
proof -
  note ex = linear_total_vested_exact [OF assms]
  show nn: "0 \<le> vested_so_far p now" for now
    using ex(2) [of "int now - int (begin_timestamp p)"] by (simp add: vested_so_far_def)
  show "vested_so_far p now \<le> begin_balance p"
    using ex(3) [of "int now - int (begin_timestamp p)"] assms(1) by (simp add: vested_so_far_def)
  have mono: "linear_total_vested p x \<le> linear_total_vested p y" if "0 \<le> x" "x \<le> y" for x y
  proof (cases "y < uint (vesting_duration_seconds p)")
    case True
    with that have "begin_balance p * x div uint (vesting_duration_seconds p)
        \<le> begin_balance p * y div uint (vesting_duration_seconds p)"
      using assms by (intro zdiv_mono1 mult_left_mono) auto
    with True that show ?thesis by (simp add: ex(1))
  next
    case False
    with that ex(3) [of x] show ?thesis by (simp add: ex(1) [of y])
  qed
  show "vested_so_far p now \<le> vested_so_far p now'" if "now \<le> now'"
    using that nn [of now'] mono by (auto simp: vested_so_far_def)
qed

lemma linear_allowed_eq:
  "linear_get_allowed_withdraw S p ctx =
     (if vc_now ctx > begin_timestamp p \<and>
         int (vc_now ctx) - int (begin_timestamp p) \<ge> uint (vesting_cliff_seconds p)
      then rbind (safe_sub S (begin_balance p) (amount (vc_balance ctx))) (\<lambda>w.
           rbind (safe_sub S (vested_so_far p (vc_now ctx)) w) (\<lambda>a.
             Inr (mk_asset a (asset_id (vc_balance ctx)))))
      else Inr (mk_asset 0 (asset_id (vc_balance ctx))))"
  by (simp add: linear_get_allowed_withdraw_def vested_so_far_def Let_def)

text \<open>The coin-seconds as exact integers.\<close>

lemma effective_seconds_bounds: "1 \<le> effective_seconds p" "effective_seconds p \<le> 4294967296"
  using uint_u32_bound [of "vesting_seconds p"] by (auto simp: effective_seconds_def)

definition earned :: "cdd_vesting_policy \<Rightarrow> share_type \<Rightarrow> time_point_sec \<Rightarrow> int" where
  "earned p bal now = min (uint (coin_seconds_earned p) + bal * (int now - int (coin_seconds_earned_last_update p)))
     (bal * effective_seconds p)"

definition cdd_ok :: "time_point_sec \<Rightarrow> share_type \<Rightarrow> cdd_vesting_policy \<Rightarrow> bool" where
  "cdd_ok now bal p \<longleftrightarrow> 0 \<le> bal \<and> bal \<le> GRAPHENE_MAX_SHARE_SUPPLY \<and> now < 2 ^ 32 \<and>
     coin_seconds_earned_last_update p \<le> now \<and> uint (coin_seconds_earned p) \<le> bal * effective_seconds p"

lemma uint_compute_coin_seconds:
  assumes "cdd_ok (vc_now ctx) (amount (vc_balance ctx)) p"
  shows "uint (compute_coin_seconds_earned p ctx) = earned p (amount (vc_balance ctx)) (vc_now ctx)"
proof -
  let ?b = "amount (vc_balance ctx)" and ?dt = "int (vc_now ctx) - int (coin_seconds_earned_last_update p)"
  have b: "0 \<le> ?b" "?b \<le> GRAPHENE_MAX_SHARE_SUPPLY" and dt: "0 \<le> ?dt" "?dt \<le> 4294967296"
    and cs: "uint (coin_seconds_earned p) \<le> ?b * effective_seconds p"
    using assms by (auto simp: cdd_ok_def)
  note D = u128_supply_product [OF b dt] and E = u128_supply_product [OF b _ effective_seconds_bounds(2) [of p]]
  have eff: "0 \<le> effective_seconds p" using effective_seconds_bounds(1) [of p] by simp
  have "uint (coin_seconds_earned p + u128 ?b * u128 ?dt) = uint (coin_seconds_earned p) + ?b * ?dt"
    using D E [OF eff] cs by (subst uint_add_lem [THEN iffD1]) auto
  then show ?thesis
    using D(1) E(1) [OF eff] by (auto simp: compute_coin_seconds_earned_def Let_def earned_def min_def word_le_def)
qed

section \<open>The invariant of a vesting balance\<close>

definition linear_ok :: "time_point_sec \<Rightarrow> share_type \<Rightarrow> linear_vesting_policy \<Rightarrow> bool" where
  "linear_ok now bal p \<longleftrightarrow> 0 \<le> bal \<and> begin_balance p \<le> GRAPHENE_MAX_SHARE_SUPPLY \<and>
     bal \<le> begin_balance p \<and> begin_balance p - bal \<le> vested_so_far p now"

definition vb_ok :: "time_point_sec \<Rightarrow> vesting_balance_object \<Rightarrow> bool" where
  "vb_ok now v = (case vb_policy v of
     Linear p \<Rightarrow> linear_ok now (amount (vb_balance v)) p
   | Cdd p \<Rightarrow> cdd_ok now (amount (vb_balance v)) p)"

lemma earned_bounds:
  assumes "cdd_ok now bal p"
  shows "0 \<le> earned p bal now" and "earned p bal now \<le> bal * effective_seconds p"
    and "earned p bal now div effective_seconds p \<le> bal"
    and "a \<le> earned p bal now div effective_seconds p \<Longrightarrow> a * effective_seconds p \<le> earned p bal now"
proof -
  note eff = effective_seconds_bounds(1) [of p]
  show "0 \<le> earned p bal now" using assms eff by (simp add: earned_def cdd_ok_def)
  show le: "earned p bal now \<le> bal * effective_seconds p" by (simp add: earned_def)
  then show "earned p bal now div effective_seconds p \<le> bal"
    using zdiv_mono1 [OF le, of "effective_seconds p"] eff by simp
  show "a * effective_seconds p \<le> earned p bal now" if "a \<le> earned p bal now div effective_seconds p"
  proof -
    have "a * effective_seconds p \<le> earned p bal now div effective_seconds p * effective_seconds p"
      using that eff by (intro mult_right_mono) auto
    also have "\<dots> \<le> earned p bal now" using eff by (simp add: minus_mod_eq_div_mult [symmetric])
    finally show ?thesis .
  qed
qed

lemma cdd_allowed_amount:
  assumes "cdd_ok (vc_now ctx) (amount (vc_balance ctx)) p"
  shows "cdd_get_allowed_withdraw p ctx = mk_asset
    (if vc_now ctx \<le> start_claim p then 0
     else earned p (amount (vc_balance ctx)) (vc_now ctx) div effective_seconds p) (asset_id (vc_balance ctx))"
proof -
  let ?e = "earned p (amount (vc_balance ctx)) (vc_now ctx)"
  note eff = effective_seconds_bounds [of p] and eb = earned_bounds [OF assms]
  have "uint (u128 (effective_seconds p)) = effective_seconds p"
    using eff by (intro uint_u128) auto
  then have u: "uint (compute_coin_seconds_earned p ctx div u128 (effective_seconds p)) = ?e div effective_seconds p"
    using uint_compute_coin_seconds [OF assms] by (simp add: uint_div)
  then have "to_uint64 (compute_coin_seconds_earned p ctx div u128 (effective_seconds p)) = ?e div effective_seconds p"
    using eb(3) assms by (subst to_uint64_small) (auto simp: cdd_ok_def int64_max_def GRAPHENE_MAX_SHARE_SUPPLY_def)
  then show ?thesis by (simp add: cdd_get_allowed_withdraw_def)
qed

lemma cdd_ok_withdraw:
  assumes ok: "cdd_ok (vc_now ctx) (amount (vc_balance ctx)) p" and a: "0 \<le> amount (vc_amount ctx)"
    and allowed: "amount (vc_amount ctx) \<le> amount (cdd_get_allowed_withdraw p ctx)"
  shows "cdd_ok (vc_now ctx) (amount (vc_balance ctx) - amount (vc_amount ctx)) (cdd_on_withdraw ctx p)"
    and "amount (vc_amount ctx) \<le> amount (vc_balance ctx)"
    and "u128 (amount (vc_amount ctx)) * u128 (effective_seconds p) \<le> compute_coin_seconds_earned p ctx"
proof -
  let ?b = "amount (vc_balance ctx)" and ?a = "amount (vc_amount ctx)" and ?e = "effective_seconds p"
  let ?n = "earned p ?b (vc_now ctx)"
  note eff = effective_seconds_bounds [of p] and eb = earned_bounds [OF ok]
  have "0 \<le> ?n div ?e" using eb(1) eff by (simp add: pos_imp_zdiv_nonneg_iff)
  with allowed have div: "?a \<le> ?n div ?e" by (simp add: cdd_allowed_amount [OF ok] split: if_splits)
  then show le: "?a \<le> ?b" using eb(3) by simp
  have need: "?a * ?e \<le> ?n" by (rule eb(4) [OF div])
  have ub: "?a \<le> GRAPHENE_MAX_SHARE_SUPPLY" using le ok by (simp add: cdd_ok_def)
  have ua: "uint (u128 ?a * u128 ?e) = ?a * ?e"
    using u128_supply_product(1) [OF a ub] eff by simp
  then show le128: "u128 ?a * u128 ?e \<le> compute_coin_seconds_earned p ctx"
    using need uint_compute_coin_seconds [OF ok] by (simp add: word_le_def)
  have "uint (compute_coin_seconds_earned p ctx - u128 ?a * u128 ?e) = ?n - ?a * ?e"
    using uint_sub_lem [THEN iffD1, OF le128 [unfolded word_le_def]] ua uint_compute_coin_seconds [OF ok]
    by simp
  moreover have "?n - ?a * ?e \<le> (?b - ?a) * ?e" using eb(2) by (simp add: algebra_simps)
  ultimately show "cdd_ok (vc_now ctx) (?b - ?a) (cdd_on_withdraw ctx p)"
    using ok le a by (simp add: cdd_ok_def cdd_on_withdraw_def update_coin_seconds_earned_def Let_def
        effective_seconds_def)
qed

lemma cdd_ok_update:
  assumes ok: "cdd_ok (vc_now ctx) (amount (vc_balance ctx)) p" and "0 \<le> a"
    and "amount (vc_balance ctx) + a \<le> GRAPHENE_MAX_SHARE_SUPPLY"
  shows "cdd_ok (vc_now ctx) (amount (vc_balance ctx) + a) (update_coin_seconds_earned ctx p)"
    and "in_int64 (a * effective_seconds p) \<Longrightarrow> amount (vc_amount ctx) = a \<Longrightarrow>
      cdd_ok (vc_now ctx) (amount (vc_balance ctx) + a) (cdd_on_deposit_vested ctx p)"
proof -
  let ?b = "amount (vc_balance ctx)" and ?e = "effective_seconds p"
  let ?n = "earned p ?b (vc_now ctx)"
  note eff = effective_seconds_bounds [of p] and eb = earned_bounds [OF ok]
  have n: "uint (compute_coin_seconds_earned p ctx) = ?n" by (rule uint_compute_coin_seconds [OF ok])
  have ae: "0 \<le> a * ?e" using assms(2) eff by simp
  have le: "?n + a * ?e \<le> (?b + a) * ?e" using eb(2) by (simp add: algebra_simps)
  have "?n \<le> (?b + a) * ?e" using le ae by linarith
  then show "cdd_ok (vc_now ctx) (?b + a) (update_coin_seconds_earned ctx p)"
    using ok assms(2,3)
    by (simp add: cdd_ok_def update_coin_seconds_earned_def n effective_seconds_def)
  show "cdd_ok (vc_now ctx) (?b + a) (cdd_on_deposit_vested ctx p)"
    if in64: "in_int64 (a * ?e)" and am: "amount (vc_amount ctx) = a"
  proof -
    have "0 \<le> ?b + a" "?b + a \<le> GRAPHENE_MAX_SHARE_SUPPLY" using ok assms by (auto simp: cdd_ok_def)
    from u128_supply_product(2) [OF this _ eff(2)] eff(1) have "(?b + a) * ?e \<le> 429496729600000000000000000" by simp
    moreover have "uint (u128 (a * ?e)) = a * ?e"
      using ae in64 by (intro uint_u128) (auto simp: int64_defs)
    ultimately have "uint (compute_coin_seconds_earned p ctx + u128 (a * ?e)) = ?n + a * ?e"
      using n le by (subst uint_add_lem [THEN iffD1]) auto
    then show ?thesis
      using ok assms(2,3) le in64 am
      by (simp add: cdd_ok_def cdd_on_deposit_vested_def update_coin_seconds_earned_def Let_def
          effective_seconds_def wrap64_id)
  qed
qed

lemma vb_ok_later: "vb_ok now v \<Longrightarrow> now \<le> now' \<Longrightarrow> now' < 2 ^ 32 \<Longrightarrow> vb_ok now' v"
proof (cases "vb_policy v")
  case (Linear p)
  assume ok: "vb_ok now v" and "now \<le> now'"
  then have "vested_so_far p now \<le> vested_so_far p now'"
    using Linear by (intro vested_so_far_bounds(3)) (auto simp: vb_ok_def linear_ok_def)
  with ok Linear show ?thesis by (simp add: vb_ok_def linear_ok_def)
qed (auto simp: vb_ok_def cdd_ok_def)

context checked_int64
begin

lemma linear_allowed_amount:
  assumes ok: "linear_ok (vc_now ctx) (amount (vc_balance ctx)) p"
  shows "\<exists>a. linear_get_allowed_withdraw S p ctx = Inr (mk_asset a (asset_id (vc_balance ctx))) \<and>
    0 \<le> a \<and> a \<le> amount (vc_balance ctx) \<and>
    a \<le> max 0 (amount (vc_balance ctx) - (begin_balance p - vested_so_far p (vc_now ctx)))"
proof -
  let ?b = "amount (vc_balance ctx)"
  have b: "0 \<le> begin_balance p" "begin_balance p \<le> GRAPHENE_MAX_SHARE_SUPPLY" "0 \<le> ?b" "?b \<le> begin_balance p"
    "begin_balance p - ?b \<le> vested_so_far p (vc_now ctx)"
    using ok by (auto simp: linear_ok_def)
  note v = vested_so_far_bounds(1,2) [OF b(1,2), of "vc_now ctx"]
  have "safe_sub S (begin_balance p) ?b = Inr (begin_balance p - ?b)"
    using b by (intro sub_exact) (simp add: int64_defs GRAPHENE_MAX_SHARE_SUPPLY_def)
  moreover have "safe_sub S (vested_so_far p (vc_now ctx)) (begin_balance p - ?b) =
      Inr (vested_so_far p (vc_now ctx) - (begin_balance p - ?b))"
    using b v by (intro sub_exact) (simp add: int64_defs GRAPHENE_MAX_SHARE_SUPPLY_def)
  ultimately show ?thesis
    using b v by (simp add: linear_allowed_eq)
qed

lemma asset_le_Inr_True: "asset_le a b = Inr True \<Longrightarrow> amount a \<le> amount b"
  by (auto simp: asset_le_def asset_lt_def result_simps split: if_splits)

lemma vb_allowed_bounds:
  assumes "vb_ok now v"
  shows "\<exists>a. vb_get_allowed_withdraw S v now = Inr (mk_asset a (asset_id (vb_balance v))) \<and>
    0 \<le> a \<and> a \<le> amount (vb_balance v)"
proof (cases "vb_policy v")
  case (Linear p)
  with assms linear_allowed_amount [of "vb_ctx v now (mk_asset 0 0)" p] show ?thesis
    by (auto simp: vb_ok_def vb_get_allowed_withdraw_def vb_ctx_def)
next
  case (Cdd p)
  let ?ctx = "vb_ctx v now (mk_asset 0 0)"
  have ok: "cdd_ok (vc_now ?ctx) (amount (vc_balance ?ctx)) p"
    using assms Cdd by (simp add: vb_ok_def vb_ctx_def)
  note eb = earned_bounds [OF ok]
  have "0 \<le> earned p (amount (vc_balance ?ctx)) (vc_now ?ctx) div effective_seconds p"
    using eb(1) effective_seconds_bounds(1) [of p] by (simp add: pos_imp_zdiv_nonneg_iff)
  with eb(3) ok Cdd show ?thesis
    by (simp add: vb_get_allowed_withdraw_def cdd_allowed_amount [OF ok])
       (auto simp: vb_ctx_def cdd_ok_def)
qed

lemma vb_withdraw_ok:
  assumes ok: "vb_ok now v" and allowed: "vb_is_withdraw_allowed S v now a = Inr True"
    and a: "0 \<le> amount a" "asset_id a = asset_id (vb_balance v)"
  shows "\<exists>v'. vb_withdraw S now a v = Inr v' \<and> vb_ok now v' \<and> amount a \<le> amount (vb_balance v) \<and>
    vb_owner v' = vb_owner v \<and> vb_balance v' = mk_asset (amount (vb_balance v) - amount a) (asset_id (vb_balance v))"
proof -
  let ?b = "amount (vb_balance v)" and ?ctx = "vb_ctx v now a"
  have le: "amount a \<le> ?b \<and> (case vb_policy v of
      Linear p \<Rightarrow> begin_balance p - (?b - amount a) \<le> vested_so_far p now
    | Cdd p \<Rightarrow> cdd_ok now (?b - amount a) (cdd_on_withdraw ?ctx p)) \<and> ?b \<le> GRAPHENE_MAX_SHARE_SUPPLY"
  proof (cases "vb_policy v")
    case (Linear p)
    then have okl: "linear_ok (vc_now ?ctx) (amount (vc_balance ?ctx)) p"
      using ok by (simp add: vb_ok_def vb_ctx_def)
    from linear_allowed_amount [OF okl] obtain x
      where x: "linear_get_allowed_withdraw S p ?ctx = Inr (mk_asset x (asset_id (vb_balance v)))"
        "x \<le> ?b" "x \<le> max 0 (?b - (begin_balance p - vested_so_far p now))"
      by (auto simp: vb_ctx_def)
    have "amount a \<le> x"
      using allowed Linear x(1) a(2) asset_le_Inr_True [of a "mk_asset x (asset_id (vb_balance v))"]
      by (auto simp: vb_is_withdraw_allowed_def linear_is_withdraw_allowed_def vb_ctx_def)
    with x Linear okl show ?thesis by (auto simp: linear_ok_def vb_ctx_def)
  next
    case (Cdd p)
    then have okc: "cdd_ok (vc_now ?ctx) (amount (vc_balance ?ctx)) p"
      using ok by (simp add: vb_ok_def vb_ctx_def)
    have "amount (vc_amount ?ctx) \<le> amount (cdd_get_allowed_withdraw p ?ctx)"
      using allowed Cdd asset_le_Inr_True
      by (auto simp: vb_is_withdraw_allowed_def cdd_is_withdraw_allowed_def vb_ctx_def)
    from cdd_ok_withdraw [OF okc _ this] okc Cdd a show ?thesis
      by (simp add: vb_ctx_def cdd_ok_def)
  qed
  have nn: "0 \<le> ?b" using ok by (auto simp: vb_ok_def linear_ok_def cdd_ok_def split: vesting_policy.splits)
  have "safe_sub S ?b (amount a) = Inr (?b - amount a)"
    using le a by (intro sub_exact) (auto simp: int64_defs GRAPHENE_MAX_SHARE_SUPPLY_def)
  with le a ok nn show ?thesis
    by (cases "vb_policy v") (auto simp: vb_withdraw_def asset_sub_def vb_ok_def linear_ok_def vb_ctx_def)
qed

end

text \<open>C18.
  In a vesting balance that satisfies its invariant, the amount that may be withdrawn is computed
  without an overflow, is not negative and never exceeds the balance; a permitted withdrawal succeeds,
  takes exactly the amount out, and keeps the invariant, also at any later time. So none of the
  assertions of the two policies can fail.
\<close>

theorem vesting_withdraw_sound:
  assumes S: "checked_int64 S" and ok: "vb_ok now v"
    and a: "0 \<le> amount a" "asset_id a = asset_id (vb_balance v)"
  shows "(\<exists>w. vb_get_allowed_withdraw S v now = Inr w \<and> 0 \<le> amount w \<and> amount w \<le> amount (vb_balance v)) \<and>
    (vb_is_withdraw_allowed S v now a = Inr True \<longrightarrow>
      (\<exists>v'. vb_withdraw S now a v = Inr v' \<and> vb_ok now v' \<and> vb_owner v' = vb_owner v \<and>
         vb_balance v' = mk_asset (amount (vb_balance v) - amount a) (asset_id (vb_balance v)) \<and>
         0 \<le> amount (vb_balance v'))) \<and>
    (now \<le> now' \<and> now' < 2 ^ 32 \<longrightarrow> vb_ok now' v)"
  using checked_int64.vb_allowed_bounds [OF S ok] checked_int64.vb_withdraw_ok [OF S ok _ a] vb_ok_later [OF ok]
  by fastforce

definition sample_cdd :: cdd_vesting_policy where
  "sample_cdd = \<lparr>vesting_seconds = 100, coin_seconds_earned = 5000, start_claim = 0,
     coin_seconds_earned_last_update = 1000\<rparr>"

definition sample_vb :: vesting_balance_object where
  "sample_vb = \<lparr>vb_owner = 7, vb_balance = mk_asset 200 1, vb_policy = Cdd sample_cdd\<rparr>"

lemma sample_vb_ok: "vb_ok 1050 sample_vb"
  by (simp add: vb_ok_def sample_vb_def sample_cdd_def cdd_ok_def effective_seconds_def
      GRAPHENE_MAX_SHARE_SUPPLY_def)

theorem vesting_withdraw_sound_witness:
  "vb_is_withdraw_allowed int64_ops sample_vb 1050 (mk_asset 150 1) = Inr True \<and>
   (\<exists>v'. vb_withdraw int64_ops 1050 (mk_asset 150 1) sample_vb = Inr v' \<and> vb_balance v' = mk_asset 50 1)"
proof -
  have "vb_is_withdraw_allowed int64_ops sample_vb 1050 (mk_asset 150 1) = Inr True" by code_simp
  with vesting_withdraw_sound [OF int64_ops_checked sample_vb_ok, of "mk_asset 150 1" 1050]
  show ?thesis by (auto simp: sample_vb_def)
qed

text \<open>A deposit that is allowed succeeds, adds exactly the amount, and keeps the invariant of a coin-days
  balance; so does a deposit of vested funds, provided the 64-bit product of the amount and the
  vesting period does not overflow.
\<close>

theorem vesting_deposit_sound:
  assumes S: "checked_int64 S" and ok: "vb_ok now v" and p: "vb_policy v = Cdd p"
    and a: "0 \<le> amount a" and allowed: "vb_is_deposit_allowed S v now a = Inr True"
  shows "(\<exists>v1. vb_deposit S now a v = Inr v1 \<and> vb_ok now v1 \<and>
      vb_balance v1 = mk_asset (amount (vb_balance v) + amount a) (asset_id (vb_balance v))) \<and>
    (in_int64 (amount a * effective_seconds p) \<longrightarrow>
      (\<exists>v2. vb_deposit_vested S now a v = Inr v2 \<and> vb_ok now v2 \<and>
        vb_balance v2 = mk_asset (amount (vb_balance v) + amount a) (asset_id (vb_balance v))))"
proof -
  let ?b = "amount (vb_balance v)" and ?ctx = "vb_ctx v now a"
  have okc: "cdd_ok (vc_now ?ctx) (amount (vc_balance ?ctx)) p"
    using ok p by (simp add: vb_ok_def vb_ctx_def)
  have ids: "asset_id a = asset_id (vb_balance v)" and sum: "?b + amount a \<le> GRAPHENE_MAX_SHARE_SUPPLY"
    using allowed p by (auto simp: vb_is_deposit_allowed_def cdd_is_deposit_allowed_def vb_ctx_def
        sum_below_max_shares_def result_simps checked_int64.safe_add_Inr [OF S] split: if_splits)
  have nn: "0 \<le> ?b" using okc by (simp add: cdd_ok_def vb_ctx_def)
  have add: "safe_add S ?b (amount a) = Inr (?b + amount a)"
    using sum a nn by (intro checked_int64.add_exact [OF S]) (simp add: int64_defs GRAPHENE_MAX_SHARE_SUPPLY_def)
  have sum': "amount (vc_balance ?ctx) + amount a \<le> GRAPHENE_MAX_SHARE_SUPPLY"
    using sum by (simp add: vb_ctx_def)
  note upd = cdd_ok_update [OF okc a sum']
  show ?thesis
    using upd add ids p
    by (auto simp: vb_deposit_def vb_deposit_vested_def asset_add_def vb_ok_def vb_ctx_def Let_def)
qed

theorem vesting_deposit_sound_witness:
  "(\<exists>v1. vb_deposit int64_ops 1050 (mk_asset 30 1) sample_vb = Inr v1 \<and> vb_ok 1050 v1) \<and>
   (\<exists>v2. vb_deposit_vested int64_ops 1050 (mk_asset 30 1) sample_vb = Inr v2 \<and>
      vb_balance v2 = mk_asset 230 1)"
proof -
  have p: "vb_policy sample_vb = Cdd sample_cdd" by (simp add: sample_vb_def)
  have al: "vb_is_deposit_allowed int64_ops sample_vb 1050 (mk_asset 30 1) = Inr True" by code_simp
  have i: "in_int64 (amount (mk_asset 30 1) * effective_seconds sample_cdd)" by code_simp
  from vesting_deposit_sound [OF int64_ops_checked sample_vb_ok p _ al] i show ?thesis
    by (auto simp: sample_vb_def)
qed

definition big_cdd :: cdd_vesting_policy where
  "big_cdd = \<lparr>vesting_seconds = 7776000, coin_seconds_earned = 0, start_claim = 0,
     coin_seconds_earned_last_update = 1000\<rparr>"

text \<open>
  Beyond that bound the product wraps: depositing 10^13 vested units (100 million GXC) with a vesting
  period of 90 days into an empty balance leaves fewer coin-seconds than a full vesting needs, so
  funds that should be available at once are not.
\<close>

theorem deposit_vested_overflow:
  "\<exists>p. vb_deposit_vested int64_ops 1000 (mk_asset 10000000000000 1)
       \<lparr>vb_owner = 7, vb_balance = mk_asset 0 1, vb_policy = Cdd big_cdd\<rparr> =
     Inr \<lparr>vb_owner = 7, vb_balance = mk_asset 10000000000000 1, vb_policy = Cdd p\<rparr> \<and>
     uint (coin_seconds_earned p) < 10000000000000 * effective_seconds p"
proof -
  let ?v = "\<lparr>vb_owner = 7, vb_balance = mk_asset 0 1, vb_policy = Cdd big_cdd\<rparr>"
  let ?p = "cdd_on_deposit_vested (vb_ctx ?v 1000 (mk_asset 10000000000000 1)) big_cdd"
  have "vb_deposit_vested int64_ops 1000 (mk_asset 10000000000000 1) ?v =
      Inr \<lparr>vb_owner = 7, vb_balance = mk_asset 10000000000000 1, vb_policy = Cdd ?p\<rparr>"
    by (simp add: vb_deposit_vested_def asset_add_def checked_def int64_defs)
  moreover have "uint (coin_seconds_earned ?p) < 10000000000000 * effective_seconds ?p" by code_simp
  ultimately show ?thesis by blast
qed

text \<open>
  A deposit into a linear balance is allowed and succeeds, whatever the policy says, although the
  policy's documentation rules deposits out.
\<close>

theorem linear_deposit_not_refused:
  assumes S: "checked_int64 S" and p: "vb_policy v = Linear p" and ids: "asset_id a = asset_id (vb_balance v)"
    and "0 \<le> amount a" "0 \<le> amount (vb_balance v)"
    and sum: "amount (vb_balance v) + amount a \<le> GRAPHENE_MAX_SHARE_SUPPLY"
  shows "vb_is_deposit_allowed S v now a = Inr True \<and>
    vb_deposit S now a v = Inr (v\<lparr>vb_balance := mk_asset (amount (vb_balance v) + amount a) (asset_id a)\<rparr>)"
proof -
  have "safe_add S x y = Inr (x + y)" if "x + y = amount (vb_balance v) + amount a" for x y
    using that assms(4-6) by (intro checked_int64.add_exact [OF S]) (simp add: int64_defs GRAPHENE_MAX_SHARE_SUPPLY_def)
  moreover have "v\<lparr>vb_balance := b, vb_policy := Linear p\<rparr> = v\<lparr>vb_balance := b\<rparr>" for b
    using p by simp
  ultimately show ?thesis
    using assms by (simp add: vb_is_deposit_allowed_def linear_is_deposit_allowed_def sum_below_max_shares_def
        vb_deposit_def asset_add_def vb_ctx_def add.commute)
qed

theorem linear_deposit_not_refused_witness:
  "vb_is_deposit_allowed int64_ops \<lparr>vb_owner = 1, vb_balance = mk_asset 5 1, vb_policy = Linear
     \<lparr>begin_timestamp = 0, vesting_cliff_seconds = 0, vesting_duration_seconds = 10, begin_balance = 5\<rparr>\<rparr>
     3 (mk_asset 2 1) = Inr True"
  using linear_deposit_not_refused [OF int64_ops_checked, of "\<lparr>vb_owner = 1, vb_balance = mk_asset 5 1, vb_policy = Linear
     \<lparr>begin_timestamp = 0, vesting_cliff_seconds = 0, vesting_duration_seconds = 10, begin_balance = 5\<rparr>\<rparr>"
      "\<lparr>begin_timestamp = 0, vesting_cliff_seconds = 0, vesting_duration_seconds = 10, begin_balance = 5\<rparr>" "mk_asset 2 1" 3]
  by (simp add: GRAPHENE_MAX_SHARE_SUPPLY_def)

end
