(* ===== verification/Chain_State.thy ===== *)
theory Chain_State
  imports Object_Index Vesting
begin

text \<open>
  The chain's objects and the database that holds them: accounts, their statistics, balances, assets
  with their dynamic data, vesting balances, staking records, witnesses, trust-node pledges, the
  global and dynamic global properties (the \<open>*_object.hpp\<close> headers), and the getters of
  db_getter.cpp.

  An object id is the instance number in its table; public keys are numbers; a \<open>flat_set\<close> is a list.
  The database is one record of index tables, in which the two property singletons are fields.
\<close>

section \<open>Extensions and parameters\<close>

type_synonym public_key_type = nat
type_synonym vote_id_type = nat

record inter_contract_calling_params_t =
  max_inter_contract_depth :: nat
  contract_basic_fee_vesting_period_seconds :: u32
  max_inline_action_size :: nat

record staking_weight_t =
  sw_staking_days :: u32
  sw_weight :: u32
  sw_is_valid :: bool

record vote_params_t =
  staking_mode_on :: bool
  set_commission_interval :: nat
  staking_rewards_vesting_seconds :: u32
  missed_block_limit :: nat
  max_staking_count :: nat
  witness_reward_proportion :: nat
  valid_nodes_number :: nat
  min_staking_amount :: int

datatype future_extensions =
    Ext_trust_node_pledge share_type
  | Ext_inter_contract_calling_params inter_contract_calling_params_t
  | Ext_staking_params "(string \<times> staking_weight_t) list"
  | Ext_vote_params vote_params_t
  | Ext_asset_symbol string
  | Ext_operation_version nat
  | Ext_other nat

definition default_trust_node_pledge :: share_type where
  "default_trust_node_pledge = 100000 * 10000"

definition default_inter_contract_params :: inter_contract_calling_params_t where
  "default_inter_contract_params = \<lparr>max_inter_contract_depth = 3,
     contract_basic_fee_vesting_period_seconds = 259200, max_inline_action_size = 1024 * 64\<rparr>"

definition default_vote_params :: vote_params_t where
  "default_vote_params = \<lparr>staking_mode_on = False, set_commission_interval = 60 * 60 * 24 * 7,
     staking_rewards_vesting_seconds = 60 * 60, missed_block_limit = 100000, max_staking_count = 10,
     witness_reward_proportion = 500, valid_nodes_number = 35, min_staking_amount = 100000\<rparr>"

record chain_parameters =
  cp_block_interval :: nat
  cp_maintenance_interval :: nat
  cp_maintenance_skip_slots :: nat
  cp_committee_proposal_review_period :: nat
  cp_maximum_transaction_size :: nat
  cp_maximum_block_size :: nat
  cp_maximum_time_until_expiration :: nat
  cp_maximum_proposal_lifetime :: nat
  cp_maximum_asset_whitelist_authorities :: nat
  cp_maximum_asset_feed_publishers :: nat
  cp_maximum_witness_count :: nat
  cp_maximum_committee_count :: nat
  cp_maximum_authority_membership :: nat
  cp_reserve_percent_of_fee :: u16
  cp_network_percent_of_fee :: u16
  cp_lifetime_referrer_percent_of_fee :: u16
  cp_cashback_vesting_period_seconds :: u32
  cp_cashback_vesting_threshold :: share_type
  cp_count_non_member_votes :: bool
  cp_allow_non_member_whitelists :: bool
  cp_witness_pay_per_block :: share_type
  cp_witness_pay_vesting_seconds :: u32
  cp_worker_budget_per_day :: share_type
  cp_max_predicate_opcode :: nat
  cp_fee_liquidation_threshold :: share_type
  cp_accounts_per_fee_scale :: nat
  cp_account_fee_scale_bitshifts :: nat
  cp_max_authority_depth :: nat
  cp_account_create_basic_fee :: "64 word"
  cp_extensions :: "future_extensions list"

record global_property_object =
  gp_parameters :: chain_parameters
  gp_pending_parameters :: "chain_parameters option"
  gp_next_available_vote_id :: nat
  gp_active_committee_members :: "nat list"
  gp_active_witnesses :: "nat list"

record dynamic_global_property_object =
  dg_head_block_number :: nat
  dg_head_block_id :: "u32 list"
  dg_time :: time_point_sec
  dg_current_witness :: nat
  dg_next_maintenance_time :: time_point_sec
  dg_last_budget_time :: time_point_sec
  dg_witness_budget :: share_type
  dg_accounts_registered_this_interval :: nat
  dg_recently_missed_count :: nat
  dg_current_aslot :: nat
  dg_recent_slots_filled :: uint128
  dg_dynamic_flags :: u32
  dg_last_irreversible_block_num :: nat
  dg_current_staking_reward_pool :: share_type

section \<open>Accounts\<close>

record authority =
  weight_threshold :: nat
  account_auths :: "(account_id_type \<times> nat) list"
  key_auths :: "(public_key_type \<times> nat) list"
  address_auths :: "(nat \<times> nat) list"

datatype special_authority = No_special_authority | Top_holders_special_authority asset_id_type nat

record account_options =
  ao_memo_key :: public_key_type
  ao_voting_account :: account_id_type
  ao_num_witness :: nat
  ao_num_committee :: nat
  ao_votes :: "vote_id_type list"

record account_object =
  ac_membership_expiration_date :: time_point_sec
  ac_merchant_expiration_date :: time_point_sec
  ac_datasource_expiration_date :: time_point_sec
  ac_data_transaction_member_expiration_date :: time_point_sec
  ac_registrar :: account_id_type
  ac_referrer :: account_id_type
  ac_lifetime_referrer :: account_id_type
  ac_merchant_auth_referrer :: account_id_type
  ac_datasource_auth_referrer :: account_id_type
  ac_network_fee_percentage :: u16
  ac_lifetime_referrer_fee_percentage :: u16
  ac_referrer_rewards_percentage :: u16
  ac_name :: string
  ac_vm_type :: string
  ac_vm_version :: string
  ac_code :: "8 word list"
  ac_code_version :: string
  ac_owner :: authority
  ac_active :: authority
  ac_options :: account_options
  ac_statistics :: nat
  ac_whitelisting_accounts :: "account_id_type list"
  ac_whitelisted_accounts :: "account_id_type list"
  ac_blacklisted_accounts :: "account_id_type list"
  ac_blacklisting_accounts :: "account_id_type list"
  ac_cashback_vb :: "nat option"
  ac_contract_call_cashback_vb :: "nat option"
  ac_staking_cashback_vb :: "nat option"
  ac_owner_special_authority :: special_authority
  ac_active_special_authority :: special_authority
  ac_top_n_control_flags :: nat
  ac_allowed_assets :: "asset_id_type list option"

definition time_point_sec_maximum :: time_point_sec where
  "time_point_sec_maximum = 4294967295"

definition is_contract_account :: "account_object \<Rightarrow> bool" where
  "is_contract_account a \<longleftrightarrow> length (ac_code a) = 0"

definition is_lifetime_member :: "account_object \<Rightarrow> bool" where
  "is_lifetime_member a \<longleftrightarrow> ac_membership_expiration_date a = time_point_sec_maximum"

definition is_basic_account :: "account_object \<Rightarrow> time_point_sec \<Rightarrow> bool" where
  "is_basic_account a now \<longleftrightarrow> now > ac_membership_expiration_date a"

definition is_annual_member :: "account_object \<Rightarrow> time_point_sec \<Rightarrow> bool" where
  "is_annual_member a now \<longleftrightarrow> \<not> is_lifetime_member a \<and> \<not> is_basic_account a now"

definition is_member :: "account_object \<Rightarrow> time_point_sec \<Rightarrow> bool" where
  "is_member a now \<longleftrightarrow> \<not> is_basic_account a now"

definition has_special_authority :: "account_object \<Rightarrow> bool" where
  "has_special_authority a \<longleftrightarrow> ac_owner_special_authority a \<noteq> No_special_authority \<or>
     ac_active_special_authority a \<noteq> No_special_authority"

record special_authority_object =
  sa_account :: account_id_type

record buyback_object =
  bb_asset_to_buy :: asset_id_type

record withdraw_permission_object =
  wp_withdraw_from_account :: account_id_type
  wp_authorized_account :: account_id_type
  wp_withdrawal_limit :: asset
  wp_withdrawal_period_sec :: nat
  wp_period_start_time :: time_point_sec
  wp_expiration :: time_point_sec
  wp_claimed_this_period :: share_type

record account_statistics_object =
  as_owner :: account_id_type
  as_most_recent_op :: nat
  as_total_ops :: nat
  as_removed_ops :: nat
  as_total_core_in_orders :: share_type
  as_lifetime_fees_paid :: share_type
  as_pending_fees :: share_type
  as_pending_vested_fees :: share_type

record account_balance_object =
  ab_owner :: account_id_type
  ab_asset_type :: asset_id_type
  ab_balance :: share_type

definition ab_get_balance :: "account_balance_object \<Rightarrow> asset" where
  "ab_get_balance b = mk_asset (ab_balance b) (ab_asset_type b)"

definition ab_adjust_balance ::
  "safe_ops \<Rightarrow> asset \<Rightarrow> account_balance_object \<Rightarrow> account_balance_object result" where
  "ab_adjust_balance S delta b =
     rbind (safe_add S (ab_balance b) (amount delta)) (\<lambda>v. Inr (b\<lparr>ab_balance := v\<rparr>))"

record trust_node_pledge_object =
  tn_owner_account :: account_id_type
  tn_amount :: asset

record lock_balance_object =
  lb_owner :: account_id_type
  lb_create_date_time :: time_point_sec
  lb_lock_days :: nat
  lb_program_id :: string
  lb_amount :: asset
  lb_interest_rate :: u16
  lb_memo :: string

section \<open>Assets\<close>

unbundle bit_operations_syntax

record asset_options =
  opt_max_supply :: share_type
  opt_market_fee_percent :: u16
  opt_max_market_fee :: share_type
  opt_issuer_permissions :: u16
  opt_flags :: u16
  opt_core_exchange_rate :: price
  opt_whitelist_authorities :: "account_id_type list"
  opt_blacklist_authorities :: "account_id_type list"
  opt_whitelist_markets :: "asset_id_type list"
  opt_blacklist_markets :: "asset_id_type list"
  opt_description :: string

record bitasset_options =
  bo_feed_lifetime_sec :: nat
  bo_minimum_feeds :: nat
  bo_force_settlement_delay_sec :: nat
  bo_force_settlement_offset_percent :: u16
  bo_maximum_force_settlement_volume :: u16
  bo_short_backing_asset :: asset_id_type

record asset_dynamic_data_object =
  dd_current_supply :: share_type
  dd_confidential_supply :: share_type
  dd_accumulated_fees :: share_type
  dd_fee_pool :: share_type

record asset_object =
  at_symbol :: string
  at_precision :: nat
  at_issuer :: account_id_type
  at_options :: asset_options
  at_dynamic_asset_data_id :: nat
  at_bitasset_data_id :: "nat option"
  at_buyback_account :: "account_id_type option"

record asset_bitasset_data_object =
  bd_options :: bitasset_options
  bd_feeds :: "(account_id_type \<times> time_point_sec \<times> price_feed) list"
  bd_current_feed :: price_feed
  bd_current_feed_publication_time :: time_point_sec
  bd_is_prediction_market :: bool
  bd_force_settled_volume :: share_type
  bd_settlement_price :: price
  bd_settlement_fund :: share_type

definition charge_market_fee :: u16 where "charge_market_fee = 0x01"
definition white_list :: u16 where "white_list = 0x02"
definition override_authority :: u16 where "override_authority = 0x04"
definition transfer_restricted :: u16 where "transfer_restricted = 0x08"
definition disable_force_settle :: u16 where "disable_force_settle = 0x10"
definition global_settle :: u16 where "global_settle = 0x20"
definition disable_confidential :: u16 where "disable_confidential = 0x40"
definition witness_fed_asset :: u16 where "witness_fed_asset = 0x80"
definition committee_fed_asset :: u16 where "committee_fed_asset = 0x100"

definition ASSET_ISSUER_PERMISSION_MASK :: u16 where
  "ASSET_ISSUER_PERMISSION_MASK = charge_market_fee OR white_list OR override_authority OR
     transfer_restricted OR disable_force_settle OR global_settle OR disable_confidential OR
     witness_fed_asset OR committee_fed_asset"

definition UIA_ASSET_ISSUER_PERMISSION_MASK :: u16 where
  "UIA_ASSET_ISSUER_PERMISSION_MASK = charge_market_fee OR white_list OR override_authority OR
     transfer_restricted OR disable_confidential"

definition has_flag :: "u16 \<Rightarrow> u16 \<Rightarrow> bool" where
  "has_flag w f \<longleftrightarrow> w AND f \<noteq> 0"

definition is_market_issued :: "asset_object \<Rightarrow> bool" where
  "is_market_issued a \<longleftrightarrow> at_bitasset_data_id a \<noteq> None"

definition is_transfer_restricted :: "asset_object \<Rightarrow> bool" where
  "is_transfer_restricted a = has_flag (opt_flags (at_options a)) transfer_restricted"

definition can_override :: "asset_object \<Rightarrow> bool" where
  "can_override a = has_flag (opt_flags (at_options a)) override_authority"

definition asset_object_validate :: "asset_object \<Rightarrow> unit result" where
  "asset_object_validate a =
     (if \<not> is_market_issued a
      then fc_assert (\<not> (has_flag (opt_flags (at_options a)) disable_force_settle \<or>
                         has_flag (opt_flags (at_options a)) global_settle))
           (fc_assert (\<not> (has_flag (opt_issuer_permissions (at_options a)) disable_force_settle \<or>
                          has_flag (opt_issuer_permissions (at_options a)) global_settle)) (Inr ()))
      else Inr ())"

section \<open>Witnesses and staking\<close>

record witness_object =
  wt_witness_account :: account_id_type
  wt_last_aslot :: nat
  wt_signing_key :: public_key_type
  wt_pay_vb :: "nat option"
  wt_vote_id :: vote_id_type
  wt_total_votes :: nat
  wt_url :: string
  wt_total_missed :: int
  wt_last_confirmed_block_num :: nat
  wt_is_valid :: bool
  wt_total_vote_weights :: share_type
  wt_vote_reward_pool :: share_type
  wt_commission_rate :: nat
  wt_commission_update_time :: time_point_sec
  wt_previous_missed :: int
  wt_is_banned :: bool

record committee_member_object =
  cm_committee_member_account :: account_id_type
  cm_vote_id :: vote_id_type
  cm_total_votes :: nat
  cm_url :: string
  cm_is_valid :: bool

record staking_object =
  sk_owner :: account_id_type
  sk_create_date_time :: time_point_sec
  sk_staking_days :: u32
  sk_weight :: u32
  sk_program_id :: string
  sk_amount :: asset
  sk_trust_node :: nat
  sk_is_valid :: bool

section \<open>The database\<close>

record database =
  db_accounts :: "account_object index_table"
  db_statistics :: "account_statistics_object index_table"
  db_balances :: "account_balance_object index_table"
  db_assets :: "asset_object index_table"
  db_dynamic_data :: "asset_dynamic_data_object index_table"
  db_bitassets :: "asset_bitasset_data_object index_table"
  db_vesting :: "vesting_balance_object index_table"
  db_stakings :: "staking_object index_table"
  db_witnesses :: "witness_object index_table"
  db_pledges :: "trust_node_pledge_object index_table"
  db_committee_members :: "committee_member_object index_table"
  db_special_authorities :: "special_authority_object index_table"
  db_buybacks :: "buyback_object index_table"
  db_withdraw_permissions :: "withdraw_permission_object index_table"
  db_global :: global_property_object
  db_dynamic :: dynamic_global_property_object
  db_shuffled_witnesses :: "nat list"

text \<open>The unique secondary keys of the tables.\<close>

definition account_uk :: "account_object \<Rightarrow> string list" where "account_uk a = [ac_name a]"
definition special_authority_uk :: "special_authority_object \<Rightarrow> nat list" where "special_authority_uk s = [sa_account s]"
definition buyback_uk :: "buyback_object \<Rightarrow> nat list" where "buyback_uk b = [bb_asset_to_buy b]"
definition balance_uk :: "account_balance_object \<Rightarrow> (nat \<times> nat) list" where
  "balance_uk b = [(ab_owner b, ab_asset_type b)]"
definition asset_uk :: "asset_object \<Rightarrow> string list" where "asset_uk a = [at_symbol a]"
text \<open>A vote id packs its type into the low 8 bits and its instance above; it compares by its instance.\<close>

definition vote_instance :: "vote_id_type \<Rightarrow> nat" where
  "vote_instance v = v div 256"

definition witness_uk :: "witness_object \<Rightarrow> (nat + nat) list" where
  "witness_uk w = [Inl (wt_witness_account w), Inr (vote_instance (wt_vote_id w))]"
definition committee_uk :: "committee_member_object \<Rightarrow> (nat + nat) list" where
  "committee_uk c = [Inl (cm_committee_member_account c), Inr (vote_instance (cm_vote_id c))]"
definition pledge_uk :: "trust_node_pledge_object \<Rightarrow> nat list" where "pledge_uk p = [tn_owner_account p]"
definition no_uk :: "'a \<Rightarrow> nat list" where "no_uk x = []"

definition head_block_time :: "database \<Rightarrow> time_point_sec" where
  "head_block_time db = dg_time (db_dynamic db)"

definition HARDFORK_413_TIME :: nat where "HARDFORK_413_TIME = 1446652800"
definition HARDFORK_415_TIME :: nat where "HARDFORK_415_TIME = 1446652800"
definition HARDFORK_416_TIME :: nat where "HARDFORK_416_TIME = 1446652800"
definition HARDFORK_419_TIME :: nat where "HARDFORK_419_TIME = 1446652800"
definition HARDFORK_572_TIME :: nat where "HARDFORK_572_TIME = 1456250400"
definition HARDFORK_1005_TIME :: nat where "HARDFORK_1005_TIME = 1524153600"
definition HARDFORK_1008_TIME :: nat where "HARDFORK_1008_TIME = 1541433600"
definition HARDFORK_1010_TIME :: nat where "HARDFORK_1010_TIME = 1545796800"
definition HARDFORK_1013_TIME :: nat where "HARDFORK_1013_TIME = 1553832000"
definition HARDFORK_1016_TIME :: nat where "HARDFORK_1016_TIME = 1553832000"
definition HARDFORK_1019_TIME :: nat where "HARDFORK_1019_TIME = 1553832000"
definition HARDFORK_1012_TIME :: nat where "HARDFORK_1012_TIME = 1545796800"
definition HARDFORK_1026_TIME :: nat where "HARDFORK_1026_TIME = 1585281600"
definition HARDFORK_1029_TIME :: nat where "HARDFORK_1029_TIME = 1608133197"
definition HARDFORK_1025_TIME :: nat where "HARDFORK_1025_TIME = 1585281600"
definition HARDFORK_1028_TIME :: nat where "HARDFORK_1028_TIME = 1585281600"
definition HARDFORK_1129_TIME :: nat where "HARDFORK_1129_TIME = 1545796800"
definition HARDFORK_1027_TIME :: nat where "HARDFORK_1027_TIME = 1585281600"

definition current_core_asset_id :: "database \<Rightarrow> asset_id_type" where
  "current_core_asset_id db = (if head_block_time db > HARDFORK_1008_TIME then 1 else 0)"

definition get_core_asset :: "database \<Rightarrow> asset_object result" where
  "get_core_asset db = (if head_block_time db > HARDFORK_1008_TIME then index_get (db_assets db) 1
     else index_get (db_assets db) 0)"

definition params :: "database \<Rightarrow> chain_parameters" where
  "params db = gp_parameters (db_global db)"

fun find_trust_node_pledge :: "future_extensions list \<Rightarrow> share_type" where
  "find_trust_node_pledge (Ext_trust_node_pledge p # _) = p"
| "find_trust_node_pledge (_ # es) = find_trust_node_pledge es"
| "find_trust_node_pledge [] = default_trust_node_pledge"

fun find_inter_contract_calling_params :: "future_extensions list \<Rightarrow> inter_contract_calling_params_t" where
  "find_inter_contract_calling_params (Ext_inter_contract_calling_params p # _) = p"
| "find_inter_contract_calling_params (_ # es) = find_inter_contract_calling_params es"
| "find_inter_contract_calling_params [] = default_inter_contract_params"

fun find_vote_params :: "future_extensions list \<Rightarrow> vote_params_t" where
  "find_vote_params (Ext_vote_params p # _) = p"
| "find_vote_params (_ # es) = find_vote_params es"
| "find_vote_params [] = default_vote_params"

definition get_trust_node_pledge :: "database \<Rightarrow> share_type" where
  "get_trust_node_pledge db = find_trust_node_pledge (cp_extensions (params db))"

definition get_inter_contract_calling_params :: "database \<Rightarrow> inter_contract_calling_params_t" where
  "get_inter_contract_calling_params db = find_inter_contract_calling_params (cp_extensions (params db))"

definition get_vote_params :: "database \<Rightarrow> vote_params_t" where
  "get_vote_params db = find_vote_params (cp_extensions (params db))"

end
