(* ===== verification/Ledger_State.thy ===== *)
theory Ledger_State
  imports Chain_State
begin

text \<open>
  How the evaluators change the database: modification and creation of an object of each table
  (\<open>database::modify\<close>, \<open>database::create\<close>), the well-formedness of the database, and the ledger
  view of it. The \<open>surplus\<close> of an asset is everything the chain's objects hold of it less its current
  supply; an operation conserves the asset exactly when it leaves the surplus unchanged.
\<close>

section \<open>Modifying and creating objects\<close>

definition modify_account :: "nat \<Rightarrow> (account_object \<Rightarrow> account_object result) \<Rightarrow> database \<Rightarrow> database result" where
  "modify_account i m db = rbind (index_modify account_uk i m (db_accounts db)) (\<lambda>t. Inr (db\<lparr>db_accounts := t\<rparr>))"

definition modify_statistics ::
  "nat \<Rightarrow> (account_statistics_object \<Rightarrow> account_statistics_object result) \<Rightarrow> database \<Rightarrow> database result" where
  "modify_statistics i m db = rbind (index_modify no_uk i m (db_statistics db)) (\<lambda>t. Inr (db\<lparr>db_statistics := t\<rparr>))"

definition modify_balance ::
  "nat \<Rightarrow> (account_balance_object \<Rightarrow> account_balance_object result) \<Rightarrow> database \<Rightarrow> database result" where
  "modify_balance i m db = rbind (index_modify balance_uk i m (db_balances db)) (\<lambda>t. Inr (db\<lparr>db_balances := t\<rparr>))"

definition create_balance :: "account_balance_object \<Rightarrow> database \<Rightarrow> database result" where
  "create_balance b db = rbind (index_create balance_uk b (db_balances db)) (\<lambda>(i, t). Inr (db\<lparr>db_balances := t\<rparr>))"

definition modify_asset :: "nat \<Rightarrow> (asset_object \<Rightarrow> asset_object result) \<Rightarrow> database \<Rightarrow> database result" where
  "modify_asset i m db = rbind (index_modify asset_uk i m (db_assets db)) (\<lambda>t. Inr (db\<lparr>db_assets := t\<rparr>))"

definition create_asset :: "asset_object \<Rightarrow> database \<Rightarrow> (nat \<times> database) result" where
  "create_asset a db = rbind (index_create asset_uk a (db_assets db)) (\<lambda>(i, t). Inr (i, db\<lparr>db_assets := t\<rparr>))"

definition create_dynamic_data :: "asset_dynamic_data_object \<Rightarrow> database \<Rightarrow> (nat \<times> database) result" where
  "create_dynamic_data d db =
     rbind (index_create no_uk d (db_dynamic_data db)) (\<lambda>(i, t). Inr (i, db\<lparr>db_dynamic_data := t\<rparr>))"

definition modify_dynamic_data ::
  "nat \<Rightarrow> (asset_dynamic_data_object \<Rightarrow> asset_dynamic_data_object result) \<Rightarrow> database \<Rightarrow> database result" where
  "modify_dynamic_data i m db =
     rbind (index_modify no_uk i m (db_dynamic_data db)) (\<lambda>t. Inr (db\<lparr>db_dynamic_data := t\<rparr>))"

definition modify_vesting ::
  "nat \<Rightarrow> (vesting_balance_object \<Rightarrow> vesting_balance_object result) \<Rightarrow> database \<Rightarrow> database result" where
  "modify_vesting i m db = rbind (index_modify no_uk i m (db_vesting db)) (\<lambda>t. Inr (db\<lparr>db_vesting := t\<rparr>))"

definition create_vesting :: "vesting_balance_object \<Rightarrow> database \<Rightarrow> (nat \<times> database) result" where
  "create_vesting v db = rbind (index_create no_uk v (db_vesting db)) (\<lambda>(i, t). Inr (i, db\<lparr>db_vesting := t\<rparr>))"

definition modify_witness :: "nat \<Rightarrow> (witness_object \<Rightarrow> witness_object result) \<Rightarrow> database \<Rightarrow> database result" where
  "modify_witness i m db = rbind (index_modify witness_uk i m (db_witnesses db)) (\<lambda>t. Inr (db\<lparr>db_witnesses := t\<rparr>))"

definition modify_staking :: "nat \<Rightarrow> (staking_object \<Rightarrow> staking_object result) \<Rightarrow> database \<Rightarrow> database result" where
  "modify_staking i m db = rbind (index_modify no_uk i m (db_stakings db)) (\<lambda>t. Inr (db\<lparr>db_stakings := t\<rparr>))"

definition create_staking :: "staking_object \<Rightarrow> database \<Rightarrow> (nat \<times> database) result" where
  "create_staking s db = rbind (index_create no_uk s (db_stakings db)) (\<lambda>(i, t). Inr (i, db\<lparr>db_stakings := t\<rparr>))"

definition remove_staking :: "nat \<Rightarrow> database \<Rightarrow> database" where
  "remove_staking i db = db\<lparr>db_stakings := index_remove i (db_stakings db)\<rparr>"

definition create_witness :: "witness_object \<Rightarrow> database \<Rightarrow> (nat \<times> database) result" where
  "create_witness w db = rbind (index_create witness_uk w (db_witnesses db)) (\<lambda>(i, t). Inr (i, db\<lparr>db_witnesses := t\<rparr>))"

definition modify_pledge :: "nat \<Rightarrow> (trust_node_pledge_object \<Rightarrow> trust_node_pledge_object result) \<Rightarrow> database \<Rightarrow> database result" where
  "modify_pledge i m db = rbind (index_modify pledge_uk i m (db_pledges db)) (\<lambda>t. Inr (db\<lparr>db_pledges := t\<rparr>))"

definition create_pledge :: "trust_node_pledge_object \<Rightarrow> database \<Rightarrow> (nat \<times> database) result" where
  "create_pledge p db = rbind (index_create pledge_uk p (db_pledges db)) (\<lambda>(i, t). Inr (i, db\<lparr>db_pledges := t\<rparr>))"

definition remove_pledge :: "nat \<Rightarrow> database \<Rightarrow> database" where
  "remove_pledge i db = db\<lparr>db_pledges := index_remove i (db_pledges db)\<rparr>"

definition modify_committee_member ::
  "nat \<Rightarrow> (committee_member_object \<Rightarrow> committee_member_object result) \<Rightarrow> database \<Rightarrow> database result" where
  "modify_committee_member i m db =
     rbind (index_modify committee_uk i m (db_committee_members db)) (\<lambda>t. Inr (db\<lparr>db_committee_members := t\<rparr>))"

definition create_committee_member :: "committee_member_object \<Rightarrow> database \<Rightarrow> (nat \<times> database) result" where
  "create_committee_member c db =
     rbind (index_create committee_uk c (db_committee_members db)) (\<lambda>(i, t). Inr (i, db\<lparr>db_committee_members := t\<rparr>))"

definition create_account :: "account_object \<Rightarrow> database \<Rightarrow> (nat \<times> database) result" where
  "create_account a db = rbind (index_create account_uk a (db_accounts db)) (\<lambda>(i, t). Inr (i, db\<lparr>db_accounts := t\<rparr>))"

definition create_statistics :: "account_statistics_object \<Rightarrow> database \<Rightarrow> (nat \<times> database) result" where
  "create_statistics s db = rbind (index_create no_uk s (db_statistics db)) (\<lambda>(i, t). Inr (i, db\<lparr>db_statistics := t\<rparr>))"

definition create_special_authority :: "special_authority_object \<Rightarrow> database \<Rightarrow> (nat \<times> database) result" where
  "create_special_authority s db =
     rbind (index_create special_authority_uk s (db_special_authorities db)) (\<lambda>(i, t). Inr (i, db\<lparr>db_special_authorities := t\<rparr>))"

definition remove_special_authority :: "nat \<Rightarrow> database \<Rightarrow> database" where
  "remove_special_authority i db = db\<lparr>db_special_authorities := index_remove i (db_special_authorities db)\<rparr>"

definition create_buyback :: "buyback_object \<Rightarrow> database \<Rightarrow> (nat \<times> database) result" where
  "create_buyback b db = rbind (index_create buyback_uk b (db_buybacks db)) (\<lambda>(i, t). Inr (i, db\<lparr>db_buybacks := t\<rparr>))"

definition create_withdraw_permission :: "withdraw_permission_object \<Rightarrow> database \<Rightarrow> (nat \<times> database) result" where
  "create_withdraw_permission p db =
     rbind (index_create no_uk p (db_withdraw_permissions db)) (\<lambda>(i, t). Inr (i, db\<lparr>db_withdraw_permissions := t\<rparr>))"

definition modify_withdraw_permission ::
  "nat \<Rightarrow> (withdraw_permission_object \<Rightarrow> withdraw_permission_object result) \<Rightarrow> database \<Rightarrow> database result" where
  "modify_withdraw_permission i m db =
     rbind (index_modify no_uk i m (db_withdraw_permissions db)) (\<lambda>t. Inr (db\<lparr>db_withdraw_permissions := t\<rparr>))"

definition remove_withdraw_permission :: "nat \<Rightarrow> database \<Rightarrow> database" where
  "remove_withdraw_permission i db = db\<lparr>db_withdraw_permissions := index_remove i (db_withdraw_permissions db)\<rparr>"

section \<open>Well-formed databases\<close>

definition tables_ok :: "database \<Rightarrow> bool" where
  "tables_ok db \<longleftrightarrow> index_ok account_uk (db_accounts db) \<and> index_ok no_uk (db_statistics db) \<and>
     index_ok balance_uk (db_balances db) \<and> index_ok asset_uk (db_assets db) \<and>
     index_ok no_uk (db_dynamic_data db) \<and> index_ok no_uk (db_vesting db) \<and>
     index_ok no_uk (db_stakings db) \<and> index_ok witness_uk (db_witnesses db) \<and>
     index_ok pledge_uk (db_pledges db) \<and> index_ok committee_uk (db_committee_members db) \<and>
     index_ok special_authority_uk (db_special_authorities db) \<and> index_ok buyback_uk (db_buybacks db) \<and>
     index_ok no_uk (db_withdraw_permissions db)"

text \<open>
  Every asset has dynamic data of its own, and the two core assets (0 before and 1 after hard fork
  1008) have the dynamic data of the same number, which \<open>process_fees\<close> uses directly.
\<close>

definition dyn_id :: "database \<Rightarrow> asset_id_type \<Rightarrow> nat option" where
  "dyn_id db k = map_option at_dynamic_asset_data_id (index_find (db_assets db) k)"

definition dyn_links_ok :: "database \<Rightarrow> bool" where
  "dyn_links_ok db \<longleftrightarrow> (\<forall>a b d. dyn_id db a = Some d \<longrightarrow> dyn_id db b = Some d \<longrightarrow> a = b) \<and>
     dyn_id db 0 = Some 0 \<and> dyn_id db 1 = Some 1 \<and>
     (\<forall>a d. dyn_id db a = Some d \<longrightarrow> index_find (db_dynamic_data db) d \<noteq> None)"

definition db_ok :: "database \<Rightarrow> bool" where
  "db_ok db \<longleftrightarrow> tables_ok db \<and> dyn_links_ok db"

section \<open>The ledger view\<close>

definition of_asset :: "asset_id_type \<Rightarrow> asset \<Rightarrow> int" where
  "of_asset k a = (if asset_id a = k then amount a else 0)"

lemma of_asset_mk [simp]: "of_asset k (mk_asset a i) = (if i = k then a else 0)"
  by (simp add: of_asset_def)

definition dyn_net :: "asset_dynamic_data_object \<Rightarrow> int" where
  "dyn_net d = dd_accumulated_fees d - dd_current_supply d"

definition asset_net :: "asset_id_type \<Rightarrow> database \<Rightarrow> int" where
  "asset_net k db = (case dyn_id db k of None \<Rightarrow> 0
     | Some i \<Rightarrow> (case index_find (db_dynamic_data db) i of None \<Rightarrow> 0 | Some d \<Rightarrow> dyn_net d))"

definition pending :: "account_statistics_object \<Rightarrow> int" where
  "pending s = as_pending_fees s + as_pending_vested_fees s"

definition core_pools :: "database \<Rightarrow> int" where
  "core_pools db = table_sum pending (db_statistics db) + table_sum dd_fee_pool (db_dynamic_data db) +
     table_sum wt_vote_reward_pool (db_witnesses db) + dg_witness_budget (db_dynamic db) +
     dg_current_staking_reward_pool (db_dynamic db)"

definition surplus :: "database \<Rightarrow> asset_id_type \<Rightarrow> int" where
  "surplus db k =
     table_sum (of_asset k \<circ> ab_get_balance) (db_balances db) +
     table_sum (of_asset k \<circ> vb_balance) (db_vesting db) +
     table_sum (of_asset k \<circ> sk_amount) (db_stakings db) +
     table_sum (of_asset k \<circ> tn_amount) (db_pledges db) +
     asset_net k db + (if k = current_core_asset_id db then core_pools db else 0)"

text \<open>Which fields the ledger view reads.\<close>

lemma dyn_id_upd [simp]:
  "dyn_id (db\<lparr>db_accounts := t0\<rparr>) = dyn_id db"
  "dyn_id (db\<lparr>db_statistics := t1\<rparr>) = dyn_id db"
  "dyn_id (db\<lparr>db_balances := t2\<rparr>) = dyn_id db"
  "dyn_id (db\<lparr>db_dynamic_data := t4\<rparr>) = dyn_id db"
  "dyn_id (db\<lparr>db_bitassets := t5\<rparr>) = dyn_id db"
  "dyn_id (db\<lparr>db_vesting := t6\<rparr>) = dyn_id db"
  "dyn_id (db\<lparr>db_stakings := t7\<rparr>) = dyn_id db"
  "dyn_id (db\<lparr>db_witnesses := t8\<rparr>) = dyn_id db"
  "dyn_id (db\<lparr>db_pledges := t9\<rparr>) = dyn_id db"
  "dyn_id (db\<lparr>db_committee_members := t13\<rparr>) = dyn_id db"
  "dyn_id (db\<lparr>db_special_authorities := t14\<rparr>) = dyn_id db"
  "dyn_id (db\<lparr>db_buybacks := t15\<rparr>) = dyn_id db"
  "dyn_id (db\<lparr>db_withdraw_permissions := t16\<rparr>) = dyn_id db"
  "dyn_id (db\<lparr>db_global := t10\<rparr>) = dyn_id db"
  "dyn_id (db\<lparr>db_dynamic := t11\<rparr>) = dyn_id db"
  "dyn_id (db\<lparr>db_shuffled_witnesses := t12\<rparr>) = dyn_id db"
  by (simp_all add: dyn_id_def fun_eq_iff)

lemma asset_net_upd [simp]:
  "asset_net k (db\<lparr>db_accounts := t0\<rparr>) = asset_net k db"
  "asset_net k (db\<lparr>db_statistics := t1\<rparr>) = asset_net k db"
  "asset_net k (db\<lparr>db_balances := t2\<rparr>) = asset_net k db"
  "asset_net k (db\<lparr>db_bitassets := t5\<rparr>) = asset_net k db"
  "asset_net k (db\<lparr>db_vesting := t6\<rparr>) = asset_net k db"
  "asset_net k (db\<lparr>db_stakings := t7\<rparr>) = asset_net k db"
  "asset_net k (db\<lparr>db_witnesses := t8\<rparr>) = asset_net k db"
  "asset_net k (db\<lparr>db_pledges := t9\<rparr>) = asset_net k db"
  "asset_net k (db\<lparr>db_committee_members := t13\<rparr>) = asset_net k db"
  "asset_net k (db\<lparr>db_special_authorities := t14\<rparr>) = asset_net k db"
  "asset_net k (db\<lparr>db_buybacks := t15\<rparr>) = asset_net k db"
  "asset_net k (db\<lparr>db_withdraw_permissions := t16\<rparr>) = asset_net k db"
  "asset_net k (db\<lparr>db_global := t10\<rparr>) = asset_net k db"
  "asset_net k (db\<lparr>db_dynamic := t11\<rparr>) = asset_net k db"
  "asset_net k (db\<lparr>db_shuffled_witnesses := t12\<rparr>) = asset_net k db"
  by (simp_all add: asset_net_def cong: option.case_cong)

lemma core_pools_upd [simp]:
  "core_pools (db\<lparr>db_accounts := t0\<rparr>) = core_pools db"
  "core_pools (db\<lparr>db_balances := t2\<rparr>) = core_pools db"
  "core_pools (db\<lparr>db_assets := t3\<rparr>) = core_pools db"
  "core_pools (db\<lparr>db_bitassets := t5\<rparr>) = core_pools db"
  "core_pools (db\<lparr>db_vesting := t6\<rparr>) = core_pools db"
  "core_pools (db\<lparr>db_stakings := t7\<rparr>) = core_pools db"
  "core_pools (db\<lparr>db_pledges := t9\<rparr>) = core_pools db"
  "core_pools (db\<lparr>db_committee_members := t13\<rparr>) = core_pools db"
  "core_pools (db\<lparr>db_special_authorities := t14\<rparr>) = core_pools db"
  "core_pools (db\<lparr>db_buybacks := t15\<rparr>) = core_pools db"
  "core_pools (db\<lparr>db_withdraw_permissions := t16\<rparr>) = core_pools db"
  "core_pools (db\<lparr>db_global := t10\<rparr>) = core_pools db"
  "core_pools (db\<lparr>db_shuffled_witnesses := t12\<rparr>) = core_pools db"
  by (simp_all add: core_pools_def)

lemma head_block_time_upd [simp]:
  "head_block_time (db\<lparr>db_accounts := t0\<rparr>) = head_block_time db"
  "head_block_time (db\<lparr>db_statistics := t1\<rparr>) = head_block_time db"
  "head_block_time (db\<lparr>db_balances := t2\<rparr>) = head_block_time db"
  "head_block_time (db\<lparr>db_assets := t3\<rparr>) = head_block_time db"
  "head_block_time (db\<lparr>db_dynamic_data := t4\<rparr>) = head_block_time db"
  "head_block_time (db\<lparr>db_bitassets := t5\<rparr>) = head_block_time db"
  "head_block_time (db\<lparr>db_vesting := t6\<rparr>) = head_block_time db"
  "head_block_time (db\<lparr>db_stakings := t7\<rparr>) = head_block_time db"
  "head_block_time (db\<lparr>db_witnesses := t8\<rparr>) = head_block_time db"
  "head_block_time (db\<lparr>db_pledges := t9\<rparr>) = head_block_time db"
  "head_block_time (db\<lparr>db_committee_members := t13\<rparr>) = head_block_time db"
  "head_block_time (db\<lparr>db_special_authorities := t14\<rparr>) = head_block_time db"
  "head_block_time (db\<lparr>db_buybacks := t15\<rparr>) = head_block_time db"
  "head_block_time (db\<lparr>db_withdraw_permissions := t16\<rparr>) = head_block_time db"
  "head_block_time (db\<lparr>db_global := t10\<rparr>) = head_block_time db"
  "head_block_time (db\<lparr>db_shuffled_witnesses := t12\<rparr>) = head_block_time db"
  by (simp_all add: head_block_time_def)

lemma core_asset_upd [simp]:
  "current_core_asset_id (db\<lparr>db_accounts := t0\<rparr>) = current_core_asset_id db"
  "current_core_asset_id (db\<lparr>db_statistics := t1\<rparr>) = current_core_asset_id db"
  "current_core_asset_id (db\<lparr>db_balances := t2\<rparr>) = current_core_asset_id db"
  "current_core_asset_id (db\<lparr>db_assets := t3\<rparr>) = current_core_asset_id db"
  "current_core_asset_id (db\<lparr>db_dynamic_data := t4\<rparr>) = current_core_asset_id db"
  "current_core_asset_id (db\<lparr>db_bitassets := t5\<rparr>) = current_core_asset_id db"
  "current_core_asset_id (db\<lparr>db_vesting := t6\<rparr>) = current_core_asset_id db"
  "current_core_asset_id (db\<lparr>db_stakings := t7\<rparr>) = current_core_asset_id db"
  "current_core_asset_id (db\<lparr>db_witnesses := t8\<rparr>) = current_core_asset_id db"
  "current_core_asset_id (db\<lparr>db_pledges := t9\<rparr>) = current_core_asset_id db"
  "current_core_asset_id (db\<lparr>db_committee_members := t13\<rparr>) = current_core_asset_id db"
  "current_core_asset_id (db\<lparr>db_special_authorities := t14\<rparr>) = current_core_asset_id db"
  "current_core_asset_id (db\<lparr>db_buybacks := t15\<rparr>) = current_core_asset_id db"
  "current_core_asset_id (db\<lparr>db_withdraw_permissions := t16\<rparr>) = current_core_asset_id db"
  "current_core_asset_id (db\<lparr>db_global := t10\<rparr>) = current_core_asset_id db"
  "current_core_asset_id (db\<lparr>db_shuffled_witnesses := t12\<rparr>) = current_core_asset_id db"
  by (simp_all add: current_core_asset_id_def)

section \<open>Effect of the primitives on the ledger\<close>

text \<open>
  Each primitive that succeeds keeps the database well-formed, leaves the rest of it alone, and
  changes the surplus by the difference of what the object holds.
\<close>

lemma surplus_cong:
  assumes "db_balances db' = db_balances db" "db_vesting db' = db_vesting db"
    "db_stakings db' = db_stakings db" "db_pledges db' = db_pledges db"
    "dyn_id db' = dyn_id db" "db_dynamic_data db' = db_dynamic_data db"
    "db_statistics db' = db_statistics db" "db_witnesses db' = db_witnesses db" "db_dynamic db' = db_dynamic db"
  shows "surplus db' = surplus db"
  unfolding surplus_def [abs_def] asset_net_def core_pools_def current_core_asset_id_def head_block_time_def assms
  by (rule refl)

lemma modify_account_effect:
  assumes m: "modify_account i m db = Inr db'" and ok: "db_ok db"
  obtains x y where "index_find (db_accounts db) i = Some x" and "m x = Inr y"
    and "index_find (db_accounts db') = (index_find (db_accounts db))(i \<mapsto> y)"
    and "db' = db\<lparr>db_accounts := db_accounts db'\<rparr>" and "db_ok db'" and "surplus db' = surplus db"
proof -
  from m obtain t where t: "index_modify account_uk i m (db_accounts db) = Inr t" and db': "db' = db\<lparr>db_accounts := t\<rparr>"
    by (auto simp: modify_account_def result_simps)
  obtain x y where xy: "index_find (db_accounts db) i = Some x" "m x = Inr y"
    "index_find t = (index_find (db_accounts db))(i \<mapsto> y)"
    using t by (rule index_modify_find)
  have "db_ok db'"
    using ok index_ok_modify [OF _ t] by (auto simp: db_ok_def tables_ok_def dyn_links_ok_def db')
  moreover have "surplus db' = surplus db"
    by (rule surplus_cong) (simp_all add: db')
  ultimately show ?thesis using xy by (intro that [of x y]) (simp_all add: db')
qed

lemma modify_statistics_effect:
  assumes m: "modify_statistics i m db = Inr db'" and ok: "db_ok db"
  obtains x y where "index_find (db_statistics db) i = Some x" and "m x = Inr y"
    and "index_find (db_statistics db') = (index_find (db_statistics db))(i \<mapsto> y)"
    and "db' = db\<lparr>db_statistics := db_statistics db'\<rparr>" and "db_ok db'"
    and "\<forall>k. surplus db' k = surplus db k + (if k = current_core_asset_id db then pending y - pending x else 0)"
proof -
  from m obtain t where t: "index_modify no_uk i m (db_statistics db) = Inr t" and db': "db' = db\<lparr>db_statistics := t\<rparr>"
    by (auto simp: modify_statistics_def result_simps)
  obtain x y where xy: "index_find (db_statistics db) i = Some x" "m x = Inr y"
    "index_find t = (index_find (db_statistics db))(i \<mapsto> y)"
    using t by (rule index_modify_find)
  have it: "index_ok no_uk (db_statistics db)" using ok by (simp add: db_ok_def tables_ok_def)
  have "db_ok db'"
    using ok index_ok_modify [OF it t] by (simp add: db_ok_def tables_ok_def dyn_links_ok_def db')
  moreover have "\<forall>k. surplus db' k = surplus db k + (if k = current_core_asset_id db then pending y - pending x else 0)"
    by (simp add: surplus_def core_pools_def db' table_sum_modify [OF it t xy(1,2)])
  ultimately show ?thesis using xy by (intro that [of x y]) (simp_all add: db')
qed

lemma modify_balance_effect:
  assumes m: "modify_balance i m db = Inr db'" and ok: "db_ok db"
  obtains x y where "index_find (db_balances db) i = Some x" and "m x = Inr y"
    and "index_find (db_balances db') = (index_find (db_balances db))(i \<mapsto> y)"
    and "db' = db\<lparr>db_balances := db_balances db'\<rparr>" and "db_ok db'"
    and "\<forall>k. surplus db' k = surplus db k + of_asset k (ab_get_balance y) - of_asset k (ab_get_balance x)"
proof -
  from m obtain t where t: "index_modify balance_uk i m (db_balances db) = Inr t" and db': "db' = db\<lparr>db_balances := t\<rparr>"
    by (auto simp: modify_balance_def result_simps)
  obtain x y where xy: "index_find (db_balances db) i = Some x" "m x = Inr y"
    "index_find t = (index_find (db_balances db))(i \<mapsto> y)"
    using t by (rule index_modify_find)
  have it: "index_ok balance_uk (db_balances db)" using ok by (simp add: db_ok_def tables_ok_def)
  have "db_ok db'"
    using ok index_ok_modify [OF it t] by (simp add: db_ok_def tables_ok_def dyn_links_ok_def db')
  moreover have "\<forall>k. surplus db' k = surplus db k + of_asset k (ab_get_balance y) - of_asset k (ab_get_balance x)"
    by (simp add: surplus_def core_pools_def db' table_sum_modify [OF it t xy(1,2)])
  ultimately show ?thesis using xy by (intro that [of x y]) (simp_all add: db')
qed

lemma create_balance_effect:
  assumes c: "create_balance b db = Inr db'" and ok: "db_ok db"
  shows "db' = db\<lparr>db_balances := db_balances db'\<rparr>" and "db_ok db'"
    and "\<exists>i. index_find (db_balances db) i = None \<and>
      index_find (db_balances db') = (index_find (db_balances db))(i \<mapsto> b)"
    and "surplus db' k = surplus db k + of_asset k (ab_get_balance b)"
proof -
  from c obtain i t where t: "index_create balance_uk b (db_balances db) = Inr (i, t)" and db': "db' = db\<lparr>db_balances := t\<rparr>"
    by (auto simp: create_balance_def result_simps)
  have it: "index_ok balance_uk (db_balances db)" using ok by (simp add: db_ok_def tables_ok_def)
  show "db' = db\<lparr>db_balances := db_balances db'\<rparr>" by (simp add: db')
  show "db_ok db'"
    using ok index_ok_create [OF it t] by (simp add: db_ok_def tables_ok_def dyn_links_ok_def db')
  show "\<exists>i. index_find (db_balances db) i = None \<and>
      index_find (db_balances db') = (index_find (db_balances db))(i \<mapsto> b)"
    using index_create_find [OF t] by (auto simp: db')
  show "surplus db' k = surplus db k + of_asset k (ab_get_balance b)"
    by (simp add: surplus_def core_pools_def db' table_sum_create [OF t])
qed

lemma modify_dynamic_data_effect:
  assumes m: "modify_dynamic_data i m db = Inr db'" and ok: "db_ok db"
  obtains x y where "index_find (db_dynamic_data db) i = Some x" and "m x = Inr y"
    and "index_find (db_dynamic_data db') = (index_find (db_dynamic_data db))(i \<mapsto> y)"
    and "db' = db\<lparr>db_dynamic_data := db_dynamic_data db'\<rparr>" and "db_ok db'"
    and "\<forall>k. surplus db' k = surplus db k + (if dyn_id db k = Some i then dyn_net y - dyn_net x else 0) +
      (if k = current_core_asset_id db then dd_fee_pool y - dd_fee_pool x else 0)"
proof -
  from m obtain t where t: "index_modify no_uk i m (db_dynamic_data db) = Inr t" and db': "db' = db\<lparr>db_dynamic_data := t\<rparr>"
    by (auto simp: modify_dynamic_data_def result_simps)
  obtain x y where xy: "index_find (db_dynamic_data db) i = Some x" "m x = Inr y"
    "index_find t = (index_find (db_dynamic_data db))(i \<mapsto> y)"
    using t by (rule index_modify_find)
  have it: "index_ok no_uk (db_dynamic_data db)" using ok by (simp add: db_ok_def tables_ok_def)
  have "db_ok db'"
    using ok index_ok_modify [OF it t] xy(3) by (auto simp: db_ok_def tables_ok_def dyn_links_ok_def db')
  moreover have net: "asset_net k db' = asset_net k db + (if dyn_id db k = Some i then dyn_net y - dyn_net x else 0)" for k
    using xy by (auto simp: asset_net_def db' split: option.splits)
  have "\<forall>k. surplus db' k = surplus db k + (if dyn_id db k = Some i then dyn_net y - dyn_net x else 0) +
      (if k = current_core_asset_id db then dd_fee_pool y - dd_fee_pool x else 0)"
    unfolding surplus_def net by (simp add: core_pools_def db' table_sum_modify [OF it t xy(1,2)])
  ultimately show ?thesis using xy by (intro that [of x y]) (simp_all add: db')
qed

lemma modify_vesting_effect:
  assumes m: "modify_vesting i m db = Inr db'" and ok: "db_ok db"
  obtains x y where "index_find (db_vesting db) i = Some x" and "m x = Inr y"
    and "index_find (db_vesting db') = (index_find (db_vesting db))(i \<mapsto> y)"
    and "db' = db\<lparr>db_vesting := db_vesting db'\<rparr>" and "db_ok db'"
    and "\<forall>k. surplus db' k = surplus db k + of_asset k (vb_balance y) - of_asset k (vb_balance x)"
proof -
  from m obtain t where t: "index_modify no_uk i m (db_vesting db) = Inr t" and db': "db' = db\<lparr>db_vesting := t\<rparr>"
    by (auto simp: modify_vesting_def result_simps)
  obtain x y where xy: "index_find (db_vesting db) i = Some x" "m x = Inr y"
    "index_find t = (index_find (db_vesting db))(i \<mapsto> y)"
    using t by (rule index_modify_find)
  have it: "index_ok no_uk (db_vesting db)" using ok by (simp add: db_ok_def tables_ok_def)
  have "db_ok db'"
    using ok index_ok_modify [OF it t] by (simp add: db_ok_def tables_ok_def dyn_links_ok_def db')
  moreover have "\<forall>k. surplus db' k = surplus db k + of_asset k (vb_balance y) - of_asset k (vb_balance x)"
    by (simp add: surplus_def core_pools_def db' table_sum_modify [OF it t xy(1,2)])
  ultimately show ?thesis using xy by (intro that [of x y]) (simp_all add: db')
qed

lemma create_vesting_effect:
  assumes c: "create_vesting v db = Inr (i, db')" and ok: "db_ok db"
  shows "db' = db\<lparr>db_vesting := db_vesting db'\<rparr>" and "db_ok db'"
    and "index_find (db_vesting db) i = None"
    and "index_find (db_vesting db') = (index_find (db_vesting db))(i \<mapsto> v)"
    and "surplus db' k = surplus db k + of_asset k (vb_balance v)"
proof -
  from c obtain t where t: "index_create no_uk v (db_vesting db) = Inr (i, t)" and db': "db' = db\<lparr>db_vesting := t\<rparr>"
    by (auto simp: create_vesting_def result_simps)
  have it: "index_ok no_uk (db_vesting db)" using ok by (simp add: db_ok_def tables_ok_def)
  show "db' = db\<lparr>db_vesting := db_vesting db'\<rparr>" by (simp add: db')
  show "db_ok db'"
    using ok index_ok_create [OF it t] by (simp add: db_ok_def tables_ok_def dyn_links_ok_def db')
  show "index_find (db_vesting db) i = None"
    "index_find (db_vesting db') = (index_find (db_vesting db))(i \<mapsto> v)"
    using index_create_find [OF t] by (auto simp: db')
  show "surplus db' k = surplus db k + of_asset k (vb_balance v)"
    by (simp add: surplus_def core_pools_def db' table_sum_create [OF t])
qed

lemma modify_asset_effect:
  assumes m: "modify_asset i m db = Inr db'" and ok: "db_ok db"
    and keep: "\<And>x y. m x = Inr y \<Longrightarrow> at_dynamic_asset_data_id y = at_dynamic_asset_data_id x"
  obtains x y where "index_find (db_assets db) i = Some x" and "m x = Inr y"
    and "index_find (db_assets db') = (index_find (db_assets db))(i \<mapsto> y)"
    and "db' = db\<lparr>db_assets := db_assets db'\<rparr>" and "db_ok db'" and "surplus db' = surplus db"
proof -
  from m obtain t where t: "index_modify asset_uk i m (db_assets db) = Inr t" and db': "db' = db\<lparr>db_assets := t\<rparr>"
    by (auto simp: modify_asset_def result_simps)
  obtain x y where xy: "index_find (db_assets db) i = Some x" "m x = Inr y"
    "index_find t = (index_find (db_assets db))(i \<mapsto> y)"
    using t by (rule index_modify_find)
  have dyn: "dyn_id db' = dyn_id db"
    using xy keep [OF xy(2)] by (auto simp: dyn_id_def db' fun_eq_iff)
  have "db_ok db'"
    using ok index_ok_modify [OF _ t] by (simp add: db_ok_def tables_ok_def dyn_links_ok_def dyn) (simp add: db')
  moreover have "surplus db' = surplus db"
    by (rule surplus_cong) (simp_all add: dyn, simp_all add: db')
  ultimately show ?thesis using xy by (intro that [of x y]) (simp_all add: db')
qed

text \<open>
  A new asset comes as two objects: its dynamic data, whose fee pool the core asset's total gains, and
  then the asset itself, which must be the only one to refer to that data.
\<close>

lemma create_dynamic_data_effect:
  assumes c: "create_dynamic_data d db = Inr (i, db')" and ok: "db_ok db"
  shows "db' = db\<lparr>db_dynamic_data := db_dynamic_data db'\<rparr>" and "db_ok db'"
    and "index_find (db_dynamic_data db) i = None"
    and "index_find (db_dynamic_data db') = (index_find (db_dynamic_data db))(i \<mapsto> d)"
    and "dyn_id db k \<noteq> Some i"
    and "surplus db' k = surplus db k + (if k = current_core_asset_id db then dd_fee_pool d else 0)"
proof -
  from c obtain t where t: "index_create no_uk d (db_dynamic_data db) = Inr (i, t)" and db': "db' = db\<lparr>db_dynamic_data := t\<rparr>"
    by (auto simp: create_dynamic_data_def result_simps)
  have it: "index_ok no_uk (db_dynamic_data db)" using ok by (simp add: db_ok_def tables_ok_def)
  show "db' = db\<lparr>db_dynamic_data := db_dynamic_data db'\<rparr>" by (simp add: db')
  show fresh: "index_find (db_dynamic_data db) i = None"
    and new: "index_find (db_dynamic_data db') = (index_find (db_dynamic_data db))(i \<mapsto> d)"
    using index_create_find [OF t] by (auto simp: db')
  show "db_ok db'"
    using ok index_ok_create [OF it t] new by (auto simp: db_ok_def tables_ok_def dyn_links_ok_def db')
  show unlinked: "dyn_id db k \<noteq> Some i" for k
    using ok fresh unfolding db_ok_def dyn_links_ok_def by fastforce
  have "asset_net k db' = asset_net k db"
    using new unlinked [of k] by (auto simp: asset_net_def db' split: option.splits)
  then show "surplus db' k = surplus db k + (if k = current_core_asset_id db then dd_fee_pool d else 0)"
    unfolding surplus_def by (simp add: core_pools_def db' table_sum_create [OF t])
qed

lemma create_asset_effect:
  assumes c: "create_asset a db = Inr (i, db')" and ok: "db_ok db"
    and d: "index_find (db_dynamic_data db) (at_dynamic_asset_data_id a) = Some d" "dyn_net d = 0"
    and unlinked: "\<And>k. dyn_id db k \<noteq> Some (at_dynamic_asset_data_id a)"
  shows "db' = db\<lparr>db_assets := db_assets db'\<rparr>" and "db_ok db'" and "index_find (db_assets db) i = None"
    and "index_find (db_assets db') = (index_find (db_assets db))(i \<mapsto> a)" and "surplus db' = surplus db"
proof -
  from c obtain t where t: "index_create asset_uk a (db_assets db) = Inr (i, t)" and db': "db' = db\<lparr>db_assets := t\<rparr>"
    by (auto simp: create_asset_def result_simps)
  have it: "index_ok asset_uk (db_assets db)" using ok by (simp add: db_ok_def tables_ok_def)
  show "db' = db\<lparr>db_assets := db_assets db'\<rparr>" by (simp add: db')
  show fresh: "index_find (db_assets db) i = None"
    and new: "index_find (db_assets db') = (index_find (db_assets db))(i \<mapsto> a)"
    using index_create_find [OF t] by (auto simp: db')
  have dyn: "dyn_id db' k = (if k = i then Some (at_dynamic_asset_data_id a) else dyn_id db k)" for k
    using new by (auto simp: dyn_id_def)
  have none: "dyn_id db i = None" using fresh by (simp add: dyn_id_def)
  have links: "dyn_id db x = Some e \<Longrightarrow> dyn_id db y = Some e \<Longrightarrow> x = y" "dyn_id db 0 = Some 0" "dyn_id db 1 = Some 1"
    "dyn_id db x = Some e \<Longrightarrow> index_find (db_dynamic_data db) e \<noteq> None" for x y e
    using ok by (auto simp: db_ok_def dyn_links_ok_def)
  have "x = y" if "dyn_id db' x = Some e" "dyn_id db' y = Some e" for x y e
    using that unlinked [of x] unlinked [of y] links(1) [of x e y] by (auto simp: dyn split: if_splits)
  moreover have "dyn_id db' 0 = Some 0" "dyn_id db' 1 = Some 1"
    using links(2,3) none by (auto simp: dyn)
  moreover have "index_find (db_dynamic_data db') e \<noteq> None" if "dyn_id db' x = Some e" for x e
    using that [unfolded dyn] d(1) links(4) [of x e] by (auto simp: db' split: if_splits)
  ultimately have "dyn_links_ok db'" unfolding dyn_links_ok_def by blast
  then show "db_ok db'" using ok index_ok_create [OF it t] by (simp add: db_ok_def tables_ok_def db')
  have same: "db_dynamic_data db' = db_dynamic_data db" by (simp add: db')
  have "asset_net k db' = asset_net k db" for k
    using d none unfolding asset_net_def dyn same by simp
  moreover have "core_pools db' = core_pools db" by (simp add: db')
  ultimately show "surplus db' = surplus db"
    unfolding surplus_def [abs_def] by (simp only:) (simp add: db')
qed

text \<open>Witnesses, stakings and pledges.\<close>

lemma modify_witness_effect:
  assumes m: "modify_witness i m db = Inr db'" and ok: "db_ok db"
  obtains x y where "index_find (db_witnesses db) i = Some x" and "m x = Inr y"
    and "index_find (db_witnesses db') = (index_find (db_witnesses db))(i \<mapsto> y)"
    and "db' = db\<lparr>db_witnesses := db_witnesses db'\<rparr>" and "db_ok db'"
    and "\<forall>k. surplus db' k = surplus db k + (if k = current_core_asset_id db then wt_vote_reward_pool y - wt_vote_reward_pool x else 0)"
    and "\<forall>f. table_sum f (db_witnesses db') = table_sum f (db_witnesses db) - f x + f y"
proof -
  from m obtain t where t: "index_modify witness_uk i m (db_witnesses db) = Inr t" and db': "db' = db\<lparr>db_witnesses := t\<rparr>"
    by (auto simp: modify_witness_def result_simps)
  obtain x y where xy: "index_find (db_witnesses db) i = Some x" "m x = Inr y"
    "index_find t = (index_find (db_witnesses db))(i \<mapsto> y)"
    using t by (rule index_modify_find)
  have it: "index_ok witness_uk (db_witnesses db)" using ok by (simp add: db_ok_def tables_ok_def)
  note sum = table_sum_modify [OF it t xy(1,2)]
  have "db_ok db'"
    using ok index_ok_modify [OF it t] by (simp add: db_ok_def tables_ok_def dyn_links_ok_def db')
  moreover have "\<forall>k. surplus db' k = surplus db k + (if k = current_core_asset_id db then wt_vote_reward_pool y - wt_vote_reward_pool x else 0)"
    by (simp add: surplus_def core_pools_def db' sum)
  ultimately show ?thesis using xy sum by (intro that [of x y]) (simp_all add: db')
qed

lemma create_witness_effect:
  assumes c: "create_witness v db = Inr (i, db')" and ok: "db_ok db"
  shows "db' = db\<lparr>db_witnesses := db_witnesses db'\<rparr>" and "db_ok db'"
    and "index_find (db_witnesses db) i = None"
    and "index_find (db_witnesses db') = (index_find (db_witnesses db))(i \<mapsto> v)"
    and "surplus db' k = surplus db k + (if k = current_core_asset_id db then wt_vote_reward_pool v else 0)"
    and "table_sum f (db_witnesses db') = table_sum f (db_witnesses db) + f v"
proof -
  from c obtain t where t: "index_create witness_uk v (db_witnesses db) = Inr (i, t)" and db': "db' = db\<lparr>db_witnesses := t\<rparr>"
    by (auto simp: create_witness_def result_simps)
  have it: "index_ok witness_uk (db_witnesses db)" using ok by (simp add: db_ok_def tables_ok_def)
  show "db' = db\<lparr>db_witnesses := db_witnesses db'\<rparr>" by (simp add: db')
  show "db_ok db'"
    using ok index_ok_create [OF it t] by (simp add: db_ok_def tables_ok_def dyn_links_ok_def db')
  show "index_find (db_witnesses db) i = None"
    "index_find (db_witnesses db') = (index_find (db_witnesses db))(i \<mapsto> v)"
    using index_create_find [OF t] by (auto simp: db')
  show "surplus db' k = surplus db k + (if k = current_core_asset_id db then wt_vote_reward_pool v else 0)"
    by (simp add: surplus_def core_pools_def db' table_sum_create [OF t])
  show "table_sum f (db_witnesses db') = table_sum f (db_witnesses db) + f v"
    by (simp add: db' table_sum_create [OF t])
qed

lemma modify_staking_effect:
  assumes m: "modify_staking i m db = Inr db'" and ok: "db_ok db"
  obtains x y where "index_find (db_stakings db) i = Some x" and "m x = Inr y"
    and "index_find (db_stakings db') = (index_find (db_stakings db))(i \<mapsto> y)"
    and "db' = db\<lparr>db_stakings := db_stakings db'\<rparr>" and "db_ok db'"
    and "\<forall>k. surplus db' k = surplus db k + of_asset k (sk_amount y) - of_asset k (sk_amount x)"
    and "\<forall>f. table_sum f (db_stakings db') = table_sum f (db_stakings db) - f x + f y"
proof -
  from m obtain t where t: "index_modify no_uk i m (db_stakings db) = Inr t" and db': "db' = db\<lparr>db_stakings := t\<rparr>"
    by (auto simp: modify_staking_def result_simps)
  obtain x y where xy: "index_find (db_stakings db) i = Some x" "m x = Inr y"
    "index_find t = (index_find (db_stakings db))(i \<mapsto> y)"
    using t by (rule index_modify_find)
  have it: "index_ok no_uk (db_stakings db)" using ok by (simp add: db_ok_def tables_ok_def)
  note sum = table_sum_modify [OF it t xy(1,2)]
  have "db_ok db'"
    using ok index_ok_modify [OF it t] by (simp add: db_ok_def tables_ok_def dyn_links_ok_def db')
  moreover have "\<forall>k. surplus db' k = surplus db k + of_asset k (sk_amount y) - of_asset k (sk_amount x)"
    by (simp add: surplus_def core_pools_def db' sum)
  ultimately show ?thesis using xy sum by (intro that [of x y]) (simp_all add: db')
qed

lemma create_staking_effect:
  assumes c: "create_staking v db = Inr (i, db')" and ok: "db_ok db"
  shows "db' = db\<lparr>db_stakings := db_stakings db'\<rparr>" and "db_ok db'"
    and "index_find (db_stakings db) i = None"
    and "index_find (db_stakings db') = (index_find (db_stakings db))(i \<mapsto> v)"
    and "surplus db' k = surplus db k + of_asset k (sk_amount v)"
    and "table_sum f (db_stakings db') = table_sum f (db_stakings db) + f v"
proof -
  from c obtain t where t: "index_create no_uk v (db_stakings db) = Inr (i, t)" and db': "db' = db\<lparr>db_stakings := t\<rparr>"
    by (auto simp: create_staking_def result_simps)
  have it: "index_ok no_uk (db_stakings db)" using ok by (simp add: db_ok_def tables_ok_def)
  show "db' = db\<lparr>db_stakings := db_stakings db'\<rparr>" by (simp add: db')
  show "db_ok db'"
    using ok index_ok_create [OF it t] by (simp add: db_ok_def tables_ok_def dyn_links_ok_def db')
  show "index_find (db_stakings db) i = None"
    "index_find (db_stakings db') = (index_find (db_stakings db))(i \<mapsto> v)"
    using index_create_find [OF t] by (auto simp: db')
  show "surplus db' k = surplus db k + of_asset k (sk_amount v)"
    by (simp add: surplus_def core_pools_def db' table_sum_create [OF t])
  show "table_sum f (db_stakings db') = table_sum f (db_stakings db) + f v"
    by (simp add: db' table_sum_create [OF t])
qed

lemma remove_staking_effect:
  assumes x: "index_find (db_stakings db) i = Some x" and ok: "db_ok db"
  shows "db_ok (remove_staking i db)"
    and "index_find (db_stakings (remove_staking i db)) = (index_find (db_stakings db))(i := None)"
    and "surplus (remove_staking i db) k = surplus db k - of_asset k (sk_amount x)"
    and "table_sum f (db_stakings (remove_staking i db)) = table_sum f (db_stakings db) - f x"
proof -
  have it: "index_ok no_uk (db_stakings db)" using ok by (simp add: db_ok_def tables_ok_def)
  show "db_ok (remove_staking i db)"
    using ok index_ok_remove [OF it] by (simp add: db_ok_def tables_ok_def dyn_links_ok_def remove_staking_def)
  show "index_find (db_stakings (remove_staking i db)) = (index_find (db_stakings db))(i := None)"
    by (simp add: remove_staking_def index_remove_find)
  show "surplus (remove_staking i db) k = surplus db k - of_asset k (sk_amount x)"
    by (simp add: surplus_def core_pools_def remove_staking_def table_sum_remove [OF it x])
  show "table_sum f (db_stakings (remove_staking i db)) = table_sum f (db_stakings db) - f x"
    by (simp add: remove_staking_def table_sum_remove [OF it x])
qed

lemma modify_pledge_effect:
  assumes m: "modify_pledge i m db = Inr db'" and ok: "db_ok db"
  obtains x y where "index_find (db_pledges db) i = Some x" and "m x = Inr y"
    and "index_find (db_pledges db') = (index_find (db_pledges db))(i \<mapsto> y)"
    and "db' = db\<lparr>db_pledges := db_pledges db'\<rparr>" and "db_ok db'"
    and "\<forall>k. surplus db' k = surplus db k + of_asset k (tn_amount y) - of_asset k (tn_amount x)"
    and "\<forall>f. table_sum f (db_pledges db') = table_sum f (db_pledges db) - f x + f y"
proof -
  from m obtain t where t: "index_modify pledge_uk i m (db_pledges db) = Inr t" and db': "db' = db\<lparr>db_pledges := t\<rparr>"
    by (auto simp: modify_pledge_def result_simps)
  obtain x y where xy: "index_find (db_pledges db) i = Some x" "m x = Inr y"
    "index_find t = (index_find (db_pledges db))(i \<mapsto> y)"
    using t by (rule index_modify_find)
  have it: "index_ok pledge_uk (db_pledges db)" using ok by (simp add: db_ok_def tables_ok_def)
  note sum = table_sum_modify [OF it t xy(1,2)]
  have "db_ok db'"
    using ok index_ok_modify [OF it t] by (simp add: db_ok_def tables_ok_def dyn_links_ok_def db')
  moreover have "\<forall>k. surplus db' k = surplus db k + of_asset k (tn_amount y) - of_asset k (tn_amount x)"
    by (simp add: surplus_def core_pools_def db' sum)
  ultimately show ?thesis using xy sum by (intro that [of x y]) (simp_all add: db')
qed

lemma create_pledge_effect:
  assumes c: "create_pledge v db = Inr (i, db')" and ok: "db_ok db"
  shows "db' = db\<lparr>db_pledges := db_pledges db'\<rparr>" and "db_ok db'"
    and "index_find (db_pledges db) i = None"
    and "index_find (db_pledges db') = (index_find (db_pledges db))(i \<mapsto> v)"
    and "surplus db' k = surplus db k + of_asset k (tn_amount v)"
    and "table_sum f (db_pledges db') = table_sum f (db_pledges db) + f v"
proof -
  from c obtain t where t: "index_create pledge_uk v (db_pledges db) = Inr (i, t)" and db': "db' = db\<lparr>db_pledges := t\<rparr>"
    by (auto simp: create_pledge_def result_simps)
  have it: "index_ok pledge_uk (db_pledges db)" using ok by (simp add: db_ok_def tables_ok_def)
  show "db' = db\<lparr>db_pledges := db_pledges db'\<rparr>" by (simp add: db')
  show "db_ok db'"
    using ok index_ok_create [OF it t] by (simp add: db_ok_def tables_ok_def dyn_links_ok_def db')
  show "index_find (db_pledges db) i = None"
    "index_find (db_pledges db') = (index_find (db_pledges db))(i \<mapsto> v)"
    using index_create_find [OF t] by (auto simp: db')
  show "surplus db' k = surplus db k + of_asset k (tn_amount v)"
    by (simp add: surplus_def core_pools_def db' table_sum_create [OF t])
  show "table_sum f (db_pledges db') = table_sum f (db_pledges db) + f v"
    by (simp add: db' table_sum_create [OF t])
qed

lemma remove_pledge_effect:
  assumes x: "index_find (db_pledges db) i = Some x" and ok: "db_ok db"
  shows "db_ok (remove_pledge i db)"
    and "index_find (db_pledges (remove_pledge i db)) = (index_find (db_pledges db))(i := None)"
    and "surplus (remove_pledge i db) k = surplus db k - of_asset k (tn_amount x)"
    and "table_sum f (db_pledges (remove_pledge i db)) = table_sum f (db_pledges db) - f x"
proof -
  have it: "index_ok pledge_uk (db_pledges db)" using ok by (simp add: db_ok_def tables_ok_def)
  show "db_ok (remove_pledge i db)"
    using ok index_ok_remove [OF it] by (simp add: db_ok_def tables_ok_def dyn_links_ok_def remove_pledge_def)
  show "index_find (db_pledges (remove_pledge i db)) = (index_find (db_pledges db))(i := None)"
    by (simp add: remove_pledge_def index_remove_find)
  show "surplus (remove_pledge i db) k = surplus db k - of_asset k (tn_amount x)"
    by (simp add: surplus_def core_pools_def remove_pledge_def table_sum_remove [OF it x])
  show "table_sum f (db_pledges (remove_pledge i db)) = table_sum f (db_pledges db) - f x"
    by (simp add: remove_pledge_def table_sum_remove [OF it x])
qed

text \<open>The dynamic global properties hold two pools of the core asset.\<close>

lemma dynamic_update_effect:
  assumes "dg_time d = dg_time (db_dynamic db)"
  shows "db_ok (db\<lparr>db_dynamic := d\<rparr>) = db_ok db"
    and "current_core_asset_id (db\<lparr>db_dynamic := d\<rparr>) = current_core_asset_id db"
    and "head_block_time (db\<lparr>db_dynamic := d\<rparr>) = head_block_time db"
    and "surplus (db\<lparr>db_dynamic := d\<rparr>) k = surplus db k + (if k = current_core_asset_id db
      then dg_witness_budget d + dg_current_staking_reward_pool d - dg_witness_budget (db_dynamic db) -
        dg_current_staking_reward_pool (db_dynamic db) else 0)"
proof -
  show core: "current_core_asset_id (db\<lparr>db_dynamic := d\<rparr>) = current_core_asset_id db"
    and "head_block_time (db\<lparr>db_dynamic := d\<rparr>) = head_block_time db"
    using assms by (simp_all add: current_core_asset_id_def head_block_time_def)
  show "db_ok (db\<lparr>db_dynamic := d\<rparr>) = db_ok db" by (simp add: db_ok_def tables_ok_def dyn_links_ok_def)
  show "surplus (db\<lparr>db_dynamic := d\<rparr>) k = surplus db k + (if k = current_core_asset_id db
      then dg_witness_budget d + dg_current_staking_reward_pool d - dg_witness_budget (db_dynamic db) -
        dg_current_staking_reward_pool (db_dynamic db) else 0)"
    unfolding surplus_def core by (simp add: core_pools_def)
qed

lemma committee_member_effect:
  assumes "modify_committee_member i m db = Inr db' \<or> create_committee_member c db = Inr (j, db')" and ok: "db_ok db"
  shows "db_ok db'" and "surplus db' = surplus db" and "db' = db\<lparr>db_committee_members := db_committee_members db'\<rparr>"
proof -
  have it: "index_ok committee_uk (db_committee_members db)" using ok by (simp add: db_ok_def tables_ok_def)
  have "\<exists>t. index_ok committee_uk t \<and> db' = db\<lparr>db_committee_members := t\<rparr>"
    using assms(1) index_ok_modify [OF it] index_ok_create [OF it]
    unfolding modify_committee_member_def create_committee_member_def by (auto simp: result_simps) blast+
  then obtain t where t: "index_ok committee_uk t" and db': "db' = db\<lparr>db_committee_members := t\<rparr>" by blast
  show "db_ok db'" using ok t by (simp add: db_ok_def tables_ok_def dyn_links_ok_def db')
  show "surplus db' = surplus db" by (rule surplus_cong) (simp_all add: db')
  show "db' = db\<lparr>db_committee_members := db_committee_members db'\<rparr>" by (simp add: db')
qed

text \<open>New accounts and the tables of special authorities and buybacks.\<close>

lemma create_account_effect:
  assumes c: "create_account v db = Inr (i, db')" and ok: "db_ok db"
  shows "db' = db\<lparr>db_accounts := db_accounts db'\<rparr>" and "db_ok db'" and "i = next_id (db_accounts db)"
    and "index_find (db_accounts db) i = None"
    and "index_find (db_accounts db') = (index_find (db_accounts db))(i \<mapsto> v)"
    and "surplus db' = surplus db"
proof -
  from c obtain t where t: "index_create account_uk v (db_accounts db) = Inr (i, t)" and db': "db' = db\<lparr>db_accounts := t\<rparr>"
    by (auto simp: create_account_def result_simps)
  have it: "index_ok account_uk (db_accounts db)" using ok by (simp add: db_ok_def tables_ok_def)
  show "db' = db\<lparr>db_accounts := db_accounts db'\<rparr>" by (simp add: db')
  show "db_ok db'"
    using ok index_ok_create [OF it t] by (simp add: db_ok_def tables_ok_def dyn_links_ok_def db')
  show "index_find (db_accounts db) i = None"
    "index_find (db_accounts db') = (index_find (db_accounts db))(i \<mapsto> v)" "i = next_id (db_accounts db)"
    using index_create_find [OF t] by (auto simp: db')
  show "surplus db' = surplus db" by (rule surplus_cong) (simp_all add: db')
qed

lemma create_statistics_effect:
  assumes c: "create_statistics v db = Inr (i, db')" and ok: "db_ok db"
  shows "db' = db\<lparr>db_statistics := db_statistics db'\<rparr>" and "db_ok db'"
    and "index_find (db_statistics db) i = None"
    and "index_find (db_statistics db') = (index_find (db_statistics db))(i \<mapsto> v)"
    and "surplus db' k = surplus db k + (if k = current_core_asset_id db then pending v else 0)"
proof -
  from c obtain t where t: "index_create no_uk v (db_statistics db) = Inr (i, t)" and db': "db' = db\<lparr>db_statistics := t\<rparr>"
    by (auto simp: create_statistics_def result_simps)
  have it: "index_ok no_uk (db_statistics db)" using ok by (simp add: db_ok_def tables_ok_def)
  show "db' = db\<lparr>db_statistics := db_statistics db'\<rparr>" by (simp add: db')
  show "db_ok db'"
    using ok index_ok_create [OF it t] by (simp add: db_ok_def tables_ok_def dyn_links_ok_def db')
  show "index_find (db_statistics db) i = None"
    "index_find (db_statistics db') = (index_find (db_statistics db))(i \<mapsto> v)"
    using index_create_find [OF t] by (auto simp: db')
  show "surplus db' k = surplus db k + (if k = current_core_asset_id db then pending v else 0)"
    by (simp add: surplus_def core_pools_def db' table_sum_create [OF t])
qed

lemma special_authority_effect:
  assumes "create_special_authority v db = Inr (i, db') \<or> db' = remove_special_authority j db" and ok: "db_ok db"
  shows "db_ok db'" and "surplus db' = surplus db" and "db' = db\<lparr>db_special_authorities := db_special_authorities db'\<rparr>"
proof -
  have it: "index_ok special_authority_uk (db_special_authorities db)" using ok by (simp add: db_ok_def tables_ok_def)
  have "\<exists>t. index_ok special_authority_uk t \<and> db' = db\<lparr>db_special_authorities := t\<rparr>"
    using assms(1)
  proof
    assume "create_special_authority v db = Inr (i, db')"
    then show ?thesis using index_ok_create [OF it] by (auto simp: create_special_authority_def result_simps)
  next
    assume "db' = remove_special_authority j db"
    then show ?thesis using index_ok_remove [OF it] by (auto simp: remove_special_authority_def)
  qed
  then obtain t where t: "index_ok special_authority_uk t" and db': "db' = db\<lparr>db_special_authorities := t\<rparr>" by blast
  show "db_ok db'" using ok t by (simp add: db_ok_def tables_ok_def dyn_links_ok_def db')
  show "surplus db' = surplus db" by (rule surplus_cong) (simp_all add: db')
  show "db' = db\<lparr>db_special_authorities := db_special_authorities db'\<rparr>" by (simp add: db')
qed

lemma create_buyback_effect:
  assumes c: "create_buyback v db = Inr (i, db')" and ok: "db_ok db"
  shows "db_ok db'" and "surplus db' = surplus db" and "db' = db\<lparr>db_buybacks := db_buybacks db'\<rparr>"
    and "index_find (db_buybacks db') = (index_find (db_buybacks db))(i \<mapsto> v)"
proof -
  from c obtain t where t: "index_create buyback_uk v (db_buybacks db) = Inr (i, t)" and db': "db' = db\<lparr>db_buybacks := t\<rparr>"
    by (auto simp: create_buyback_def result_simps)
  have it: "index_ok buyback_uk (db_buybacks db)" using ok by (simp add: db_ok_def tables_ok_def)
  show "db_ok db'" using ok index_ok_create [OF it t] by (simp add: db_ok_def tables_ok_def dyn_links_ok_def db')
  show "surplus db' = surplus db" by (rule surplus_cong) (simp_all add: db')
  show "db' = db\<lparr>db_buybacks := db_buybacks db'\<rparr>" by (simp add: db')
  show "index_find (db_buybacks db') = (index_find (db_buybacks db))(i \<mapsto> v)"
    using index_create_find [OF t] by (auto simp: db')
qed

text \<open>Withdraw permissions hold no assets.\<close>

lemma withdraw_permission_effect:
  assumes "index_ok no_uk t" and "db_ok db"
  shows "db_ok (db\<lparr>db_withdraw_permissions := t\<rparr>)" and "surplus (db\<lparr>db_withdraw_permissions := t\<rparr>) = surplus db"
  using assms by (simp add: db_ok_def tables_ok_def dyn_links_ok_def) (rule surplus_cong; simp)

end
