(* ===== verification/Sample_State.thy ===== *)
theory Sample_State
  imports Ledger_State "HOL-Library.Code_Target_Nat"
begin

text \<open>
  A small concrete chain state for the witnesses of the development: ten accounts, the two core
  assets and one user-issued asset, after the last hard fork. The witnesses start from it and add
  what they need.
\<close>

definition sample_authority :: authority where
  "sample_authority = \<lparr>weight_threshold = 1, account_auths = [], key_auths = [(7, 1)], address_auths = []\<rparr>"

definition sample_account :: "nat \<Rightarrow> account_object" where
  "sample_account i = \<lparr>ac_membership_expiration_date = time_point_sec_maximum,
     ac_merchant_expiration_date = 0, ac_datasource_expiration_date = 0,
     ac_data_transaction_member_expiration_date = 0,
     ac_registrar = 6, ac_referrer = 7, ac_lifetime_referrer = 8,
     ac_merchant_auth_referrer = 0, ac_datasource_auth_referrer = 0,
     ac_network_fee_percentage = 2000, ac_lifetime_referrer_fee_percentage = 3000,
     ac_referrer_rewards_percentage = 5000,
     ac_name = [CHR ''a'', char_of (i + 48)], ac_vm_type = [], ac_vm_version = [], ac_code = [], ac_code_version = [],
     ac_owner = sample_authority, ac_active = sample_authority,
     ac_options = \<lparr>ao_memo_key = 0, ao_voting_account = 5, ao_num_witness = 0, ao_num_committee = 0, ao_votes = []\<rparr>,
     ac_statistics = i, ac_whitelisting_accounts = [], ac_whitelisted_accounts = [],
     ac_blacklisted_accounts = [], ac_blacklisting_accounts = [],
     ac_cashback_vb = None, ac_contract_call_cashback_vb = None, ac_staking_cashback_vb = None,
     ac_owner_special_authority = No_special_authority, ac_active_special_authority = No_special_authority,
     ac_top_n_control_flags = 0, ac_allowed_assets = None\<rparr>"

definition sample_statistics :: "nat \<Rightarrow> account_statistics_object" where
  "sample_statistics i = \<lparr>as_owner = i, as_most_recent_op = 0, as_total_ops = 0, as_removed_ops = 0, as_total_core_in_orders = 0,
     as_lifetime_fees_paid = 0, as_pending_fees = 0, as_pending_vested_fees = 0\<rparr>"

definition sample_options :: asset_options where
  "sample_options = \<lparr>opt_max_supply = 1000000, opt_market_fee_percent = 0, opt_max_market_fee = 0,
     opt_issuer_permissions = UIA_ASSET_ISSUER_PERMISSION_MASK, opt_flags = 0,
     opt_core_exchange_rate = mk_price (mk_asset 1 2) (mk_asset 1 1),
     opt_whitelist_authorities = [], opt_blacklist_authorities = [], opt_whitelist_markets = [],
     opt_blacklist_markets = [], opt_description = []\<rparr>"

definition sample_asset :: "nat \<Rightarrow> asset_object" where
  "sample_asset i = \<lparr>at_symbol = [CHR ''S'', char_of (i + 48)], at_precision = 5, at_issuer = 9,
     at_options = sample_options, at_dynamic_asset_data_id = i, at_bitasset_data_id = None,
     at_buyback_account = None\<rparr>"

definition sample_dynamic_data :: asset_dynamic_data_object where
  "sample_dynamic_data = \<lparr>dd_current_supply = 50000, dd_confidential_supply = 0,
     dd_accumulated_fees = 300, dd_fee_pool = 1000\<rparr>"

definition table_of :: "nat \<Rightarrow> (nat \<Rightarrow> 'a) \<Rightarrow> 'a index_table" where
  "table_of n f = \<lparr>next_id = n, rows = map (\<lambda>i. (i, f i)) [0..<n]\<rparr>"

definition sample_params :: chain_parameters where
  "sample_params = \<lparr>cp_block_interval = 3, cp_maintenance_interval = 3600, cp_maintenance_skip_slots = 3,
     cp_committee_proposal_review_period = 1209600, cp_maximum_transaction_size = 2048,
     cp_maximum_block_size = 2000000, cp_maximum_time_until_expiration = 86400,
     cp_maximum_proposal_lifetime = 2419200, cp_maximum_asset_whitelist_authorities = 10,
     cp_maximum_asset_feed_publishers = 10, cp_maximum_witness_count = 1001,
     cp_maximum_committee_count = 1001, cp_maximum_authority_membership = 10,
     cp_reserve_percent_of_fee = 2000, cp_network_percent_of_fee = 2000,
     cp_lifetime_referrer_percent_of_fee = 3000, cp_cashback_vesting_period_seconds = 7776000,
     cp_cashback_vesting_threshold = 10000000, cp_count_non_member_votes = True,
     cp_allow_non_member_whitelists = False, cp_witness_pay_per_block = 1000,
     cp_witness_pay_vesting_seconds = 86400, cp_worker_budget_per_day = 0, cp_max_predicate_opcode = 1,
     cp_fee_liquidation_threshold = 10000000, cp_accounts_per_fee_scale = 1000,
     cp_account_fee_scale_bitshifts = 4, cp_max_authority_depth = 2, cp_account_create_basic_fee = 100, cp_extensions = []\<rparr>"

definition sample_dynamic :: dynamic_global_property_object where
  "sample_dynamic = \<lparr>dg_head_block_number = 100, dg_head_block_id = [0, 0, 0, 0, 0], dg_time = 1700000001,
     dg_current_witness = 1, dg_next_maintenance_time = 1700003600, dg_last_budget_time = 0, dg_witness_budget = 0,
     dg_accounts_registered_this_interval = 0,
     dg_recently_missed_count = 0, dg_current_aslot = 100, dg_recent_slots_filled = - 1,
     dg_dynamic_flags = 0, dg_last_irreversible_block_num = 90, dg_current_staking_reward_pool = 0\<rparr>"

definition sample_balances :: "account_balance_object index_table" where
  "sample_balances = \<lparr>next_id = 3, rows =
     [(0, \<lparr>ab_owner = 6, ab_asset_type = 1, ab_balance = 20000\<rparr>),
      (1, \<lparr>ab_owner = 6, ab_asset_type = 2, ab_balance = 700\<rparr>),
      (2, \<lparr>ab_owner = 9, ab_asset_type = 2, ab_balance = 400\<rparr>)]\<rparr>"

definition chain_db :: database where
  "chain_db = \<lparr>db_accounts = table_of 10 sample_account, db_statistics = table_of 10 sample_statistics,
     db_balances = sample_balances, db_assets = table_of 3 sample_asset,
     db_dynamic_data = table_of 3 (\<lambda>i. sample_dynamic_data), db_bitassets = empty_index,
     db_vesting = empty_index, db_stakings = empty_index, db_witnesses = empty_index, db_pledges = empty_index,
     db_committee_members = empty_index, db_special_authorities = empty_index, db_buybacks = empty_index, db_withdraw_permissions = empty_index,
     db_global = \<lparr>gp_parameters = sample_params, gp_pending_parameters = None,
       gp_next_available_vote_id = 0, gp_active_committee_members = [], gp_active_witnesses = []\<rparr>,
     db_dynamic = sample_dynamic, db_shuffled_witnesses = []\<rparr>"

lemma index_find_table_of: "index_find (table_of n f) i = (if i < n then Some (f i) else None)"
  by (simp add: index_find_def table_of_def map_of_map_restrict restrict_map_def)

lemma table_of_ok:
  assumes "distinct (concat (map (uk \<circ> f) [0..<n]))"
  shows "index_ok uk (table_of n f)"
  using assms by (intro index_okI) (auto simp: table_of_def comp_def)

lemma chain_db_ok: "db_ok chain_db"
proof -
  have acc: "index_ok account_uk (db_accounts chain_db)"
    unfolding chain_db_def database.select_convs
    by (rule table_of_ok) (simp add: account_uk_def sample_account_def comp_def upt_rec)
  have sts: "index_ok asset_uk (db_assets chain_db)"
    unfolding chain_db_def database.select_convs
    by (rule table_of_ok) (simp add: asset_uk_def sample_asset_def comp_def upt_rec)
  have st: "index_ok no_uk (db_statistics chain_db)"
    unfolding chain_db_def database.select_convs by (rule table_of_ok) (simp add: no_uk_def comp_def upt_rec)
  have dy: "index_ok no_uk (db_dynamic_data chain_db)"
    unfolding chain_db_def database.select_convs by (rule table_of_ok) (simp add: no_uk_def comp_def upt_rec)
  have ba: "index_ok balance_uk (db_balances chain_db)"
    by (rule index_okI) (simp_all add: chain_db_def sample_balances_def balance_uk_def)
  have dyn: "dyn_id chain_db a = (if a < 3 then Some a else None)" for a
    by (simp add: dyn_id_def chain_db_def index_find_table_of sample_asset_def)
  have "dyn_links_ok chain_db"
    by (auto simp: dyn_links_ok_def dyn split: if_splits) (simp add: chain_db_def index_find_table_of)
  with acc sts st dy ba show ?thesis
    by (simp add: db_ok_def tables_ok_def) (simp add: chain_db_def index_ok_empty)
qed

lemma chain_accounts: "index_find (db_accounts chain_db) i = (if i < 10 then Some (sample_account i) else None)"
  by (simp add: chain_db_def index_find_table_of)

lemma chain_statistics: "index_find (db_statistics chain_db) i = (if i < 10 then Some (sample_statistics i) else None)"
  by (simp add: chain_db_def index_find_table_of)

lemma chain_assets: "index_find (db_assets chain_db) i = (if i < 3 then Some (sample_asset i) else None)"
  by (simp add: chain_db_def index_find_table_of)

lemma chain_dynamic_data: "index_find (db_dynamic_data chain_db) i = (if i < 3 then Some sample_dynamic_data else None)"
  by (simp add: chain_db_def index_find_table_of)

lemma chain_time: "head_block_time chain_db = 1700000001"
  by (simp add: head_block_time_def chain_db_def sample_dynamic_def)

lemma chain_core: "current_core_asset_id chain_db = 1"
  by (simp add: current_core_asset_id_def chain_time HARDFORK_1008_TIME_def)

lemma chain_params: "params chain_db = sample_params"
  by (simp add: params_def chain_db_def)

lemmas chain_simps = chain_accounts chain_statistics chain_assets chain_dynamic_data chain_time chain_core chain_params

section \<open>Smaller states\<close>

text \<open>
  A run of an operation on one of these is evaluated by the simplifier: one account, and for the second
  three active witnesses with a budget to pay them from.
\<close>

lemma not_isl_Inr: "\<not> isl m \<Longrightarrow> \<exists>x. m = Inr x"
  by (cases m) auto

definition issuer_db :: database where
  "issuer_db = chain_db\<lparr>
     db_accounts := \<lparr>next_id = 10, rows = [(9, sample_account 9)]\<rparr>,
     db_statistics := \<lparr>next_id = 10, rows = [(9, sample_statistics 9)]\<rparr>,
     db_balances := \<lparr>next_id = 2, rows = [(0, \<lparr>ab_owner = 9, ab_asset_type = 1, ab_balance = 20000\<rparr>),
       (1, \<lparr>ab_owner = 9, ab_asset_type = 2, ab_balance = 400\<rparr>)]\<rparr>\<rparr>"

lemma issuer_db_ok: "db_ok issuer_db"
proof -
  have "index_ok account_uk (db_accounts issuer_db)" "index_ok no_uk (db_statistics issuer_db)"
    "index_ok balance_uk (db_balances issuer_db)"
    by (rule index_okI; simp add: issuer_db_def account_uk_def no_uk_def balance_uk_def)+
  with chain_db_ok show ?thesis by (simp add: db_ok_def tables_ok_def dyn_links_ok_def issuer_db_def)
qed

lemma issuer_db_core: "current_core_asset_id issuer_db = 1"
  using chain_core by (simp add: issuer_db_def)

definition sample_witness :: "nat \<Rightarrow> witness_object" where
  "sample_witness i = \<lparr>wt_witness_account = 6 + i, wt_last_aslot = 0, wt_signing_key = 7, wt_pay_vb = None,
     wt_vote_id = i * 256 + 1, wt_total_votes = 0, wt_url = [], wt_total_missed = 0,
     wt_last_confirmed_block_num = 90 + i, wt_is_valid = True, wt_total_vote_weights = 0, wt_vote_reward_pool = 0,
     wt_commission_rate = 100, wt_commission_update_time = 0, wt_previous_missed = 0, wt_is_banned = False\<rparr>"

definition witness_db :: database where
  "witness_db = issuer_db\<lparr>
     db_witnesses := \<lparr>next_id = 4, rows = map (\<lambda>i. (i, sample_witness i)) [1, 2, 3]\<rparr>,
     db_global := (db_global issuer_db)\<lparr>gp_active_witnesses := [1, 2, 3]\<rparr>,
     db_dynamic := (db_dynamic issuer_db)\<lparr>dg_witness_budget := 5000\<rparr>,
     db_shuffled_witnesses := [2, 3, 1]\<rparr>"

lemma witness_db_ok: "db_ok witness_db"
proof -
  have "index_ok witness_uk (db_witnesses witness_db)"
    by (rule index_okI) (simp_all add: witness_db_def sample_witness_def witness_uk_def vote_instance_def)
  with issuer_db_ok show ?thesis by (simp add: db_ok_def tables_ok_def dyn_links_ok_def witness_db_def)
qed

end
