(* ===== verification/Ledger.thy ===== *)
theory Ledger
  imports Sample_State
begin

text \<open>
  The balance operations of the database (db_balance.cpp): reading and adjusting the balance of an
  account, deposits into a vesting balance that is created on demand, and the four kinds of cashback
  that use it.

  The \<open>while (true)\<close> of \<open>deposit_lazy_vesting\<close> runs once; its breaks are the conditions of
  \<open>reusable_vbo\<close>.
\<close>

section \<open>Balances\<close>

definition find_balance :: "database \<Rightarrow> account_id_type \<Rightarrow> asset_id_type \<Rightarrow> (nat \<times> account_balance_object) option" where
  "find_balance db acct k =
     List.find (\<lambda>(i, b). ab_owner b = acct \<and> ab_asset_type b = k) (rows (db_balances db))"

definition get_balance :: "database \<Rightarrow> account_id_type \<Rightarrow> asset_id_type \<Rightarrow> asset" where
  "get_balance db acct k =
     (case find_balance db acct k of None \<Rightarrow> mk_asset 0 k | Some (i, b) \<Rightarrow> ab_get_balance b)"

definition adjust_balance :: "safe_ops \<Rightarrow> account_id_type \<Rightarrow> asset \<Rightarrow> database \<Rightarrow> database result" where
  "adjust_balance S acct delta db =
     (if amount delta = 0 then Inr db
      else case find_balance db acct (asset_id delta) of
        None \<Rightarrow>
          fc_assert (amount delta > 0)
            (create_balance \<lparr>ab_owner = acct, ab_asset_type = asset_id delta, ab_balance = amount delta\<rparr> db)
      | Some (i, b) \<Rightarrow>
          rbind (if amount delta < 0
                 then rbind (asset_neg S delta) (\<lambda>n. rbind (asset_ge (ab_get_balance b) n) (\<lambda>c.
                        fc_assert c (Inr ())))
                 else Inr ())
            (\<lambda>_. modify_balance i (ab_adjust_balance S delta) db))"

section \<open>Vesting deposits\<close>

definition reusable_vbo ::
  "database \<Rightarrow> nat option \<Rightarrow> u32 \<Rightarrow> account_id_type \<Rightarrow> (nat \<times> vesting_balance_object) option result" where
  "reusable_vbo db ovbid req_vesting_seconds req_owner =
     (case ovbid of
        None \<Rightarrow> Inr None
      | Some i \<Rightarrow> rbind (index_get (db_vesting db) i) (\<lambda>v.
          if vb_owner v \<noteq> req_owner then Inr None
          else case vb_policy v of
            Linear _ \<Rightarrow> Inr None
          | Cdd p \<Rightarrow>
              if vesting_seconds p \<noteq> req_vesting_seconds then Inr None
              else if head_block_time db > HARDFORK_1008_TIME \<and> asset_id (vb_balance v) \<noteq> 1 then Inr None
              else Inr (Some (i, v))))"

definition deposit_lazy_vesting :: "safe_ops \<Rightarrow> nat option \<Rightarrow> share_type \<Rightarrow> u32 \<Rightarrow> account_id_type \<Rightarrow>
    bool \<Rightarrow> database \<Rightarrow> (nat option \<times> database) result" where
  "deposit_lazy_vesting S ovbid amt req_vesting_seconds req_owner require_vesting db =
     (if amt = 0 then Inr (None, db)
      else
        let now = head_block_time db; core = (if now > HARDFORK_1008_TIME then 1 else 0) in
        rbind (reusable_vbo db ovbid req_vesting_seconds req_owner) (\<lambda>r. case r of
          Some (i, v) \<Rightarrow>
            rbind (modify_vesting i (\<lambda>v. if require_vesting then vb_deposit S now (mk_asset amt core) v
                                         else vb_deposit_vested S now (mk_asset amt core) v) db)
              (\<lambda>db'. Inr (None, db'))
        | None \<Rightarrow>
            let policy = \<lparr>vesting_seconds = req_vesting_seconds,
                  coin_seconds_earned = (if require_vesting then 0
                     else u128 (wrap64 (amt * uint req_vesting_seconds))),
                  start_claim = 0, coin_seconds_earned_last_update = now\<rparr> in
            rbind (create_vesting \<lparr>vb_owner = req_owner, vb_balance = mk_asset amt core, vb_policy = Cdd policy\<rparr> db)
              (\<lambda>(i, db'). Inr (Some i, db'))))"

definition is_blockchain_account :: "account_id_type \<Rightarrow> bool" where
  "is_blockchain_account a \<longleftrightarrow> a = 0 \<or> a = 1 \<or> a = 2 \<or> a = 3 \<or> a = 4"

definition burn_core :: "safe_ops \<Rightarrow> share_type \<Rightarrow> database \<Rightarrow> database result" where
  "burn_core S amt db =
     rbind (index_get (db_assets db) (if head_block_time db > HARDFORK_1008_TIME then 1 else 0)) (\<lambda>a.
       modify_dynamic_data (at_dynamic_asset_data_id a)
         (\<lambda>d. rbind (safe_sub S (dd_current_supply d) amt) (\<lambda>v. Inr (d\<lparr>dd_current_supply := v\<rparr>))) db)"

definition set_account_vb :: "(nat option \<Rightarrow> account_object \<Rightarrow> account_object) \<Rightarrow> account_id_type \<Rightarrow>
    nat option \<times> database \<Rightarrow> database result" where
  "set_account_vb upd acct r = (case r of
     (None, db) \<Rightarrow> Inr db
   | (Some i, db) \<Rightarrow> modify_account acct (\<lambda>a. Inr (upd (Some i) a)) db)"

definition set_cashback_vb :: "nat option \<Rightarrow> account_object \<Rightarrow> account_object" where
  "set_cashback_vb i a = a\<lparr>ac_cashback_vb := i\<rparr>"

definition set_contract_call_cashback_vb :: "nat option \<Rightarrow> account_object \<Rightarrow> account_object" where
  "set_contract_call_cashback_vb i a = a\<lparr>ac_contract_call_cashback_vb := i\<rparr>"

definition set_staking_cashback_vb :: "nat option \<Rightarrow> account_object \<Rightarrow> account_object" where
  "set_staking_cashback_vb i a = a\<lparr>ac_staking_cashback_vb := i\<rparr>"

definition deposit_cashback :: "safe_ops \<Rightarrow> account_id_type \<Rightarrow> share_type \<Rightarrow> bool \<Rightarrow> database \<Rightarrow> database result" where
  "deposit_cashback S acct amt require_vesting db =
     rbind (index_get (db_accounts db) acct) (\<lambda>a.
       if amt = 0 then Inr db
       else if is_blockchain_account acct then burn_core S amt db
       else rbind (deposit_lazy_vesting S (ac_cashback_vb a) amt
                     (cp_cashback_vesting_period_seconds (params db)) acct require_vesting db)
              (set_account_vb set_cashback_vb acct))"

definition deposit_contract_call_cashback :: "safe_ops \<Rightarrow> account_id_type \<Rightarrow> share_type \<Rightarrow> database \<Rightarrow> database result" where
  "deposit_contract_call_cashback S acct amt db =
     rbind (index_get (db_accounts db) acct) (\<lambda>a.
       let secs = contract_basic_fee_vesting_period_seconds (get_inter_contract_calling_params db) in
       if amt = 0 then Inr db
       else if head_block_time db > HARDFORK_1027_TIME
       then rbind (deposit_lazy_vesting S (ac_contract_call_cashback_vb a) amt secs acct True db)
              (set_account_vb set_contract_call_cashback_vb acct)
       else rbind (deposit_lazy_vesting S (ac_cashback_vb a) amt secs acct True db)
              (set_account_vb set_cashback_vb acct))"

definition staking_cashback :: "safe_ops \<Rightarrow> account_id_type \<Rightarrow> share_type \<Rightarrow> database \<Rightarrow> database result" where
  "staking_cashback S acct amt db =
     rbind (index_get (db_accounts db) acct) (\<lambda>a.
       let secs = staking_rewards_vesting_seconds (get_vote_params db) in
       if amt = 0 then Inr db
       else if head_block_time db > HARDFORK_1027_TIME
       then rbind (deposit_lazy_vesting S (ac_staking_cashback_vb a) amt secs acct True db)
              (set_account_vb set_staking_cashback_vb acct)
       else rbind (deposit_lazy_vesting S (ac_cashback_vb a) amt secs acct True db)
              (set_account_vb set_cashback_vb acct))"

definition deposit_witness_pay :: "safe_ops \<Rightarrow> nat \<Rightarrow> share_type \<Rightarrow> database \<Rightarrow> database result" where
  "deposit_witness_pay S wit amt db =
     rbind (index_get (db_witnesses db) wit) (\<lambda>w.
       if amt = 0 then Inr db
       else rbind (deposit_lazy_vesting S (wt_pay_vb w) amt (cp_witness_pay_vesting_seconds (params db))
                     (wt_witness_account w) True db)
              (\<lambda>r. case r of (None, db') \<Rightarrow> Inr db'
                 | (Some i, db') \<Rightarrow> modify_witness wit (\<lambda>w. Inr (w\<lparr>wt_pay_vb := Some i\<rparr>)) db'))"

section \<open>Balances as a function of owner and asset\<close>

definition bal :: "database \<Rightarrow> account_id_type \<Rightarrow> asset_id_type \<Rightarrow> share_type" where
  "bal db acct k = amount (get_balance db acct k)"

lemma bal_simps:
  "bal (db\<lparr>db_accounts := t0\<rparr>) = bal db" "bal (db\<lparr>db_statistics := t1\<rparr>) = bal db"
  "bal (db\<lparr>db_assets := t3\<rparr>) = bal db" "bal (db\<lparr>db_dynamic_data := t4\<rparr>) = bal db"
  "bal (db\<lparr>db_bitassets := t5\<rparr>) = bal db" "bal (db\<lparr>db_vesting := t6\<rparr>) = bal db"
  "bal (db\<lparr>db_stakings := t7\<rparr>) = bal db" "bal (db\<lparr>db_witnesses := t8\<rparr>) = bal db"
  "bal (db\<lparr>db_pledges := t9\<rparr>) = bal db" "bal (db\<lparr>db_global := t10\<rparr>) = bal db"
  "bal (db\<lparr>db_committee_members := t13\<rparr>) = bal db"
  "bal (db\<lparr>db_special_authorities := t14\<rparr>) = bal db" "bal (db\<lparr>db_buybacks := t15\<rparr>) = bal db"
  "bal (db\<lparr>db_withdraw_permissions := t16\<rparr>) = bal db"
  "bal (db\<lparr>db_dynamic := t11\<rparr>) = bal db" "bal (db\<lparr>db_shuffled_witnesses := t12\<rparr>) = bal db"
  by (simp_all add: bal_def [abs_def] get_balance_def find_balance_def)

definition balances_ok :: "database \<Rightarrow> bool" where
  "balances_ok db \<longleftrightarrow> (\<forall>i b. index_find (db_balances db) i = Some b \<longrightarrow> 0 \<le> ab_balance b)"

lemma find_balance_Some:
  assumes ok: "index_ok balance_uk (db_balances db)"
  shows "find_balance db acct k = Some (i, b) \<longleftrightarrow>
    index_find (db_balances db) i = Some b \<and> ab_owner b = acct \<and> ab_asset_type b = k"
proof
  assume "find_balance db acct k = Some (i, b)"
  then show "index_find (db_balances db) i = Some b \<and> ab_owner b = acct \<and> ab_asset_type b = k"
    using ok by (auto simp: find_balance_def index_ok_def index_find_mem dest!: find_Some_mem)
next
  assume r: "index_find (db_balances db) i = Some b \<and> ab_owner b = acct \<and> ab_asset_type b = k"
  then have mem: "(i, b) \<in> set (rows (db_balances db))"
    using ok by (simp add: index_ok_def index_find_mem)
  have uniq: "p = (i, b)" if "p \<in> set (rows (db_balances db))" "ab_owner (snd p) = acct" "ab_asset_type (snd p) = k" for p
  proof (cases "fst p = i")
    case True
    with that mem ok show ?thesis
      by (metis eq_key_imp_eq_value index_ok_def prod.collapse)
  next
    case False
    with that r mem ok have "\<not> keys_clash balance_uk (snd p) b"
      unfolding index_ok_def by (metis prod.collapse)
    with that r show ?thesis by (simp add: keys_clash_def balance_uk_def)
  qed
  obtain q where q: "find_balance db acct k = Some q"
    using mem r unfolding find_balance_def
    by (cases "List.find (\<lambda>(i, b). ab_owner b = acct \<and> ab_asset_type b = k) (rows (db_balances db))")
       (auto simp: find_None_mem)
  then have "q \<in> set (rows (db_balances db))" "ab_owner (snd q) = acct" "ab_asset_type (snd q) = k"
    by (auto simp: find_balance_def dest!: find_Some_mem)
  with uniq q show "find_balance db acct k = Some (i, b)" by simp
qed

lemma find_balance_None:
  assumes ok: "index_ok balance_uk (db_balances db)"
  shows "find_balance db acct k = None \<longleftrightarrow>
    (\<forall>i b. index_find (db_balances db) i = Some b \<longrightarrow> \<not> (ab_owner b = acct \<and> ab_asset_type b = k))"
  using find_balance_Some [OF ok, of acct k] by (cases "find_balance db acct k") fastforce+

lemma find_balance_update:
  assumes ok: "index_ok balance_uk (db_balances db)" and ok': "index_ok balance_uk (db_balances db')"
    and f: "index_find (db_balances db') = (index_find (db_balances db))(i \<mapsto> y)"
    and before: "index_find (db_balances db) i = None \<or>
      (\<exists>x. index_find (db_balances db) i = Some x \<and> ab_owner x = ab_owner y \<and> ab_asset_type x = ab_asset_type y)"
  shows "find_balance db' a k = (if a = ab_owner y \<and> k = ab_asset_type y then Some (i, y) else find_balance db a k)"
proof (cases "a = ab_owner y \<and> k = ab_asset_type y")
  case True
  then show ?thesis by (simp add: find_balance_Some [OF ok'] f)
next
  case False
  show ?thesis
  proof (cases "find_balance db a k")
    case None
    then have "find_balance db' a k = None"
      unfolding find_balance_None [OF ok] find_balance_None [OF ok'] f using False by auto
    with None False show ?thesis by simp
  next
    case (Some q)
    obtain j b where q: "q = (j, b)" by force
    with Some have "index_find (db_balances db) j = Some b" "ab_owner b = a" "ab_asset_type b = k"
      by (auto simp: find_balance_Some [OF ok])
    with False before have "find_balance db' a k = Some (j, b)"
      by (auto simp: find_balance_Some [OF ok'] f)
    with Some q False show ?thesis by auto
  qed
qed

lemma bal_update:
  assumes "index_ok balance_uk (db_balances db)" "index_ok balance_uk (db_balances db')"
    and "index_find (db_balances db') = (index_find (db_balances db))(i \<mapsto> y)"
    and "index_find (db_balances db) i = None \<or>
      (\<exists>x. index_find (db_balances db) i = Some x \<and> ab_owner x = ab_owner y \<and> ab_asset_type x = ab_asset_type y)"
  shows "bal db' a k = (if a = ab_owner y \<and> k = ab_asset_type y then ab_balance y else bal db a k)"
  using find_balance_update [OF assms, of a k] by (simp add: bal_def get_balance_def ab_get_balance_def)

lemma bal_nonneg:
  assumes "db_ok db" "balances_ok db"
  shows "0 \<le> bal db a k"
  using assms find_balance_Some [of db a k]
  by (auto simp: bal_def get_balance_def db_ok_def tables_ok_def balances_ok_def ab_get_balance_def split: option.splits)

text \<open>What an adjustment does when it succeeds: one balance moves, and nothing else.\<close>

definition adjusted :: "account_id_type \<Rightarrow> asset \<Rightarrow> database \<Rightarrow> database \<Rightarrow> bool" where
  "adjusted acct delta db db' \<longleftrightarrow> db_ok db' \<and> balances_ok db' \<and> db' = db\<lparr>db_balances := db_balances db'\<rparr> \<and>
     (\<forall>k. surplus db' k = surplus db k + of_asset k delta) \<and>
     (\<forall>a k. bal db' a k = bal db a k + (if a = acct \<and> k = asset_id delta then amount delta else 0))"

lemma adjusted_fields:
  assumes "adjusted acct delta db db'"
  shows "db_accounts db' = db_accounts db" and "db_assets db' = db_assets db"
    and "db_dynamic_data db' = db_dynamic_data db" and "db_statistics db' = db_statistics db"
    and "db_dynamic db' = db_dynamic db" and "db_global db' = db_global db"
    and "db_vesting db' = db_vesting db" and "head_block_time db' = head_block_time db"
    and "current_core_asset_id db' = current_core_asset_id db" and "dyn_id db' = dyn_id db"
    and "db_stakings db' = db_stakings db" and "db_witnesses db' = db_witnesses db"
    and "db_pledges db' = db_pledges db" and "db_bitassets db' = db_bitassets db"
    and "db_committee_members db' = db_committee_members db"
proof -
  obtain t where "db' = db\<lparr>db_balances := t\<rparr>" using assms unfolding adjusted_def by blast
  then show "db_accounts db' = db_accounts db" "db_assets db' = db_assets db"
    "db_dynamic_data db' = db_dynamic_data db" "db_statistics db' = db_statistics db"
    "db_dynamic db' = db_dynamic db" "db_global db' = db_global db"
    "db_vesting db' = db_vesting db" "head_block_time db' = head_block_time db"
    "current_core_asset_id db' = current_core_asset_id db" "dyn_id db' = dyn_id db"
    "db_stakings db' = db_stakings db" "db_witnesses db' = db_witnesses db"
    "db_pledges db' = db_pledges db" "db_bitassets db' = db_bitassets db"
    "db_committee_members db' = db_committee_members db"
    by simp_all
qed

context checked_int64
begin

lemma adjust_balance_adjusted:
  assumes adj: "adjust_balance S acct delta db = Inr db'" and ok: "db_ok db" "balances_ok db"
  shows "adjusted acct delta db db'"
proof (cases "amount delta = 0")
  case True
  with adj ok show ?thesis by (simp add: adjust_balance_def adjusted_def of_asset_def)
next
  case False
  have it: "index_ok balance_uk (db_balances db)" using ok by (simp add: db_ok_def tables_ok_def)
  show ?thesis
  proof (cases "find_balance db acct (asset_id delta)")
    case None
    let ?b = "\<lparr>ab_owner = acct, ab_asset_type = asset_id delta, ab_balance = amount delta\<rparr>"
    have c: "create_balance ?b db = Inr db'" and pos: "amount delta > 0"
      using adj False None by (auto simp: adjust_balance_def result_simps)
    note eff = create_balance_effect [OF c ok(1)]
    obtain i where i: "index_find (db_balances db) i = None"
      "index_find (db_balances db') = (index_find (db_balances db))(i \<mapsto> ?b)" using eff(3) by blast
    have it': "index_ok balance_uk (db_balances db')" using eff(2) by (simp add: db_ok_def tables_ok_def)
    have "bal db acct (asset_id delta) = 0" by (simp add: bal_def get_balance_def None)
    then have "\<forall>a k. bal db' a k = bal db a k + (if a = acct \<and> k = asset_id delta then amount delta else 0)"
      using bal_update [OF it it' i(2)] i(1) by simp
    moreover have "balances_ok db'"
      using ok(2) i pos by (auto simp: balances_ok_def)
    moreover have "\<forall>k. surplus db' k = surplus db k + of_asset k delta"
      using eff(4) by (simp add: of_asset_def ab_get_balance_def)
    ultimately show ?thesis using eff(1,2) unfolding adjusted_def by blast
  next
    case (Some q)
    then obtain i b where q: "find_balance db acct (asset_id delta) = Some (i, b)" by (cases q) auto
    then have b: "index_find (db_balances db) i = Some b" "ab_owner b = acct" "ab_asset_type b = asset_id delta"
      by (auto simp: find_balance_Some [OF it])
    have m: "modify_balance i (ab_adjust_balance S delta) db = Inr db'"
      and low: "amount delta < 0 \<longrightarrow> - amount delta \<le> ab_balance b"
      using adj False q by (auto simp: adjust_balance_def asset_neg_def ab_get_balance_def result_simps split: if_splits)
    obtain x y where xy: "index_find (db_balances db) i = Some x" "ab_adjust_balance S delta x = Inr y"
      "index_find (db_balances db') = (index_find (db_balances db))(i \<mapsto> y)"
      "db' = db\<lparr>db_balances := db_balances db'\<rparr>" "db_ok db'"
      "\<forall>k. surplus db' k = surplus db k + of_asset k (ab_get_balance y) - of_asset k (ab_get_balance x)"
      by (rule modify_balance_effect [OF m ok(1)]) (rule that)
    have y: "y = b\<lparr>ab_balance := ab_balance b + amount delta\<rparr>" "x = b" "in_int64 (ab_balance b + amount delta)"
      using xy(1,2) b(1) by (auto simp: ab_adjust_balance_def result_simps)
    have it': "index_ok balance_uk (db_balances db')" using xy(5) by (simp add: db_ok_def tables_ok_def)
    have "bal db acct (asset_id delta) = ab_balance b" by (simp add: bal_def get_balance_def q ab_get_balance_def)
    then have "\<forall>a k. bal db' a k = bal db a k + (if a = acct \<and> k = asset_id delta then amount delta else 0)"
      using bal_update [OF it it' xy(3)] b y by simp
    moreover have "0 \<le> ab_balance b" using ok(2) b(1) by (auto simp: balances_ok_def)
    then have "balances_ok db'"
      using ok(2) xy(3) y low by (auto simp: balances_ok_def int64_defs)
    moreover have "\<forall>k. surplus db' k = surplus db k + of_asset k delta"
      using xy(6) y b by (simp add: of_asset_def ab_get_balance_def)
    ultimately show ?thesis using xy(4,5) unfolding adjusted_def by blast
  qed
qed

end

section \<open>Vesting deposits conserve the core asset\<close>

text \<open>
  \<open>core_credited amt db db'\<close>: the core asset gained \<open>amt\<close> (in a vesting balance, or by a supply
  that shrank by as much), and balances, statistics and properties are untouched.
\<close>

definition core_credited :: "share_type \<Rightarrow> database \<Rightarrow> database \<Rightarrow> bool" where
  "core_credited amt db db' \<longleftrightarrow> db_ok db' \<and>
     (\<forall>k. surplus db' k = surplus db k + (if k = current_core_asset_id db then amt else 0)) \<and>
     db_balances db' = db_balances db \<and> db_statistics db' = db_statistics db \<and>
     db_assets db' = db_assets db \<and> db_dynamic db' = db_dynamic db \<and> db_global db' = db_global db"

lemma core_credited_fields:
  assumes "core_credited amt db db'"
  shows "db_ok db'" and "surplus db' k = surplus db k + (if k = current_core_asset_id db then amt else 0)"
    and "db_balances db' = db_balances db" and "db_statistics db' = db_statistics db"
    and "db_assets db' = db_assets db" and "db_dynamic db' = db_dynamic db" and "db_global db' = db_global db"
    and "head_block_time db' = head_block_time db" and "current_core_asset_id db' = current_core_asset_id db"
    and "bal db' = bal db" and "balances_ok db' = balances_ok db"
  using assms
  by (simp_all add: core_credited_def head_block_time_def current_core_asset_id_def bal_def [abs_def]
      get_balance_def find_balance_def balances_ok_def)

lemma core_credited_zero: "db_ok db \<Longrightarrow> core_credited 0 db db"
  by (simp add: core_credited_def)

lemma core_credited_trans:
  "core_credited a db db1 \<Longrightarrow> core_credited b db1 db2 \<Longrightarrow> core_credited (a + b) db db2"
  by (auto simp: core_credited_def current_core_asset_id_def head_block_time_def)

lemma modify_account_credited:
  assumes "modify_account i m db = Inr db'" and "db_ok db"
  shows "core_credited 0 db db'"
proof -
  obtain t where "db' = db\<lparr>db_accounts := t\<rparr>" "db_ok db'" "surplus db' = surplus db"
    using assms by (rule modify_account_effect) metis
  then show ?thesis by (simp add: core_credited_def)
qed

lemma deposit_lazy_vesting_frame:
  "deposit_lazy_vesting S ovbid amt secs acct rv db = Inr (r, db') \<Longrightarrow> db' = db\<lparr>db_vesting := db_vesting db'\<rparr>"
  by (auto simp: deposit_lazy_vesting_def create_vesting_def modify_vesting_def Let_def result_simps split: if_splits option.splits)

context checked_int64
begin

lemma asset_add_Inr [result_simps]:
  "asset_add S a b = Inr c \<longleftrightarrow> asset_id a = asset_id b \<and> in_int64 (amount a + amount b) \<and>
     c = mk_asset (amount a + amount b) (asset_id a)"
  by (auto simp: asset_add_def result_simps)

lemma asset_sub_Inr [result_simps]:
  "asset_sub S a b = Inr c \<longleftrightarrow> asset_id a = asset_id b \<and> in_int64 (amount a - amount b) \<and>
     c = mk_asset (amount a - amount b) (asset_id a)"
  by (auto simp: asset_sub_def result_simps)

lemma asset_neg_Inr [result_simps]:
  "asset_neg S a = Inr c \<longleftrightarrow> in_int64 (- amount a) \<and> c = mk_asset (- amount a) (asset_id a)"
  by (auto simp: asset_neg_def result_simps)

lemma vb_deposit_balance:
  assumes "(if rv then vb_deposit S now a v else vb_deposit_vested S now a v) = Inr v'"
  shows "of_asset k (vb_balance v') = of_asset k (vb_balance v) + of_asset k a" and "vb_owner v' = vb_owner v"
proof -
  from assms have "asset_id (vb_balance v) = asset_id a \<and> vb_owner v' = vb_owner v \<and>
      vb_balance v' = mk_asset (amount (vb_balance v) + amount a) (asset_id (vb_balance v))"
    by (auto simp: vb_deposit_def vb_deposit_vested_def Let_def result_simps split: if_splits vesting_policy.splits)
  then show "of_asset k (vb_balance v') = of_asset k (vb_balance v) + of_asset k a" "vb_owner v' = vb_owner v"
    by (auto simp: of_asset_def)
qed

lemma deposit_lazy_vesting_credited:
  assumes dep: "deposit_lazy_vesting S ovbid amt secs acct rv db = Inr (r, db')" and ok: "db_ok db"
  shows "core_credited amt db db'"
proof (cases "amt = 0")
  case True
  with dep ok show ?thesis by (simp add: deposit_lazy_vesting_def core_credited_zero)
next
  case False
  let ?core = "current_core_asset_id db"
  have core: "(if head_block_time db > HARDFORK_1008_TIME then 1 else 0) = ?core"
    by (simp add: current_core_asset_id_def)
  from dep False obtain res where res: "reusable_vbo db ovbid secs acct = Inr res"
    by (auto simp: deposit_lazy_vesting_def result_simps Let_def)
  show ?thesis
  proof (cases res)
    case None
    obtain v i where v: "create_vesting v db = Inr (i, db')" "vb_balance v = mk_asset amt ?core"
      using dep False res None by (fastforce simp: deposit_lazy_vesting_def Let_def core result_simps)
    note eff = create_vesting_effect [OF v(1) ok]
    show ?thesis unfolding core_credited_def
      using eff(2,5) v(2) by (subst (3 4 5 6 7) eff(1)) auto
  next
    case (Some q)
    obtain i v where q: "q = (i, v)" by force
    let ?now = "head_block_time db"
    have m: "modify_vesting i (\<lambda>v. if rv then vb_deposit S ?now (mk_asset amt ?core) v
                                   else vb_deposit_vested S ?now (mk_asset amt ?core) v) db = Inr db'"
      using dep False res Some q unfolding deposit_lazy_vesting_def Let_def core by (auto simp: result_simps)
    obtain x y where xy: "(if rv then vb_deposit S ?now (mk_asset amt ?core) x
                         else vb_deposit_vested S ?now (mk_asset amt ?core) x) = Inr y"
      "db' = db\<lparr>db_vesting := db_vesting db'\<rparr>" "db_ok db'"
      "\<forall>k. surplus db' k = surplus db k + of_asset k (vb_balance y) - of_asset k (vb_balance x)"
      using m ok by (rule modify_vesting_effect) (rule that)
    show ?thesis unfolding core_credited_def
      using xy(3,4) vb_deposit_balance(1) [OF xy(1)] by (subst (3 4 5 6 7) xy(2)) auto
  qed
qed

lemma burn_core_credited:
  assumes b: "burn_core S amt db = Inr db'" and ok: "db_ok db"
  shows "core_credited amt db db'"
proof -
  let ?core = "current_core_asset_id db"
  from b obtain a where a: "index_find (db_assets db) ?core = Some a"
    and m: "modify_dynamic_data (at_dynamic_asset_data_id a)
      (\<lambda>d. rbind (safe_sub S (dd_current_supply d) amt) (\<lambda>v. Inr (d\<lparr>dd_current_supply := v\<rparr>))) db = Inr db'"
    by (auto simp: burn_core_def result_simps current_core_asset_id_def split: if_splits)
  obtain x y where xy: "rbind (safe_sub S (dd_current_supply x) amt) (\<lambda>v. Inr (x\<lparr>dd_current_supply := v\<rparr>)) = Inr y"
    "db' = db\<lparr>db_dynamic_data := db_dynamic_data db'\<rparr>" "db_ok db'"
    "\<forall>k. surplus db' k = surplus db k +
      (if dyn_id db k = Some (at_dynamic_asset_data_id a) then dyn_net y - dyn_net x else 0) +
      (if k = ?core then dd_fee_pool y - dd_fee_pool x else 0)"
    using m ok by (rule modify_dynamic_data_effect) (rule that)
  have "dyn_id db k = Some (at_dynamic_asset_data_id a) \<longleftrightarrow> k = ?core" for k
    using ok a by (auto simp: db_ok_def dyn_links_ok_def dyn_id_def)
  moreover have "dyn_net y - dyn_net x = amt" "dd_fee_pool y = dd_fee_pool x"
    using xy(1) by (auto simp: dyn_net_def result_simps)
  ultimately show ?thesis unfolding core_credited_def
    using xy(3,4) by (subst (3 4 5 6 7) xy(2)) auto
qed

lemma set_account_vb_credited:
  "set_account_vb upd acct (r, db) = Inr db' \<Longrightarrow> db_ok db \<Longrightarrow> core_credited 0 db db'"
  by (auto simp: set_account_vb_def core_credited_zero split: option.splits dest: modify_account_credited)

lemma lazy_then_set_credited:
  assumes "rbind (deposit_lazy_vesting S ovbid amt secs acct rv db) (set_account_vb upd who) = Inr db'" and "db_ok db"
  shows "core_credited amt db db'"
proof -
  from assms(1) obtain r db1 where d: "deposit_lazy_vesting S ovbid amt secs acct rv db = Inr (r, db1)"
    and s: "set_account_vb upd who (r, db1) = Inr db'"
    by (auto simp: result_simps)
  have c: "core_credited amt db db1" by (rule deposit_lazy_vesting_credited [OF d assms(2)])
  from core_credited_trans [OF c set_account_vb_credited [OF s]] c show ?thesis
    by (simp add: core_credited_def)
qed

lemma deposit_cashback_credited:
  assumes "deposit_cashback S acct amt rv db = Inr db'" and "db_ok db"
  shows "core_credited amt db db'"
proof -
  obtain a where a: "index_get (db_accounts db) acct = Inr a"
    using assms(1) by (auto simp: deposit_cashback_def rbind_Inr)
  show ?thesis
    using assms unfolding deposit_cashback_def a rbind_simps Let_def
    by (auto split: if_splits intro: core_credited_zero burn_core_credited lazy_then_set_credited)
qed

lemma deposit_contract_call_cashback_credited:
  assumes "deposit_contract_call_cashback S acct amt db = Inr db'" and "db_ok db"
  shows "core_credited amt db db'"
proof -
  obtain a where a: "index_get (db_accounts db) acct = Inr a"
    using assms(1) by (auto simp: deposit_contract_call_cashback_def rbind_Inr)
  show ?thesis
    using assms unfolding deposit_contract_call_cashback_def a rbind_simps Let_def
    by (auto split: if_splits intro: core_credited_zero burn_core_credited lazy_then_set_credited)
qed

lemma staking_cashback_credited:
  assumes "staking_cashback S acct amt db = Inr db'" and "db_ok db"
  shows "core_credited amt db db'"
proof -
  obtain a where a: "index_get (db_accounts db) acct = Inr a"
    using assms(1) by (auto simp: staking_cashback_def rbind_Inr)
  show ?thesis
    using assms unfolding staking_cashback_def a rbind_simps Let_def
    by (auto split: if_splits intro: core_credited_zero burn_core_credited lazy_then_set_credited)
qed

end

section \<open>Properties\<close>

context checked_int64
begin

lemma adjust_balance_range:
  assumes adj: "adjust_balance S acct delta db = Inr db'" and ok: "db_ok db" "balances_ok db"
    and d: "in_int64 (amount delta)" "amount delta \<noteq> 0"
  shows "0 \<le> bal db acct (asset_id delta) + amount delta \<and> bal db acct (asset_id delta) + amount delta \<le> int64_max"
proof (cases "find_balance db acct (asset_id delta)")
  case None
  with adj d show ?thesis by (auto simp: adjust_balance_def bal_def get_balance_def int64_defs result_simps)
next
  case (Some q)
  then obtain i b where q: "find_balance db acct (asset_id delta) = Some (i, b)" by (cases q) auto
  have it: "index_ok balance_uk (db_balances db)" using ok by (simp add: db_ok_def tables_ok_def)
  have b: "index_find (db_balances db) i = Some b" using q by (simp add: find_balance_Some [OF it])
  then have nn: "0 \<le> ab_balance b" using ok(2) by (auto simp: balances_ok_def)
  have m: "modify_balance i (ab_adjust_balance S delta) db = Inr db'"
    and low: "amount delta < 0 \<longrightarrow> - amount delta \<le> ab_balance b"
    using adj d q by (auto simp: adjust_balance_def asset_neg_def ab_get_balance_def result_simps split: if_splits)
  from m b have "in_int64 (ab_balance b + amount delta)"
    by (auto simp: modify_balance_def index_modify_def index_get_def ab_adjust_balance_def result_simps)
  moreover have "bal db acct (asset_id delta) = ab_balance b"
    by (simp add: bal_def get_balance_def q ab_get_balance_def)
  ultimately show ?thesis using low nn by (auto simp: int64_defs)
qed

lemma adjust_balance_succeeds:
  assumes ok: "db_ok db" "balances_ok db" and d: "in_int64 (amount delta)" "int64_min < amount delta"
    and fits: "0 \<le> bal db acct (asset_id delta) + amount delta"
      "bal db acct (asset_id delta) + amount delta \<le> int64_max"
  shows "\<exists>db'. adjust_balance S acct delta db = Inr db'"
proof (cases "amount delta = 0")
  case True
  then show ?thesis by (simp add: adjust_balance_def)
next
  case False
  have it: "index_ok balance_uk (db_balances db)" using ok by (simp add: db_ok_def tables_ok_def)
  show ?thesis
  proof (cases "find_balance db acct (asset_id delta)")
    case None
    have pos: "0 < amount delta" using False fits(1) None by (simp add: bal_def get_balance_def)
    let ?b = "\<lparr>ab_owner = acct, ab_asset_type = asset_id delta, ab_balance = amount delta\<rparr>"
    have "\<exists>i t. index_create balance_uk ?b (db_balances db) = Inr (i, t)"
      using None unfolding find_balance_None [OF it]
      by (intro index_create_succeeds [OF it]) (fastforce simp: keys_clash_iff balance_uk_def)
    with None False pos show ?thesis
      by (auto simp: adjust_balance_def create_balance_def)
  next
    case (Some q)
    then obtain i b where q: "find_balance db acct (asset_id delta) = Some (i, b)" by (cases q) auto
    then have b: "index_find (db_balances db) i = Some b" "ab_owner b = acct" "ab_asset_type b = asset_id delta"
      by (auto simp: find_balance_Some [OF it])
    have bb: "bal db acct (asset_id delta) = ab_balance b" by (simp add: bal_def get_balance_def q ab_get_balance_def)
    have add: "safe_add S (ab_balance b) (amount delta) = Inr (ab_balance b + amount delta)"
      using fits bb by (intro add_exact) (simp add: int64_defs)
    have neg: "safe_neg S (amount delta) = Inr (- amount delta)"
      using d by (intro neg_exact) (simp add: int64_defs)
    have "\<exists>t. index_modify balance_uk i (ab_adjust_balance S delta) (db_balances db) = Inr t"
      by (rule index_modify_succeeds [OF it b(1)]) (simp_all add: ab_adjust_balance_def add balance_uk_def)
    then obtain t where "modify_balance i (ab_adjust_balance S delta) db = Inr (db\<lparr>db_balances := t\<rparr>)"
      by (auto simp: modify_balance_def)
    moreover have "asset_ge (ab_get_balance b) (mk_asset (- amount delta) (asset_id delta)) = Inr True"
      using fits(1) bb b by (simp add: asset_ge_Inr ab_get_balance_def)
    ultimately show ?thesis
      using False neg unfolding adjust_balance_def q asset_neg_def by simp
  qed
qed

end

text \<open>C19.
  \<open>adjust_balance\<close> succeeds exactly when the new balance is neither negative nor beyond 64 bits.
  Then it moves that one balance by the given amount and nothing else, keeps every balance
  non-negative, and moves the ledger total of that asset by the same amount.
\<close>

theorem adjust_balance_correct:
  assumes S: "checked_int64 S" and ok: "db_ok db" "balances_ok db"
    and d: "in_int64 (amount delta)" "int64_min < amount delta"
  shows "((\<exists>db'. adjust_balance S acct delta db = Inr db') \<longleftrightarrow>
      amount delta = 0 \<or> (0 \<le> bal db acct (asset_id delta) + amount delta \<and>
        bal db acct (asset_id delta) + amount delta \<le> int64_max)) \<and>
    (adjust_balance S acct delta db = Inr db' \<longrightarrow>
      db_ok db' \<and> balances_ok db' \<and> db' = db\<lparr>db_balances := db_balances db'\<rparr> \<and>
      (\<forall>a k. bal db' a k = bal db a k + (if a = acct \<and> k = asset_id delta then amount delta else 0)) \<and>
      (\<forall>k. surplus db' k = surplus db k + of_asset k delta))"
proof -
  note adj = checked_int64.adjust_balance_adjusted [OF S _ ok, of acct]
  have "0 \<le> bal db acct (asset_id delta) + amount delta \<and> bal db acct (asset_id delta) + amount delta \<le> int64_max"
    if "adjust_balance S acct delta db = Inr x" "amount delta \<noteq> 0" for x
    by (rule checked_int64.adjust_balance_range [OF S that(1) ok d(1) that(2)])
  moreover have "\<exists>db'. adjust_balance S acct delta db = Inr db'" if "amount delta = 0"
    using that by (simp add: adjust_balance_def)
  ultimately show ?thesis
    using checked_int64.adjust_balance_succeeds [OF S ok d, of acct] adj unfolding adjusted_def by blast
qed

lemma chain_db_balances_ok: "balances_ok chain_db"
proof -
  have "\<forall>b \<in> snd ` set (rows (db_balances chain_db)). 0 \<le> ab_balance b"
    by (simp add: chain_db_def sample_balances_def)
  then show ?thesis
    unfolding balances_ok_def index_find_def by (metis image_eqI map_of_SomeD snd_conv)
qed

theorem adjust_balance_correct_witness:
  "(\<exists>db'. adjust_balance int64_ops 6 (mk_asset (- 500) 2) chain_db = Inr db' \<and> bal db' 6 2 = 200) \<and>
   \<not> (\<exists>db'. adjust_balance int64_ops 6 (mk_asset (- 900) 2) chain_db = Inr db')"
proof -
  have b: "bal chain_db 6 2 = 700"
    by (simp add: bal_def get_balance_def find_balance_def chain_db_def sample_balances_def ab_get_balance_def)
  note c = adjust_balance_correct [OF int64_ops_checked chain_db_ok chain_db_balances_ok]
  have "\<exists>db'. adjust_balance int64_ops 6 (mk_asset (- 500) 2) chain_db = Inr db'"
    using c [of "mk_asset (- 500) 2" 6] b by (simp add: int64_defs)
  with c [of "mk_asset (- 500) 2" 6] c [of "mk_asset (- 900) 2" 6] b show ?thesis
    by (auto simp: int64_defs)
qed

text \<open>Cashback conserves the core asset: whatever route a deposit takes (an existing vesting balance, a
  new one, or a burn for the chain's own accounts), the core asset's ledger total moves by the amount
  and no balance, fee or other asset changes.
\<close>

theorem cashback_conserves:
  assumes "checked_int64 S" and "db_ok db"
    and "deposit_cashback S acct amt rv db = Inr db' \<or> deposit_contract_call_cashback S acct amt db = Inr db' \<or>
      staking_cashback S acct amt db = Inr db'"
  shows "db_ok db' \<and> (\<forall>k. surplus db' k = surplus db k + (if k = current_core_asset_id db then amt else 0)) \<and>
    bal db' = bal db \<and> db_statistics db' = db_statistics db"
proof -
  have c: "core_credited amt db db'"
    using assms checked_int64.deposit_cashback_credited [OF assms(1)] checked_int64.deposit_contract_call_cashback_credited [OF assms(1)]
      checked_int64.staking_cashback_credited [OF assms(1)] by blast
  note core_credited_fields [OF c]
  then show ?thesis by auto
qed

theorem cashback_conserves_witness:
  "\<exists>db'. deposit_cashback int64_ops 7 250 True chain_db = Inr db' \<and> surplus db' 1 = surplus chain_db 1 + 250"
proof -
  have "\<exists>i t. index_create no_uk v (db_vesting chain_db) = Inr (i, t)" for v
    by (rule index_create_succeeds) (simp_all add: chain_db_def index_ok_empty no_uk_def keys_clash_def)
  moreover have "\<exists>t. index_modify account_uk 7 (\<lambda>a. Inr (set_cashback_vb (Some i) a)) (db_accounts chain_db) = Inr t" for i
    by (rule index_modify_succeeds [where x = "sample_account 7"])
       (use chain_db_ok in \<open>simp_all add: db_ok_def tables_ok_def chain_accounts set_cashback_vb_def account_uk_def\<close>)
  moreover define v where "v = \<lparr>vb_owner = 7, vb_balance = mk_asset 250 1, vb_policy = Cdd \<lparr>vesting_seconds = 7776000,
      coin_seconds_earned = 0, start_claim = 0, coin_seconds_earned_last_update = 1700000001\<rparr>\<rparr>"
  ultimately obtain i t u where
    "index_create no_uk v (db_vesting chain_db) = Inr (i, t)"
    "index_modify account_uk 7 (\<lambda>a. Inr (set_cashback_vb (Some i) a)) (db_accounts chain_db) = Inr u" by blast
  then have "deposit_cashback int64_ops 7 250 True chain_db = Inr (chain_db\<lparr>db_vesting := t, db_accounts := u\<rparr>)"
    by (simp add: deposit_cashback_def index_get_def chain_simps is_blockchain_account_def sample_params_def
        deposit_lazy_vesting_def Let_def reusable_vbo_def sample_account_def create_vesting_def set_account_vb_def
        modify_account_def v_def HARDFORK_1008_TIME_def)
  then obtain db' where d: "deposit_cashback int64_ops 7 250 True chain_db = Inr db'" by blast
  have "current_core_asset_id chain_db = 1"
    by (simp add: chain_core)
  with cashback_conserves [OF int64_ops_checked chain_db_ok, of 7 250 True db'] d show ?thesis
    by auto
qed

end
