(* ===== verification/Fee_Evaluator.thy ===== *)
theory Fee_Evaluator
  imports Ledger
begin

text \<open>
  Fees and the generic evaluator: the whitelist check of an asset (is_authorized_asset.cpp and .hpp),
  the payment of fees into an account's statistics and their split at maintenance (account_object.cpp),
  and the template \<open>evaluator\<close> that prepares, checks, converts and pays the fee of an operation and
  runs its \<open>do_evaluate\<close> and \<open>do_apply\<close> (evaluator.hpp, evaluator.cpp).

  What \<open>prepare_fee\<close> stores in the evaluator is the record \<open>fee_state\<close>; object pointers are ids, so
  that later reads see later modifications. The fee the schedule asks for is an argument of
  \<open>evaluate_op\<close>.
\<close>

section \<open>Authorized assets\<close>

definition is_authorized_asset_slow :: "database \<Rightarrow> account_object \<Rightarrow> asset_id_type \<Rightarrow> asset_object \<Rightarrow> bool" where
  "is_authorized_asset_slow db acct k a =
     (if (case ac_allowed_assets acct of None \<Rightarrow> False | Some ks \<Rightarrow> k \<notin> set ks) then False
      else if list_ex (\<lambda>i. i \<in> set (opt_blacklist_authorities (at_options a))) (ac_blacklisting_accounts acct) then False
      else if head_block_time db > HARDFORK_415_TIME \<and> opt_whitelist_authorities (at_options a) = [] then True
      else list_ex (\<lambda>i. i \<in> set (opt_whitelist_authorities (at_options a))) (ac_whitelisting_accounts acct))"

definition is_authorized_asset :: "database \<Rightarrow> account_object \<Rightarrow> asset_id_type \<Rightarrow> asset_object \<Rightarrow> bool" where
  "is_authorized_asset db acct k a =
     (if \<not> has_flag (opt_flags (at_options a)) white_list \<and> ac_allowed_assets acct = None then True
      else is_authorized_asset_slow db acct k a)"

section \<open>Cuts of a fee\<close>

definition GRAPHENE_100_PERCENT :: int where
  "GRAPHENE_100_PERCENT = 10000"

definition cut_fee :: "share_type \<Rightarrow> u16 \<Rightarrow> share_type" where
  "cut_fee a p =
     (if a = 0 \<or> p = 0 then 0
      else if uint p = GRAPHENE_100_PERCENT then a
      else to_uint64 (u128 a * u128 (uint p) div u128 GRAPHENE_100_PERCENT))"

definition statistics_pay_fee ::
  "safe_ops \<Rightarrow> share_type \<Rightarrow> share_type \<Rightarrow> account_statistics_object \<Rightarrow> account_statistics_object result" where
  "statistics_pay_fee S core_fee cashback_vesting_threshold s =
     (if core_fee > cashback_vesting_threshold
      then rbind (safe_add S (as_pending_fees s) core_fee) (\<lambda>v. Inr (s\<lparr>as_pending_fees := v\<rparr>))
      else rbind (safe_add S (as_pending_vested_fees s) core_fee) (\<lambda>v. Inr (s\<lparr>as_pending_vested_fees := v\<rparr>)))"

definition pay_out_fees ::
  "safe_ops \<Rightarrow> account_id_type \<Rightarrow> share_type \<Rightarrow> bool \<Rightarrow> database \<Rightarrow> database result" where
  "pay_out_fees S acct core_fee_total require_vesting db =
     rbind (index_get (db_accounts db) acct) (\<lambda>a0.
     rbind (index_get (db_accounts db) (ac_referrer a0)) (\<lambda>r.
     rbind (if is_basic_account r (head_block_time db)
            then modify_account acct (\<lambda>a. Inr (a\<lparr>ac_referrer := ac_lifetime_referrer a\<rparr>)) db else Inr db) (\<lambda>db1.
     rbind (index_get (db_accounts db1) acct) (\<lambda>a.
     let network_cut = cut_fee core_fee_total (ac_network_fee_percentage a);
         lifetime_cut = cut_fee core_fee_total (ac_lifetime_referrer_fee_percentage a) in
     rbind (safe_sub S core_fee_total network_cut) (\<lambda>rest.
     rbind (safe_sub S rest lifetime_cut) (\<lambda>referral.
     rbind (modify_dynamic_data (if head_block_time db1 > HARDFORK_1008_TIME then 1 else 0)
              (\<lambda>d. rbind (safe_add S (dd_accumulated_fees d) network_cut) (\<lambda>v. Inr (d\<lparr>dd_accumulated_fees := v\<rparr>))) db1) (\<lambda>db2.
     let referrer_cut = cut_fee referral (ac_referrer_rewards_percentage a) in
     rbind (safe_sub S referral referrer_cut) (\<lambda>registrar_cut.
     rbind (deposit_cashback S (ac_lifetime_referrer a) lifetime_cut require_vesting db2) (\<lambda>db3.
     rbind (deposit_cashback S (ac_referrer a) referrer_cut require_vesting db3) (\<lambda>db4.
       deposit_cashback S (ac_registrar a) registrar_cut require_vesting db4))))))))))"

definition process_fees :: "safe_ops \<Rightarrow> nat \<Rightarrow> account_id_type \<Rightarrow> database \<Rightarrow> database result" where
  "process_fees S stats acct db =
     rbind (index_get (db_statistics db) stats) (\<lambda>s.
       if as_pending_fees s > 0 \<or> as_pending_vested_fees s > 0
       then rbind (pay_out_fees S acct (as_pending_fees s) True db) (\<lambda>db1.
            rbind (pay_out_fees S acct (as_pending_vested_fees s) False db1) (\<lambda>db2.
              modify_statistics stats (\<lambda>s.
                rbind (safe_add S (as_pending_fees s) (as_pending_vested_fees s)) (\<lambda>p.
                rbind (safe_add S (as_lifetime_fees_paid s) p) (\<lambda>l.
                  Inr (s\<lparr>as_lifetime_fees_paid := l, as_pending_fees := 0, as_pending_vested_fees := 0\<rparr>)))) db2))
       else Inr db)"

section \<open>The generic evaluator\<close>

record fee_state =
  fs_fee_from_account :: asset
  fs_core_fee_paid :: share_type
  fs_fee_paying_account :: account_id_type
  fs_statistics :: nat
  fs_fee_asset :: asset_id_type
  fs_fee_asset_dyn_data :: nat

record transaction_evaluation_state =
  skip_fee :: bool
  skip_fee_schedule_check :: bool

definition prepare_fee :: "account_id_type \<Rightarrow> asset \<Rightarrow> database \<Rightarrow> fee_state result" where
  "prepare_fee account_id fee db =
     fc_assert (amount fee \<ge> 0)
     (rbind (index_get (db_accounts db) account_id) (\<lambda>payer.
      rbind (index_get (db_statistics db) (ac_statistics payer)) (\<lambda>_.
      rbind (index_get (db_assets db) (asset_id fee)) (\<lambda>a.
      rbind (index_get (db_dynamic_data db) (at_dynamic_asset_data_id a)) (\<lambda>dyn.
      fc_assert (head_block_time db > HARDFORK_419_TIME \<longrightarrow> is_authorized_asset db payer (asset_id fee) a)
      (rbind (if asset_id fee = current_core_asset_id db then Inr (amount fee)
              else rbind (asset_times fee (opt_core_exchange_rate (at_options a))) (\<lambda>fee_from_pool.
                   fc_assert (asset_id fee_from_pool = current_core_asset_id db)
                   (fc_assert (amount fee_from_pool \<le> dd_fee_pool dyn) (Inr (amount fee_from_pool))))) (\<lambda>core_fee.
        Inr \<lparr>fs_fee_from_account = fee, fs_core_fee_paid = core_fee, fs_fee_paying_account = account_id,
             fs_statistics = ac_statistics payer, fs_fee_asset = asset_id fee,
             fs_fee_asset_dyn_data = at_dynamic_asset_data_id a\<rparr>)))))))"

definition convert_fee :: "safe_ops \<Rightarrow> transaction_evaluation_state \<Rightarrow> fee_state \<Rightarrow> database \<Rightarrow> database result" where
  "convert_fee S T fs db =
     (if \<not> skip_fee T \<and> fs_fee_asset fs \<noteq> current_core_asset_id db
      then modify_dynamic_data (fs_fee_asset_dyn_data fs) (\<lambda>d.
             rbind (safe_add S (dd_accumulated_fees d) (amount (fs_fee_from_account fs))) (\<lambda>f.
             rbind (safe_sub S (dd_fee_pool d) (fs_core_fee_paid fs)) (\<lambda>p.
               Inr (d\<lparr>dd_accumulated_fees := f, dd_fee_pool := p\<rparr>)))) db
      else Inr db)"

definition pay_fee :: "safe_ops \<Rightarrow> transaction_evaluation_state \<Rightarrow> fee_state \<Rightarrow> database \<Rightarrow> database result" where
  "pay_fee S T fs db =
     (if \<not> skip_fee T
      then modify_statistics (fs_statistics fs)
             (statistics_pay_fee S (fs_core_fee_paid fs) (cp_cashback_vesting_threshold (params db))) db
      else Inr db)"

text \<open>
  \<open>evaluate_op\<close> is \<open>evaluator<T>::evaluate\<close>, \<open>apply_op\<close> is \<open>evaluator<T>::apply\<close> and
  \<open>start_evaluate\<close> their composition; \<open>ev\<close>, \<open>ap\<close> and \<open>pay\<close> are the operation's \<open>do_evaluate\<close>,
  \<open>do_apply\<close> and \<open>pay_fee\<close>. What \<open>do_evaluate\<close> leaves in the evaluator is its result.
\<close>

definition evaluate_op :: "transaction_evaluation_state \<Rightarrow> share_type result \<Rightarrow> account_id_type \<Rightarrow> asset \<Rightarrow>
    (fee_state \<Rightarrow> database \<Rightarrow> 'e result) \<Rightarrow> database \<Rightarrow> (fee_state \<times> 'e) result" where
  "evaluate_op T required payer fee ev db =
     rbind (prepare_fee payer fee db) (\<lambda>fs.
     rbind (if skip_fee_schedule_check T then Inr ()
            else rbind required (\<lambda>r. ensure (fs_core_fee_paid fs \<ge> r) Insufficient_fee (Inr ()))) (\<lambda>_.
     rbind (ev fs db) (\<lambda>x. Inr (fs, x))))"

definition apply_op :: "safe_ops \<Rightarrow> transaction_evaluation_state \<Rightarrow>
    (fee_state \<Rightarrow> database \<Rightarrow> database result) \<Rightarrow> account_id_type \<Rightarrow> (database \<Rightarrow> database result) \<Rightarrow>
    fee_state \<Rightarrow> database \<Rightarrow> database result" where
  "apply_op S T pay payer ap fs db =
     rbind (convert_fee S T fs db) (\<lambda>db1.
     rbind (pay fs db1) (\<lambda>db2.
     rbind (ap db2) (\<lambda>db3.
     rbind (asset_neg S (fs_fee_from_account fs)) (\<lambda>minus_fee.
       adjust_balance S payer minus_fee db3))))"

definition start_evaluate :: "safe_ops \<Rightarrow> transaction_evaluation_state \<Rightarrow> share_type result \<Rightarrow>
    (fee_state \<Rightarrow> database \<Rightarrow> database result) \<Rightarrow> account_id_type \<Rightarrow> asset \<Rightarrow>
    (fee_state \<Rightarrow> database \<Rightarrow> 'e result) \<Rightarrow> ('e \<Rightarrow> database \<Rightarrow> database result) \<Rightarrow> database \<Rightarrow> database result" where
  "start_evaluate S T required pay payer fee ev ap db =
     rbind (evaluate_op T required payer fee ev db) (\<lambda>(fs, x). apply_op S T pay payer (ap x) fs db)"

section \<open>Cuts are exact\<close>

lemma cut_fee_exact:
  assumes "0 \<le> a" "a \<le> int64_max" "uint p \<le> GRAPHENE_100_PERCENT"
  shows "cut_fee a p = a * uint p div GRAPHENE_100_PERCENT" and "0 \<le> cut_fee a p" and "cut_fee a p \<le> a"
proof -
  have le: "a * uint p \<le> a * GRAPHENE_100_PERCENT"
    using assms by (intro mult_left_mono) auto
  also have "\<dots> \<le> int64_max * GRAPHENE_100_PERCENT"
    using assms by (intro mult_right_mono) (auto simp: GRAPHENE_100_PERCENT_def)
  finally have "a * uint p < 2 ^ 128" by (simp add: int64_max_def GRAPHENE_100_PERCENT_def)
  then have u: "uint (u128 a * u128 (uint p)) = a * uint p"
    using assms by (intro uint_mult_u128) auto
  have d: "a * uint p div GRAPHENE_100_PERCENT \<le> a"
    using zdiv_mono1 [OF le, of GRAPHENE_100_PERCENT] by (simp add: GRAPHENE_100_PERCENT_def)
  have "uint (u128 GRAPHENE_100_PERCENT) = GRAPHENE_100_PERCENT"
    by (rule uint_u128) (simp_all add: GRAPHENE_100_PERCENT_def)
  then have "to_uint64 (u128 a * u128 (uint p) div u128 GRAPHENE_100_PERCENT) = a * uint p div GRAPHENE_100_PERCENT"
    using d assms by (subst to_uint64_small) (auto simp: uint_div u)
  then show eq: "cut_fee a p = a * uint p div GRAPHENE_100_PERCENT"
    by (auto simp: cut_fee_def GRAPHENE_100_PERCENT_def)
  show "cut_fee a p \<le> a" unfolding eq by (rule d)
  show "0 \<le> cut_fee a p"
    unfolding eq using assms by (simp add: pos_imp_zdiv_nonneg_iff GRAPHENE_100_PERCENT_def)
qed

lemma cut_fee_sum_le:
  assumes a: "0 \<le> a" "a \<le> int64_max" and pq: "uint p + uint q \<le> GRAPHENE_100_PERCENT"
  shows "cut_fee a p + cut_fee a q \<le> a"
proof -
  have p: "uint p \<le> GRAPHENE_100_PERCENT" "uint q \<le> GRAPHENE_100_PERCENT"
    using pq uint_ge_0 [of p] uint_ge_0 [of q] by linarith+
  have "GRAPHENE_100_PERCENT * (cut_fee a p + cut_fee a q) \<le> a * uint p + a * uint q"
    unfolding cut_fee_exact(1) [OF a p(1)] cut_fee_exact(1) [OF a p(2)] GRAPHENE_100_PERCENT_def
    by presburger
  also have "\<dots> \<le> a * GRAPHENE_100_PERCENT"
    using a pq by (simp flip: distrib_left add: mult_left_mono)
  finally show ?thesis by (simp add: GRAPHENE_100_PERCENT_def)
qed

section \<open>Processing fees conserves the core asset\<close>

context checked_int64
begin

lemma accumulate_core_credited:
  assumes m: "modify_dynamic_data (if head_block_time db > HARDFORK_1008_TIME then 1 else 0)
      (\<lambda>d. rbind (safe_add S (dd_accumulated_fees d) amt) (\<lambda>v. Inr (d\<lparr>dd_accumulated_fees := v\<rparr>))) db = Inr db'"
    and ok: "db_ok db"
  shows "core_credited amt db db'"
proof -
  let ?core = "current_core_asset_id db"
  have core: "(if head_block_time db > HARDFORK_1008_TIME then 1 else 0) = ?core"
    by (simp add: current_core_asset_id_def)
  obtain x y where xy: "rbind (safe_add S (dd_accumulated_fees x) amt) (\<lambda>v. Inr (x\<lparr>dd_accumulated_fees := v\<rparr>)) = Inr y"
    "db' = db\<lparr>db_dynamic_data := db_dynamic_data db'\<rparr>" "db_ok db'"
    "\<forall>k. surplus db' k = surplus db k + (if dyn_id db k = Some ?core then dyn_net y - dyn_net x else 0) +
      (if k = ?core then dd_fee_pool y - dd_fee_pool x else 0)"
    using m [unfolded core] ok by (rule modify_dynamic_data_effect) (rule that)
  have "dyn_id db ?core = Some ?core"
    using ok by (auto simp: db_ok_def dyn_links_ok_def current_core_asset_id_def)
  then have "dyn_id db k = Some ?core \<longleftrightarrow> k = ?core" for k
    using ok by (auto simp: db_ok_def dyn_links_ok_def)
  moreover have "dyn_net y - dyn_net x = amt" "dd_fee_pool y = dd_fee_pool x"
    using xy(1) by (auto simp: dyn_net_def result_simps)
  ultimately show ?thesis unfolding core_credited_def
    using xy(3,4) by (subst (3 4 5 6 7) xy(2)) auto
qed

lemma pay_out_fees_credited:
  assumes p: "pay_out_fees S acct tot rv db = Inr db'" and ok: "db_ok db"
  shows "core_credited tot db db'"
proof -
  from p obtain r db1 db2 db3 db4 and a :: account_object where
    ref: "(if is_basic_account r (head_block_time db)
           then modify_account acct (\<lambda>a. Inr (a\<lparr>ac_referrer := ac_lifetime_referrer a\<rparr>)) db else Inr db) = Inr db1"
    and net: "modify_dynamic_data (if head_block_time db1 > HARDFORK_1008_TIME then 1 else 0)
      (\<lambda>d. rbind (safe_add S (dd_accumulated_fees d) (cut_fee tot (ac_network_fee_percentage a)))
        (\<lambda>v. Inr (d\<lparr>dd_accumulated_fees := v\<rparr>))) db1 = Inr db2"
    and d3: "deposit_cashback S (ac_lifetime_referrer a) (cut_fee tot (ac_lifetime_referrer_fee_percentage a)) rv db2 = Inr db3"
    and d4: "deposit_cashback S (ac_referrer a) (cut_fee (tot - cut_fee tot (ac_network_fee_percentage a) - cut_fee tot (ac_lifetime_referrer_fee_percentage a)) (ac_referrer_rewards_percentage a)) rv db3 = Inr db4"
    and d5: "deposit_cashback S (ac_registrar a) ((tot - cut_fee tot (ac_network_fee_percentage a) - cut_fee tot (ac_lifetime_referrer_fee_percentage a)) - cut_fee (tot - cut_fee tot (ac_network_fee_percentage a) - cut_fee tot (ac_lifetime_referrer_fee_percentage a)) (ac_referrer_rewards_percentage a)) rv db4 = Inr db'"
    by (auto simp: pay_out_fees_def Let_def rbind_Inr safe_sub_Inr simp del: if_split)
  have c1: "core_credited 0 db db1"
    using ref ok by (auto simp: core_credited_zero intro: modify_account_credited split: if_splits)
  have c2: "core_credited (cut_fee tot (ac_network_fee_percentage a)) db1 db2"
    using accumulate_core_credited [OF net] c1 by (simp add: core_credited_def)
  note c3 = deposit_cashback_credited [OF d3 core_credited_fields(1) [OF c2]]
  note c4 = deposit_cashback_credited [OF d4 core_credited_fields(1) [OF c3]]
  note c5 = deposit_cashback_credited [OF d5 core_credited_fields(1) [OF c4]]
  from core_credited_trans [OF core_credited_trans [OF core_credited_trans [OF core_credited_trans [OF c1 c2] c3] c4] c5]
  show ?thesis by simp
qed

lemma process_fees_surplus:
  assumes p: "process_fees S stats acct db = Inr db'" and ok: "db_ok db"
  shows "db_ok db' \<and> surplus db' = surplus db \<and> bal db' = bal db"
proof -
  from p obtain s where s: "index_find (db_statistics db) stats = Some s"
    by (auto simp: process_fees_def result_simps)
  show ?thesis
  proof (cases "as_pending_fees s > 0 \<or> as_pending_vested_fees s > 0")
    case False
    with p s ok show ?thesis by (simp add: process_fees_def index_get_def)
  next
    case True
    let ?m = "\<lambda>s. rbind (safe_add S (as_pending_fees s) (as_pending_vested_fees s)) (\<lambda>p.
        rbind (safe_add S (as_lifetime_fees_paid s) p) (\<lambda>l.
          Inr (s\<lparr>as_lifetime_fees_paid := l, as_pending_fees := 0, as_pending_vested_fees := 0\<rparr>)))"
    obtain db1 db2 where d1: "pay_out_fees S acct (as_pending_fees s) True db = Inr db1"
      and d2: "pay_out_fees S acct (as_pending_vested_fees s) False db1 = Inr db2"
      and m: "modify_statistics stats ?m db2 = Inr db'"
      using p s True by (auto simp: process_fees_def index_get_def rbind_Inr)
    note c1 = pay_out_fees_credited [OF d1 ok]
    note c2 = pay_out_fees_credited [OF d2 core_credited_fields(1) [OF c1]]
    note c = core_credited_trans [OF c1 c2]
    obtain x y where xy: "index_find (db_statistics db2) stats = Some x" "?m x = Inr y"
      "db' = db2\<lparr>db_statistics := db_statistics db'\<rparr>" "db_ok db'"
      "\<forall>k. surplus db' k = surplus db2 k + (if k = current_core_asset_id db2 then pending y - pending x else 0)"
      using m core_credited_fields(1) [OF c2] by (rule modify_statistics_effect) (rule that)
    have "x = s" using xy(1) s by (simp add: core_credited_fields [OF c])
    then have "pending y - pending x = - (as_pending_fees s + as_pending_vested_fees s)"
      using xy(2) by (auto simp: pending_def result_simps)
    then have "surplus db' k = surplus db k" for k
      using xy(5) core_credited_fields(2) [OF c, of k] by (simp add: core_credited_fields(9) [OF c])
    moreover have "bal db' = bal db2"
      by (subst xy(3)) (simp add: bal_def [abs_def] get_balance_def find_balance_def)
    ultimately show ?thesis using xy(4) core_credited_fields(10) [OF c] by auto
  qed
qed

end

section \<open>What an evaluator promises\<close>

text \<open>
  \<open>credits amt db db'\<close>: \<open>db'\<close> is well-formed, has no negative balance, and the ledger total less the
  supply has grown by \<open>amt\<close> for the core asset and is what it was for every other asset. A step
  \<open>conserves\<close> when it credits nothing. Before \<open>do_apply\<close> runs, the evaluator has changed statistics
  and dynamic asset data only (\<open>fee_frame\<close>).
\<close>

definition credits :: "share_type \<Rightarrow> database \<Rightarrow> database \<Rightarrow> bool" where
  "credits amt db db' \<longleftrightarrow> db_ok db' \<and> balances_ok db' \<and>
     (\<forall>k. surplus db' k = surplus db k + (if k = current_core_asset_id db then amt else 0)) \<and>
     current_core_asset_id db' = current_core_asset_id db"

definition conserves :: "database \<Rightarrow> database \<Rightarrow> bool" where
  "conserves db db' \<longleftrightarrow> db_ok db' \<and> balances_ok db' \<and> surplus db' = surplus db \<and>
     current_core_asset_id db' = current_core_asset_id db"

definition fee_frame :: "database \<Rightarrow> database \<Rightarrow> bool" where
  "fee_frame db db' \<longleftrightarrow> db' = db\<lparr>db_statistics := db_statistics db', db_dynamic_data := db_dynamic_data db'\<rparr>"

definition supplies :: "database \<Rightarrow> nat \<Rightarrow> share_type option" where
  "supplies db i = map_option dd_current_supply (index_find (db_dynamic_data db) i)"

lemma credits_zero: "credits 0 db db' \<longleftrightarrow> conserves db db'"
  by (auto simp: credits_def conserves_def fun_eq_iff)

lemma credits_trans: "credits x a b \<Longrightarrow> credits y b c \<Longrightarrow> credits (x + y) a c"
  by (auto simp: credits_def)

lemma conserves_trans: "conserves a b \<Longrightarrow> conserves b c \<Longrightarrow> conserves a c"
  by (simp add: conserves_def)

lemma conserves_refl: "db_ok db \<Longrightarrow> balances_ok db \<Longrightarrow> conserves db db"
  by (simp add: conserves_def)

lemma fee_frame_iff: "fee_frame db db' \<longleftrightarrow> (\<exists>s d. db' = db\<lparr>db_statistics := s, db_dynamic_data := d\<rparr>)"
  by (auto simp: fee_frame_def)

lemma fee_frameI:
  "db' = db\<lparr>db_dynamic_data := d\<rparr> \<Longrightarrow> fee_frame db db'"
  "db' = db\<lparr>db_statistics := s\<rparr> \<Longrightarrow> fee_frame db db'"
  by (cases db; simp add: fee_frame_def)+

lemma fee_frame_trans: "fee_frame a b \<Longrightarrow> fee_frame b c \<Longrightarrow> fee_frame a c"
  unfolding fee_frame_iff by force

lemma fee_frame_fields:
  assumes "fee_frame db db'"
  shows "db_accounts db' = db_accounts db" and "db_assets db' = db_assets db" and "db_balances db' = db_balances db"
    and "db_vesting db' = db_vesting db" and "db_dynamic db' = db_dynamic db" and "db_global db' = db_global db"
    and "db_stakings db' = db_stakings db" and "db_witnesses db' = db_witnesses db" and "db_pledges db' = db_pledges db"
    and "head_block_time db' = head_block_time db" and "current_core_asset_id db' = current_core_asset_id db"
    and "dyn_id db' = dyn_id db" and "bal db' = bal db" and "params db' = params db"
    and "db_committee_members db' = db_committee_members db"
proof -
  obtain s d where db': "db' = db\<lparr>db_statistics := s, db_dynamic_data := d\<rparr>" using assms by (simp add: fee_frame_def)
  show "db_accounts db' = db_accounts db" and "db_assets db' = db_assets db" and "db_balances db' = db_balances db"
    and "db_vesting db' = db_vesting db" and "db_dynamic db' = db_dynamic db" and "db_global db' = db_global db"
    and "db_stakings db' = db_stakings db" and "db_witnesses db' = db_witnesses db" and "db_pledges db' = db_pledges db"
    and "head_block_time db' = head_block_time db" and "current_core_asset_id db' = current_core_asset_id db"
    and "dyn_id db' = dyn_id db" and "bal db' = bal db" and "params db' = params db"
    and "db_committee_members db' = db_committee_members db"
    by (simp_all add: db' bal_simps params_def)
qed

lemma asset_times_nonneg:
  assumes "asset_times a p = Inr r"
  shows "0 \<le> amount r"
proof -
  from assms obtain w i where r: "r = mk_asset (to_uint64 w) i" and w: "w \<le> u128 GRAPHENE_MAX_SHARE_SUPPLY"
    by (auto simp: asset_times_def Let_def result_simps split: if_splits)
  have "uint w \<le> int64_max"
    using w uint_u128 [of GRAPHENE_MAX_SHARE_SUPPLY]
    by (simp add: word_le_def int64_max_def GRAPHENE_MAX_SHARE_SUPPLY_def)
  then show ?thesis by (simp add: r to_uint64_small)
qed

lemma prepare_fee_Inr:
  assumes "prepare_fee payer fee db = Inr fs"
  shows "\<exists>a dyn. index_find (db_assets db) (asset_id fee) = Some a \<and>
    index_find (db_dynamic_data db) (at_dynamic_asset_data_id a) = Some dyn \<and>
    fs_fee_asset fs = asset_id fee \<and> fs_fee_from_account fs = fee \<and>
    fs_fee_asset_dyn_data fs = at_dynamic_asset_data_id a \<and> 0 \<le> amount fee \<and> 0 \<le> fs_core_fee_paid fs \<and>
    (if asset_id fee = current_core_asset_id db then fs_core_fee_paid fs = amount fee
     else fs_core_fee_paid fs \<le> dd_fee_pool dyn)"
proof -
  from assms obtain x a dyn c where "index_find (db_assets db) (asset_id fee) = Some a"
    "index_find (db_dynamic_data db) (at_dynamic_asset_data_id a) = Some dyn" "0 \<le> amount fee"
    "(if asset_id fee = current_core_asset_id db then Inr (amount fee)
      else rbind (asset_times fee (opt_core_exchange_rate (at_options a))) (\<lambda>p.
           fc_assert (asset_id p = current_core_asset_id db)
           (fc_assert (amount p \<le> dd_fee_pool dyn) (Inr (amount p))))) = Inr c"
    "fs = \<lparr>fs_fee_from_account = fee, fs_core_fee_paid = c, fs_fee_paying_account = payer,
       fs_statistics = ac_statistics (x :: account_object), fs_fee_asset = asset_id fee,
       fs_fee_asset_dyn_data = at_dynamic_asset_data_id a\<rparr>"
    by (auto simp: prepare_fee_def result_simps simp del: if_split)
  then show ?thesis by (auto simp: result_simps asset_times_nonneg split: if_splits)
qed

context checked_int64
begin

lemma convert_fee_effect:
  assumes c: "convert_fee S T fs db = Inr db'" and p: "prepare_fee payer fee db = Inr fs"
    and ok: "db_ok db" "balances_ok db" and T: "\<not> skip_fee T"
  shows "db_ok db' \<and> balances_ok db' \<and> fee_frame db db' \<and> supplies db' = supplies db \<and>
    (\<forall>k. surplus db' k = surplus db k + of_asset k fee -
      (if k = current_core_asset_id db then fs_core_fee_paid fs else 0))"
proof -
  let ?core = "current_core_asset_id db"
  from p obtain a where a: "index_find (db_assets db) (asset_id fee) = Some a"
    and fs: "fs_fee_asset fs = asset_id fee" "fs_fee_from_account fs = fee"
      "fs_fee_asset_dyn_data fs = at_dynamic_asset_data_id a"
    and core: "asset_id fee = ?core \<longrightarrow> fs_core_fee_paid fs = amount fee"
    using prepare_fee_Inr [OF p] by auto
  show ?thesis
  proof (cases "asset_id fee = ?core")
    case True
    with c fs core ok show ?thesis by (auto simp: convert_fee_def of_asset_def fee_frame_def)
  next
    case False
    let ?m = "\<lambda>d. rbind (safe_add S (dd_accumulated_fees d) (amount fee)) (\<lambda>f.
        rbind (safe_sub S (dd_fee_pool d) (fs_core_fee_paid fs)) (\<lambda>p.
          Inr (d\<lparr>dd_accumulated_fees := f, dd_fee_pool := p\<rparr>)))"
    have m: "modify_dynamic_data (at_dynamic_asset_data_id a) ?m db = Inr db'"
      using c False T by (simp add: convert_fee_def fs)
    obtain x y where xy: "?m x = Inr y" "db' = db\<lparr>db_dynamic_data := db_dynamic_data db'\<rparr>" "db_ok db'"
      and find: "index_find (db_dynamic_data db) (at_dynamic_asset_data_id a) = Some x"
        "index_find (db_dynamic_data db') = (index_find (db_dynamic_data db))(at_dynamic_asset_data_id a \<mapsto> y)"
      and surp: "\<forall>k. surplus db' k = surplus db k +
        (if dyn_id db k = Some (at_dynamic_asset_data_id a) then dyn_net y - dyn_net x else 0) +
        (if k = ?core then dd_fee_pool y - dd_fee_pool x else 0)"
      using m ok(1) by (rule modify_dynamic_data_effect) (rule that)
    have "dyn_id db k = Some (at_dynamic_asset_data_id a) \<longleftrightarrow> k = asset_id fee" for k
      using ok(1) a by (auto simp: db_ok_def dyn_links_ok_def dyn_id_def)
    moreover have "dyn_net y - dyn_net x = amount fee" "dd_fee_pool y - dd_fee_pool x = - fs_core_fee_paid fs"
      using xy(1) by (auto simp: dyn_net_def result_simps)
    moreover have "balances_ok db' = balances_ok db" by (subst xy(2), simp add: balances_ok_def)
    moreover have "fee_frame db db'" by (rule fee_frameI(1) [OF xy(2)])
    moreover have "supplies db' = supplies db"
      using xy(1) find by (auto simp: supplies_def fun_eq_iff result_simps)
    ultimately show ?thesis using xy(3) surp ok(2) by (auto simp: of_asset_def)
  qed
qed

lemma pay_fee_credits:
  assumes p: "pay_fee S T fs db = Inr db'" and ok: "db_ok db" "balances_ok db" and T: "\<not> skip_fee T"
  shows "credits (fs_core_fee_paid fs) db db'" and "fee_frame db db'" and "supplies db' = supplies db"
proof -
  obtain x y where xy: "statistics_pay_fee S (fs_core_fee_paid fs) (cp_cashback_vesting_threshold (params db)) x = Inr y"
    "db' = db\<lparr>db_statistics := db_statistics db'\<rparr>" "db_ok db'"
    "\<forall>k. surplus db' k = surplus db k + (if k = current_core_asset_id db then pending y - pending x else 0)"
    using p T ok(1) unfolding pay_fee_def by (auto elim: modify_statistics_effect)
  have "pending y - pending x = fs_core_fee_paid fs"
    using xy(1) by (auto simp: statistics_pay_fee_def pending_def result_simps split: if_splits)
  moreover have "balances_ok db' = balances_ok db" "current_core_asset_id db' = current_core_asset_id db"
    by (subst xy(2), simp add: balances_ok_def)+
  ultimately show "credits (fs_core_fee_paid fs) db db'" using xy(3,4) ok(2) by (auto simp: credits_def)
  show "fee_frame db db'" by (rule fee_frameI(2) [OF xy(2)])
  show "supplies db' = supplies db" by (subst xy(2)) (simp add: supplies_def fun_eq_iff)
qed

end

text \<open>
  The contract of a derived evaluator's \<open>pay_fee\<close>: it credits \<open>credit fs\<close> of the core asset
  somewhere in the ledger. The generic evaluator then hands \<open>do_apply\<close> a state that differs from the
  first in the fee's bookkeeping only.
\<close>

locale paying_evaluator = checked_int64 S for S :: safe_ops +
  fixes pay :: "fee_state \<Rightarrow> database \<Rightarrow> database result"
    and credit :: "fee_state \<Rightarrow> share_type"
  assumes pay_credits: "pay fs db = Inr db' \<Longrightarrow> db_ok db \<Longrightarrow> balances_ok db \<Longrightarrow> credits (credit fs) db db'"
    and pay_frame: "pay fs db = Inr db' \<Longrightarrow> db_ok db \<Longrightarrow> balances_ok db \<Longrightarrow> fee_frame db db'"
    and pay_supplies: "pay fs db = Inr db' \<Longrightarrow> db_ok db \<Longrightarrow> balances_ok db \<Longrightarrow> supplies db' = supplies db"
begin

lemma start_evaluate_steps:
  assumes run: "start_evaluate S T required pay payer fee ev ap db = Inr db'"
    and ok: "db_ok db" "balances_ok db" and T: "\<not> skip_fee T"
  obtains fs x db2 db3 where "prepare_fee payer fee db = Inr fs" and "ev fs db = Inr x" and "ap x db2 = Inr db3"
    and "db_ok db2" and "balances_ok db2" and "fee_frame db db2" and "supplies db2 = supplies db" and "0 \<le> fs_core_fee_paid fs"
    and "adjust_balance S payer (mk_asset (- amount fee) (asset_id fee)) db3 = Inr db'"
    and "\<forall>k. surplus db2 k = surplus db k + of_asset k fee -
      (if k = current_core_asset_id db then fs_core_fee_paid fs - credit fs else 0)"
proof -
  from run obtain fs x db1 db2 db3 where p: "prepare_fee payer fee db = Inr fs" and e: "ev fs db = Inr x"
    and c: "convert_fee S T fs db = Inr db1" and pay: "pay fs db1 = Inr db2" and a: "ap x db2 = Inr db3"
    and adj: "adjust_balance S payer (mk_asset (- amount (fs_fee_from_account fs)) (asset_id (fs_fee_from_account fs))) db3 = Inr db'"
    by (auto simp: start_evaluate_def evaluate_op_def apply_op_def rbind_Inr asset_neg_Inr)
  have fee: "fs_fee_from_account fs = fee" "0 \<le> fs_core_fee_paid fs" using prepare_fee_Inr [OF p] by auto
  note c1 = convert_fee_effect [OF c p ok T]
  have c2: "credits (credit fs) db1 db2" "fee_frame db1 db2" "supplies db2 = supplies db1"
    using pay_credits [OF pay] pay_frame [OF pay] pay_supplies [OF pay] c1 by blast+
  have "fee_frame db db1" using c1 by blast
  note f = fee_frame_trans [OF this c2(2)] and core = fee_frame_fields(11) [OF this]
  show ?thesis
    by (rule that [OF p e a _ _ f _ fee(2) adj [unfolded fee]]) (use c1 c2(1,3) core in \<open>auto simp: credits_def\<close>)
qed

end

text \<open>A derived evaluator whose \<open>do_apply\<close> accounts for the rest of the fee conserves every asset.\<close>

locale conserving_evaluator = paying_evaluator S pay credit for S :: safe_ops and pay and credit +
  fixes ev :: "fee_state \<Rightarrow> database \<Rightarrow> 'e result"
    and ap :: "'e \<Rightarrow> database \<Rightarrow> database result"
  assumes apply_credits: "ev fs db0 = Inr x \<Longrightarrow> ap x db = Inr db' \<Longrightarrow> fee_frame db0 db \<Longrightarrow> db_ok db \<Longrightarrow> balances_ok db \<Longrightarrow>
    0 \<le> fs_core_fee_paid fs \<Longrightarrow> credits (fs_core_fee_paid fs - credit fs) db db'"
begin

theorem start_evaluate_conserves:
  assumes run: "start_evaluate S T required pay payer fee ev ap db = Inr db'"
    and ok: "db_ok db" "balances_ok db" and T: "\<not> skip_fee T"
  shows "conserves db db'"
proof -
  obtain fs x db2 db3 where e: "ev fs db = Inr x" and a: "ap x db2 = Inr db3" and ok2: "db_ok db2" "balances_ok db2"
    and f: "fee_frame db db2" and nonneg: "0 \<le> fs_core_fee_paid fs"
    and adj: "adjust_balance S payer (mk_asset (- amount fee) (asset_id fee)) db3 = Inr db'"
    and s: "\<forall>k. surplus db2 k = surplus db k + of_asset k fee -
      (if k = current_core_asset_id db then fs_core_fee_paid fs - credit fs else 0)"
    using run ok T by (rule start_evaluate_steps) (rule that)
  have c: "credits (fs_core_fee_paid fs - credit fs) db2 db3" by (rule apply_credits [OF e a f ok2 nonneg])
  then have ok3: "db_ok db3" "balances_ok db3" by (auto simp: credits_def)
  note adj' = adjust_balance_adjusted [OF adj ok3]
  then have "db_ok db'" "balances_ok db'" "\<forall>k. surplus db' k = surplus db3 k - of_asset k fee"
    "current_core_asset_id db' = current_core_asset_id db3"
    using adjusted_fields(9) [OF adj'] by (auto simp: adjusted_def of_asset_def)
  with c s fee_frame_fields(11) [OF f] show ?thesis by (auto simp: conserves_def credits_def fun_eq_iff)
qed

end

text \<open>An evaluator whose \<open>do_apply\<close> moves balances by \<open>mv\<close> moves them by \<open>mv\<close> and the fee in all.\<close>

locale moving_evaluator = conserving_evaluator S pay credit ev ap
    for S :: safe_ops and pay and credit and ev :: "fee_state \<Rightarrow> database \<Rightarrow> 'e result" and ap +
  fixes mv :: "account_id_type \<Rightarrow> asset_id_type \<Rightarrow> int"
  assumes apply_moves: "ev fs db0 = Inr x \<Longrightarrow> ap x db = Inr db' \<Longrightarrow> fee_frame db0 db \<Longrightarrow> db_ok db \<Longrightarrow> balances_ok db \<Longrightarrow>
    bal db' a k = bal db a k + mv a k"
begin

lemma start_evaluate_moves:
  assumes run: "start_evaluate S T required pay payer fee ev ap db = Inr db'"
    and ok: "db_ok db" "balances_ok db" and T: "\<not> skip_fee T"
  shows "bal db' a k = bal db a k + mv a k - (if a = payer \<and> k = asset_id fee then amount fee else 0)"
proof -
  obtain fs x db2 db3 where e: "ev fs db = Inr x" and ap: "ap x db2 = Inr db3" and ok2: "db_ok db2" "balances_ok db2"
    and f: "fee_frame db db2" and nonneg: "0 \<le> fs_core_fee_paid fs"
    and adj: "adjust_balance S payer (mk_asset (- amount fee) (asset_id fee)) db3 = Inr db'"
    using run ok T by (rule start_evaluate_steps) (rule that)
  have "db_ok db3" "balances_ok db3" using apply_credits [OF e ap f ok2 nonneg] by (auto simp: credits_def)
  from adjust_balance_adjusted [OF adj this] show ?thesis
    using apply_moves [OF e ap f ok2, of a k] fee_frame_fields(13) [OF f] by (simp add: adjusted_def)
qed

end

text \<open>
  An invariant that the fee bookkeeping and the balances do not concern is kept by the whole operation
  when its apply step keeps it.
\<close>

locale preserving_evaluator = conserving_evaluator S pay credit ev ap
    for S :: safe_ops and pay and credit and ev :: "fee_state \<Rightarrow> database \<Rightarrow> 'e result" and ap +
  fixes inv :: "database \<Rightarrow> bool"
  assumes inv_fee_frame: "fee_frame db db' \<Longrightarrow> inv db' = inv db"
    and inv_balances: "inv (db\<lparr>db_balances := t\<rparr>) = inv db"
    and apply_keeps: "ev fs db0 = Inr x \<Longrightarrow> ap x db = Inr db' \<Longrightarrow> fee_frame db0 db \<Longrightarrow> db_ok db \<Longrightarrow> balances_ok db \<Longrightarrow>
      inv db \<Longrightarrow> inv db'"
begin

lemma start_evaluate_keeps:
  assumes run: "start_evaluate S T required pay payer fee ev ap db = Inr db'"
    and ok: "db_ok db" "balances_ok db" and T: "\<not> skip_fee T" and inv: "inv db"
  shows "inv db'"
proof -
  obtain fs x db2 db3 where e: "ev fs db = Inr x" and ap: "ap x db2 = Inr db3" and ok2: "db_ok db2" "balances_ok db2"
    and f: "fee_frame db db2" and nonneg: "0 \<le> fs_core_fee_paid fs"
    and adj: "adjust_balance S payer (mk_asset (- amount fee) (asset_id fee)) db3 = Inr db'"
    using run ok T by (rule start_evaluate_steps) (rule that)
  have "credits (fs_core_fee_paid fs - credit fs) db2 db3" by (rule apply_credits [OF e ap f ok2 nonneg])
  then have ok3: "db_ok db3" "balances_ok db3" by (auto simp: credits_def)
  obtain t where "db' = db3\<lparr>db_balances := t\<rparr>"
    using adjust_balance_adjusted [OF adj ok3] unfolding adjusted_def by blast
  moreover have "inv db3" using apply_keeps [OF e ap f ok2] inv inv_fee_frame [OF f] by simp
  ultimately show ?thesis by (simp add: inv_balances)
qed

end

text \<open>
  The transactions the chain runs charge fees: nothing in the code sets \<open>skip_fee\<close>. The default
  \<open>pay_fee\<close> then meets the contract with the whole core fee.
\<close>

locale charging = checked_int64 S for S :: safe_ops +
  fixes T :: transaction_evaluation_state
  assumes fees_charged: "\<not> skip_fee T"

sublocale charging < default_pay: paying_evaluator S "pay_fee S T" fs_core_fee_paid
  using pay_fee_credits fees_charged by unfold_locales blast+

definition new_evaluation_state :: transaction_evaluation_state where
  "new_evaluation_state = \<lparr>skip_fee = False, skip_fee_schedule_check = False\<rparr>"

interpretation std: charging int64_ops new_evaluation_state
  by unfold_locales (simp add: new_evaluation_state_def)

section \<open>Properties of fees\<close>

text \<open>The split of a fee is sound: for percentages within bounds, the network, lifetime-referrer,
  referrer and registrar parts are computed without overflow, none is negative, and they add up to
  the whole fee (the assertion at the end of \<open>pay_out_fees\<close>).
\<close>

theorem fee_split_exact:
  assumes "0 \<le> f" "f \<le> int64_max" and "uint n + uint l \<le> GRAPHENE_100_PERCENT" "uint r \<le> GRAPHENE_100_PERCENT"
  shows "cut_fee f n = f * uint n div GRAPHENE_100_PERCENT \<and> 0 \<le> cut_fee f n \<and> 0 \<le> cut_fee f l \<and>
    (let referral = f - cut_fee f n - cut_fee f l; referrer_cut = cut_fee referral r; registrar_cut = referral - referrer_cut
     in 0 \<le> referral \<and> 0 \<le> referrer_cut \<and> 0 \<le> registrar_cut \<and>
        cut_fee f n + cut_fee f l + referrer_cut + registrar_cut = f)"
proof -
  have p: "uint n \<le> GRAPHENE_100_PERCENT" "uint l \<le> GRAPHENE_100_PERCENT"
    using assms(3) uint_ge_0 [of n] uint_ge_0 [of l] by linarith+
  note N = cut_fee_exact [OF assms(1,2) p(1)] and L = cut_fee_exact [OF assms(1,2) p(2)]
  let ?ref = "f - cut_fee f n - cut_fee f l"
  have ref: "0 \<le> ?ref" "?ref \<le> int64_max"
    using cut_fee_sum_le [OF assms(1-3)] N(2) L(2) assms(2) by auto
  note R = cut_fee_exact [OF ref assms(4)]
  show ?thesis
    using N(1,2) L(2) ref R(2,3) by (simp add: Let_def)
qed

theorem fee_split_exact_witness:
  "cut_fee 1001 2000 = 200 \<and> cut_fee 1001 2000 + cut_fee 1001 3000 + cut_fee 501 5000 + 251 = 1001"
proof -
  have "cut_fee 1001 2000 = 200 \<and> cut_fee 1001 3000 = 300 \<and> cut_fee 501 5000 = 250"
    using fee_split_exact [of 1001 2000 3000 5000] fee_split_exact [of 501 5000 0 0] fee_split_exact [of 1001 3000 0 0]
    by (simp add: int64_max_def GRAPHENE_100_PERCENT_def)
  then show ?thesis by simp
qed

text \<open>C20.
  Processing an account's pending fees at maintenance conserves every asset: what leaves the pending
  counters reaches accumulated fees and vesting balances (or reduces the supply), and no account
  balance changes.
\<close>

theorem process_fees_conserves:
  assumes "checked_int64 S" and "db_ok db" and "process_fees S stats acct db = Inr db'"
  shows "db_ok db' \<and> surplus db' = surplus db \<and> bal db' = bal db"
  using checked_int64.process_fees_surplus [OF assms(1,3,2)] .

definition fee_db :: database where
  "fee_db = chain_db\<lparr>
     db_accounts := \<lparr>next_id = 7, rows = [(6, (sample_account 6)\<lparr>ac_referrer := 6, ac_lifetime_referrer := 6\<rparr>)]\<rparr>,
     db_statistics := \<lparr>next_id = 7, rows = [(6, (sample_statistics 6)\<lparr>as_pending_fees := 1001\<rparr>)]\<rparr>,
     db_balances := empty_index\<rparr>"

lemma fee_db_ok: "db_ok fee_db"
proof -
  have "index_ok account_uk (db_accounts fee_db)" "index_ok no_uk (db_statistics fee_db)"
    by (rule index_okI; simp add: fee_db_def account_uk_def no_uk_def)+
  with chain_db_ok show ?thesis by (simp add: db_ok_def tables_ok_def dyn_links_ok_def fee_db_def index_ok_empty)
qed

theorem process_fees_conserves_witness:
  "\<exists>db'. process_fees int64_ops 6 6 fee_db = Inr db' \<and> surplus db' 1 = surplus fee_db 1"
proof -
  have "\<not> isl (process_fees int64_ops 6 6 fee_db)" by code_simp
  then obtain db' where "process_fees int64_ops 6 6 fee_db = Inr db'"
    by (cases "process_fees int64_ops 6 6 fee_db") auto
  with process_fees_conserves [OF int64_ops_checked fee_db_ok this] show ?thesis by auto
qed

end
