(* ===== verification/Transfer_Ops.thy ===== *)
theory Transfer_Ops
  imports Fee_Evaluator
begin

text \<open>
  The transfer operations (protocol/transfer.hpp, protocol/transfer.cpp, transfer_evaluator.cpp):
  a plain transfer, the issuer's override transfer and the inline transfer of contracts. The size of
  a serialized memo comes from \<open>fc::raw::pack_size\<close> and is an argument of the fee computations.
\<close>

section \<open>Operations\<close>

record 'memo transfer_operation =
  tr_fee :: asset
  tr_from :: account_id_type
  tr_to :: account_id_type
  tr_amount :: asset
  tr_memo :: "'memo option"

record 'memo override_transfer_operation =
  ot_fee :: asset
  ot_issuer :: account_id_type
  ot_from :: account_id_type
  ot_to :: account_id_type
  ot_amount :: asset
  ot_memo :: "'memo option"

record inline_transfer_operation =
  it_fee :: asset
  it_from :: account_id_type
  it_to :: account_id_type
  it_amount :: asset
  it_memo :: string

record fee_parameters =
  fp_fee :: int
  fp_price_per_kbyte :: u32

definition calculate_data_fee :: "int \<Rightarrow> int \<Rightarrow> int result" where
  "calculate_data_fee bytes price_per_kbyte =
     (let r = u128 bytes * u128 price_per_kbyte div 1024
      in fc_assert (r \<le> u128 GRAPHENE_MAX_SHARE_SUPPLY) (Inr (to_uint64 r)))"

definition memo_fee :: "safe_ops \<Rightarrow> ('memo \<Rightarrow> int) \<Rightarrow> 'memo option \<Rightarrow> fee_parameters \<Rightarrow> share_type result" where
  "memo_fee S pack_size memo k = (case memo of
     None \<Rightarrow> Inr (wrap64 (fp_fee k))
   | Some m \<Rightarrow> rbind (calculate_data_fee (pack_size m) (uint (fp_price_per_kbyte k))) (safe_add S (wrap64 (fp_fee k))))"

definition transfer_calculate_fee ::
  "safe_ops \<Rightarrow> ('memo option \<Rightarrow> int) \<Rightarrow> fee_parameters \<Rightarrow> 'memo transfer_operation \<Rightarrow> share_type result" where
  "transfer_calculate_fee S pack_size k op = memo_fee S (\<lambda>m. pack_size (Some m)) (tr_memo op) k"

definition override_transfer_calculate_fee ::
  "safe_ops \<Rightarrow> ('memo option \<Rightarrow> int) \<Rightarrow> fee_parameters \<Rightarrow> 'memo override_transfer_operation \<Rightarrow> share_type result" where
  "override_transfer_calculate_fee S pack_size k op = memo_fee S (\<lambda>m. pack_size (Some m)) (ot_memo op) k"

definition inline_transfer_calculate_fee ::
  "safe_ops \<Rightarrow> (string \<Rightarrow> int) \<Rightarrow> fee_parameters \<Rightarrow> inline_transfer_operation \<Rightarrow> share_type result" where
  "inline_transfer_calculate_fee S pack_size k op =
     rbind (calculate_data_fee (pack_size (it_memo op)) (uint (fp_price_per_kbyte k))) (\<lambda>data_fee.
     Inr (wrap64 (fp_fee k + data_fee)))"

definition transfer_validate :: "'memo transfer_operation \<Rightarrow> unit result" where
  "transfer_validate op =
     fc_assert (amount (tr_fee op) \<ge> 0)
     (fc_assert (tr_from op \<noteq> tr_to op)
     (fc_assert (amount (tr_amount op) > 0) (Inr ())))"

definition override_transfer_validate :: "'memo override_transfer_operation \<Rightarrow> unit result" where
  "override_transfer_validate op =
     fc_assert (amount (ot_fee op) \<ge> 0)
     (fc_assert (ot_from op \<noteq> ot_to op)
     (fc_assert (amount (ot_amount op) > 0)
     (fc_assert (ot_issuer op \<noteq> ot_from op) (Inr ()))))"

definition inline_transfer_validate :: "inline_transfer_operation \<Rightarrow> unit result" where
  "inline_transfer_validate op =
     fc_assert (amount (it_fee op) \<ge> 0)
     (fc_assert (it_from op \<noteq> it_to op)
     (fc_assert (amount (it_amount op) > 0) (Inr ())))"

section \<open>Evaluators\<close>

definition move_asset :: "safe_ops \<Rightarrow> account_id_type \<Rightarrow> account_id_type \<Rightarrow> asset \<Rightarrow> database \<Rightarrow> database result" where
  "move_asset S from to a db =
     rbind (asset_neg S a) (\<lambda>minus.
     rbind (adjust_balance S from minus db) (\<lambda>db1. adjust_balance S to a db1))"

definition transfer_do_evaluate :: "'memo transfer_operation \<Rightarrow> fee_state \<Rightarrow> database \<Rightarrow> unit result" where
  "transfer_do_evaluate op fs db =
     rbind (index_get (db_accounts db) (tr_from op)) (\<lambda>from_account.
     rbind (index_get (db_accounts db) (tr_to op)) (\<lambda>to_account.
     rbind (index_get (db_assets db) (asset_id (tr_amount op))) (\<lambda>asset_type.
     let k = asset_id (tr_amount op) in
     ensure (is_authorized_asset db from_account k asset_type) Transfer_from_account_not_whitelisted
     (ensure (is_authorized_asset db to_account k asset_type) Transfer_to_account_not_whitelisted
     (ensure (is_transfer_restricted asset_type \<longrightarrow> tr_from op = at_issuer asset_type \<or> tr_to op = at_issuer asset_type)
        Transfer_restricted_transfer_asset
     (ensure (head_block_time db \<le> HARDFORK_1019_TIME \<longrightarrow> is_contract_account to_account)
        Transfer_restricted_transfer_to_contract
     (fc_assert (amount (get_balance db (tr_from op) k) \<ge> amount (tr_amount op)) (Inr ()))))))))"

definition transfer_do_apply :: "safe_ops \<Rightarrow> 'memo transfer_operation \<Rightarrow> unit \<Rightarrow> database \<Rightarrow> database result" where
  "transfer_do_apply S op x db = move_asset S (tr_from op) (tr_to op) (tr_amount op) db"

definition override_transfer_do_evaluate :: "'memo override_transfer_operation \<Rightarrow> fee_state \<Rightarrow> database \<Rightarrow> unit result" where
  "override_transfer_do_evaluate op fs db =
     rbind (index_get (db_assets db) (asset_id (ot_amount op))) (\<lambda>asset_type.
     let k = asset_id (ot_amount op) in
     ensure (can_override asset_type) Override_transfer_not_permitted
     (fc_assert (at_issuer asset_type = ot_issuer op)
     (rbind (index_get (db_accounts db) (ot_from op)) (\<lambda>from_account.
      rbind (index_get (db_accounts db) (ot_to op)) (\<lambda>to_account.
      fc_assert (is_authorized_asset db to_account k asset_type)
      (fc_assert (is_authorized_asset db from_account k asset_type)
      (fc_assert (head_block_time db \<le> HARDFORK_419_TIME \<longrightarrow> is_authorized_asset db from_account k asset_type)
      (fc_assert (amount (get_balance db (ot_from op) k) \<ge> amount (ot_amount op)) (Inr ())))))))))"

definition override_transfer_do_apply :: "safe_ops \<Rightarrow> 'memo override_transfer_operation \<Rightarrow> unit \<Rightarrow> database \<Rightarrow> database result" where
  "override_transfer_do_apply S op x db = move_asset S (ot_from op) (ot_to op) (ot_amount op) db"

definition inline_transfer_do_evaluate :: "inline_transfer_operation \<Rightarrow> fee_state \<Rightarrow> database \<Rightarrow> unit result" where
  "inline_transfer_do_evaluate op fs db =
     rbind (index_get (db_accounts db) (it_from op)) (\<lambda>_.
     rbind (index_get (db_accounts db) (it_to op)) (\<lambda>_.
     rbind (index_get (db_assets db) (asset_id (it_amount op))) (\<lambda>_.
     fc_assert (amount (get_balance db (it_from op) (asset_id (it_amount op))) \<ge> amount (it_amount op)) (Inr ()))))"

definition inline_transfer_do_apply :: "safe_ops \<Rightarrow> inline_transfer_operation \<Rightarrow> unit \<Rightarrow> database \<Rightarrow> database result" where
  "inline_transfer_do_apply S op x db = move_asset S (it_from op) (it_to op) (it_amount op) db"

definition transfer_evaluator :: "safe_ops \<Rightarrow> transaction_evaluation_state \<Rightarrow> share_type result \<Rightarrow>
    'memo transfer_operation \<Rightarrow> database \<Rightarrow> database result" where
  "transfer_evaluator S T required op =
     start_evaluate S T required (pay_fee S T) (tr_from op) (tr_fee op)
       (transfer_do_evaluate op) (transfer_do_apply S op)"

definition override_transfer_evaluator :: "safe_ops \<Rightarrow> transaction_evaluation_state \<Rightarrow> share_type result \<Rightarrow>
    'memo override_transfer_operation \<Rightarrow> database \<Rightarrow> database result" where
  "override_transfer_evaluator S T required op =
     start_evaluate S T required (pay_fee S T) (ot_issuer op) (ot_fee op)
       (override_transfer_do_evaluate op) (override_transfer_do_apply S op)"

definition inline_transfer_evaluator :: "safe_ops \<Rightarrow> transaction_evaluation_state \<Rightarrow> share_type result \<Rightarrow>
    inline_transfer_operation \<Rightarrow> database \<Rightarrow> database result" where
  "inline_transfer_evaluator S T required op =
     start_evaluate S T required (pay_fee S T) (it_from op) (it_fee op)
       (inline_transfer_do_evaluate op) (inline_transfer_do_apply S op)"

section \<open>Effects\<close>

context checked_int64
begin

lemma move_asset_effect:
  assumes m: "move_asset S from to a db = Inr db'" and ok: "db_ok db" "balances_ok db"
  shows "conserves db db'"
    and "bal db' x k = bal db x k - (if x = from \<and> k = asset_id a then amount a else 0)
      + (if x = to \<and> k = asset_id a then amount a else 0)"
    and "db' = db\<lparr>db_balances := db_balances db'\<rparr>"
proof -
  let ?minus = "mk_asset (- amount a) (asset_id a)"
  from m obtain db1 where d1: "adjust_balance S from ?minus db = Inr db1" and d2: "adjust_balance S to a db1 = Inr db'"
    by (auto simp: move_asset_def asset_neg_Inr rbind_Inr)
  have a1: "adjusted from ?minus db db1" by (rule adjust_balance_adjusted [OF d1 ok])
  then have ok1: "db_ok db1" "balances_ok db1" by (auto simp: adjusted_def)
  have a2: "adjusted to a db1 db'" by (rule adjust_balance_adjusted [OF d2 ok1])
  have "surplus db' = surplus db"
    using a1 a2 by (auto simp: adjusted_def of_asset_def fun_eq_iff)
  with a2 adjusted_fields(9) [OF a1] adjusted_fields(9) [OF a2] show "conserves db db'"
    by (auto simp: conserves_def adjusted_def)
  show "bal db' x k = bal db x k - (if x = from \<and> k = asset_id a then amount a else 0)
      + (if x = to \<and> k = asset_id a then amount a else 0)"
    using a1 a2 by (auto simp: adjusted_def)
  obtain t1 t2 where "db1 = db\<lparr>db_balances := t1\<rparr>" "db' = db1\<lparr>db_balances := t2\<rparr>"
    using a1 a2 unfolding adjusted_def by metis
  then show "db' = db\<lparr>db_balances := db_balances db'\<rparr>" by simp
qed

end

text \<open>The three evaluators meet the contract of the generic evaluator.\<close>

sublocale charging < transfer: moving_evaluator S "pay_fee S T" fs_core_fee_paid "transfer_do_evaluate op" "transfer_do_apply S op"
    "\<lambda>a k. (if a = tr_to op \<and> k = asset_id (tr_amount op) then amount (tr_amount op) else 0) -
      (if a = tr_from op \<and> k = asset_id (tr_amount op) then amount (tr_amount op) else 0)" for op
  by unfold_locales (auto simp: transfer_do_apply_def move_asset_effect credits_zero)

sublocale charging < override: moving_evaluator S "pay_fee S T" fs_core_fee_paid "override_transfer_do_evaluate op" "override_transfer_do_apply S op"
    "\<lambda>a k. (if a = ot_to op \<and> k = asset_id (ot_amount op) then amount (ot_amount op) else 0) -
      (if a = ot_from op \<and> k = asset_id (ot_amount op) then amount (ot_amount op) else 0)" for op
  by unfold_locales (auto simp: override_transfer_do_apply_def move_asset_effect credits_zero)

sublocale charging < inline: moving_evaluator S "pay_fee S T" fs_core_fee_paid "inline_transfer_do_evaluate op" "inline_transfer_do_apply S op"
    "\<lambda>a k. (if a = it_to op \<and> k = asset_id (it_amount op) then amount (it_amount op) else 0) -
      (if a = it_from op \<and> k = asset_id (it_amount op) then amount (it_amount op) else 0)" for op
  by unfold_locales (auto simp: inline_transfer_do_apply_def move_asset_effect credits_zero)

text \<open>The funds a transfer needs: its amount, and its fee on top when both are of one asset.\<close>

definition covers :: "database \<Rightarrow> 'memo transfer_operation \<Rightarrow> bool" where
  "covers db op \<longleftrightarrow> (\<forall>k. (if k = asset_id (tr_amount op) then amount (tr_amount op) else 0) +
     (if k = asset_id (tr_fee op) then amount (tr_fee op) else 0) \<le> bal db (tr_from op) k)"

context charging
begin

lemma pay_fee_succeeds:
  assumes "db_ok db" and st: "index_find (db_statistics db) (fs_statistics fs) = Some st"
    and "in_int64 (as_pending_fees st + fs_core_fee_paid fs)" "in_int64 (as_pending_vested_fees st + fs_core_fee_paid fs)"
  shows "\<exists>db'. pay_fee S T fs db = Inr db' \<and> db' = db\<lparr>db_statistics := db_statistics db'\<rparr>"
proof -
  have "\<exists>t. index_modify no_uk (fs_statistics fs)
      (statistics_pay_fee S (fs_core_fee_paid fs) (cp_cashback_vesting_threshold (params db))) (db_statistics db) = Inr t"
    by (rule index_modify_succeeds [OF _ st])
       (use assms in \<open>auto simp: db_ok_def tables_ok_def statistics_pay_fee_def no_uk_def add_exact\<close>)
  then show ?thesis using fees_charged by (auto simp: pay_fee_def modify_statistics_def)
qed

lemma move_asset_succeeds:
  assumes ok: "db_ok db" "balances_ok db" and a: "0 \<le> amount a" "from \<noteq> to"
    and b: "amount a \<le> bal db from (asset_id a)" "bal db to (asset_id a) + amount a \<le> int64_max"
    "bal db from (asset_id a) \<le> int64_max"
  shows "\<exists>db'. move_asset S from to a db = Inr db'"
proof -
  let ?minus = "mk_asset (- amount a) (asset_id a)"
  have range: "in_int64 (amount a)" "in_int64 (- amount a)" "int64_min < amount a" "int64_min < - amount a"
    using a b by (auto simp: int64_defs)
  obtain db1 where d1: "adjust_balance S from ?minus db = Inr db1"
    using adjust_balance_succeeds [OF ok, of ?minus "from"] range b(1,3) a(1) by auto
  note a1 = adjust_balance_adjusted [OF d1 ok]
  then have ok1: "db_ok db1" "balances_ok db1" by (auto simp: adjusted_def)
  have "bal db1 to (asset_id a) = bal db to (asset_id a)" using a1 a(2) by (simp add: adjusted_def)
  moreover have "0 \<le> bal db to (asset_id a)" by (rule bal_nonneg [OF ok])
  ultimately obtain db2 where "adjust_balance S to a db1 = Inr db2"
    using adjust_balance_succeeds [OF ok1 range(1,3), of to] a(1) b(2) by auto
  then show ?thesis using d1 range by (simp add: move_asset_def asset_neg_def neg_exact)
qed

lemma transfer_moves:
  assumes "transfer_evaluator S T required op db = Inr db'" "db_ok db" "balances_ok db"
  shows "conserves db db'" and "bal db' a k = bal db a k
      + (if a = tr_to op \<and> k = asset_id (tr_amount op) then amount (tr_amount op) else 0)
      - (if a = tr_from op \<and> k = asset_id (tr_amount op) then amount (tr_amount op) else 0)
      - (if a = tr_from op \<and> k = asset_id (tr_fee op) then amount (tr_fee op) else 0)"
  using transfer.start_evaluate_conserves [OF assms(1) [unfolded transfer_evaluator_def] assms(2,3) fees_charged]
    transfer.start_evaluate_moves [OF assms(1) [unfolded transfer_evaluator_def] assms(2,3) fees_charged, of a k]
  by simp_all

lemma transfer_needs_funds:
  assumes run: "transfer_evaluator S T required op db = Inr db'" and ok: "db_ok db" "balances_ok db"
    and valid: "tr_from op \<noteq> tr_to op"
  shows "covers db op"
proof -
  have c: "db_ok db'" "balances_ok db'" using transfer_moves(1) [OF run ok] by (simp_all add: conserves_def)
  have "0 \<le> bal db' (tr_from op) k" for k by (rule bal_nonneg [OF c])
  then show ?thesis
    using valid unfolding covers_def transfer_moves(2) [OF run ok] by (auto simp: algebra_simps)
qed

lemma transfer_succeeds:
  assumes ok: "db_ok db" "balances_ok db"
    and fs: "prepare_fee (tr_from op) (tr_fee op) db = Inr fs" and core: "asset_id (tr_fee op) = current_core_asset_id db"
    and required: "required = Inr r" "r \<le> amount (tr_fee op)"
    and ev: "transfer_do_evaluate op fs db = Inr ()" and valid: "transfer_validate op = Inr ()"
    and room: "\<forall>k. bal db (tr_from op) k \<le> int64_max"
      "bal db (tr_to op) (asset_id (tr_amount op)) + amount (tr_amount op) \<le> int64_max"
    and st: "index_find (db_statistics db) (fs_statistics fs) = Some st"
      "in_int64 (as_pending_fees st + amount (tr_fee op))" "in_int64 (as_pending_vested_fees st + amount (tr_fee op))"
    and funds: "covers db op"
  shows "\<exists>db'. transfer_evaluator S T required op db = Inr db'"
proof -
  let ?f = "tr_from op" and ?k = "asset_id (tr_amount op)" and ?fee = "tr_fee op"
  have paid: "fs_fee_from_account fs = ?fee" "fs_core_fee_paid fs = amount ?fee" "fs_fee_asset fs = asset_id ?fee"
    "0 \<le> amount ?fee"
    using prepare_fee_Inr [OF fs] core by auto
  have v: "?f \<noteq> tr_to op" "0 < amount (tr_amount op)" using valid by (auto simp: transfer_validate_def result_simps)
  obtain db1 where d1: "pay_fee S T fs db = Inr db1" "db1 = db\<lparr>db_statistics := db_statistics db1\<rparr>"
    using pay_fee_succeeds [OF ok(1) st(1)] st(2,3) paid(2) by auto
  have ok1: "db_ok db1" "balances_ok db1" and b1: "bal db1 = bal db"
    using pay_fee_credits [OF d1(1) ok fees_charged] fee_frame_fields(13) [of db db1] by (auto simp: credits_def)
  have f: "(if k = ?k then amount (tr_amount op) else 0) + (if k = asset_id ?fee then amount ?fee else 0) \<le> bal db ?f k" for k
    using funds by (simp add: covers_def)
  obtain db2 where d2: "move_asset S ?f (tr_to op) (tr_amount op) db1 = Inr db2"
    using move_asset_succeeds [OF ok1, of "tr_amount op" ?f "tr_to op"] v room f [of ?k] paid(4)
    by (auto simp: b1 split: if_splits)
  note m2 = move_asset_effect [OF d2 ok1]
  then have ok2: "db_ok db2" "balances_ok db2" by (auto simp: conserves_def)
  let ?minus = "mk_asset (- amount ?fee) (asset_id ?fee)"
  have "amount ?fee \<le> int64_max"
    using f [of "asset_id ?fee"] room(1) v(2) by (smt (verit))
  then have neg: "in_int64 (- amount ?fee)" "int64_min < - amount ?fee" using paid(4) by (auto simp: int64_defs)
  have "0 \<le> bal db2 ?f (asset_id ?fee) + - amount ?fee" "bal db2 ?f (asset_id ?fee) + - amount ?fee \<le> int64_max"
    using f [of "asset_id ?fee"] v room(1) paid(4) by (auto simp: m2(2) b1 split: if_splits) (smt (verit))+
  then obtain db3 where "adjust_balance S ?f ?minus db2 = Inr db3"
    using adjust_balance_succeeds [OF ok2, of ?minus ?f] neg by auto
  then show ?thesis
    using fs ev required d1 d2 neg core paid
    by (simp add: transfer_evaluator_def start_evaluate_def evaluate_op_def apply_op_def convert_fee_def
        transfer_do_apply_def asset_neg_def neg_exact)
qed

end

section \<open>Properties of transfers\<close>

text \<open>C21.
  A transfer that goes through takes the amount and the fee from the sender, gives the amount to the
  receiver, changes no other account's balance of any asset, keeps every balance non-negative and
  conserves every asset (the fee is held by the fee counters).
\<close>

theorem transfer_exact:
  assumes "charging S T" and "db_ok db" "balances_ok db" and "transfer_evaluator S T required op db = Inr db'"
  shows "conserves db db' \<and> (\<forall>a k. bal db' a k = bal db a k
      + (if a = tr_to op \<and> k = asset_id (tr_amount op) then amount (tr_amount op) else 0)
      - (if a = tr_from op \<and> k = asset_id (tr_amount op) then amount (tr_amount op) else 0)
      - (if a = tr_from op \<and> k = asset_id (tr_fee op) then amount (tr_fee op) else 0))"
  using charging.transfer_moves [OF assms(1,4,2,3)] by blast

definition sample_transfer :: "unit transfer_operation" where
  "sample_transfer = \<lparr>tr_fee = mk_asset 100 1, tr_from = 6, tr_to = 7, tr_amount = mk_asset 500 2, tr_memo = None\<rparr>"

definition sample_fee_state :: fee_state where
  "sample_fee_state = \<lparr>fs_fee_from_account = mk_asset 100 1, fs_core_fee_paid = 100, fs_fee_paying_account = 6,
     fs_statistics = 6, fs_fee_asset = 1, fs_fee_asset_dyn_data = 1\<rparr>"

lemma chain_bal: "bal chain_db a k = (if a = 6 \<and> k = 1 then 20000 else if a = 6 \<and> k = 2 then 700
    else if a = 9 \<and> k = 2 then 400 else 0)"
  by (simp add: bal_def get_balance_def find_balance_def chain_db_def sample_balances_def ab_get_balance_def)

lemma sample_account_authorized: "is_authorized_asset chain_db (sample_account i) k (sample_asset k)"
  by (simp add: is_authorized_asset_def sample_asset_def sample_options_def sample_account_def has_flag_def)

lemma sample_transfer_prepared: "prepare_fee (tr_from sample_transfer) (tr_fee sample_transfer) chain_db = Inr sample_fee_state"
  by (simp add: prepare_fee_def index_get_def chain_simps sample_account_authorized sample_fee_state_def sample_transfer_def)
     (simp add: sample_account_def chain_statistics sample_asset_def chain_dynamic_data)

lemma sample_transfer_evaluated: "transfer_do_evaluate sample_transfer fs chain_db = Inr ()"
  using chain_bal [of 6 2]
  by (simp add: transfer_do_evaluate_def sample_transfer_def index_get_def chain_simps sample_account_authorized bal_def
      HARDFORK_1019_TIME_def)
     (simp add: is_transfer_restricted_def sample_asset_def sample_options_def has_flag_def)

lemma sample_transfer_covered: "covers chain_db sample_transfer"
  by (simp add: covers_def chain_bal sample_transfer_def)

lemma sample_transfer_runs: "\<exists>db'. transfer_evaluator int64_ops new_evaluation_state (Inr 20) sample_transfer chain_db = Inr db'"
  by (rule std.transfer_succeeds [OF chain_db_ok chain_db_balances_ok sample_transfer_prepared _ refl _ sample_transfer_evaluated [of sample_fee_state],
        where st = "sample_statistics 6"])
     (simp_all add: sample_transfer_covered, simp_all add: sample_transfer_def chain_simps
        transfer_validate_def chain_bal int64_defs sample_fee_state_def sample_statistics_def)

theorem transfer_exact_witness:
  "\<exists>db'. transfer_evaluator int64_ops new_evaluation_state (Inr 20) sample_transfer chain_db = Inr db' \<and>
    bal db' 6 2 = 200 \<and> bal db' 7 2 = 500 \<and> bal db' 6 1 = 19900 \<and> surplus db' 1 = surplus chain_db 1"
proof -
  obtain db' where d: "transfer_evaluator int64_ops new_evaluation_state (Inr 20) sample_transfer chain_db = Inr db'"
    using sample_transfer_runs by blast
  with transfer_exact [OF std.charging_axioms chain_db_ok chain_db_balances_ok d] show ?thesis
    by (auto simp: chain_bal sample_transfer_def conserves_def)
qed

text \<open>C22.
  A transfer whose checks pass and that pays its fee in the core asset goes through exactly when the
  sender can pay both the amount and the fee: the check of \<open>do_evaluate\<close> looks at the amount alone,
  and a sender who cannot also pay the fee is refused by the last adjustment of \<open>apply\<close>. The only other
  limit is the room of 64-bit counters.
\<close>

theorem transfer_iff_funds:
  assumes "charging S T" and "db_ok db" "balances_ok db"
    and "prepare_fee (tr_from op) (tr_fee op) db = Inr fs" and "asset_id (tr_fee op) = current_core_asset_id db"
    and "required = Inr r" "r \<le> amount (tr_fee op)"
    and "transfer_do_evaluate op fs db = Inr ()" and "transfer_validate op = Inr ()"
    and "\<forall>k. bal db (tr_from op) k \<le> int64_max"
      "bal db (tr_to op) (asset_id (tr_amount op)) + amount (tr_amount op) \<le> int64_max"
    and "index_find (db_statistics db) (fs_statistics fs) = Some st"
      "in_int64 (as_pending_fees st + amount (tr_fee op))" "in_int64 (as_pending_vested_fees st + amount (tr_fee op))"
  shows "(\<exists>db'. transfer_evaluator S T required op db = Inr db') \<longleftrightarrow> covers db op"
proof -
  have "tr_from op \<noteq> tr_to op" using assms(9) by (auto simp: transfer_validate_def result_simps)
  then show ?thesis
    using charging.transfer_succeeds [OF assms(1-14)] charging.transfer_needs_funds [OF assms(1) _ assms(2,3)] by blast
qed

theorem transfer_iff_funds_witness:
  "(\<exists>db'. transfer_evaluator int64_ops new_evaluation_state (Inr 20) sample_transfer chain_db = Inr db') \<longleftrightarrow>
    covers chain_db sample_transfer"
  by (rule transfer_iff_funds [OF std.charging_axioms chain_db_ok chain_db_balances_ok sample_transfer_prepared _ refl _
        sample_transfer_evaluated [of sample_fee_state], where st = "sample_statistics 6"])
     (simp_all add: sample_transfer_def chain_simps
        transfer_validate_def chain_bal int64_defs sample_fee_state_def sample_statistics_def)

end
