(* ===== verification/Asset_Ops.thy ===== *)
theory Asset_Ops
  imports Transfer_Ops
begin

text \<open>
  The operations on assets (protocol/asset_ops.hpp, protocol/asset_ops.cpp, asset_evaluator.cpp):
  creating an asset, issuing and reserving it, funding its fee pool, claiming its fees and updating it.
  The operations of market-issued assets, which the code disables at hard fork 1008, share one model.
  The size of a serialized operation comes from \<open>fc::raw::pack_size\<close> and is an argument of the fee
  computations.
\<close>

unbundle bit_operations_syntax

section \<open>Symbols\<close>

definition isdigit :: "char \<Rightarrow> bool" where
  "isdigit c \<longleftrightarrow> 48 \<le> (of_char c :: nat) \<and> (of_char c :: nat) \<le> 57"

definition isupper :: "char \<Rightarrow> bool" where
  "isupper c \<longleftrightarrow> 65 \<le> (of_char c :: nat) \<and> (of_char c :: nat) \<le> 90"

definition islower :: "char \<Rightarrow> bool" where
  "islower c \<longleftrightarrow> 97 \<le> (of_char c :: nat) \<and> (of_char c :: nat) \<le> 122"

definition isalpha :: "char \<Rightarrow> bool" where
  "isalpha c \<longleftrightarrow> isupper c \<or> islower c"

definition isalnum :: "char \<Rightarrow> bool" where
  "isalnum c \<longleftrightarrow> isalpha c \<or> isdigit c"

definition GRAPHENE_MIN_ASSET_SYMBOL_LENGTH :: nat where
  "GRAPHENE_MIN_ASSET_SYMBOL_LENGTH = 3"

definition GRAPHENE_MAX_ASSET_SYMBOL_LENGTH :: nat where
  "GRAPHENE_MAX_ASSET_SYMBOL_LENGTH = 16"

definition GRAPHENE_SYMBOL_GXS :: string where
  "GRAPHENE_SYMBOL_GXS = ''GXS''"

fun symbol_chars :: "bool \<Rightarrow> string \<Rightarrow> bool" where
  "symbol_chars dot_already_present [] = True"
| "symbol_chars dot_already_present (c # cs) =
     (if (isalpha c \<and> isupper c) \<or> isdigit c then symbol_chars dot_already_present cs
      else if c = CHR ''.'' then (if dot_already_present then False else symbol_chars True cs)
      else False)"

definition is_valid_symbol :: "string \<Rightarrow> bool" where
  "is_valid_symbol symbol =
     (if length symbol < GRAPHENE_MIN_ASSET_SYMBOL_LENGTH then False
      else if take 3 symbol = ''BIT'' then False
      else if length symbol > GRAPHENE_MAX_ASSET_SYMBOL_LENGTH then False
      else if \<not> isalpha (hd symbol) then False
      else if \<not> isalnum (last symbol) then False
      else symbol_chars False symbol)"

section \<open>Operations and their validation\<close>

record asset_create_operation =
  cr_fee :: asset
  cr_issuer :: account_id_type
  cr_symbol :: string
  cr_precision :: nat
  cr_common_options :: asset_options
  cr_bitasset_opts :: "bitasset_options option"
  cr_is_prediction_market :: bool

record asset_create_fee_parameters =
  symbol3 :: int
  symbol4 :: int
  long_symbol :: int
  cr_price_per_kbyte :: u32

record 'memo asset_issue_operation =
  is_fee :: asset
  is_issuer :: account_id_type
  is_asset_to_issue :: asset
  is_issue_to_account :: account_id_type
  is_memo :: "'memo option"

record asset_reserve_operation =
  rs_fee :: asset
  rs_payer :: account_id_type
  rs_amount_to_reserve :: asset

record asset_fund_fee_pool_operation =
  fd_fee :: asset
  fd_from_account :: account_id_type
  fd_asset_id :: asset_id_type
  fd_amount :: share_type

record asset_update_operation =
  up_fee :: asset
  up_issuer :: account_id_type
  up_asset_to_update :: asset_id_type
  up_new_issuer :: "account_id_type option"
  up_new_options :: asset_options
  up_extensions :: "future_extensions list"

record asset_claim_fees_operation =
  cl_fee :: asset
  cl_issuer :: account_id_type
  cl_amount_to_claim :: asset

definition bitasset_options_validate :: "bitasset_options \<Rightarrow> unit result" where
  "bitasset_options_validate b =
     fc_assert (bo_minimum_feeds b > 0)
     (fc_assert (uint (bo_force_settlement_offset_percent b) \<le> GRAPHENE_100_PERCENT)
     (fc_assert (uint (bo_maximum_force_settlement_volume b) \<le> GRAPHENE_100_PERCENT) (Inr ())))"

definition asset_options_validate :: "bool \<Rightarrow> asset_options \<Rightarrow> unit result" where
  "asset_options_validate check_core_exchange_rate p =
     fc_assert (opt_max_supply p > 0)
     (fc_assert (opt_max_supply p \<le> GRAPHENE_MAX_SHARE_SUPPLY)
     (fc_assert (uint (opt_market_fee_percent p) \<le> GRAPHENE_100_PERCENT)
     (fc_assert (opt_max_market_fee p \<ge> 0 \<and> opt_max_market_fee p \<le> GRAPHENE_MAX_SHARE_SUPPLY)
     (fc_assert (opt_issuer_permissions p AND NOT ASSET_ISSUER_PERMISSION_MASK = 0)
     (fc_assert (\<not> has_flag (opt_flags p) global_settle)
     (fc_assert (opt_flags p AND (witness_fed_asset OR committee_fed_asset) \<noteq> (witness_fed_asset OR committee_fed_asset))
     (rbind (if check_core_exchange_rate then price_validate (opt_core_exchange_rate p) else Inr ()) (\<lambda>_.
      fc_assert (opt_whitelist_authorities p \<noteq> [] \<or> opt_blacklist_authorities p \<noteq> [] \<longrightarrow> has_flag (opt_flags p) white_list)
      (fc_assert (list_all (\<lambda>i. i \<notin> set (opt_blacklist_markets p)) (opt_whitelist_markets p))
      (fc_assert (list_all (\<lambda>i. i \<notin> set (opt_whitelist_markets p)) (opt_blacklist_markets p)) (Inr ())))))))))))"

definition asset_create_validate :: "asset_create_operation \<Rightarrow> unit result" where
  "asset_create_validate op =
     fc_assert (amount (cr_fee op) \<ge> 0)
     (fc_assert (is_valid_symbol (cr_symbol op))
     (rbind (asset_options_validate True (cr_common_options op)) (\<lambda>_.
      fc_assert (has_flag (opt_issuer_permissions (cr_common_options op)) (disable_force_settle OR global_settle) \<longrightarrow>
        cr_bitasset_opts op \<noteq> None)
      (fc_assert (cr_is_prediction_market op \<longrightarrow> cr_bitasset_opts op \<noteq> None)
      (fc_assert (cr_is_prediction_market op \<longrightarrow> has_flag (opt_issuer_permissions (cr_common_options op)) global_settle)
      (rbind (case cr_bitasset_opts op of None \<Rightarrow> Inr () | Some b \<Rightarrow> bitasset_options_validate b) (\<lambda>_.
       fc_assert (cr_precision op \<le> 12) (Inr ()))))))))"

definition asset_update_validate :: "asset_update_operation \<Rightarrow> unit result" where
  "asset_update_validate op =
     fc_assert (amount (up_fee op) \<ge> 0)
     (fc_assert (case up_new_issuer op of None \<Rightarrow> True | Some i \<Rightarrow> up_issuer op \<noteq> i)
     (if up_asset_to_update op = 0 \<or> up_asset_to_update op = 1
      then asset_options_validate False (up_new_options op)
      else asset_options_validate True (up_new_options op)))"

definition asset_reserve_validate :: "asset_reserve_operation \<Rightarrow> unit result" where
  "asset_reserve_validate op =
     fc_assert (amount (rs_fee op) \<ge> 0)
     (fc_assert (amount (rs_amount_to_reserve op) \<le> GRAPHENE_MAX_SHARE_SUPPLY)
     (fc_assert (amount (rs_amount_to_reserve op) > 0) (Inr ())))"

definition asset_issue_validate :: "'memo asset_issue_operation \<Rightarrow> unit result" where
  "asset_issue_validate op =
     fc_assert (amount (is_fee op) \<ge> 0)
     (fc_assert (amount (is_asset_to_issue op) \<le> GRAPHENE_MAX_SHARE_SUPPLY)
     (fc_assert (amount (is_asset_to_issue op) > 0)
     (fc_assert (asset_id (is_asset_to_issue op) \<noteq> 0) (Inr ()))))"

definition asset_fund_fee_pool_validate :: "asset_fund_fee_pool_operation \<Rightarrow> unit result" where
  "asset_fund_fee_pool_validate op =
     fc_assert (amount (fd_fee op) \<ge> 0) (fc_assert (fd_amount op > 0) (Inr ()))"

definition asset_claim_fees_validate :: "asset_claim_fees_operation \<Rightarrow> unit result" where
  "asset_claim_fees_validate op =
     fc_assert (amount (cl_fee op) \<ge> 0) (fc_assert (amount (cl_amount_to_claim op) > 0) (Inr ()))"

definition asset_publish_feed_validate :: "asset \<Rightarrow> asset_id_type \<Rightarrow> price_feed \<Rightarrow> unit result" where
  "asset_publish_feed_validate fee k feed =
     fc_assert (amount fee \<ge> 0)
     (rbind (price_feed_validate feed) (\<lambda>_.
      rbind (if \<not> price_is_null (core_exchange_rate_feed feed) then price_validate (core_exchange_rate_feed feed) else Inr ()) (\<lambda>_.
      fc_assert (\<not> price_is_null (settlement_price feed) \<and> \<not> price_is_null (core_exchange_rate_feed feed) \<longrightarrow>
        asset_id (base (settlement_price feed)) = asset_id (base (core_exchange_rate_feed feed)))
      (fc_assert (\<not> price_is_null (settlement_price feed))
      (fc_assert (\<not> price_is_null (core_exchange_rate_feed feed))
      (fc_assert (price_feed_is_for feed k) (Inr ())))))))"

section \<open>Fees\<close>

definition asset_issue_calculate_fee :: "('memo option \<Rightarrow> int) \<Rightarrow> fee_parameters \<Rightarrow> 'memo asset_issue_operation \<Rightarrow> share_type result" where
  "asset_issue_calculate_fee pack_size k op =
     rbind (calculate_data_fee (pack_size (is_memo op)) (uint (fp_price_per_kbyte k))) (\<lambda>f. Inr (wrap64 (fp_fee k + f)))"

definition asset_create_calculate_fee ::
  "(asset_create_operation \<Rightarrow> int) \<Rightarrow> asset_create_fee_parameters \<Rightarrow> asset_create_operation \<Rightarrow> share_type result" where
  "asset_create_calculate_fee pack_size p op =
     (let core_fee_required = (if length (cr_symbol op) = 3 then symbol3 p
        else if length (cr_symbol op) = 4 then symbol4 p else long_symbol p)
      in rbind (calculate_data_fee (pack_size op) (uint (cr_price_per_kbyte p))) (\<lambda>f.
           Inr (wrap64 (core_fee_required + f))))"

definition asset_update_calculate_fee ::
  "(asset_update_operation \<Rightarrow> int) \<Rightarrow> fee_parameters \<Rightarrow> asset_update_operation \<Rightarrow> share_type result" where
  "asset_update_calculate_fee pack_size k op =
     rbind (calculate_data_fee (pack_size op) (uint (fp_price_per_kbyte k))) (\<lambda>f. Inr (wrap64 (fp_fee k + f)))"

section \<open>Evaluators\<close>

definition find_asset_by_symbol :: "database \<Rightarrow> string \<Rightarrow> (nat \<times> asset_object) option" where
  "find_asset_by_symbol db sm = List.find (\<lambda>(i, a). at_symbol a = sm) (rows (db_assets db))"

definition check_accounts :: "database \<Rightarrow> account_id_type list \<Rightarrow> unit result" where
  "check_accounts db ids = fold_result (\<lambda>i _. rbind (index_get (db_accounts db) i) (\<lambda>_. Inr ())) ids ()"

definition symbol_prefix :: "string \<Rightarrow> string option" where
  "symbol_prefix s = (if CHR ''.'' \<in> set s then Some (rev (tl (dropWhile (\<lambda>c. c \<noteq> CHR ''.'') (rev s)))) else None)"

definition rate_mentions :: "asset_id_type \<Rightarrow> price \<Rightarrow> bool" where
  "rate_mentions k p \<longleftrightarrow> asset_id (base p) = k \<or> asset_id (quote p) = k"

definition asset_create_do_evaluate :: "asset_create_operation \<Rightarrow> fee_state \<Rightarrow> database \<Rightarrow> fee_state result" where
  "asset_create_do_evaluate op fs db =
     (let opts = cr_common_options op; after = head_block_time db > HARDFORK_1008_TIME in
     fc_assert (length (opt_whitelist_authorities opts) \<le> cp_maximum_asset_whitelist_authorities (params db))
     (fc_assert (length (opt_blacklist_authorities opts) \<le> cp_maximum_asset_whitelist_authorities (params db))
     (rbind (check_accounts db (opt_whitelist_authorities opts)) (\<lambda>_.
      rbind (check_accounts db (opt_blacklist_authorities opts)) (\<lambda>_.
      fc_assert (after \<longrightarrow> GRAPHENE_SYMBOL_GXS \<noteq> cr_symbol op)
      (fc_assert (find_asset_by_symbol db (cr_symbol op) = None)
      (fc_assert (case symbol_prefix (cr_symbol op) of None \<Rightarrow> True
         | Some prefix \<Rightarrow> (case find_asset_by_symbol db prefix of None \<Rightarrow> False | Some (i, a) \<Rightarrow> at_issuer a = cr_issuer op))
      (fc_assert (rate_mentions (current_core_asset_id db) (opt_core_exchange_rate opts))
      (rbind (asset_times (mk_asset 1 (if after then 1 else 0)) (opt_core_exchange_rate opts)) (\<lambda>dummy.
       fc_assert (asset_id dummy = (if after then 2 else 1))
       (fc_assert (after \<longrightarrow> cr_bitasset_opts op = None) (Inr fs))))))))))))"

definition half :: "share_type \<Rightarrow> share_type" where
  "half x = (if 0 \<le> x then x div 2 else - (- x div 2))"

definition asset_create_pay_fee :: "safe_ops \<Rightarrow> transaction_evaluation_state \<Rightarrow> fee_state \<Rightarrow> database \<Rightarrow> database result" where
  "asset_create_pay_fee S T fs db =
     rbind (safe_sub S (fs_core_fee_paid fs) (half (fs_core_fee_paid fs))) (\<lambda>c. pay_fee S T (fs\<lparr>fs_core_fee_paid := c\<rparr>) db)"

definition set_own_asset :: "asset_id_type \<Rightarrow> asset_id_type \<Rightarrow> price \<Rightarrow> price" where
  "set_own_asset core k p =
     (if asset_id (base p) = core then p\<lparr>quote := (quote p)\<lparr>asset_id := k\<rparr>\<rparr>
      else p\<lparr>base := (base p)\<lparr>asset_id := k\<rparr>\<rparr>)"

definition asset_create_do_apply :: "safe_ops \<Rightarrow> asset_create_operation \<Rightarrow> fee_state \<Rightarrow> database \<Rightarrow> database result" where
  "asset_create_do_apply S op fs db =
     (let fee_is_odd = odd (fs_core_fee_paid fs);
          hf_1005 = (fee_is_odd \<and> head_block_time db > HARDFORK_1005_TIME) in
     rbind (safe_sub S (fs_core_fee_paid fs) (half (fs_core_fee_paid fs))) (\<lambda>core_fee_paid.
     rbind (safe_sub S core_fee_paid (if hf_1005 then 1 else 0)) (\<lambda>pool.
     rbind (create_dynamic_data \<lparr>dd_current_supply = 0, dd_confidential_supply = 0, dd_accumulated_fees = 0,
              dd_fee_pool = pool\<rparr> db) (\<lambda>(dyn, db1).
     rbind (if fee_is_odd \<and> \<not> hf_1005
            then rbind (index_get (db_assets db1) 0) (\<lambda>core.
                 modify_dynamic_data (at_dynamic_asset_data_id core)
                   (\<lambda>d. rbind (safe_add S (dd_current_supply d) 1) (\<lambda>v. Inr (d\<lparr>dd_current_supply := v\<rparr>))) db1)
            else Inr db1) (\<lambda>db2.
     let next_asset_id = next_id (db_assets db2); opts = cr_common_options op in
     rbind (create_asset \<lparr>at_symbol = cr_symbol op, at_precision = cr_precision op, at_issuer = cr_issuer op,
              at_options = opts\<lparr>opt_core_exchange_rate :=
                set_own_asset (current_core_asset_id db2) next_asset_id (opt_core_exchange_rate opts)\<rparr>,
              at_dynamic_asset_data_id = dyn, at_bitasset_data_id = None, at_buyback_account = None\<rparr> db2) (\<lambda>(new_id, db3).
     fc_assert (new_id = next_asset_id) (Inr db3)))))))"

definition asset_issue_do_evaluate :: "safe_ops \<Rightarrow> 'memo asset_issue_operation \<Rightarrow> fee_state \<Rightarrow> database \<Rightarrow> nat result" where
  "asset_issue_do_evaluate S op fs db =
     rbind (index_get (db_assets db) (asset_id (is_asset_to_issue op))) (\<lambda>a.
     fc_assert (is_issuer op = at_issuer a)
     (fc_assert (\<not> is_market_issued a)
     (rbind (index_get (db_accounts db) (is_issue_to_account op)) (\<lambda>to_account.
      fc_assert (is_authorized_asset db to_account (asset_id (is_asset_to_issue op)) a)
      (rbind (index_get (db_dynamic_data db) (at_dynamic_asset_data_id a)) (\<lambda>dyn.
       rbind (safe_add S (dd_current_supply dyn) (amount (is_asset_to_issue op))) (\<lambda>total_supply.
       fc_assert (total_supply \<le> opt_max_supply (at_options a)) (Inr (at_dynamic_asset_data_id a)))))))))"

definition asset_issue_do_apply :: "safe_ops \<Rightarrow> 'memo asset_issue_operation \<Rightarrow> nat \<Rightarrow> database \<Rightarrow> database result" where
  "asset_issue_do_apply S op asset_dyn_data db =
     rbind (adjust_balance S (is_issue_to_account op) (is_asset_to_issue op) db) (\<lambda>db1.
     modify_dynamic_data asset_dyn_data (\<lambda>d.
       rbind (safe_add S (dd_current_supply d) (amount (is_asset_to_issue op))) (\<lambda>v. Inr (d\<lparr>dd_current_supply := v\<rparr>))) db1)"

definition asset_reserve_do_evaluate :: "safe_ops \<Rightarrow> asset_reserve_operation \<Rightarrow> fee_state \<Rightarrow> database \<Rightarrow> nat result" where
  "asset_reserve_do_evaluate S op fs db =
     rbind (index_get (db_assets db) (asset_id (rs_amount_to_reserve op))) (\<lambda>a.
     ensure (\<not> is_market_issued a) Asset_reserve_invalid_on_mia
     (rbind (index_get (db_accounts db) (rs_payer op)) (\<lambda>from_account.
      fc_assert (is_authorized_asset db from_account (asset_id (rs_amount_to_reserve op)) a)
      (rbind (index_get (db_dynamic_data db) (at_dynamic_asset_data_id a)) (\<lambda>dyn.
       rbind (safe_sub S (dd_current_supply dyn) (amount (rs_amount_to_reserve op))) (\<lambda>rest.
       fc_assert (rest \<ge> 0) (Inr (at_dynamic_asset_data_id a))))))))"

definition asset_reserve_do_apply :: "safe_ops \<Rightarrow> asset_reserve_operation \<Rightarrow> nat \<Rightarrow> database \<Rightarrow> database result" where
  "asset_reserve_do_apply S op asset_dyn_data db =
     rbind (asset_neg S (rs_amount_to_reserve op)) (\<lambda>minus.
     rbind (adjust_balance S (rs_payer op) minus db) (\<lambda>db1.
     modify_dynamic_data asset_dyn_data (\<lambda>d.
       rbind (safe_sub S (dd_current_supply d) (amount (rs_amount_to_reserve op))) (\<lambda>v. Inr (d\<lparr>dd_current_supply := v\<rparr>))) db1))"

definition asset_fund_fee_pool_do_evaluate :: "asset_fund_fee_pool_operation \<Rightarrow> fee_state \<Rightarrow> database \<Rightarrow> nat result" where
  "asset_fund_fee_pool_do_evaluate op fs db =
     fc_assert (asset_id (fd_fee op) = (if head_block_time db > HARDFORK_1008_TIME then 1 else 0))
     (rbind (index_get (db_assets db) (fd_asset_id op)) (\<lambda>a.
      rbind (index_get (db_dynamic_data db) (at_dynamic_asset_data_id a)) (\<lambda>_. Inr (at_dynamic_asset_data_id a))))"

definition asset_fund_fee_pool_do_apply :: "safe_ops \<Rightarrow> asset_fund_fee_pool_operation \<Rightarrow> nat \<Rightarrow> database \<Rightarrow> database result" where
  "asset_fund_fee_pool_do_apply S op asset_dyn_data db =
     rbind (safe_neg S (fd_amount op)) (\<lambda>minus.
     rbind (adjust_balance S (fd_from_account op)
              (mk_asset minus (if head_block_time db > HARDFORK_1008_TIME then 1 else 0)) db) (\<lambda>db1.
     modify_dynamic_data asset_dyn_data (\<lambda>d.
       rbind (safe_add S (dd_fee_pool d) (fd_amount op)) (\<lambda>v. Inr (d\<lparr>dd_fee_pool := v\<rparr>))) db1))"

fun find_asset_symbol :: "future_extensions list \<Rightarrow> string option" where
  "find_asset_symbol (Ext_asset_symbol s # _) = Some s"
| "find_asset_symbol (_ # es) = find_asset_symbol es"
| "find_asset_symbol [] = None"

definition asset_update_do_evaluate :: "asset_update_operation \<Rightarrow> fee_state \<Rightarrow> database \<Rightarrow> string result" where
  "asset_update_do_evaluate op fs db =
     rbind (index_get (db_assets db) (up_asset_to_update op)) (\<lambda>a.
     let opts = up_new_options op; core = current_core_asset_id db; k = up_asset_to_update op in
     rbind (asset_object_validate (a\<lparr>at_options := opts\<rparr>)) (\<lambda>_.
     fc_assert (rate_mentions core (opt_core_exchange_rate opts))
     (fc_assert (case up_new_issuer op of None \<Rightarrow> True | Some i \<Rightarrow> index_find (db_accounts db) i \<noteq> None)
     (rbind (case find_asset_symbol (up_extensions op) of None \<Rightarrow> Inr []
             | Some sm \<Rightarrow> fc_assert (is_valid_symbol sm) (fc_assert (GRAPHENE_SYMBOL_GXS \<noteq> sm)
                 (fc_assert (find_asset_by_symbol db sm = None) (Inr sm)))) (\<lambda>new_symbol.
      rbind (index_get (db_dynamic_data db) (at_dynamic_asset_data_id a)) (\<lambda>dyn.
      fc_assert (head_block_time db < HARDFORK_572_TIME \<or> dd_current_supply dyn \<noteq> 0 \<longrightarrow>
        opt_issuer_permissions opts AND NOT (opt_issuer_permissions (at_options a)) = 0)
      (fc_assert ((opt_flags opts XOR opt_flags (at_options a)) AND NOT (opt_issuer_permissions (at_options a)) = 0)
      (fc_assert (if at_issuer a = 3 \<and> k = 0 then up_issuer op = 0 else up_issuer op = at_issuer a)
      (fc_assert (length (opt_whitelist_authorities opts) \<le> cp_maximum_asset_whitelist_authorities (params db))
      (rbind (check_accounts db (opt_whitelist_authorities opts)) (\<lambda>_.
       fc_assert (length (opt_blacklist_authorities opts) \<le> cp_maximum_asset_whitelist_authorities (params db))
       (rbind (check_accounts db (opt_blacklist_authorities opts)) (\<lambda>_.
        rbind (asset_times (mk_asset 1 k) (opt_core_exchange_rate opts)) (\<lambda>dummy.
        fc_assert (asset_id dummy = core) (Inr new_symbol)))))))))))))))"

definition clears_fee_pool :: "database \<Rightarrow> asset_id_type \<Rightarrow> asset_object \<Rightarrow> bool" where
  "clears_fee_pool db k a =
     (if head_block_time db > HARDFORK_1008_TIME then
        (if k = 0 then False else if k = 1 then True
         else asset_id (base (opt_core_exchange_rate (at_options a))) \<noteq> 1 \<and>
              asset_id (quote (opt_core_exchange_rate (at_options a))) \<noteq> 1)
      else False)"

definition update_asset :: "asset_update_operation \<Rightarrow> string \<Rightarrow> asset_object \<Rightarrow> asset_object" where
  "update_asset op new_symbol a =
     (let a1 = (case up_new_issuer op of None \<Rightarrow> a | Some i \<Rightarrow> a\<lparr>at_issuer := i\<rparr>);
          a2 = a1\<lparr>at_options := up_new_options op\<rparr>
      in if new_symbol \<noteq> [] then a2\<lparr>at_symbol := new_symbol\<rparr> else a2)"

definition asset_update_do_apply :: "asset_update_operation \<Rightarrow> string \<Rightarrow> database \<Rightarrow> database result" where
  "asset_update_do_apply op new_symbol db =
     rbind (index_get (db_assets db) (up_asset_to_update op)) (\<lambda>a.
     rbind (if clears_fee_pool db (up_asset_to_update op) a
            then modify_dynamic_data (at_dynamic_asset_data_id a) (\<lambda>d. Inr (d\<lparr>dd_fee_pool := 0\<rparr>)) db
            else Inr db) (\<lambda>db1.
     modify_asset (up_asset_to_update op) (\<lambda>a. Inr (update_asset op new_symbol a)) db1))"

definition disabled_do_evaluate :: "'op \<Rightarrow> fee_state \<Rightarrow> database \<Rightarrow> unit result" where
  "disabled_do_evaluate op fs db = (if head_block_time db > HARDFORK_1008_TIME then fc_assert False (Inr ()) else Inr ())"

definition disabled_do_apply :: "'op \<Rightarrow> unit \<Rightarrow> database \<Rightarrow> database result" where
  "disabled_do_apply op x db = Inr db"

definition asset_claim_fees_do_evaluate :: "asset_claim_fees_operation \<Rightarrow> fee_state \<Rightarrow> database \<Rightarrow> unit result" where
  "asset_claim_fees_do_evaluate op fs db =
     fc_assert (head_block_time db > HARDFORK_413_TIME)
     (rbind (index_get (db_assets db) (asset_id (cl_amount_to_claim op))) (\<lambda>a.
      fc_assert (at_issuer a = cl_issuer op) (Inr ())))"

definition asset_claim_fees_do_apply :: "safe_ops \<Rightarrow> asset_claim_fees_operation \<Rightarrow> unit \<Rightarrow> database \<Rightarrow> database result" where
  "asset_claim_fees_do_apply S op x db =
     rbind (index_get (db_assets db) (asset_id (cl_amount_to_claim op))) (\<lambda>a.
     rbind (index_get (db_dynamic_data db) (at_dynamic_asset_data_id a)) (\<lambda>addo.
     fc_assert (amount (cl_amount_to_claim op) \<le> dd_accumulated_fees addo)
     (rbind (modify_dynamic_data (at_dynamic_asset_data_id a) (\<lambda>d.
        rbind (safe_sub S (dd_accumulated_fees d) (amount (cl_amount_to_claim op))) (\<lambda>v. Inr (d\<lparr>dd_accumulated_fees := v\<rparr>))) db) (\<lambda>db1.
      adjust_balance S (cl_issuer op) (cl_amount_to_claim op) db1))))"

section \<open>Effects\<close>

text \<open>A change of one asset's dynamic data, in terms of what it does to the ledger.\<close>

lemma modify_dyn_effect:
  assumes m: "modify_dynamic_data i m db = Inr db'" and ok: "db_ok db" and k: "dyn_id db k0 = Some i"
    and step: "\<And>x y. m x = Inr y \<Longrightarrow> dyn_net y - dyn_net x = n \<and> dd_fee_pool y - dd_fee_pool x = p"
  shows "fee_frame db db'" and "db_ok db'" and "balances_ok db' = balances_ok db"
    and "surplus db' k = surplus db k + (if k = k0 then n else 0) + (if k = current_core_asset_id db then p else 0)"
proof -
  obtain x y where xy: "m x = Inr y" "db' = db\<lparr>db_dynamic_data := db_dynamic_data db'\<rparr>" "db_ok db'"
    "\<forall>k. surplus db' k = surplus db k + (if dyn_id db k = Some i then dyn_net y - dyn_net x else 0) +
      (if k = current_core_asset_id db then dd_fee_pool y - dd_fee_pool x else 0)"
    using m ok by (rule modify_dynamic_data_effect) (rule that)
  have only: "dyn_id db k = Some i \<longleftrightarrow> k = k0" for k
    using ok k by (auto simp: db_ok_def dyn_links_ok_def)
  show "fee_frame db db'" by (rule fee_frameI(1) [OF xy(2)])
  show "db_ok db'" by (rule xy(3))
  show "balances_ok db' = balances_ok db" by (subst xy(2)) (simp add: balances_ok_def)
  show "surplus db' k = surplus db k + (if k = k0 then n else 0) + (if k = current_core_asset_id db then p else 0)"
    using xy(4) step [OF xy(1)] by (simp add: only)
qed

lemma adjusted_dyn_id: "adjusted acct delta db db' \<Longrightarrow> dyn_id db' = dyn_id db"
  by (rule adjusted_fields)

lemma dyn_id_frame: "index_find (db_assets db0) k = Some a \<Longrightarrow> fee_frame db0 db \<Longrightarrow> dyn_id db k = Some (at_dynamic_asset_data_id a)"
  by (simp add: dyn_id_def fee_frame_fields)

context checked_int64
begin

text \<open>An adjustment of a balance and of the same asset's dynamic data, in either order.\<close>

lemma adjust_then_dyn:
  assumes a: "adjust_balance S acct delta db = Inr db1" and m: "modify_dynamic_data i m db1 = Inr db'"
    and ok: "db_ok db" "balances_ok db" and k: "dyn_id db k0 = Some i"
    and step: "\<And>x y. m x = Inr y \<Longrightarrow> dyn_net y - dyn_net x = n \<and> dd_fee_pool y - dd_fee_pool x = p"
  shows "db_ok db'" and "balances_ok db'" and "current_core_asset_id db' = current_core_asset_id db"
    and "bal db' = bal db1" and "adjusted acct delta db db1"
    and "surplus db' k = surplus db k + of_asset k delta + (if k = k0 then n else 0) +
      (if k = current_core_asset_id db then p else 0)"
proof -
  show a1: "adjusted acct delta db db1" by (rule adjust_balance_adjusted [OF a ok])
  then have ok1: "db_ok db1" "balances_ok db1" and s1: "\<forall>k. surplus db1 k = surplus db k + of_asset k delta"
    by (auto simp: adjusted_def)
  have core: "current_core_asset_id db1 = current_core_asset_id db" by (rule adjusted_fields(9) [OF a1])
  note d = modify_dyn_effect [OF m ok1(1) k [folded adjusted_dyn_id [OF a1]] step]
  show "db_ok db'" "balances_ok db'" using d(2,3) ok1 by auto
  show "current_core_asset_id db' = current_core_asset_id db" "bal db' = bal db1"
    using fee_frame_fields [OF d(1)] core by simp_all
  show "surplus db' k = surplus db k + of_asset k delta + (if k = k0 then n else 0) +
      (if k = current_core_asset_id db then p else 0)"
    using d(4) [of k] s1 by (simp add: core)
qed

lemma asset_issue_effect:
  assumes e: "asset_issue_do_evaluate S op fs db0 = Inr x" and a: "asset_issue_do_apply S op x db = Inr db'"
    and f: "fee_frame db0 db" and ok: "db_ok db" "balances_ok db"
  shows "conserves db db'"
    and "bal db' b k = bal db b k + (if b = is_issue_to_account op \<and> k = asset_id (is_asset_to_issue op)
      then amount (is_asset_to_issue op) else 0)"
proof -
  let ?k = "asset_id (is_asset_to_issue op)" and ?n = "amount (is_asset_to_issue op)"
  from e obtain o' where o: "index_find (db_assets db0) ?k = Some o'" "x = at_dynamic_asset_data_id o'"
    by (auto simp: asset_issue_do_evaluate_def index_get_Inr result_simps)
  from a obtain db1 where d1: "adjust_balance S (is_issue_to_account op) (is_asset_to_issue op) db = Inr db1"
    and d2: "modify_dynamic_data x (\<lambda>d. rbind (safe_add S (dd_current_supply d) ?n) (\<lambda>v. Inr (d\<lparr>dd_current_supply := v\<rparr>))) db1 = Inr db'"
    by (auto simp: asset_issue_do_apply_def rbind_Inr)
  note c = adjust_then_dyn [OF d1 d2 ok, where ?k0.0 = ?k and n = "- ?n" and p = 0]
  have step: "dyn_net y - dyn_net z = - ?n \<and> dd_fee_pool y - dd_fee_pool z = 0"
    if "rbind (safe_add S (dd_current_supply z) ?n) (\<lambda>v. Inr (z\<lparr>dd_current_supply := v\<rparr>)) = Inr y" for y z
    using that by (auto simp: dyn_net_def result_simps)
  note c = c [OF dyn_id_frame [OF o(1) f, folded o(2)] step]
  show "conserves db db'" using c by (auto simp: conserves_def of_asset_def fun_eq_iff)
  show "bal db' b k = bal db b k + (if b = is_issue_to_account op \<and> k = ?k then ?n else 0)"
    using c(4,5) by (simp add: adjusted_def)
qed

lemma asset_reserve_effect:
  assumes e: "asset_reserve_do_evaluate S op fs db0 = Inr x" and a: "asset_reserve_do_apply S op x db = Inr db'"
    and f: "fee_frame db0 db" and ok: "db_ok db" "balances_ok db"
  shows "conserves db db'"
    and "bal db' b k = bal db b k - (if b = rs_payer op \<and> k = asset_id (rs_amount_to_reserve op)
      then amount (rs_amount_to_reserve op) else 0)"
proof -
  let ?k = "asset_id (rs_amount_to_reserve op)" and ?n = "amount (rs_amount_to_reserve op)"
  from e obtain o' where o: "index_find (db_assets db0) ?k = Some o'" "x = at_dynamic_asset_data_id o'"
    by (auto simp: asset_reserve_do_evaluate_def index_get_Inr result_simps)
  from a obtain db1 where d1: "adjust_balance S (rs_payer op) (mk_asset (- ?n) ?k) db = Inr db1"
    and d2: "modify_dynamic_data x (\<lambda>d. rbind (safe_sub S (dd_current_supply d) ?n) (\<lambda>v. Inr (d\<lparr>dd_current_supply := v\<rparr>))) db1 = Inr db'"
    by (auto simp: asset_reserve_do_apply_def rbind_Inr asset_neg_Inr)
  have step: "dyn_net y - dyn_net z = ?n \<and> dd_fee_pool y - dd_fee_pool z = 0"
    if "rbind (safe_sub S (dd_current_supply z) ?n) (\<lambda>v. Inr (z\<lparr>dd_current_supply := v\<rparr>)) = Inr y" for y z
    using that by (auto simp: dyn_net_def result_simps)
  note c = adjust_then_dyn [OF d1 d2 ok dyn_id_frame [OF o(1) f, folded o(2)] step]
  show "conserves db db'" using c by (auto simp: conserves_def fun_eq_iff)
  show "bal db' b k = bal db b k - (if b = rs_payer op \<and> k = ?k then ?n else 0)"
    using c(4,5) by (simp add: adjusted_def)
qed

lemma asset_fund_fee_pool_effect:
  assumes e: "asset_fund_fee_pool_do_evaluate op fs db0 = Inr x" and a: "asset_fund_fee_pool_do_apply S op x db = Inr db'"
    and f: "fee_frame db0 db" and ok: "db_ok db" "balances_ok db"
  shows "conserves db db'"
    and "bal db' b k = bal db b k - (if b = fd_from_account op \<and> k = current_core_asset_id db then fd_amount op else 0)"
proof -
  let ?n = "fd_amount op" and ?core = "current_core_asset_id db"
  from e obtain o' where o: "index_find (db_assets db0) (fd_asset_id op) = Some o'" "x = at_dynamic_asset_data_id o'"
    by (auto simp: asset_fund_fee_pool_do_evaluate_def index_get_Inr result_simps)
  from a obtain db1 where d1: "adjust_balance S (fd_from_account op) (mk_asset (- ?n) ?core) db = Inr db1"
    and d2: "modify_dynamic_data x (\<lambda>d. rbind (safe_add S (dd_fee_pool d) ?n) (\<lambda>v. Inr (d\<lparr>dd_fee_pool := v\<rparr>))) db1 = Inr db'"
    unfolding current_core_asset_id_def by (auto simp: asset_fund_fee_pool_do_apply_def rbind_Inr safe_neg_Inr simp del: if_split)
  have step: "dyn_net y - dyn_net z = 0 \<and> dd_fee_pool y - dd_fee_pool z = ?n"
    if "rbind (safe_add S (dd_fee_pool z) ?n) (\<lambda>v. Inr (z\<lparr>dd_fee_pool := v\<rparr>)) = Inr y" for y z
    using that by (auto simp: dyn_net_def result_simps)
  note c = adjust_then_dyn [OF d1 d2 ok dyn_id_frame [OF o(1) f, folded o(2)] step]
  show "conserves db db'" using c by (auto simp: conserves_def fun_eq_iff)
  show "bal db' b k = bal db b k - (if b = fd_from_account op \<and> k = ?core then ?n else 0)"
    using c(4,5) by (simp add: adjusted_def)
qed

lemma asset_claim_fees_effect:
  assumes a: "asset_claim_fees_do_apply S op x db = Inr db'" and ok: "db_ok db" "balances_ok db"
  shows "conserves db db'"
    and "bal db' b k = bal db b k + (if b = cl_issuer op \<and> k = asset_id (cl_amount_to_claim op)
      then amount (cl_amount_to_claim op) else 0)"
proof -
  let ?k = "asset_id (cl_amount_to_claim op)" and ?n = "amount (cl_amount_to_claim op)"
  from a obtain o' db1 where o: "index_find (db_assets db) ?k = Some o'"
    and d1: "modify_dynamic_data (at_dynamic_asset_data_id o') (\<lambda>d. rbind (safe_sub S (dd_accumulated_fees d) ?n)
      (\<lambda>v. Inr (d\<lparr>dd_accumulated_fees := v\<rparr>))) db = Inr db1"
    and d2: "adjust_balance S (cl_issuer op) (cl_amount_to_claim op) db1 = Inr db'"
    by (auto simp: asset_claim_fees_do_apply_def rbind_Inr index_get_Inr ensure_Inr)
  have step: "dyn_net y - dyn_net z = - ?n \<and> dd_fee_pool y - dd_fee_pool z = 0"
    if "rbind (safe_sub S (dd_accumulated_fees z) ?n) (\<lambda>v. Inr (z\<lparr>dd_accumulated_fees := v\<rparr>)) = Inr y" for y z
    using that by (auto simp: dyn_net_def result_simps)
  have k: "dyn_id db ?k = Some (at_dynamic_asset_data_id o')" using o by (simp add: dyn_id_def)
  note d = modify_dyn_effect [OF d1 ok(1) k step]
  have a2: "adjusted (cl_issuer op) (cl_amount_to_claim op) db1 db'"
    by (rule adjust_balance_adjusted [OF d2 d(2) iffD2 [OF d(3) ok(2)]])
  show "conserves db db'"
    using a2 d(4) fee_frame_fields(11) [OF d(1)] adjusted_fields(9) [OF a2]
    by (auto simp: adjusted_def conserves_def of_asset_def fun_eq_iff)
  show "bal db' b k = bal db b k + (if b = cl_issuer op \<and> k = ?k then ?n else 0)"
    using a2 fee_frame_fields(13) [OF d(1)] by (simp add: adjusted_def)
qed

lemma asset_create_effect:
  assumes a: "asset_create_do_apply S op fs db = Inr db'" and ok: "db_ok db" "balances_ok db"
    and nonneg: "0 \<le> fs_core_fee_paid fs"
  shows "credits (half (fs_core_fee_paid fs)) db db'" and "bal db' = bal db"
    and "\<exists>i a d. index_find (db_assets db) i = None \<and> index_find (db_assets db') = (index_find (db_assets db))(i \<mapsto> a) \<and>
      at_symbol a = cr_symbol op \<and> at_issuer a = cr_issuer op \<and>
      index_find (db_dynamic_data db') (at_dynamic_asset_data_id a) = Some d \<and> dd_current_supply d = 0 \<and>
      dd_fee_pool d = half (fs_core_fee_paid fs) + (if odd (fs_core_fee_paid fs) \<and> head_block_time db \<le> HARDFORK_1005_TIME then 1 else 0)"
proof -
  let ?f = "fs_core_fee_paid fs" and ?hf = "odd (fs_core_fee_paid fs) \<and> HARDFORK_1005_TIME < head_block_time db"
  let ?d = "\<lparr>dd_current_supply = 0, dd_confidential_supply = 0, dd_accumulated_fees = 0,
      dd_fee_pool = ?f - half ?f - (if ?hf then 1 else 0)\<rparr> :: asset_dynamic_data_object"
  let ?bump = "\<lambda>d. rbind (safe_add S (dd_current_supply d) 1) (\<lambda>v. Inr (d\<lparr>dd_current_supply := v\<rparr>))"
  from a obtain dyn db1 db2 new_id and x :: asset_object where d1: "create_dynamic_data ?d db = Inr (dyn, db1)"
    and d2: "(if odd ?f \<and> (odd ?f \<longrightarrow> \<not> HARDFORK_1005_TIME < head_block_time db) then rbind (index_get (db_assets db1) 0)
        (\<lambda>core. modify_dynamic_data (at_dynamic_asset_data_id core) ?bump db1) else Inr db1) = Inr db2"
    and d3: "create_asset x db2 = Inr (new_id, db')" and x: "at_dynamic_asset_data_id x = dyn"
      "at_symbol x = cr_symbol op" "at_issuer x = cr_issuer op"
    by (auto simp: asset_create_do_apply_def Let_def rbind_Inr safe_sub_Inr ensure_Inr simp del: if_split)
  note c1 = create_dynamic_data_effect [OF d1 ok(1)]
  have frame1: "fee_frame db db1" by (rule fee_frameI(1) [OF c1(1)])
  have dyn1: "dyn_id db1 = dyn_id db" by (rule fee_frame_fields(12) [OF frame1])
  have pool: "dd_fee_pool ?d - (if odd ?f \<and> (odd ?f \<longrightarrow> \<not> HARDFORK_1005_TIME < head_block_time db) then 1 else 0) = half ?f"
    using nonneg by (auto simp: half_def) presburger+
  have bump: "dyn_net y - dyn_net z = - 1 \<and> dd_fee_pool y - dd_fee_pool z = 0" if "?bump z = Inr y" for y z
    using that by (auto simp: dyn_net_def result_simps)
  have zero: "current_core_asset_id db = 0" if "odd ?f \<and> (odd ?f \<longrightarrow> \<not> HARDFORK_1005_TIME < head_block_time db)"
    using that by (auto simp: current_core_asset_id_def HARDFORK_1005_TIME_def HARDFORK_1008_TIME_def)
  have c2: "fee_frame db1 db2 \<and> db_ok db2 \<and> index_find (db_dynamic_data db2) dyn = Some ?d \<and>
      (\<forall>k. surplus db2 k = surplus db1 k - (if odd ?f \<and> (odd ?f \<longrightarrow> \<not> HARDFORK_1005_TIME < head_block_time db) \<and> k = 0 then 1 else 0))"
  proof (cases "odd ?f \<and> (odd ?f \<longrightarrow> \<not> HARDFORK_1005_TIME < head_block_time db)")
    case False
    with d2 c1 show ?thesis by (auto simp: fee_frame_def)
  next
    case True
    with d2 obtain core where core: "index_find (db_assets db1) 0 = Some core"
      and m: "modify_dynamic_data (at_dynamic_asset_data_id core) ?bump db1 = Inr db2"
      by (auto simp: rbind_Inr index_get_Inr)
    have k: "dyn_id db1 0 = Some (at_dynamic_asset_data_id core)" using core by (simp add: dyn_id_def)
    note d = modify_dyn_effect [OF m c1(2) k bump]
    have "at_dynamic_asset_data_id core \<noteq> dyn" using c1(5) [of 0] k dyn1 by auto
    moreover obtain y where "index_find (db_dynamic_data db2) = (index_find (db_dynamic_data db1))(at_dynamic_asset_data_id core \<mapsto> y)"
      using m c1(2) by (rule modify_dynamic_data_effect) (rule that)
    ultimately have "index_find (db_dynamic_data db2) dyn = Some ?d" by (simp add: c1(4))
    with True d show ?thesis by auto
  qed
  then have frame2: "fee_frame db db2" and ok2: "db_ok db2" using fee_frame_trans [OF frame1] by blast+
  have c3: "db' = db2\<lparr>db_assets := db_assets db'\<rparr>" "db_ok db'" "surplus db' = surplus db2"
    "index_find (db_assets db2) new_id = None" "index_find (db_assets db') = (index_find (db_assets db2))(new_id \<mapsto> x)"
    using create_asset_effect [OF d3 ok2, of ?d] c2 x c1(5) fee_frame_fields(12) [OF frame2]
    by (auto simp: dyn_net_def)
  have "current_core_asset_id db' = current_core_asset_id db2" "balances_ok db' = balances_ok db2"
    by (subst c3(1), simp add: balances_ok_def)+
  moreover have "surplus db2 k = surplus db k + (if k = current_core_asset_id db then half ?f else 0)" for k
    using c2 c1(6) [of k] pool zero by (cases "odd ?f") auto
  ultimately show "credits (half ?f) db db'"
    using c3 ok(2) fee_frame_fields [OF frame2] by (auto simp: credits_def balances_ok_def)
  show "bal db' = bal db" using fee_frame_fields(13) [OF frame2] by (subst c3(1)) (simp add: bal_simps)
  have "db_dynamic_data db' = db_dynamic_data db2" by (subst c3(1)) simp
  moreover have "dd_fee_pool ?d = half ?f + (if odd ?f \<and> head_block_time db \<le> HARDFORK_1005_TIME then 1 else 0)"
    using pool by (auto simp: not_less)
  ultimately show "\<exists>i a d. index_find (db_assets db) i = None \<and> index_find (db_assets db') = (index_find (db_assets db))(i \<mapsto> a) \<and>
      at_symbol a = cr_symbol op \<and> at_issuer a = cr_issuer op \<and>
      index_find (db_dynamic_data db') (at_dynamic_asset_data_id a) = Some d \<and> dd_current_supply d = 0 \<and>
      dd_fee_pool d = half ?f + (if odd ?f \<and> head_block_time db \<le> HARDFORK_1005_TIME then 1 else 0)"
    using c2 c3(4,5) x fee_frame_fields(2) [OF frame2] by (intro exI [of _ new_id] exI [of _ x] exI [of _ ?d]) simp
qed

lemma clear_fee_pool_effect:
  assumes c: "(if b then modify_dynamic_data i (\<lambda>d. Inr (d\<lparr>dd_fee_pool := 0\<rparr>)) db else Inr db) = Inr db1"
    and ok: "db_ok db" "balances_ok db" and d: "index_find (db_dynamic_data db) i = Some d"
  shows "fee_frame db db1 \<and> db_ok db1 \<and> balances_ok db1 \<and>
    (\<forall>k. surplus db1 k = surplus db k - (if k = current_core_asset_id db \<and> b then dd_fee_pool d else 0))"
proof (cases b)
  case True
  with c have m: "modify_dynamic_data i (\<lambda>d. Inr (d\<lparr>dd_fee_pool := 0\<rparr>)) db = Inr db1" by simp
  obtain x y where xy: "index_find (db_dynamic_data db) i = Some x"
    "Inr (x\<lparr>dd_fee_pool := 0\<rparr>) = (Inr y :: asset_dynamic_data_object result)"
    "db1 = db\<lparr>db_dynamic_data := db_dynamic_data db1\<rparr>" "db_ok db1"
    "\<forall>k. surplus db1 k = surplus db k + (if dyn_id db k = Some i then dyn_net y - dyn_net x else 0) +
      (if k = current_core_asset_id db then dd_fee_pool y - dd_fee_pool x else 0)"
    using m ok(1) by (rule modify_dynamic_data_effect) (rule that)
  have "balances_ok db1" using ok(2) by (subst xy(3)) (simp add: balances_ok_def)
  with fee_frameI(1) [OF xy(3)] xy(1,2,4,5) d True show ?thesis by (auto simp: dyn_net_def)
qed (use c ok in \<open>auto simp: fee_frame_def\<close>)

lemma asset_update_effect:
  assumes a: "asset_update_do_apply op new_symbol db = Inr db'" and ok: "db_ok db" "balances_ok db"
    and o: "index_find (db_assets db) (up_asset_to_update op) = Some a"
    and d: "index_find (db_dynamic_data db) (at_dynamic_asset_data_id a) = Some d"
  shows "db_ok db'" "balances_ok db'" "bal db' = bal db" "current_core_asset_id db' = current_core_asset_id db"
    and "index_find (db_assets db') = (index_find (db_assets db))(up_asset_to_update op \<mapsto> update_asset op new_symbol a)"
    and "surplus db' k = surplus db k -
      (if k = current_core_asset_id db \<and> clears_fee_pool db (up_asset_to_update op) a then dd_fee_pool d else 0)"
proof -
  let ?k = "up_asset_to_update op"
  from a o obtain db1 where d1: "(if clears_fee_pool db ?k a
      then modify_dynamic_data (at_dynamic_asset_data_id a) (\<lambda>d. Inr (d\<lparr>dd_fee_pool := 0\<rparr>)) db else Inr db) = Inr db1"
    and d2: "modify_asset ?k (\<lambda>a. Inr (update_asset op new_symbol a)) db1 = Inr db'"
    by (auto simp: asset_update_do_apply_def rbind_Inr index_get_def simp del: if_split)
  note c1 = clear_fee_pool_effect [OF d1 ok d]
  have keep: "at_dynamic_asset_data_id y = at_dynamic_asset_data_id x"
    if "Inr (update_asset op new_symbol x) = (Inr y :: asset_object result)" for x y
    using that by (auto simp: update_asset_def Let_def split: option.splits if_splits)
  obtain x y where xy: "index_find (db_assets db1) ?k = Some x" "Inr (update_asset op new_symbol x) = (Inr y :: asset_object result)"
    "index_find (db_assets db') = (index_find (db_assets db1))(?k \<mapsto> y)"
    "db' = db1\<lparr>db_assets := db_assets db'\<rparr>" "db_ok db'" "surplus db' = surplus db1"
    using d2 conjunct1 [OF conjunct2 [OF c1]] keep by (rule modify_asset_effect) (assumption, rule that)
  note f = fee_frame_fields [OF conjunct1 [OF c1]]
  show "db_ok db'" by (rule xy(5))
  show "balances_ok db'" using c1 by (subst xy(4)) (simp add: balances_ok_def)
  show "bal db' = bal db" "current_core_asset_id db' = current_core_asset_id db"
    using f by (subst xy(4), simp add: bal_simps)+
  show "index_find (db_assets db') = (index_find (db_assets db))(?k \<mapsto> update_asset op new_symbol a)"
    using xy(1-3) o by (simp add: f(2))
  show "surplus db' k = surplus db k - (if k = current_core_asset_id db \<and> clears_fee_pool db ?k a then dd_fee_pool d else 0)"
    using c1 xy(6) by simp
qed

end

section \<open>The evaluators run\<close>

definition asset_create_evaluator :: "safe_ops \<Rightarrow> transaction_evaluation_state \<Rightarrow> share_type result \<Rightarrow>
    asset_create_operation \<Rightarrow> database \<Rightarrow> database result" where
  "asset_create_evaluator S T required op =
     start_evaluate S T required (asset_create_pay_fee S T) (cr_issuer op) (cr_fee op)
       (asset_create_do_evaluate op) (asset_create_do_apply S op)"

definition asset_issue_evaluator :: "safe_ops \<Rightarrow> transaction_evaluation_state \<Rightarrow> share_type result \<Rightarrow>
    'memo asset_issue_operation \<Rightarrow> database \<Rightarrow> database result" where
  "asset_issue_evaluator S T required op =
     start_evaluate S T required (pay_fee S T) (is_issuer op) (is_fee op)
       (asset_issue_do_evaluate S op) (asset_issue_do_apply S op)"

definition asset_reserve_evaluator :: "safe_ops \<Rightarrow> transaction_evaluation_state \<Rightarrow> share_type result \<Rightarrow>
    asset_reserve_operation \<Rightarrow> database \<Rightarrow> database result" where
  "asset_reserve_evaluator S T required op =
     start_evaluate S T required (pay_fee S T) (rs_payer op) (rs_fee op)
       (asset_reserve_do_evaluate S op) (asset_reserve_do_apply S op)"

definition asset_fund_fee_pool_evaluator :: "safe_ops \<Rightarrow> transaction_evaluation_state \<Rightarrow> share_type result \<Rightarrow>
    asset_fund_fee_pool_operation \<Rightarrow> database \<Rightarrow> database result" where
  "asset_fund_fee_pool_evaluator S T required op =
     start_evaluate S T required (pay_fee S T) (fd_from_account op) (fd_fee op)
       (asset_fund_fee_pool_do_evaluate op) (asset_fund_fee_pool_do_apply S op)"

definition asset_update_evaluator :: "safe_ops \<Rightarrow> transaction_evaluation_state \<Rightarrow> share_type result \<Rightarrow>
    asset_update_operation \<Rightarrow> database \<Rightarrow> database result" where
  "asset_update_evaluator S T required op =
     start_evaluate S T required (pay_fee S T) (up_issuer op) (up_fee op)
       (asset_update_do_evaluate op) (asset_update_do_apply op)"

definition asset_claim_fees_evaluator :: "safe_ops \<Rightarrow> transaction_evaluation_state \<Rightarrow> share_type result \<Rightarrow>
    asset_claim_fees_operation \<Rightarrow> database \<Rightarrow> database result" where
  "asset_claim_fees_evaluator S T required op =
     start_evaluate S T required (pay_fee S T) (cl_issuer op) (cl_fee op)
       (asset_claim_fees_do_evaluate op) (asset_claim_fees_do_apply S op)"

sublocale charging < issue: moving_evaluator S "pay_fee S T" fs_core_fee_paid "asset_issue_do_evaluate S op"
    "asset_issue_do_apply S op"
    "\<lambda>a k. if a = is_issue_to_account op \<and> k = asset_id (is_asset_to_issue op) then amount (is_asset_to_issue op) else 0" for op
  by unfold_locales (auto simp: credits_zero asset_issue_effect)

sublocale charging < reserve: moving_evaluator S "pay_fee S T" fs_core_fee_paid "asset_reserve_do_evaluate S op"
    "asset_reserve_do_apply S op"
    "\<lambda>a k. - (if a = rs_payer op \<and> k = asset_id (rs_amount_to_reserve op) then amount (rs_amount_to_reserve op) else 0)" for op
  by unfold_locales (auto simp: credits_zero asset_reserve_effect)

sublocale charging < fund: conserving_evaluator S "pay_fee S T" fs_core_fee_paid "asset_fund_fee_pool_do_evaluate op"
    "asset_fund_fee_pool_do_apply S op" for op
  by unfold_locales (auto simp: credits_zero asset_fund_fee_pool_effect)

sublocale charging < claim: moving_evaluator S "pay_fee S T" fs_core_fee_paid "asset_claim_fees_do_evaluate op"
    "asset_claim_fees_do_apply S op"
    "\<lambda>a k. if a = cl_issuer op \<and> k = asset_id (cl_amount_to_claim op) then amount (cl_amount_to_claim op) else 0" for op
  by unfold_locales (auto simp: credits_zero asset_claim_fees_effect)

context charging
begin

lemma asset_create_pay_credits:
  assumes "asset_create_pay_fee S T fs db = Inr db'" "db_ok db" "balances_ok db"
  shows "credits (fs_core_fee_paid fs - half (fs_core_fee_paid fs)) db db'" and "fee_frame db db'"
    and "supplies db' = supplies db"
  using assms default_pay.pay_credits default_pay.pay_frame default_pay.pay_supplies
  by (fastforce simp: asset_create_pay_fee_def rbind_Inr safe_sub_Inr)+

end

sublocale charging < creation: conserving_evaluator S "asset_create_pay_fee S T"
    "\<lambda>fs. fs_core_fee_paid fs - half (fs_core_fee_paid fs)" "asset_create_do_evaluate op" "asset_create_do_apply S op" for op
proof unfold_locales
  fix fs db0 x db db'
  assume "asset_create_do_evaluate op fs db0 = Inr x"
  then have "x = fs" by (auto simp: asset_create_do_evaluate_def Let_def result_simps)
  then show "asset_create_do_apply S op x db = Inr db' \<Longrightarrow> fee_frame db0 db \<Longrightarrow> db_ok db \<Longrightarrow> balances_ok db \<Longrightarrow>
      0 \<le> fs_core_fee_paid fs \<Longrightarrow> credits (fs_core_fee_paid fs - (fs_core_fee_paid fs - half (fs_core_fee_paid fs))) db db'"
    using asset_create_effect(1) [of op fs db db'] by simp
qed (auto simp: asset_create_pay_credits)

context charging
begin

lemma asset_issue_supply:
  assumes run: "asset_issue_evaluator S T required op db = Inr db'" and ok: "db_ok db" "balances_ok db"
  shows "\<exists>a d. index_find (db_assets db) (asset_id (is_asset_to_issue op)) = Some a \<and> at_issuer a = is_issuer op \<and>
    index_find (db_dynamic_data db') (at_dynamic_asset_data_id a) = Some d \<and>
    supplies db (at_dynamic_asset_data_id a) = Some (dd_current_supply d - amount (is_asset_to_issue op)) \<and>
    dd_current_supply d \<le> opt_max_supply (at_options a)"
proof -
  let ?n = "amount (is_asset_to_issue op)"
  obtain fs x db2 db3 where e: "asset_issue_do_evaluate S op fs db = Inr x" and ap: "asset_issue_do_apply S op x db2 = Inr db3"
    and ok2: "db_ok db2" "balances_ok db2" and f: "fee_frame db db2" and sup: "supplies db2 = supplies db"
    and nonneg: "0 \<le> fs_core_fee_paid fs"
    and adj: "adjust_balance S (is_issuer op) (mk_asset (- amount (is_fee op)) (asset_id (is_fee op))) db3 = Inr db'"
    using run [unfolded asset_issue_evaluator_def] ok fees_charged by (rule default_pay.start_evaluate_steps) (rule that)
  from e obtain a d where a: "index_find (db_assets db) (asset_id (is_asset_to_issue op)) = Some a" "at_issuer a = is_issuer op"
    "x = at_dynamic_asset_data_id a" "index_find (db_dynamic_data db) x = Some d" "dd_current_supply d + ?n \<le> opt_max_supply (at_options a)"
    by (auto simp: asset_issue_do_evaluate_def result_simps)
  from ap obtain db1 where d1: "adjust_balance S (is_issue_to_account op) (is_asset_to_issue op) db2 = Inr db1"
    and d2: "modify_dynamic_data x (\<lambda>d. rbind (safe_add S (dd_current_supply d) ?n) (\<lambda>v. Inr (d\<lparr>dd_current_supply := v\<rparr>))) db1 = Inr db3"
    by (auto simp: asset_issue_do_apply_def rbind_Inr)
  have a1: "adjusted (is_issue_to_account op) (is_asset_to_issue op) db2 db1" by (rule adjust_balance_adjusted [OF d1 ok2])
  then have "db_ok db1" by (simp add: adjusted_def)
  with d2 obtain y z where yz: "index_find (db_dynamic_data db1) x = Some y"
    "rbind (safe_add S (dd_current_supply y) ?n) (\<lambda>v. Inr (y\<lparr>dd_current_supply := v\<rparr>)) = Inr z"
    "index_find (db_dynamic_data db3) = (index_find (db_dynamic_data db1))(x \<mapsto> z)"
    by (rule modify_dynamic_data_effect) (rule that)
  have "db_ok db3" "balances_ok db3"
    using asset_issue_effect(1) [OF e ap f ok2] by (auto simp: conserves_def)
  then have same: "db_dynamic_data db' = db_dynamic_data db3" using adjusted_fields(3) [OF adjust_balance_adjusted [OF adj]] by simp
  have y: "index_find (db_dynamic_data db2) x = Some y" using yz(1) adjusted_fields(3) [OF a1] by simp
  from fun_cong [OF sup, of x] have "dd_current_supply y = dd_current_supply d" by (simp add: supplies_def a(4) y)
  with yz(2) a show ?thesis
    by (intro exI [of _ a] exI [of _ z]) (auto simp: same yz(3) supplies_def result_simps)
qed

lemma asset_issue_moves:
  assumes run: "asset_issue_evaluator S T required op db = Inr db'" and ok: "db_ok db" "balances_ok db"
  shows "conserves db db'" and "bal db' b k = bal db b k +
      (if b = is_issue_to_account op \<and> k = asset_id (is_asset_to_issue op) then amount (is_asset_to_issue op) else 0) -
      (if b = is_issuer op \<and> k = asset_id (is_fee op) then amount (is_fee op) else 0)"
  using issue.start_evaluate_conserves [OF run [unfolded asset_issue_evaluator_def] ok fees_charged]
    issue.start_evaluate_moves [OF run [unfolded asset_issue_evaluator_def] ok fees_charged, of b k] by simp_all

lemma asset_create_conserves:
  assumes "asset_create_evaluator S T required op db = Inr db'" "db_ok db" "balances_ok db"
  shows "conserves db db'"
  by (rule creation.start_evaluate_conserves [OF assms(1) [unfolded asset_create_evaluator_def] assms(2,3) fees_charged])

lemma asset_ops_conserve:
  assumes "asset_reserve_evaluator S T required ra db = Inr db' \<or> asset_fund_fee_pool_evaluator S T required fa db = Inr db' \<or>
      asset_claim_fees_evaluator S T required ca db = Inr db'"
    and "db_ok db" "balances_ok db"
  shows "conserves db db'"
  using assms(1) reserve.start_evaluate_conserves [OF _ assms(2,3) fees_charged]
    fund.start_evaluate_conserves [OF _ assms(2,3) fees_charged] claim.start_evaluate_conserves [OF _ assms(2,3) fees_charged]
  unfolding asset_reserve_evaluator_def asset_fund_fee_pool_evaluator_def asset_claim_fees_evaluator_def by blast

lemma asset_update_ledger:
  assumes run: "asset_update_evaluator S T required op db = Inr db'" and ok: "db_ok db" "balances_ok db"
    and o: "index_find (db_assets db) (up_asset_to_update op) = Some a"
    and d: "index_find (db_dynamic_data db) (at_dynamic_asset_data_id a) = Some d"
    and core: "asset_id (up_fee op) = current_core_asset_id db"
  shows "surplus db' k = surplus db k -
      (if k = current_core_asset_id db \<and> clears_fee_pool db (up_asset_to_update op) a then dd_fee_pool d else 0)"
proof -
  from run obtain fs x db1 db3 where p: "prepare_fee (up_issuer op) (up_fee op) db = Inr fs"
    and pay: "pay_fee S T fs db = Inr db1" and a: "asset_update_do_apply op x db1 = Inr db3"
    and adj: "adjust_balance S (up_issuer op) (mk_asset (- amount (fs_fee_from_account fs)) (asset_id (fs_fee_from_account fs))) db3 = Inr db'"
    using prepare_fee_Inr core
    by (fastforce simp: asset_update_evaluator_def start_evaluate_def evaluate_op_def apply_op_def convert_fee_def rbind_Inr asset_neg_Inr
        split: if_splits)
  have fee: "fs_fee_from_account fs = up_fee op" "fs_core_fee_paid fs = amount (up_fee op)"
    using prepare_fee_Inr [OF p] core by auto
  note c1 = pay_fee_credits [OF pay ok fees_charged]
  then have ok1: "db_ok db1" "balances_ok db1" by (auto simp: credits_def)
  have dd: "db_dynamic_data db1 = db_dynamic_data db"
    using pay fees_charged by (auto simp: pay_fee_def modify_statistics_def rbind_Inr)
  note f = fee_frame_fields [OF c1(2)]
  have clears: "clears_fee_pool db1 = clears_fee_pool db" by (simp add: clears_fee_pool_def fun_eq_iff f)
  note u = asset_update_effect [OF a ok1 o [folded f(2)] d [folded dd]]
  note adj' = adjust_balance_adjusted [OF adj u(1,2)]
  show ?thesis
    using u(6) [of k] c1(1) adj' core fee by (auto simp: adjusted_def credits_def f clears of_asset_def)
qed

end

section \<open>A small state for the witnesses\<close>

lemma issuer_db_balances_ok: "balances_ok issuer_db"
  by (auto simp: balances_ok_def issuer_db_def index_find_def)

definition sample_issue :: "share_type \<Rightarrow> unit asset_issue_operation" where
  "sample_issue n = \<lparr>is_fee = mk_asset 101 1, is_issuer = 9, is_asset_to_issue = mk_asset n 2, is_issue_to_account = 9, is_memo = None\<rparr>"

definition sample_create :: asset_create_operation where
  "sample_create = \<lparr>cr_fee = mk_asset 1001 1, cr_issuer = 9, cr_symbol = ''NEW'', cr_precision = 5,
     cr_common_options = sample_options\<lparr>opt_core_exchange_rate := mk_price (mk_asset 1 1) (mk_asset 1 2)\<rparr>,
     cr_bitasset_opts = None, cr_is_prediction_market = False\<rparr>"

definition sample_update :: "asset_id_type \<Rightarrow> share_type \<Rightarrow> asset_update_operation" where
  "sample_update k n = \<lparr>up_fee = mk_asset 100 1, up_issuer = 9, up_asset_to_update = k, up_new_issuer = None,
     up_new_options = sample_options\<lparr>opt_max_supply := n, opt_core_exchange_rate := mk_price (mk_asset 1 k) (mk_asset 1 1)\<rparr>, up_extensions = []\<rparr>"

section \<open>Properties of asset operations\<close>

text \<open>Creating an asset splits its fee: one half stays with the fee counters and the other becomes the new
  asset's fee pool (the odd unit went to the core supply before hard fork 1005), no other asset's ledger
  changes, and the asset enters the index under its symbol with no supply.
\<close>

theorem asset_create_splits_fee:
  assumes "charging S T" and "db_ok db" "balances_ok db" and "0 \<le> fs_core_fee_paid fs"
  shows "(asset_create_evaluator S T required op db = Inr db' \<longrightarrow> conserves db db') \<and>
    (asset_create_do_apply S op fs db = Inr db' \<longrightarrow>
      (\<exists>i a d. index_find (db_assets db) i = None \<and> index_find (db_assets db') = (index_find (db_assets db))(i \<mapsto> a) \<and>
        at_symbol a = cr_symbol op \<and> at_issuer a = cr_issuer op \<and>
        index_find (db_dynamic_data db') (at_dynamic_asset_data_id a) = Some d \<and> dd_current_supply d = 0 \<and>
        dd_fee_pool d = fs_core_fee_paid fs div 2 +
          (if odd (fs_core_fee_paid fs) \<and> head_block_time db \<le> HARDFORK_1005_TIME then 1 else 0)))"
proof -
  have "checked_int64 S" using assms(1) by (rule charging.axioms)
  from checked_int64.asset_create_effect(3) [OF this _ assms(2-4), of op db']
    charging.asset_create_conserves [OF assms(1) _ assms(2,3), of required op db']
  show ?thesis using assms(4) by (auto simp: half_def)
qed

theorem asset_create_splits_fee_witness:
  "\<exists>db'. asset_create_evaluator int64_ops new_evaluation_state (Inr 20) sample_create issuer_db = Inr db' \<and>
    conserves issuer_db db'"
proof -
  have "\<not> isl (asset_create_evaluator int64_ops new_evaluation_state (Inr 20) sample_create issuer_db)" by code_simp
  with asset_create_splits_fee [OF std.charging_axioms issuer_db_ok issuer_db_balances_ok, of sample_fee_state] show ?thesis
    by (auto simp: sample_fee_state_def dest!: not_isl_Inr)
qed

text \<open>C23.
  Only the issuer issues an asset, the account named receives exactly the amount, the supply grows by
  it and stays within the maximum supply, and issuing conserves every asset's ledger against its supply.
\<close>

theorem asset_issue_bounded:
  assumes "charging S T" and "db_ok db" "balances_ok db" and "asset_issue_evaluator S T required op db = Inr db'"
  shows "conserves db db' \<and>
    (\<exists>a d. index_find (db_assets db) (asset_id (is_asset_to_issue op)) = Some a \<and> at_issuer a = is_issuer op \<and>
      index_find (db_dynamic_data db') (at_dynamic_asset_data_id a) = Some d \<and>
      supplies db (at_dynamic_asset_data_id a) = Some (dd_current_supply d - amount (is_asset_to_issue op)) \<and>
      dd_current_supply d \<le> opt_max_supply (at_options a)) \<and>
    (\<forall>b k. bal db' b k = bal db b k +
      (if b = is_issue_to_account op \<and> k = asset_id (is_asset_to_issue op) then amount (is_asset_to_issue op) else 0) -
      (if b = is_issuer op \<and> k = asset_id (is_fee op) then amount (is_fee op) else 0))"
  using charging.asset_issue_supply [OF assms(1,4,2,3)]
    charging.asset_issue_moves [OF assms(1,4,2,3)]
  by blast

theorem asset_issue_bounded_witness:
  "(\<exists>db'. asset_issue_evaluator int64_ops new_evaluation_state (Inr 20) (sample_issue 250) issuer_db = Inr db' \<and>
      bal db' 9 2 = bal issuer_db 9 2 + 250) \<and>
    isl (asset_issue_evaluator int64_ops new_evaluation_state (Inr 20) (sample_issue 999999) issuer_db)"
proof -
  have "\<not> isl (asset_issue_evaluator int64_ops new_evaluation_state (Inr 20) (sample_issue 250) issuer_db)" by code_simp
  then obtain db' where d: "asset_issue_evaluator int64_ops new_evaluation_state (Inr 20) (sample_issue 250) issuer_db = Inr db'"
    using not_isl_Inr by blast
  have "isl (asset_issue_evaluator int64_ops new_evaluation_state (Inr 20) (sample_issue 999999) issuer_db)" by code_simp
  with asset_issue_bounded [OF std.charging_axioms issuer_db_ok issuer_db_balances_ok d] d show ?thesis
    by (auto simp: sample_issue_def)
qed

text \<open>
  Updating an asset can destroy core tokens: when the operation clears the fee pool (always for asset 1,
  and for an asset whose exchange rate does not mention the core asset) the pool's content leaves the
  ledger while the core supply stays as it was. In every other case an update conserves every asset.
\<close>

theorem asset_update_drops_fee_pool:
  assumes "charging S T" and "db_ok db" "balances_ok db" and "asset_update_evaluator S T required op db = Inr db'"
    and "index_find (db_assets db) (up_asset_to_update op) = Some a"
    and "index_find (db_dynamic_data db) (at_dynamic_asset_data_id a) = Some d"
    and "asset_id (up_fee op) = current_core_asset_id db"
  shows "surplus db' k = surplus db k -
      (if k = current_core_asset_id db \<and> clears_fee_pool db (up_asset_to_update op) a then dd_fee_pool d else 0)"
  by (rule charging.asset_update_ledger [OF assms(1,4,2,3,5-7)])

theorem asset_update_drops_fee_pool_witness:
  "\<exists>db'. asset_update_evaluator int64_ops new_evaluation_state (Inr 20)
      (sample_update 1 5) issuer_db = Inr db' \<and>
    surplus db' 1 = surplus issuer_db 1 - 1000"
proof -
  let ?op = "sample_update 1 5"
  have "\<not> isl (asset_update_evaluator int64_ops new_evaluation_state (Inr 20) ?op issuer_db)" by code_simp
  then obtain db' where d: "asset_update_evaluator int64_ops new_evaluation_state (Inr 20) ?op issuer_db = Inr db'"
    using not_isl_Inr by blast
  have o: "index_find (db_assets issuer_db) (up_asset_to_update ?op) = Some (sample_asset 1)"
    and dd: "index_find (db_dynamic_data issuer_db) (at_dynamic_asset_data_id (sample_asset 1)) = Some sample_dynamic_data"
    and core: "asset_id (up_fee ?op) = current_core_asset_id issuer_db"
    using chain_assets [of 1] chain_dynamic_data [of 1] issuer_db_core
    by (simp_all add: issuer_db_def sample_update_def sample_asset_def)
  have "clears_fee_pool issuer_db (up_asset_to_update ?op) (sample_asset 1)"
    using chain_time by (simp add: clears_fee_pool_def sample_update_def issuer_db_def HARDFORK_1008_TIME_def)
  with asset_update_drops_fee_pool [OF std.charging_axioms issuer_db_ok issuer_db_balances_ok d o dd core, of 1] d show ?thesis
    by (auto simp: issuer_db_core sample_dynamic_data_def)
qed

text \<open>C24.
  Reserving an asset, funding a fee pool and claiming accumulated fees conserve every asset: what leaves a
  balance leaves the supply or enters a pool, and what is claimed leaves the accumulated fees.
\<close>

theorem asset_flows_conserve:
  assumes "charging S T" and "db_ok db" "balances_ok db"
    and "asset_reserve_evaluator S T required ra db = Inr db' \<or> asset_fund_fee_pool_evaluator S T required fa db = Inr db' \<or>
      asset_claim_fees_evaluator S T required ca db = Inr db'"
  shows "conserves db db'"
  by (rule charging.asset_ops_conserve [OF assms(1,4,2,3)])

theorem asset_flows_conserve_witness:
  "\<exists>db'. asset_claim_fees_evaluator int64_ops new_evaluation_state (Inr 20)
      \<lparr>cl_fee = mk_asset 100 1, cl_issuer = 9, cl_amount_to_claim = mk_asset 120 2\<rparr> issuer_db = Inr db' \<and> conserves issuer_db db'"
proof -
  let ?op = "\<lparr>cl_fee = mk_asset 100 1, cl_issuer = 9, cl_amount_to_claim = mk_asset 120 2\<rparr>"
  have "\<not> isl (asset_claim_fees_evaluator int64_ops new_evaluation_state (Inr 20) ?op issuer_db)" by code_simp
  with asset_flows_conserve [OF std.charging_axioms issuer_db_ok issuer_db_balances_ok] show ?thesis
    by (blast dest!: not_isl_Inr)
qed

lemma symbol_chars_iff:
  "symbol_chars d s \<longleftrightarrow> (\<forall>c \<in> set s. isupper c \<or> isdigit c \<or> c = CHR ''.'') \<and> count_list s CHR ''.'' + (if d then 1 else 0) \<le> 1"
proof (induction s arbitrary: d)
  case (Cons c s)
  have "\<not> isupper CHR ''.''" "\<not> isdigit CHR ''.''" by (simp_all add: isupper_def isdigit_def)
  with Cons show ?case by (auto simp: isalpha_def)
qed simp

text \<open>
  \<open>is_valid_symbol\<close> accepts exactly the symbols of 3 to 16 characters among upper-case letters, digits and
  at most one dot, which start with a letter, end with a letter or a digit and do not start with BIT. (Its
  comment asks for a letter at the end; a final digit is accepted.)
\<close>

theorem is_valid_symbol_iff:
  "is_valid_symbol s \<longleftrightarrow> 3 \<le> length s \<and> length s \<le> 16 \<and> take 3 s \<noteq> ''BIT'' \<and> isupper (hd s) \<and>
    (isupper (last s) \<or> isdigit (last s)) \<and>
    (\<forall>c \<in> set s. isupper c \<or> isdigit c \<or> c = CHR ''.'') \<and> count_list s CHR ''.'' \<le> 1"
proof (cases "s = []")
  case False
  then have mem: "hd s \<in> set s" "last s \<in> set s" by simp_all
  have "\<not> (isupper c \<and> islower c)" "\<not> (isdigit c \<and> islower c)" "\<not> (isdigit c \<and> isupper c)" "\<not> islower CHR ''.''"
    "\<not> isupper CHR ''.''" for c
    by (auto simp: isupper_def islower_def isdigit_def)
  then have "isalpha (hd s) \<longleftrightarrow> isupper (hd s)" "isalnum (last s) \<longleftrightarrow> isupper (last s) \<or> isdigit (last s)"
    if "\<forall>c \<in> set s. isupper c \<or> isdigit c \<or> c = CHR ''.''"
    using that mem unfolding isalpha_def isalnum_def by metis+
  then show ?thesis
    by (auto simp: is_valid_symbol_def symbol_chars_iff GRAPHENE_MIN_ASSET_SYMBOL_LENGTH_def GRAPHENE_MAX_ASSET_SYMBOL_LENGTH_def)
qed (simp add: is_valid_symbol_def GRAPHENE_MIN_ASSET_SYMBOL_LENGTH_def)

theorem is_valid_symbol_iff_witness: "is_valid_symbol ''GX9'' \<and> \<not> is_valid_symbol ''GX.''"
  using is_valid_symbol_iff [of "''GX9''"] is_valid_symbol_iff [of "''GX.''"] by (simp add: isupper_def isdigit_def)

text \<open>
  The maximum supply does not bound the supply once an asset is updated: an update that sets it below the
  current supply passes its checks and is applied.
\<close>

theorem max_supply_below_supply:
  "\<exists>db' a d. asset_update_evaluator int64_ops new_evaluation_state (Inr 20) (sample_update 2 5) issuer_db = Inr db' \<and>
    index_find (db_assets db') 2 = Some a \<and> index_find (db_dynamic_data db') (at_dynamic_asset_data_id a) = Some d \<and>
    opt_max_supply (at_options a) < dd_current_supply d"
proof -
  have "case asset_update_evaluator int64_ops new_evaluation_state (Inr 20) (sample_update 2 5) issuer_db of Inl e \<Rightarrow> False
    | Inr db' \<Rightarrow> (case index_find (db_assets db') 2 of None \<Rightarrow> False
      | Some a \<Rightarrow> (case index_find (db_dynamic_data db') (at_dynamic_asset_data_id a) of None \<Rightarrow> False
        | Some d \<Rightarrow> opt_max_supply (at_options a) < dd_current_supply d))"
    by code_simp
  then show ?thesis by (auto split: sum.splits option.splits)
qed

end
