(* ===== verification/Staking.thy ===== *)
theory Staking
  imports Asset_Ops
begin

text \<open>
  Staking (protocol/staking_ops.hpp, staking_evaluator.cpp): an account locks core tokens for a witness
  (its trust node) and gives it votes, moves the votes to another witness, and claims the tokens back.
  Each witness keeps the total of the votes it has; the invariant is that this total is the sum over the
  valid stakings for it.

  The code dereferences iterators it does not check in \<open>do_apply\<close>; a missing object there is
  \<open>Undefined_behaviour\<close>. The products of days and seconds are unsigned 32-bit and wrap.
\<close>

section \<open>Operations\<close>

record staking_create_operation =
  so_fee :: asset
  so_owner :: account_id_type
  so_trust_node :: nat
  so_amount :: asset
  so_program_id :: string
  so_weight :: u32
  so_staking_days :: u32
  so_extensions :: "future_extensions list"

record staking_update_operation =
  su_fee :: asset
  su_owner :: account_id_type
  su_trust_node :: nat
  su_staking_id :: nat
  su_extensions :: "future_extensions list"

record staking_claim_operation =
  sc_fee :: asset
  sc_owner :: account_id_type
  sc_staking_id :: nat
  sc_extensions :: "future_extensions list"

section \<open>Evaluators\<close>

definition GRAPHENE_GXS_ASSET :: asset_id_type where
  "GRAPHENE_GXS_ASSET = 1"

definition SECONDS_PER_DAY :: u32 where
  "SECONDS_PER_DAY = 86400"

fun find_staking_params :: "future_extensions list \<Rightarrow> (string \<times> staking_weight_t) list" where
  "find_staking_params [] = []"
| "find_staking_params (Ext_staking_params p # es) = p"
| "find_staking_params (_ # es) = find_staking_params es"

definition staking_create_do_evaluate :: "staking_create_operation \<Rightarrow> fee_state \<Rightarrow> database \<Rightarrow> unit result" where
  "staking_create_do_evaluate op fs db =
     fc_assert (asset_id (so_amount op) = GRAPHENE_GXS_ASSET)
     (rbind (asset_le (so_amount op) (get_balance db (so_owner op) GRAPHENE_GXS_ASSET)) (\<lambda>enough.
      fc_assert enough
      (fc_assert (amount (so_amount op) \<ge> min_staking_amount (get_vote_params db))
      (let prms = find_staking_params (cp_extensions (params db)) in
       fc_assert (prms \<noteq> [])
       (case List.find (\<lambda>p. fst p = so_program_id op) prms of None \<Rightarrow> Inl Assert_failed
        | Some (_, sw) \<Rightarrow>
          fc_assert (sw_is_valid sw)
          (fc_assert (sw_weight sw = so_weight op)
          (fc_assert (sw_staking_days sw = so_staking_days op)
          (fc_assert (length (filter (\<lambda>(_, s). sk_owner s = so_owner op) (rows (db_stakings db))) < max_staking_count (get_vote_params db))
          (case index_find (db_witnesses db) (so_trust_node op) of None \<Rightarrow> Inl Assert_failed
           | Some w \<Rightarrow> fc_assert (wt_is_valid w) (Inr ()))))))))))"

definition modify_witness_at :: "nat \<Rightarrow> (witness_object \<Rightarrow> witness_object result) \<Rightarrow> database \<Rightarrow> database result" where
  "modify_witness_at i m db =
     (case index_find (db_witnesses db) i of None \<Rightarrow> Inl Undefined_behaviour | Some _ \<Rightarrow> modify_witness i m db)"

definition add_votes :: "safe_ops \<Rightarrow> share_type \<Rightarrow> witness_object \<Rightarrow> witness_object result" where
  "add_votes S v w = rbind (safe_add S (wt_total_vote_weights w) v) (\<lambda>t. Inr (w\<lparr>wt_total_vote_weights := t\<rparr>))"

definition sub_votes :: "safe_ops \<Rightarrow> share_type \<Rightarrow> witness_object \<Rightarrow> witness_object result" where
  "sub_votes S v w = rbind (safe_sub S (wt_total_vote_weights w) v) (\<lambda>t. Inr (w\<lparr>wt_total_vote_weights := t\<rparr>))"

definition vote_weights :: "safe_ops \<Rightarrow> staking_object \<Rightarrow> share_type result" where
  "vote_weights S s = safe_mul S (amount (sk_amount s)) (uint (sk_weight s))"

definition staking_create_do_apply :: "safe_ops \<Rightarrow> staking_create_operation \<Rightarrow> unit \<Rightarrow> database \<Rightarrow> database result" where
  "staking_create_do_apply S op x db =
     rbind (create_staking \<lparr>sk_owner = so_owner op, sk_create_date_time = head_block_time db, sk_staking_days = so_staking_days op,
              sk_weight = so_weight op, sk_program_id = so_program_id op, sk_amount = so_amount op,
              sk_trust_node = so_trust_node op, sk_is_valid = True\<rparr> db) (\<lambda>(i, db1).
     rbind (asset_neg S (so_amount op)) (\<lambda>minus.
     rbind (adjust_balance S (so_owner op) minus db1) (\<lambda>db2.
     modify_witness_at (so_trust_node op) (\<lambda>w.
       rbind (safe_mul S (amount (so_amount op)) (uint (so_weight op))) (\<lambda>v. add_votes S v w)) db2)))"

definition elapsed :: "database \<Rightarrow> staking_object \<Rightarrow> u32" where
  "elapsed db s = of_nat (head_block_time db) - of_nat (sk_create_date_time s)"

definition staking_update_do_evaluate :: "safe_ops \<Rightarrow> staking_update_operation \<Rightarrow> fee_state \<Rightarrow> database \<Rightarrow> unit result" where
  "staking_update_do_evaluate S op fs db =
     (case index_find (db_witnesses db) (su_trust_node op) of None \<Rightarrow> Inl Assert_failed
      | Some w \<Rightarrow>
        fc_assert (wt_is_valid w)
        (case index_find (db_stakings db) (su_staking_id op) of None \<Rightarrow> Inl Assert_failed
         | Some s \<Rightarrow>
           fc_assert (head_block_time db > HARDFORK_1027_TIME \<longrightarrow> sk_owner s = su_owner op)
           (case index_find (db_witnesses db) (sk_trust_node s) of None \<Rightarrow> Inl Assert_failed
            | Some pre \<Rightarrow>
              rbind (vote_weights S s) (\<lambda>v.
              fc_assert (wt_total_vote_weights pre \<ge> v)
              (fc_assert (head_block_time db > HARDFORK_1028_TIME \<longrightarrow> sk_trust_node s \<noteq> su_trust_node op)
              (fc_assert (sk_staking_days s * SECONDS_PER_DAY > elapsed db s)
              (fc_assert (sk_is_valid s) (Inr ()))))))))"

definition staking_update_do_apply :: "safe_ops \<Rightarrow> staking_update_operation \<Rightarrow> unit \<Rightarrow> database \<Rightarrow> database result" where
  "staking_update_do_apply S op x db =
     (case index_find (db_stakings db) (su_staking_id op) of None \<Rightarrow> Inl Undefined_behaviour
      | Some s \<Rightarrow>
        rbind (vote_weights S s) (\<lambda>v.
        rbind (modify_staking (su_staking_id op) (\<lambda>obj. Inr (obj\<lparr>sk_trust_node := su_trust_node op\<rparr>)) db) (\<lambda>db1.
        case index_find (db_witnesses db1) (sk_trust_node s) of None \<Rightarrow> Inl Undefined_behaviour
        | Some prev \<Rightarrow>
          let prev_vote_weights = min v (wt_total_vote_weights prev) in
          rbind (modify_witness (sk_trust_node s) (sub_votes S prev_vote_weights) db1) (\<lambda>db2.
          modify_witness_at (su_trust_node op) (add_votes S prev_vote_weights) db2))))"

definition staking_claim_do_evaluate :: "staking_claim_operation \<Rightarrow> fee_state \<Rightarrow> database \<Rightarrow> unit result" where
  "staking_claim_do_evaluate op fs db =
     (case index_find (db_stakings db) (sc_staking_id op) of None \<Rightarrow> Inl Assert_failed
      | Some s \<Rightarrow>
        fc_assert (head_block_time db > HARDFORK_1027_TIME \<longrightarrow> sk_owner s = sc_owner op)
        (fc_assert (sk_staking_days s * SECONDS_PER_DAY < elapsed db s)
        (fc_assert (staking_mode_on (get_vote_params db) \<longrightarrow> \<not> sk_is_valid s) (Inr ()))))"

definition staking_claim_do_apply :: "safe_ops \<Rightarrow> staking_claim_operation \<Rightarrow> unit \<Rightarrow> database \<Rightarrow> database result" where
  "staking_claim_do_apply S op x db =
     (case index_find (db_stakings db) (sc_staking_id op) of None \<Rightarrow> Inl Undefined_behaviour
      | Some s \<Rightarrow>
        rbind (if \<not> staking_mode_on (get_vote_params db)
               then modify_witness_at (sk_trust_node s) (\<lambda>w.
                 rbind (vote_weights S s) (\<lambda>v. sub_votes S (min v (wt_total_vote_weights w)) w)) db
               else Inr db) (\<lambda>db1.
        rbind (adjust_balance S (sk_owner s) (sk_amount s) db1) (\<lambda>db2.
        Inr (remove_staking (sc_staking_id op) db2))))"

definition staking_create_evaluator :: "safe_ops \<Rightarrow> transaction_evaluation_state \<Rightarrow> share_type result \<Rightarrow>
    staking_create_operation \<Rightarrow> database \<Rightarrow> database result" where
  "staking_create_evaluator S T required op =
     start_evaluate S T required (pay_fee S T) (so_owner op) (so_fee op) (staking_create_do_evaluate op) (staking_create_do_apply S op)"

definition staking_update_evaluator :: "safe_ops \<Rightarrow> transaction_evaluation_state \<Rightarrow> share_type result \<Rightarrow>
    staking_update_operation \<Rightarrow> database \<Rightarrow> database result" where
  "staking_update_evaluator S T required op =
     start_evaluate S T required (pay_fee S T) (su_owner op) (su_fee op) (staking_update_do_evaluate S op) (staking_update_do_apply S op)"

definition staking_claim_evaluator :: "safe_ops \<Rightarrow> transaction_evaluation_state \<Rightarrow> share_type result \<Rightarrow>
    staking_claim_operation \<Rightarrow> database \<Rightarrow> database result" where
  "staking_claim_evaluator S T required op =
     start_evaluate S T required (pay_fee S T) (sc_owner op) (sc_fee op) (staking_claim_do_evaluate op) (staking_claim_do_apply S op)"

section \<open>The invariant\<close>

text \<open>
  The votes of a witness are the weighted amounts of the valid stakings for it. With that goes that the least
  amount of a staking is not negative and that no staking has a negative amount.
\<close>

definition votes_for :: "nat \<Rightarrow> staking_object \<Rightarrow> int" where
  "votes_for i s = (if sk_is_valid s \<and> sk_trust_node s = i then amount (sk_amount s) * uint (sk_weight s) else 0)"

definition votes_ok :: "database \<Rightarrow> bool" where
  "votes_ok db \<longleftrightarrow> (\<forall>i w. index_find (db_witnesses db) i = Some w \<longrightarrow>
     wt_total_vote_weights w = table_sum (votes_for i) (db_stakings db))"

definition staking_inv :: "database \<Rightarrow> bool" where
  "staking_inv db \<longleftrightarrow> votes_ok db \<and> 0 \<le> min_staking_amount (get_vote_params db) \<and>
     (\<forall>i s. index_find (db_stakings db) i = Some s \<longrightarrow> 0 \<le> amount (sk_amount s))"

text \<open>A claim while the staking mode is off is regular when maintenance has not invalidated the staking before.\<close>

definition claim_regular :: "nat \<Rightarrow> database \<Rightarrow> bool" where
  "claim_regular i db \<longleftrightarrow> staking_mode_on (get_vote_params db) \<or> (\<forall>s. index_find (db_stakings db) i = Some s \<longrightarrow> sk_is_valid s)"

lemma staking_inv_fields:
  assumes "db_stakings db' = db_stakings db" "db_witnesses db' = db_witnesses db" "params db' = params db"
  shows "staking_inv db' = staking_inv db"
  using assms by (simp add: staking_inv_def votes_ok_def get_vote_params_def)

lemma table_sum_ge_row:
  assumes "index_ok uk t" "index_find t i = Some x" "\<And>j y. index_find t j = Some y \<Longrightarrow> 0 \<le> f y"
  shows "f x \<le> table_sum f t"
proof -
  have "0 \<le> f y" if "(j, y) \<in> set (rows t)" for j y
    using that assms(1) assms(3) [of j y] by (simp add: index_ok_def index_find_def)
  then have "0 \<le> table_sum f (index_remove i t)"
    by (auto simp: table_sum_def index_remove_def intro!: sum_list_nonneg)
  then show ?thesis using table_sum_remove [OF assms(1,2), of f] by simp
qed

section \<open>Effects\<close>

lemma modify_votes_effect:
  assumes m: "modify_witness i m db = Inr db'" and ok: "db_ok db"
    and votes: "\<And>x y. m x = Inr y \<Longrightarrow> y = x\<lparr>wt_total_vote_weights := wt_total_vote_weights y\<rparr>"
  obtains x y where "index_find (db_witnesses db) i = Some x" and "m x = Inr y"
    and "index_find (db_witnesses db') = (index_find (db_witnesses db))(i \<mapsto> y)"
    and "db' = db\<lparr>db_witnesses := db_witnesses db'\<rparr>" and "db_ok db'" and "surplus db' = surplus db"
proof -
  obtain x y where w: "index_find (db_witnesses db) i = Some x" "m x = Inr y"
    "index_find (db_witnesses db') = (index_find (db_witnesses db))(i \<mapsto> y)"
    "db' = db\<lparr>db_witnesses := db_witnesses db'\<rparr>" "db_ok db'"
    "\<forall>k. surplus db' k = surplus db k + (if k = current_core_asset_id db then wt_vote_reward_pool y - wt_vote_reward_pool x else 0)"
    using m ok by (rule modify_witness_effect) (rule that)
  have "wt_vote_reward_pool y = wt_vote_reward_pool (x\<lparr>wt_total_vote_weights := wt_total_vote_weights y\<rparr>)"
    using votes [OF w(2)] by (rule arg_cong)
  then have "surplus db' = surplus db" using w(6) by (simp add: fun_eq_iff)
  with w(1-5) show thesis by (rule that)
qed

lemma modify_witness_at_Inr [result_simps]:
  "modify_witness_at i m db = Inr db' \<longleftrightarrow> modify_witness i m db = Inr db'"
  by (auto simp: modify_witness_at_def modify_witness_def index_modify_def result_simps split: option.splits)

context checked_int64
begin

lemma votes_Inr [result_simps]:
  "add_votes S v w = Inr w' \<longleftrightarrow> in_int64 (wt_total_vote_weights w + v) \<and> w' = w\<lparr>wt_total_vote_weights := wt_total_vote_weights w + v\<rparr>"
  "sub_votes S v w = Inr w' \<longleftrightarrow> in_int64 (wt_total_vote_weights w - v) \<and> w' = w\<lparr>wt_total_vote_weights := wt_total_vote_weights w - v\<rparr>"
  "vote_weights S s = Inr v \<longleftrightarrow> in_int64 (amount (sk_amount s) * uint (sk_weight s)) \<and> v = amount (sk_amount s) * uint (sk_weight s)"
  by (auto simp: add_votes_def sub_votes_def vote_weights_def result_simps)

text \<open>Each effect: the witnesses' votes and the stakings after it, and the ledger.\<close>

lemma staking_create_effect:
  assumes a: "staking_create_do_apply S op x db = Inr db'" and ok: "db_ok db" "balances_ok db"
  shows "conserves db db'"
    and "bal db' b k = bal db b k - (if b = so_owner op \<and> k = asset_id (so_amount op) then amount (so_amount op) else 0)"
    and "\<exists>i s w. index_find (db_stakings db') = (index_find (db_stakings db))(i \<mapsto> s) \<and>
      (\<forall>f. table_sum f (db_stakings db') = table_sum f (db_stakings db) + f s) \<and>
      sk_amount s = so_amount op \<and> sk_weight s = so_weight op \<and> sk_trust_node s = so_trust_node op \<and> sk_is_valid s \<and>
      index_find (db_witnesses db) (so_trust_node op) = Some w \<and>
      index_find (db_witnesses db') = (index_find (db_witnesses db))(so_trust_node op \<mapsto>
        w\<lparr>wt_total_vote_weights := wt_total_vote_weights w + amount (so_amount op) * uint (so_weight op)\<rparr>) \<and>
      params db' = params db"
proof -
  let ?a = "so_amount op"
  let ?s = "\<lparr>sk_owner = so_owner op, sk_create_date_time = head_block_time db, sk_staking_days = so_staking_days op,
    sk_weight = so_weight op, sk_program_id = so_program_id op, sk_amount = ?a, sk_trust_node = so_trust_node op, sk_is_valid = True\<rparr>"
  let ?m = "\<lambda>w. rbind (safe_mul S (amount ?a) (uint (so_weight op))) (\<lambda>v. add_votes S v w)"
  from a obtain i db1 db2 where d1: "create_staking ?s db = Inr (i, db1)"
    and d2: "adjust_balance S (so_owner op) (mk_asset (- amount ?a) (asset_id ?a)) db1 = Inr db2"
    and d3: "modify_witness (so_trust_node op) ?m db2 = Inr db'"
    by (auto simp: staking_create_do_apply_def rbind_Inr asset_neg_Inr modify_witness_at_Inr)
  note c = create_staking_effect [OF d1 ok(1)]
  have b1: "balances_ok db1" "current_core_asset_id db1 = current_core_asset_id db" "bal db1 = bal db" "params db1 = params db"
    "db_witnesses db1 = db_witnesses db"
    using ok(2) by (subst c(1), simp add: balances_ok_def bal_simps params_def)+
  note a2 = adjust_balance_adjusted [OF d2 c(2) b1(1)]
  note f2 = adjusted_fields [OF a2]
  have ok2: "db_ok db2" "balances_ok db2" using a2 by (auto simp: adjusted_def)
  obtain w w' where w: "index_find (db_witnesses db2) (so_trust_node op) = Some w" "?m w = Inr w'"
    "index_find (db_witnesses db') = (index_find (db_witnesses db2))(so_trust_node op \<mapsto> w')"
    "db' = db2\<lparr>db_witnesses := db_witnesses db'\<rparr>" "db_ok db'" "surplus db' = surplus db2"
    using d3 ok2(1) by (rule modify_votes_effect) (auto simp: result_simps intro: that)
  have same: "balances_ok db'" "current_core_asset_id db' = current_core_asset_id db2" "bal db' = bal db2"
    "params db' = params db2" "db_stakings db' = db_stakings db2"
    using ok2 by (subst w(4), simp add: balances_ok_def bal_simps params_def)+
  show "conserves db db'"
    using a2 c(5) w(5,6) same b1 f2 by (auto simp: conserves_def adjusted_def of_asset_def fun_eq_iff)
  show "bal db' b k = bal db b k - (if b = so_owner op \<and> k = asset_id ?a then amount ?a else 0)"
    using a2 same(3) b1(3) by (simp add: adjusted_def)
  have "params db' = params db" using same(4) b1(4) f2(6) by (simp add: params_def)
  then show "\<exists>i s w. index_find (db_stakings db') = (index_find (db_stakings db))(i \<mapsto> s) \<and>
      (\<forall>f. table_sum f (db_stakings db') = table_sum f (db_stakings db) + f s) \<and>
      sk_amount s = ?a \<and> sk_weight s = so_weight op \<and> sk_trust_node s = so_trust_node op \<and> sk_is_valid s \<and>
      index_find (db_witnesses db) (so_trust_node op) = Some w \<and>
      index_find (db_witnesses db') = (index_find (db_witnesses db))(so_trust_node op \<mapsto>
        w\<lparr>wt_total_vote_weights := wt_total_vote_weights w + amount ?a * uint (so_weight op)\<rparr>) \<and> params db' = params db"
    using c(4,6) w(1-3) same(5) b1(5) f2(11,12) by (intro exI [of _ i] exI [of _ ?s] exI [of _ w]) (auto simp: result_simps)
qed

lemma staking_update_effect:
  assumes a: "staking_update_do_apply S op x db = Inr db'" and ok: "db_ok db" "balances_ok db"
  shows "conserves db db'" and "bal db' = bal db" and "params db' = params db"
    and "\<exists>s pre w v. index_find (db_stakings db) (su_staking_id op) = Some s \<and>
      index_find (db_stakings db') = (index_find (db_stakings db))(su_staking_id op \<mapsto> s\<lparr>sk_trust_node := su_trust_node op\<rparr>) \<and>
      (\<forall>f. table_sum f (db_stakings db') = table_sum f (db_stakings db) - f s + f (s\<lparr>sk_trust_node := su_trust_node op\<rparr>)) \<and>
      index_find (db_witnesses db) (sk_trust_node s) = Some pre \<and>
      v = min (amount (sk_amount s) * uint (sk_weight s)) (wt_total_vote_weights pre) \<and>
      ((index_find (db_witnesses db))(sk_trust_node s \<mapsto> pre\<lparr>wt_total_vote_weights := wt_total_vote_weights pre - v\<rparr>))
        (su_trust_node op) = Some w \<and>
      index_find (db_witnesses db') = (index_find (db_witnesses db))
        (sk_trust_node s \<mapsto> pre\<lparr>wt_total_vote_weights := wt_total_vote_weights pre - v\<rparr>,
         su_trust_node op \<mapsto> w\<lparr>wt_total_vote_weights := wt_total_vote_weights w + v\<rparr>)"
proof -
  let ?mv = "\<lambda>obj. Inr (obj\<lparr>sk_trust_node := su_trust_node op\<rparr>) :: staking_object result"
  from a obtain s v0 db1 pre db2 where s: "index_find (db_stakings db) (su_staking_id op) = Some s"
    and v0: "v0 = amount (sk_amount s) * uint (sk_weight s)"
    and d1: "modify_staking (su_staking_id op) ?mv db = Inr db1"
    and pre: "index_find (db_witnesses db1) (sk_trust_node s) = Some pre"
    and d2: "modify_witness (sk_trust_node s) (sub_votes S (min v0 (wt_total_vote_weights pre))) db1 = Inr db2"
    and d3: "modify_witness (su_trust_node op) (add_votes S (min v0 (wt_total_vote_weights pre))) db2 = Inr db'"
    by (auto simp: staking_update_do_apply_def rbind_Inr votes_Inr modify_witness_at_Inr Let_def split: option.splits)
  let ?v = "min v0 (wt_total_vote_weights pre)"
  obtain x y where x: "index_find (db_stakings db) (su_staking_id op) = Some x" "?mv x = Inr y"
    "index_find (db_stakings db1) = (index_find (db_stakings db))(su_staking_id op \<mapsto> y)"
    "db1 = db\<lparr>db_stakings := db_stakings db1\<rparr>" "db_ok db1"
    "\<forall>k. surplus db1 k = surplus db k + of_asset k (sk_amount y) - of_asset k (sk_amount x)"
    "\<forall>f. table_sum f (db_stakings db1) = table_sum f (db_stakings db) - f x + f y"
    using d1 ok(1) by (rule modify_staking_effect) (rule that)
  have y: "x = s" "y = s\<lparr>sk_trust_node := su_trust_node op\<rparr>" using s x(1,2) by auto
  have w1: "db_witnesses db1 = db_witnesses db" by (subst x(4)) simp
  obtain p p' where p: "index_find (db_witnesses db1) (sk_trust_node s) = Some p" "sub_votes S ?v p = Inr p'"
    "index_find (db_witnesses db2) = (index_find (db_witnesses db1))(sk_trust_node s \<mapsto> p')"
    "db2 = db1\<lparr>db_witnesses := db_witnesses db2\<rparr>" "db_ok db2" "surplus db2 = surplus db1"
    using d2 x(5) by (rule modify_votes_effect) (auto simp: result_simps intro: that)
  obtain w w' where w: "index_find (db_witnesses db2) (su_trust_node op) = Some w" "add_votes S ?v w = Inr w'"
    "index_find (db_witnesses db') = (index_find (db_witnesses db2))(su_trust_node op \<mapsto> w')"
    "db' = db2\<lparr>db_witnesses := db_witnesses db'\<rparr>" "db_ok db'" "surplus db' = surplus db2"
    using d3 p(5) by (rule modify_votes_effect) (auto simp: result_simps intro: that)
  obtain t u where db': "db' = db\<lparr>db_stakings := t, db_witnesses := u\<rparr>"
  proof -
    have "db' = db1\<lparr>db_witnesses := db_witnesses db'\<rparr>" by (subst w(4), subst p(4)) simp
    also have "\<dots> = db\<lparr>db_stakings := db_stakings db1, db_witnesses := db_witnesses db'\<rparr>"
      by (rule arg_cong [OF x(4)])
    finally show thesis by (rule that)
  qed
  have "balances_ok db'" "current_core_asset_id db' = current_core_asset_id db" using ok(2) by (simp_all add: db' balances_ok_def)
  with w(5,6) p(6) x(6) y show "conserves db db'" by (auto simp: conserves_def fun_eq_iff)
  show "bal db' = bal db" "params db' = params db" by (simp_all add: db' bal_simps params_def)
  have st: "db_stakings db' = db_stakings db1" by (subst w(4), subst p(4)) simp
  have "p = pre" "p' = pre\<lparr>wt_total_vote_weights := wt_total_vote_weights pre - ?v\<rparr>" "w' = w\<lparr>wt_total_vote_weights := wt_total_vote_weights w + ?v\<rparr>"
    using p(1,2) pre w(2) by (auto simp: votes_Inr)
  then show "\<exists>s pre w v. index_find (db_stakings db) (su_staking_id op) = Some s \<and>
      index_find (db_stakings db') = (index_find (db_stakings db))(su_staking_id op \<mapsto> s\<lparr>sk_trust_node := su_trust_node op\<rparr>) \<and>
      (\<forall>f. table_sum f (db_stakings db') = table_sum f (db_stakings db) - f s + f (s\<lparr>sk_trust_node := su_trust_node op\<rparr>)) \<and>
      index_find (db_witnesses db) (sk_trust_node s) = Some pre \<and>
      v = min (amount (sk_amount s) * uint (sk_weight s)) (wt_total_vote_weights pre) \<and>
      ((index_find (db_witnesses db))(sk_trust_node s \<mapsto> pre\<lparr>wt_total_vote_weights := wt_total_vote_weights pre - v\<rparr>))
        (su_trust_node op) = Some w \<and>
      index_find (db_witnesses db') = (index_find (db_witnesses db))
        (sk_trust_node s \<mapsto> pre\<lparr>wt_total_vote_weights := wt_total_vote_weights pre - v\<rparr>,
         su_trust_node op \<mapsto> w\<lparr>wt_total_vote_weights := wt_total_vote_weights w + v\<rparr>)"
    using s x(3,7) y pre w1 st p(3) w(1,3) v0 by (intro exI [of _ s] exI [of _ pre] exI [of _ w] exI [of _ ?v]) auto
qed

lemma staking_claim_effect:
  assumes a: "staking_claim_do_apply S op x db = Inr db'" and ok: "db_ok db" "balances_ok db"
  shows "conserves db db'" and "params db' = params db"
    and "\<exists>s. index_find (db_stakings db) (sc_staking_id op) = Some s \<and>
      (\<forall>b k. bal db' b k = bal db b k + (if b = sk_owner s \<and> k = asset_id (sk_amount s) then amount (sk_amount s) else 0)) \<and>
      index_find (db_stakings db') = (index_find (db_stakings db))(sc_staking_id op := None) \<and>
      (\<forall>f. table_sum f (db_stakings db') = table_sum f (db_stakings db) - f s) \<and>
      (if staking_mode_on (get_vote_params db) then db_witnesses db' = db_witnesses db
       else \<exists>w. index_find (db_witnesses db) (sk_trust_node s) = Some w \<and>
         index_find (db_witnesses db') = (index_find (db_witnesses db))(sk_trust_node s \<mapsto> w\<lparr>wt_total_vote_weights :=
           wt_total_vote_weights w - min (amount (sk_amount s) * uint (sk_weight s)) (wt_total_vote_weights w)\<rparr>))"
proof -
  let ?m = "\<lambda>s w. rbind (vote_weights S s) (\<lambda>v. sub_votes S (min v (wt_total_vote_weights w)) w)"
  from a obtain s db1 db2 where s: "index_find (db_stakings db) (sc_staking_id op) = Some s"
    and d1: "(if \<not> staking_mode_on (get_vote_params db) then modify_witness (sk_trust_node s) (?m s) db = Inr db1 else db1 = db)"
    and d2: "adjust_balance S (sk_owner s) (sk_amount s) db1 = Inr db2" and db': "db' = remove_staking (sc_staking_id op) db2"
    by (auto simp: staking_claim_do_apply_def rbind_Inr modify_witness_at_Inr split: option.splits if_splits)
  let ?W = "\<lambda>d. if staking_mode_on (get_vote_params db) then db_witnesses d = db_witnesses db
       else \<exists>w. index_find (db_witnesses db) (sk_trust_node s) = Some w \<and>
         index_find (db_witnesses d) = (index_find (db_witnesses db))(sk_trust_node s \<mapsto> w\<lparr>wt_total_vote_weights :=
           wt_total_vote_weights w - min (amount (sk_amount s) * uint (sk_weight s)) (wt_total_vote_weights w)\<rparr>)"
  have "db1 = db\<lparr>db_witnesses := db_witnesses db1\<rparr> \<and> db_ok db1 \<and> surplus db1 = surplus db \<and> ?W db1"
  proof (cases "staking_mode_on (get_vote_params db)")
    case True
    with d1 ok show ?thesis by simp
  next
    case False
    with d1 have m: "modify_witness (sk_trust_node s) (?m s) db = Inr db1" by simp
    show ?thesis using m ok(1) by (rule modify_votes_effect) (use False in \<open>auto simp: result_simps\<close>)
  qed
  then have db1: "db1 = db\<lparr>db_witnesses := db_witnesses db1\<rparr>" and ok1: "db_ok db1" and su: "surplus db1 = surplus db" and W: "?W db1"
    by blast+
  have b1: "balances_ok db1" "current_core_asset_id db1 = current_core_asset_id db" "bal db1 = bal db" "params db1 = params db"
    "db_stakings db1 = db_stakings db"
    using ok(2) by (subst db1, simp add: balances_ok_def bal_simps params_def)+
  note a2 = adjust_balance_adjusted [OF d2 ok1 b1(1)]
  note f2 = adjusted_fields [OF a2]
  have ok2: "db_ok db2" "balances_ok db2" using a2 by (auto simp: adjusted_def)
  have s2: "index_find (db_stakings db2) (sc_staking_id op) = Some s" using s f2(11) b1(5) by simp
  note r = remove_staking_effect [OF s2 ok2(1)]
  have same: "balances_ok db'" "current_core_asset_id db' = current_core_asset_id db2" "bal db' = bal db2" "params db' = params db2"
    "db_witnesses db' = db_witnesses db2"
    using ok2 by (simp_all add: db' remove_staking_def balances_ok_def bal_simps params_def)
  show "conserves db db'"
    using r(1,3) a2 same b1 f2 su by (auto simp: db' conserves_def adjusted_def of_asset_def fun_eq_iff)
  show "params db' = params db" using same(4) b1(4) f2(6) by (simp add: params_def)
  have "\<forall>b k. bal db' b k = bal db b k + (if b = sk_owner s \<and> k = asset_id (sk_amount s) then amount (sk_amount s) else 0)"
    using a2 same(3) b1(3) by (simp add: adjusted_def)
  moreover have "index_find (db_stakings db') = (index_find (db_stakings db))(sc_staking_id op := None)"
    "\<forall>f. table_sum f (db_stakings db') = table_sum f (db_stakings db) - f s"
    using r(2,4) f2(11) b1(5) by (simp_all add: db')
  moreover have "?W db'" using W by (simp only: same(5) f2(12))
  ultimately show "\<exists>s. index_find (db_stakings db) (sc_staking_id op) = Some s \<and>
      (\<forall>b k. bal db' b k = bal db b k + (if b = sk_owner s \<and> k = asset_id (sk_amount s) then amount (sk_amount s) else 0)) \<and>
      index_find (db_stakings db') = (index_find (db_stakings db))(sc_staking_id op := None) \<and>
      (\<forall>f. table_sum f (db_stakings db') = table_sum f (db_stakings db) - f s) \<and>
      (if staking_mode_on (get_vote_params db) then db_witnesses db' = db_witnesses db
       else \<exists>w. index_find (db_witnesses db) (sk_trust_node s) = Some w \<and>
         index_find (db_witnesses db') = (index_find (db_witnesses db))(sk_trust_node s \<mapsto> w\<lparr>wt_total_vote_weights :=
           wt_total_vote_weights w - min (amount (sk_amount s) * uint (sk_weight s)) (wt_total_vote_weights w)\<rparr>))"
    using s by (intro exI [of _ s] conjI)
qed

lemma staking_create_keeps:
  assumes e: "staking_create_do_evaluate op fs db0 = Inr x" and a: "staking_create_do_apply S op x db = Inr db'"
    and f: "fee_frame db0 db" and ok: "db_ok db" "balances_ok db" and inv: "staking_inv db"
  shows "staking_inv db'"
proof -
  have "min_staking_amount (get_vote_params db0) \<le> amount (so_amount op)"
    using e by (auto simp: staking_create_do_evaluate_def rbind_Inr ensure_Inr)
  then have nonneg: "0 \<le> amount (so_amount op)"
    using inv fee_frame_fields(14) [OF f] by (simp add: staking_inv_def get_vote_params_def)
  obtain i s w where st: "index_find (db_stakings db') = (index_find (db_stakings db))(i \<mapsto> s)"
    "\<forall>f. table_sum f (db_stakings db') = table_sum f (db_stakings db) + f s"
    "sk_amount s = so_amount op" "sk_weight s = so_weight op" "sk_trust_node s = so_trust_node op" "sk_is_valid s"
    "index_find (db_witnesses db) (so_trust_node op) = Some w"
    "index_find (db_witnesses db') = (index_find (db_witnesses db))(so_trust_node op \<mapsto>
        w\<lparr>wt_total_vote_weights := wt_total_vote_weights w + amount (so_amount op) * uint (so_weight op)\<rparr>)"
    "params db' = params db"
    using staking_create_effect(3) [OF a ok] by blast
  have "votes_ok db'" using inv st by (auto simp: staking_inv_def votes_ok_def votes_for_def)
  with inv st nonneg show ?thesis by (auto simp: staking_inv_def get_vote_params_def)
qed

lemma staking_update_keeps:
  assumes e: "staking_update_do_evaluate S op fs db0 = Inr x" and a: "staking_update_do_apply S op x db = Inr db'"
    and f: "fee_frame db0 db" and ok: "db_ok db" "balances_ok db" and inv: "staking_inv db"
  shows "staking_inv db'"
proof -
  let ?n = "su_trust_node op"
  obtain s pre w v where s: "index_find (db_stakings db) (su_staking_id op) = Some s"
    "index_find (db_stakings db') = (index_find (db_stakings db))(su_staking_id op \<mapsto> s\<lparr>sk_trust_node := ?n\<rparr>)"
    "\<forall>f. table_sum f (db_stakings db') = table_sum f (db_stakings db) - f s + f (s\<lparr>sk_trust_node := ?n\<rparr>)"
    and pre: "index_find (db_witnesses db) (sk_trust_node s) = Some pre"
    and v: "v = min (amount (sk_amount s) * uint (sk_weight s)) (wt_total_vote_weights pre)"
    and w: "((index_find (db_witnesses db))(sk_trust_node s \<mapsto> pre\<lparr>wt_total_vote_weights := wt_total_vote_weights pre - v\<rparr>)) ?n = Some w"
    "index_find (db_witnesses db') = (index_find (db_witnesses db))
        (sk_trust_node s \<mapsto> pre\<lparr>wt_total_vote_weights := wt_total_vote_weights pre - v\<rparr>,
         ?n \<mapsto> w\<lparr>wt_total_vote_weights := wt_total_vote_weights w + v\<rparr>)"
    using staking_update_effect(4) [OF a ok] by blast
  have c: "sk_is_valid s" "amount (sk_amount s) * uint (sk_weight s) \<le> wt_total_vote_weights pre"
    using e s(1) pre fee_frame_fields(7,8) [OF f]
    by (auto simp: staking_update_do_evaluate_def result_simps votes_Inr split: option.splits)
  then have v': "v = amount (sk_amount s) * uint (sk_weight s)" using v by simp
  have "votes_ok db'"
    using inv s(3) pre w c(1) v'
    by (cases "?n = sk_trust_node s") (auto simp: staking_inv_def votes_ok_def votes_for_def)
  with inv s(1,2) staking_update_effect(3) [OF a ok] show ?thesis
    by (auto simp: staking_inv_def get_vote_params_def)
qed

lemma staking_claim_keeps:
  assumes e: "staking_claim_do_evaluate op fs db0 = Inr x" and a: "staking_claim_do_apply S op x db = Inr db'"
    and f: "fee_frame db0 db" and ok: "db_ok db" "balances_ok db" and inv: "staking_inv db" and reg: "claim_regular (sc_staking_id op) db"
  shows "staking_inv db' \<and> claim_regular (sc_staking_id op) db'"
proof -
  let ?on = "staking_mode_on (get_vote_params db)"
  obtain s where s: "index_find (db_stakings db) (sc_staking_id op) = Some s"
    "index_find (db_stakings db') = (index_find (db_stakings db))(sc_staking_id op := None)"
    "\<forall>f. table_sum f (db_stakings db') = table_sum f (db_stakings db) - f s"
    and W: "if ?on then db_witnesses db' = db_witnesses db
       else \<exists>w. index_find (db_witnesses db) (sk_trust_node s) = Some w \<and>
         index_find (db_witnesses db') = (index_find (db_witnesses db))(sk_trust_node s \<mapsto> w\<lparr>wt_total_vote_weights :=
           wt_total_vote_weights w - min (amount (sk_amount s) * uint (sk_weight s)) (wt_total_vote_weights w)\<rparr>)"
    using staking_claim_effect(3) [OF a ok] by blast
  have valid: "sk_is_valid s \<longleftrightarrow> \<not> ?on"
  proof -
    have "?on \<longrightarrow> \<not> sk_is_valid s"
      using e s(1) fee_frame_fields(7,14) [OF f]
      by (auto simp: staking_claim_do_evaluate_def get_vote_params_def result_simps split: option.splits)
    then show ?thesis using reg s(1) by (auto simp: claim_regular_def)
  qed
  have it: "index_ok no_uk (db_stakings db)" using ok(1) by (simp add: db_ok_def tables_ok_def)
  have "0 \<le> votes_for i y" if "index_find (db_stakings db) j = Some y" for i j y
    using inv that by (auto simp: staking_inv_def votes_for_def)
  then have ge: "votes_for i s \<le> table_sum (votes_for i) (db_stakings db)" for i by (rule table_sum_ge_row [OF it s(1)])
  have "votes_ok db'"
    using W inv s(3) valid ge [of "sk_trust_node s"] by (auto simp: staking_inv_def votes_ok_def votes_for_def split: if_splits)
  with inv s(2) staking_claim_effect(2) [OF a ok] show ?thesis by (auto simp: staking_inv_def claim_regular_def get_vote_params_def)
qed

end

lemma staking_inv_fee_frame: "fee_frame db db' \<Longrightarrow> staking_inv db' = staking_inv db"
  by (intro staking_inv_fields) (simp_all add: fee_frame_fields)

lemma staking_inv_balances: "staking_inv (db\<lparr>db_balances := t\<rparr>) = staking_inv db"
  by (intro staking_inv_fields) (simp_all add: params_def)

lemma claim_regular_fee_frame: "fee_frame db db' \<Longrightarrow> claim_regular i db' = claim_regular i db"
  by (simp add: claim_regular_def get_vote_params_def fee_frame_fields)

lemma claim_regular_balances: "claim_regular i (db\<lparr>db_balances := t\<rparr>) = claim_regular i db"
  by (simp add: claim_regular_def get_vote_params_def params_def)

sublocale charging < staking_create: preserving_evaluator S "pay_fee S T" fs_core_fee_paid
    "staking_create_do_evaluate op" "staking_create_do_apply S op" staking_inv for op
  by unfold_locales (auto simp: credits_zero staking_create_effect staking_inv_fee_frame staking_inv_balances intro: staking_create_keeps)

sublocale charging < staking_update: preserving_evaluator S "pay_fee S T" fs_core_fee_paid
    "staking_update_do_evaluate S op" "staking_update_do_apply S op" staking_inv for op
  by unfold_locales (auto simp: credits_zero staking_update_effect staking_inv_fee_frame staking_inv_balances intro: staking_update_keeps)

sublocale charging < staking_claim: preserving_evaluator S "pay_fee S T" fs_core_fee_paid
    "staking_claim_do_evaluate op" "staking_claim_do_apply S op" "\<lambda>db. staking_inv db \<and> claim_regular (sc_staking_id op) db" for op
  by unfold_locales (auto simp: credits_zero staking_claim_effect staking_inv_fee_frame staking_inv_balances
      claim_regular_fee_frame claim_regular_balances dest: staking_claim_keeps)

context charging
begin

lemma staking_create_sound:
  assumes "staking_create_evaluator S T required op db = Inr db'" "db_ok db" "balances_ok db"
  shows "conserves db db'" and "staking_inv db \<Longrightarrow> staking_inv db'"
  using staking_create.start_evaluate_conserves staking_create.start_evaluate_keeps assms fees_charged
  unfolding staking_create_evaluator_def by blast+

lemma staking_update_sound:
  assumes "staking_update_evaluator S T required op db = Inr db'" "db_ok db" "balances_ok db"
  shows "conserves db db'" and "staking_inv db \<Longrightarrow> staking_inv db'"
  using staking_update.start_evaluate_conserves staking_update.start_evaluate_keeps assms fees_charged
  unfolding staking_update_evaluator_def by blast+

lemma staking_claim_sound:
  assumes "staking_claim_evaluator S T required op db = Inr db'" "db_ok db" "balances_ok db"
  shows "conserves db db'" and "staking_inv db \<Longrightarrow> claim_regular (sc_staking_id op) db \<Longrightarrow> staking_inv db'"
  using staking_claim.start_evaluate_conserves staking_claim.start_evaluate_keeps assms fees_charged
  unfolding staking_claim_evaluator_def by blast+

text \<open>A claim while the staking mode is off takes the votes away even when maintenance has already done so.\<close>

lemma staking_claim_twice:
  assumes run: "staking_claim_evaluator S T required op db = Inr db'" and ok: "db_ok db" "balances_ok db" and votes: "votes_ok db"
    and s: "index_find (db_stakings db) (sc_staking_id op) = Some s" "\<not> sk_is_valid s" "\<not> staking_mode_on (get_vote_params db)"
    and w: "index_find (db_witnesses db) (sk_trust_node s) = Some w" "amount (sk_amount s) * uint (sk_weight s) \<le> wt_total_vote_weights w"
  shows "\<exists>w'. index_find (db_witnesses db') (sk_trust_node s) = Some w' \<and>
    wt_total_vote_weights w' = table_sum (votes_for (sk_trust_node s)) (db_stakings db') - amount (sk_amount s) * uint (sk_weight s)"
proof -
  obtain fs x db2 db3 where ap: "staking_claim_do_apply S op x db2 = Inr db3" and ok2: "db_ok db2" "balances_ok db2" and f: "fee_frame db db2"
    and adj: "adjust_balance S (sc_owner op) (mk_asset (- amount (sc_fee op)) (asset_id (sc_fee op))) db3 = Inr db'"
    using run [unfolded staking_claim_evaluator_def] ok fees_charged by (rule default_pay.start_evaluate_steps) (rule that)
  note F = fee_frame_fields [OF f]
  have ok3: "db_ok db3" "balances_ok db3" using staking_claim_effect(1) [OF ap ok2] by (auto simp: conserves_def)
  note A = adjusted_fields [OF adjust_balance_adjusted [OF adj ok3]]
  have "\<not> staking_mode_on (get_vote_params db2)" using s(3) F(14) by (simp add: get_vote_params_def)
  with staking_claim_effect(3) [OF ap ok2] s(1) w(1)
  have "index_find (db_witnesses db3) = (index_find (db_witnesses db))(sk_trust_node s \<mapsto> w\<lparr>wt_total_vote_weights :=
      wt_total_vote_weights w - min (amount (sk_amount s) * uint (sk_weight s)) (wt_total_vote_weights w)\<rparr>)"
    and "\<forall>f. table_sum f (db_stakings db3) = table_sum f (db_stakings db) - f s"
    by (auto simp: F)
  moreover have "wt_total_vote_weights w = table_sum (votes_for (sk_trust_node s)) (db_stakings db)" "votes_for (sk_trust_node s) s = 0"
    using votes w(1) s(2) by (auto simp: votes_ok_def votes_for_def)
  ultimately show ?thesis using w(2) by (simp add: A)
qed

end

section \<open>Properties of staking\<close>

text \<open>C33.
  Creating and moving a staking conserve every asset and keep the votes of every witness equal to
  the weighted sum of the valid stakings for it (\<open>staking_inv\<close>, which also says that no staking and no least
  amount is negative). Claiming a staking conserves every asset too, and keeps the votes while the staking mode is on,
  or when the staking is valid. The one case left out breaks the votes: claiming a staking that has been invalidated
  while the mode is off, which \<open>claim_subtracts_votes_twice\<close> below describes.
\<close>

theorem staking_votes_invariant:
  assumes "charging S T" and "db_ok db" "balances_ok db" "staking_inv db"
  shows "(staking_create_evaluator S T required cop db = Inr db' \<or> staking_update_evaluator S T required uop db = Inr db' \<longrightarrow>
      conserves db db' \<and> staking_inv db') \<and>
    (staking_claim_evaluator S T required lop db = Inr db' \<longrightarrow> conserves db db' \<and>
      (staking_mode_on (get_vote_params db) \<or> (\<forall>s. index_find (db_stakings db) (sc_staking_id lop) = Some s \<longrightarrow> sk_is_valid s) \<longrightarrow>
       staking_inv db'))"
  using charging.staking_create_sound [OF assms(1) _ assms(2,3)] charging.staking_update_sound [OF assms(1) _ assms(2,3)]
    charging.staking_claim_sound [OF assms(1) _ assms(2,3)] assms(4)
  unfolding claim_regular_def by metis

definition sample_staking :: "bool \<Rightarrow> staking_object" where
  "sample_staking valid = \<lparr>sk_owner = 9, sk_create_date_time = 1690000000, sk_staking_days = 30, sk_weight = 2, sk_program_id = ''p'',
     sk_amount = mk_asset 500 1, sk_trust_node = 3, sk_is_valid = valid\<rparr>"

definition staking_db :: "bool \<Rightarrow> database" where
  "staking_db valid = witness_db\<lparr>
     db_stakings := \<lparr>next_id = 2, rows = [(0, sample_staking True), (1, sample_staking valid)]\<rparr>,
     db_witnesses := \<lparr>next_id = 4, rows = [(3, (sample_witness 3)\<lparr>wt_total_vote_weights := if valid then 2000 else 1000\<rparr>)]\<rparr>\<rparr>"

lemma staking_db_ok: "db_ok (staking_db v)" "balances_ok (staking_db v)"
proof -
  have "index_ok witness_uk (db_witnesses (staking_db v))" "index_ok no_uk (db_stakings (staking_db v))"
    by (rule index_okI; simp add: staking_db_def sample_witness_def witness_uk_def vote_instance_def no_uk_def)+
  with witness_db_ok show "db_ok (staking_db v)" by (simp add: db_ok_def tables_ok_def dyn_links_ok_def staking_db_def)
  show "balances_ok (staking_db v)" using issuer_db_balances_ok by (simp add: balances_ok_def staking_db_def witness_db_def)
qed

lemma staking_db_votes: "votes_ok (staking_db v)"
  by (auto simp: votes_ok_def staking_db_def index_find_def table_sum_def votes_for_def sample_staking_def)

lemma staking_db_params: "get_vote_params (staking_db v) = default_vote_params"
  by (simp add: get_vote_params_def params_def staking_db_def witness_db_def issuer_db_def chain_db_def sample_params_def)

definition sample_claim :: staking_claim_operation where
  "sample_claim = \<lparr>sc_fee = mk_asset 100 1, sc_owner = 9, sc_staking_id = 1, sc_extensions = []\<rparr>"

lemma sample_claim_runs: "\<exists>db'. staking_claim_evaluator int64_ops new_evaluation_state (Inr 20) sample_claim (staking_db v) = Inr db'"
proof -
  have "\<not> isl (staking_claim_evaluator int64_ops new_evaluation_state (Inr 20) sample_claim (staking_db True))"
    "\<not> isl (staking_claim_evaluator int64_ops new_evaluation_state (Inr 20) sample_claim (staking_db False))" by code_simp+
  then show ?thesis by (cases v) (auto dest!: not_isl_Inr)
qed

theorem staking_votes_invariant_witness:
  "\<exists>db'. staking_claim_evaluator int64_ops new_evaluation_state (Inr 20) sample_claim (staking_db True) = Inr db' \<and>
    conserves (staking_db True) db' \<and> staking_inv db'"
proof -
  have all: "0 \<le> amount (sk_amount s) \<and> sk_is_valid s" if "index_find (db_stakings (staking_db True)) i = Some s" for i s
    using that by (auto simp: staking_db_def index_find_def sample_staking_def split: if_splits)
  then have "staking_inv (staking_db True)"
    using staking_db_votes unfolding staking_inv_def staking_db_params by (auto simp: default_vote_params_def)
  with staking_votes_invariant [OF std.charging_axioms staking_db_ok] sample_claim_runs all show ?thesis by blast
qed

text \<open>
  The total of a witness's votes can fall below its valid stakings: once the staking mode is switched off,
  claiming a staking that maintenance had already invalidated (and whose votes it had already taken away)
  takes them away a second time.
\<close>

theorem claim_subtracts_votes_twice:
  assumes "charging S T" and "db_ok db" "balances_ok db" "votes_ok db"
    and "staking_claim_evaluator S T required op db = Inr db'"
    and "index_find (db_stakings db) (sc_staking_id op) = Some s" "\<not> sk_is_valid s" "\<not> staking_mode_on (get_vote_params db)"
    and "index_find (db_witnesses db) (sk_trust_node s) = Some w" "amount (sk_amount s) * uint (sk_weight s) \<le> wt_total_vote_weights w"
  shows "\<exists>w'. index_find (db_witnesses db') (sk_trust_node s) = Some w' \<and>
    wt_total_vote_weights w' = table_sum (votes_for (sk_trust_node s)) (db_stakings db') - amount (sk_amount s) * uint (sk_weight s)"
  using charging.staking_claim_twice [OF assms(1,5,2,3,4,6-10)] .

theorem claim_subtracts_votes_twice_witness:
  "\<exists>db' w'. staking_claim_evaluator int64_ops new_evaluation_state (Inr 20) sample_claim (staking_db False) = Inr db' \<and>
    index_find (db_witnesses db') 3 = Some w' \<and>
    wt_total_vote_weights w' = table_sum (votes_for 3) (db_stakings db') - 1000"
proof -
  obtain db' where d: "staking_claim_evaluator int64_ops new_evaluation_state (Inr 20) sample_claim (staking_db False) = Inr db'"
    using sample_claim_runs by blast
  have "index_find (db_stakings (staking_db False)) (sc_staking_id sample_claim) = Some (sample_staking False)"
    "\<not> sk_is_valid (sample_staking False)" "\<not> staking_mode_on (get_vote_params (staking_db False))"
    "index_find (db_witnesses (staking_db False)) (sk_trust_node (sample_staking False)) =
      Some ((sample_witness 3)\<lparr>wt_total_vote_weights := 1000\<rparr>)"
    "amount (sk_amount (sample_staking False)) * uint (sk_weight (sample_staking False)) \<le>
      wt_total_vote_weights ((sample_witness 3)\<lparr>wt_total_vote_weights := 1000\<rparr>)"
    unfolding staking_db_params by (simp_all add: staking_db_def index_find_def sample_claim_def sample_staking_def default_vote_params_def)
  from claim_subtracts_votes_twice [OF std.charging_axioms staking_db_ok staking_db_votes d this] d show ?thesis
    by (auto simp: sample_staking_def)
qed

end
