(* ===== verification/Budget.thy ===== *)
theory Budget
  imports Asset_Ops
begin

text \<open>
  The budget of a maintenance interval and the time of the next one (db_maint.cpp): accumulated fees and
  the unspent witness budget go back to the reserve, a new witness budget comes out of it, and the supply
  of the core asset moves by the difference.

  The record of the budget, which the code stores in an index of its own, is returned beside the new state.
  Times are unsigned 32-bit; the products of the budget are unsigned 64-bit and 128-bit.
\<close>

section \<open>The budget\<close>

record budget_record =
  br_time_since_last_budget :: nat
  br_from_initial_reserve :: share_type
  br_from_accumulated_fees :: share_type
  br_from_unused_witness_budget :: share_type
  br_requested_witness_budget :: share_type
  br_total_budget :: share_type
  br_witness_budget :: share_type
  br_supply_delta :: share_type

record budget_record_object =
  bo_time :: time_point_sec
  bo_record :: budget_record

definition new_budget_record :: budget_record where
  "new_budget_record = \<lparr>br_time_since_last_budget = 0, br_from_initial_reserve = 0, br_from_accumulated_fees = 0,
     br_from_unused_witness_budget = 0, br_requested_witness_budget = 0, br_total_budget = 0, br_witness_budget = 0, br_supply_delta = 0\<rparr>"

definition GRAPHENE_CORE_ASSET_CYCLE_RATE :: int where
  "GRAPHENE_CORE_ASSET_CYCLE_RATE = 17"

definition GRAPHENE_CORE_ASSET_CYCLE_RATE_BITS :: nat where
  "GRAPHENE_CORE_ASSET_CYCLE_RATE_BITS = 32"

definition reserved :: "safe_ops \<Rightarrow> asset_object \<Rightarrow> asset_dynamic_data_object \<Rightarrow> share_type result" where
  "reserved S a d = safe_sub S (opt_max_supply (at_options a)) (dd_current_supply d)"

definition cycle_budget :: "share_type \<Rightarrow> nat \<Rightarrow> uint128" where
  "cycle_budget reserve dt =
     drop_bit GRAPHENE_CORE_ASSET_CYCLE_RATE_BITS
       (u128 reserve * of_nat dt * u128 GRAPHENE_CORE_ASSET_CYCLE_RATE + (push_bit GRAPHENE_CORE_ASSET_CYCLE_RATE_BITS 1 - 1))"

definition core_objects :: "database \<Rightarrow> (asset_object \<times> asset_dynamic_data_object) result" where
  "core_objects db =
     rbind (index_get (db_assets db) (if head_block_time db > HARDFORK_1008_TIME then 1 else 0)) (\<lambda>a.
     rbind (index_get (db_dynamic_data db) (at_dynamic_asset_data_id a)) (\<lambda>d. Inr (a, d)))"

definition initialize_budget_record :: "safe_ops \<Rightarrow> time_point_sec \<Rightarrow> database \<Rightarrow> budget_record result" where
  "initialize_budget_record S now db =
     rbind (core_objects db) (\<lambda>(core, core_dd).
     rbind (reserved S core core_dd) (\<lambda>initial.
     let dpo = db_dynamic db;
         rec = new_budget_record\<lparr>br_from_initial_reserve := initial, br_from_accumulated_fees := dd_accumulated_fees core_dd,
           br_from_unused_witness_budget := dg_witness_budget dpo\<rparr> in
     if dg_last_budget_time dpo = 0 \<or> now \<le> dg_last_budget_time dpo then Inr (rec\<lparr>br_time_since_last_budget := 0\<rparr>)
     else let dt = now - dg_last_budget_time dpo in
       rbind (safe_add S initial (dd_accumulated_fees core_dd)) (\<lambda>r.
       rbind (safe_add S r (dg_witness_budget dpo)) (\<lambda>reserve.
       let budget = cycle_budget reserve dt in
       Inr (rec\<lparr>br_time_since_last_budget := dt, br_total_budget :=
         (if head_block_time db \<le> HARDFORK_1008_TIME \<and> budget < u128 reserve then to_uint64 budget else reserve)\<rparr>)))))"

definition blocks_to_maint :: "database \<Rightarrow> nat result" where
  "blocks_to_maint db =
     (let time_to_maint = int (dg_next_maintenance_time (db_dynamic db)) - int (head_block_time db);
          interval = cp_block_interval (params db)
      in ensure (interval \<noteq> 0) Undefined_behaviour
        (Inr (nat ((time_to_maint + int interval - 1) mod 2 ^ 64) div interval)))"

definition process_budget :: "safe_ops \<Rightarrow> database \<Rightarrow> (database \<times> budget_record_object) result" where
  "process_budget S db =
     rbind (core_objects db) (\<lambda>(core, core_dd).
     let now = head_block_time db in
     rbind (blocks_to_maint db) (\<lambda>blocks.
     rbind (initialize_budget_record S now db) (\<lambda>rec.
     let requested = wrap64 (cp_witness_pay_per_block (params db) * int blocks);
         witness_budget = min requested (br_total_budget rec) in
     rbind (safe_sub S (br_total_budget rec) witness_budget) (\<lambda>available_funds.
     rbind (safe_sub S witness_budget (br_from_accumulated_fees rec)) (\<lambda>part.
     rbind (safe_sub S part (br_from_unused_witness_budget rec)) (\<lambda>supply_delta.
     rbind (modify_dynamic_data (at_dynamic_asset_data_id core) (\<lambda>d.
              rbind (safe_add S (dd_current_supply d) supply_delta) (\<lambda>supply.
              Inr (d\<lparr>dd_current_supply := supply, dd_accumulated_fees := 0\<rparr>))) db) (\<lambda>db1.
     Inr (db1\<lparr>db_dynamic := (db_dynamic db1)\<lparr>dg_witness_budget := witness_budget, dg_last_budget_time := now\<rparr>\<rparr>,
          \<lparr>bo_time = now, bo_record = rec\<lparr>br_requested_witness_budget := requested, br_witness_budget := witness_budget,
            br_supply_delta := supply_delta\<rparr>\<rparr>))))))))"

section \<open>The next maintenance\<close>

definition next_maintenance :: "nat \<Rightarrow> time_point_sec \<Rightarrow> database \<Rightarrow> time_point_sec result" where
  "next_maintenance block_num timestamp db =
     (let next_maintenance_time = dg_next_maintenance_time (db_dynamic db);
          maintenance_interval = cp_maintenance_interval (params db) in
      if next_maintenance_time \<le> timestamp then
        ensure (maintenance_interval \<noteq> 0) Undefined_behaviour
        (if block_num = 1 then Inr ((timestamp div maintenance_interval + 1) * maintenance_interval mod 2 ^ 32)
         else let y = trunc_div (int (head_block_time db) - int next_maintenance_time) (int maintenance_interval)
              in Inr (nat ((int next_maintenance_time + (y + 1) * int maintenance_interval) mod 2 ^ 32)))
      else Inr next_maintenance_time)"

definition set_next_maintenance :: "nat \<Rightarrow> time_point_sec \<Rightarrow> database \<Rightarrow> database result" where
  "set_next_maintenance block_num timestamp db =
     rbind (next_maintenance block_num timestamp db) (\<lambda>t.
     Inr (db\<lparr>db_dynamic := (db_dynamic db)\<lparr>dg_next_maintenance_time := t, dg_accounts_registered_this_interval := 0\<rparr>\<rparr>))"

section \<open>Effects\<close>

lemma core_objects_Inr [result_simps]:
  "core_objects db = Inr (a, d) \<longleftrightarrow> index_find (db_assets db) (current_core_asset_id db) = Some a \<and>
    index_find (db_dynamic_data db) (at_dynamic_asset_data_id a) = Some d"
  by (auto simp: core_objects_def current_core_asset_id_def result_simps)

context checked_int64
begin

lemma process_budget_step:
  assumes "process_budget S db = Inr (db', rec)"
  obtains a d initial db1 w where "core_objects db = Inr (a, d)"
    and "initial = opt_max_supply (at_options a) - dd_current_supply d"
    and "w = br_witness_budget (bo_record rec)" and "w \<le> br_total_budget (bo_record rec)"
    and "br_total_budget (bo_record rec) \<noteq> 0 \<Longrightarrow> head_block_time db > HARDFORK_1008_TIME \<Longrightarrow>
      br_total_budget (bo_record rec) = initial + dd_accumulated_fees d + dg_witness_budget (db_dynamic db)"
    and "modify_dynamic_data (at_dynamic_asset_data_id a) (\<lambda>x. rbind (safe_add S (dd_current_supply x)
        (w - dd_accumulated_fees d - dg_witness_budget (db_dynamic db))) (\<lambda>s. Inr (x\<lparr>dd_current_supply := s, dd_accumulated_fees := 0\<rparr>))) db = Inr db1"
    and "db' = db1\<lparr>db_dynamic := (db_dynamic db1)\<lparr>dg_witness_budget := w, dg_last_budget_time := head_block_time db\<rparr>\<rparr>"
proof -
  from assms obtain a d r w where co: "core_objects db = Inr (a, d)" and i: "initialize_budget_record S (head_block_time db) db = Inr r"
    and w: "w = br_witness_budget (bo_record rec)" "w \<le> br_total_budget r" "br_total_budget (bo_record rec) = br_total_budget r"
    and m: "\<exists>db1. modify_dynamic_data (at_dynamic_asset_data_id a) (\<lambda>x. rbind (safe_add S (dd_current_supply x)
        (w - br_from_accumulated_fees r - br_from_unused_witness_budget r)) (\<lambda>s. Inr (x\<lparr>dd_current_supply := s, dd_accumulated_fees := 0\<rparr>))) db = Inr db1 \<and>
      db' = db1\<lparr>db_dynamic := (db_dynamic db1)\<lparr>dg_witness_budget := w, dg_last_budget_time := head_block_time db\<rparr>\<rparr>"
    by (auto simp: process_budget_def Let_def rbind_Inr safe_sub_Inr)
  have r: "br_from_accumulated_fees r = dd_accumulated_fees d" "br_from_unused_witness_budget r = dg_witness_budget (db_dynamic db)"
    "br_total_budget r \<noteq> 0 \<Longrightarrow> head_block_time db > HARDFORK_1008_TIME \<Longrightarrow>
      br_total_budget r = opt_max_supply (at_options a) - dd_current_supply d + dd_accumulated_fees d + dg_witness_budget (db_dynamic db)"
    using i co by (auto simp: initialize_budget_record_def new_budget_record_def reserved_def Let_def rbind_Inr safe_sub_Inr safe_add_Inr
        split: if_splits)
  from m obtain db1 where "modify_dynamic_data (at_dynamic_asset_data_id a) (\<lambda>x. rbind (safe_add S (dd_current_supply x)
        (w - br_from_accumulated_fees r - br_from_unused_witness_budget r)) (\<lambda>s. Inr (x\<lparr>dd_current_supply := s, dd_accumulated_fees := 0\<rparr>))) db = Inr db1"
    "db' = db1\<lparr>db_dynamic := (db_dynamic db1)\<lparr>dg_witness_budget := w, dg_last_budget_time := head_block_time db\<rparr>\<rparr>" by blast
  then show thesis
    by (intro that [OF co refl w(1)]) (use w r in simp_all)
qed

lemma process_budget_effect:
  assumes p: "process_budget S db = Inr (db', rec)" and ok: "db_ok db" "balances_ok db"
  obtains a d d' where "core_objects db = Inr (a, d)" and "core_objects db' = Inr (a, d')" and "conserves db db'"
    and "dd_current_supply d' = dd_current_supply d + br_witness_budget (bo_record rec) - dd_accumulated_fees d - dg_witness_budget (db_dynamic db)"
    and "dd_accumulated_fees d' = 0" and "dg_witness_budget (db_dynamic db') = br_witness_budget (bo_record rec)"
    and "br_witness_budget (bo_record rec) \<le> br_total_budget (bo_record rec)"
    and "br_total_budget (bo_record rec) \<noteq> 0 \<Longrightarrow> head_block_time db > HARDFORK_1008_TIME \<Longrightarrow> br_total_budget (bo_record rec) =
      opt_max_supply (at_options a) - dd_current_supply d + dd_accumulated_fees d + dg_witness_budget (db_dynamic db)"
proof -
  let ?core = "current_core_asset_id db" and ?old = "dg_witness_budget (db_dynamic db)"
  from p obtain a d initial db1 w where co: "core_objects db = Inr (a, d)"
    and i: "initial = opt_max_supply (at_options a) - dd_current_supply d"
    and w: "w = br_witness_budget (bo_record rec)" "w \<le> br_total_budget (bo_record rec)"
    "br_total_budget (bo_record rec) \<noteq> 0 \<Longrightarrow> head_block_time db > HARDFORK_1008_TIME \<Longrightarrow>
      br_total_budget (bo_record rec) = initial + dd_accumulated_fees d + ?old"
    and m: "modify_dynamic_data (at_dynamic_asset_data_id a) (\<lambda>x. rbind (safe_add S (dd_current_supply x)
        (w - dd_accumulated_fees d - ?old)) (\<lambda>s. Inr (x\<lparr>dd_current_supply := s, dd_accumulated_fees := 0\<rparr>))) db = Inr db1"
    and db': "db' = db1\<lparr>db_dynamic := (db_dynamic db1)\<lparr>dg_witness_budget := w, dg_last_budget_time := head_block_time db\<rparr>\<rparr>"
    by (rule process_budget_step) (rule that)
  from co have a: "index_find (db_assets db) ?core = Some a" "index_find (db_dynamic_data db) (at_dynamic_asset_data_id a) = Some d"
    by (simp_all add: core_objects_Inr)
  obtain x y where x: "index_find (db_dynamic_data db) (at_dynamic_asset_data_id a) = Some x"
    and y: "rbind (safe_add S (dd_current_supply x) (w - dd_accumulated_fees d - ?old)) (\<lambda>s. Inr (x\<lparr>dd_current_supply := s, dd_accumulated_fees := 0\<rparr>)) = Inr y"
    and f: "index_find (db_dynamic_data db1) = (index_find (db_dynamic_data db))(at_dynamic_asset_data_id a \<mapsto> y)"
    and db1: "db1 = db\<lparr>db_dynamic_data := db_dynamic_data db1\<rparr>" and ok1: "db_ok db1"
    and su: "\<forall>k. surplus db1 k = surplus db k + (if dyn_id db k = Some (at_dynamic_asset_data_id a) then dyn_net y - dyn_net x else 0) +
      (if k = ?core then dd_fee_pool y - dd_fee_pool x else 0)"
    using m ok(1) by (rule modify_dynamic_data_effect) (rule that)
  have y': "y = d\<lparr>dd_current_supply := dd_current_supply d + w - dd_accumulated_fees d - ?old, dd_accumulated_fees := 0\<rparr>"
    using x y a(2) by (auto simp: result_simps algebra_simps)
  have dyn: "db_dynamic db1 = db_dynamic db" "db_assets db1 = db_assets db" "balances_ok db1 = balances_ok db"
    by (subst db1, simp add: balances_ok_def)+
  have "dyn_id db ?core = Some (at_dynamic_asset_data_id a)" using a(1) by (simp add: dyn_id_def)
  then have only: "dyn_id db k = Some (at_dynamic_asset_data_id a) \<longleftrightarrow> k = ?core" for k
    using ok(1) by (auto simp: db_ok_def dyn_links_ok_def)
  have core1: "current_core_asset_id db1 = ?core" "head_block_time db1 = head_block_time db"
    using dyn(1) by (simp_all add: current_core_asset_id_def head_block_time_def)
  have core': "current_core_asset_id db' = ?core" "db_ok db'"
    using ok1 core1 by (simp_all add: db' dynamic_update_effect)
  have "surplus db1 k = surplus db k + (if k = ?core then ?old - w else 0)" for k
    using su x a(2) by (simp add: only y' dyn_net_def)
  then have "surplus db' = surplus db"
    by (auto simp: db' dynamic_update_effect core1 dyn fun_eq_iff)
  with core' ok(2) dyn(3) have c: "conserves db db'" by (simp add: conserves_def db' balances_ok_def)
  have co': "core_objects db' = Inr (a, y)"
    unfolding core_objects_Inr core'(1) using a(1) f by (simp add: db' dyn(2))
  show thesis
    by (rule that [OF co co' c]) (use w i in \<open>simp_all add: y' db'\<close>)
qed

end

lemma next_maintenance_later:
  assumes t: "next_maintenance n timestamp db = Inr t" and due: "dg_next_maintenance_time (db_dynamic db) \<le> timestamp"
    and now: "head_block_time db = timestamp" and fits: "timestamp + cp_maintenance_interval (params db) < 2 ^ 32"
  shows "timestamp < t" and "t \<le> timestamp + cp_maintenance_interval (params db)"
    and "n \<noteq> 1 \<Longrightarrow> (t - dg_next_maintenance_time (db_dynamic db)) mod cp_maintenance_interval (params db) = 0"
    and "n = 1 \<Longrightarrow> t mod cp_maintenance_interval (params db) = 0"
proof -
  define I where "I = cp_maintenance_interval (params db)"
  define m where "m = dg_next_maintenance_time (db_dynamic db)"
  have I: "I \<noteq> 0" using t due by (auto simp: next_maintenance_def Let_def I_def ensure_def split: if_splits)
  define b where "b = (if n = 1 then 0 else m)"
  define q where "q = (timestamp - b) div I"
  have b: "b \<le> timestamp" using due by (simp add: b_def m_def)
  have "timestamp - b = q * I + (timestamp - b) mod I" "(timestamp - b) mod I < I" "(q + 1) * I = q * I + I"
    using I unfolding q_def by simp_all
  then have decomp: "b + q * I \<le> timestamp" "timestamp < b + (q + 1) * I" using b by linarith+
  then have small: "b + (q + 1) * I < 2 ^ 32" using fits by (simp add: I_def)
  have "t = b + (q + 1) * I"
  proof (cases "n = 1")
    case True
    then have "t = (timestamp div I + 1) * I mod 2 ^ 32"
      using t due I by (simp add: next_maintenance_def Let_def I_def)
    with True small show ?thesis by (simp add: b_def q_def)
  next
    case False
    have "trunc_div (int timestamp - int m) (int I) = int q"
      using due False by (simp add: trunc_div_nonneg q_def b_def m_def zdiv_int of_nat_diff)
    then have "t = nat ((int m + (int q + 1) * int I) mod 2 ^ 32)"
      using t due I now False by (simp add: next_maintenance_def Let_def I_def m_def)
    also have "int m + (int q + 1) * int I = int (b + (q + 1) * I)" using False by (simp add: b_def algebra_simps)
    also have "int (b + (q + 1) * I) mod 2 ^ 32 = int (b + (q + 1) * I)"
      using small by (metis mod_less of_nat_numeral of_nat_power zmod_int)
    finally show ?thesis by (simp only: nat_int)
  qed
  with decomp show "timestamp < t" "t \<le> timestamp + cp_maintenance_interval (params db)" by (simp_all add: I_def)
  show "n \<noteq> 1 \<Longrightarrow> (t - dg_next_maintenance_time (db_dynamic db)) mod cp_maintenance_interval (params db) = 0"
    using \<open>t = b + (q + 1) * I\<close> by (simp add: b_def m_def I_def)
  show "n = 1 \<Longrightarrow> t mod cp_maintenance_interval (params db) = 0"
    using \<open>t = b + (q + 1) * I\<close> by (simp add: b_def I_def)
qed

section \<open>Properties of the budget\<close>

text \<open>C37.
  Setting the budget of an interval conserves every asset: the core supply moves by exactly what enters the
  witness budget less what the fees and the old budget give back. A supply within its maximum stays within it.
\<close>

theorem process_budget_conserves:
  assumes "checked_int64 S" and "db_ok db" "balances_ok db" and "process_budget S db = Inr (db', rec)"
    and "core_objects db = Inr (a, d)" and "dd_current_supply d \<le> opt_max_supply (at_options a)"
    and "0 \<le> dd_accumulated_fees d" "0 \<le> dg_witness_budget (db_dynamic db)" and "HARDFORK_1008_TIME < head_block_time db"
  shows "conserves db db' \<and> dg_witness_budget (db_dynamic db') = br_witness_budget (bo_record rec) \<and>
    (\<exists>d'. core_objects db' = Inr (a, d') \<and> dd_accumulated_fees d' = 0 \<and>
      dd_current_supply d' = dd_current_supply d + br_witness_budget (bo_record rec) - dd_accumulated_fees d - dg_witness_budget (db_dynamic db) \<and>
      dd_current_supply d' \<le> opt_max_supply (at_options a))"
proof -
  from assms(1,4,2,3) obtain a' e d' where "core_objects db = Inr (a', e)" and p: "core_objects db' = Inr (a', d')" "conserves db db'"
    "dd_current_supply d' = dd_current_supply e + br_witness_budget (bo_record rec) - dd_accumulated_fees e - dg_witness_budget (db_dynamic db)"
    "dd_accumulated_fees d' = 0" "dg_witness_budget (db_dynamic db') = br_witness_budget (bo_record rec)"
    "br_witness_budget (bo_record rec) \<le> br_total_budget (bo_record rec)"
    "br_total_budget (bo_record rec) \<noteq> 0 \<Longrightarrow> head_block_time db > HARDFORK_1008_TIME \<Longrightarrow> br_total_budget (bo_record rec) =
      opt_max_supply (at_options a') - dd_current_supply e + dd_accumulated_fees e + dg_witness_budget (db_dynamic db)"
    by (rule checked_int64.process_budget_effect) (rule that)
  then have "a' = a" "e = d" using assms(5) by simp_all
  with p assms(6-9) show ?thesis by (cases "br_total_budget (bo_record rec) = 0") auto
qed

definition budget_db :: database where
  "budget_db = issuer_db\<lparr>db_dynamic := (db_dynamic issuer_db)\<lparr>dg_witness_budget := 70, dg_last_budget_time := 1699990000\<rparr>\<rparr>"

lemma budget_db_ok: "db_ok budget_db" "balances_ok budget_db"
  using issuer_db_ok issuer_db_balances_ok by (simp_all add: budget_db_def dynamic_update_effect balances_ok_def)

theorem process_budget_conserves_witness:
  "\<exists>db' rec. process_budget int64_ops budget_db = Inr (db', rec) \<and> conserves budget_db db' \<and>
    (\<exists>a d'. core_objects db' = Inr (a, d') \<and> dd_current_supply d' \<le> opt_max_supply (at_options a))"
proof -
  have "\<not> isl (process_budget int64_ops budget_db)" by code_simp
  then obtain db' rec where p: "process_budget int64_ops budget_db = Inr (db', rec)" by (metis not_isl_Inr surj_pair)
  have t: "head_block_time budget_db = 1700000001"
    by (simp add: budget_db_def issuer_db_def chain_db_def sample_dynamic_def head_block_time_def)
  have "core_objects budget_db = Inr (sample_asset 1, sample_dynamic_data)"
    unfolding core_objects_def t using chain_assets [of 1] chain_dynamic_data [of 1]
    by (simp add: budget_db_def issuer_db_def HARDFORK_1008_TIME_def index_get_def sample_asset_def)
  from process_budget_conserves [OF int64_ops_checked budget_db_ok p this] p t show ?thesis
    by (auto simp: sample_asset_def sample_options_def sample_dynamic_data_def budget_db_def HARDFORK_1008_TIME_def)
qed

text \<open>C38.
  When a maintenance is due, the next one is always found, for a positive interval and times below \<open>2^32\<close>: it lies
  after the block, by at most one interval, and a whole number of intervals after the maintenance that was due, or
  after the epoch when the block is the first of the chain. These conditions leave one time only, the first such
  time after the block.
\<close>

theorem next_maintenance_is_next:
  assumes "dg_next_maintenance_time (db_dynamic db) \<le> timestamp" and "head_block_time db = timestamp"
    and "0 < cp_maintenance_interval (params db)" and "timestamp + cp_maintenance_interval (params db) < 2 ^ 32"
  shows "\<exists>t. next_maintenance n timestamp db = Inr t \<and> timestamp < t \<and> t \<le> timestamp + cp_maintenance_interval (params db) \<and>
    (if n = 1 then t mod cp_maintenance_interval (params db) = 0
     else (t - dg_next_maintenance_time (db_dynamic db)) mod cp_maintenance_interval (params db) = 0)"
proof -
  obtain t where t: "next_maintenance n timestamp db = Inr t"
    using assms(1,3) by (cases "n = 1") (auto simp: next_maintenance_def Let_def)
  with next_maintenance_later [OF t assms(1,2,4)] show ?thesis by auto
qed

theorem next_maintenance_is_next_witness:
  "\<exists>t. next_maintenance 7 1700000001 (budget_db\<lparr>db_dynamic := (db_dynamic budget_db)\<lparr>dg_next_maintenance_time := 1699990000\<rparr>\<rparr>) = Inr t \<and>
    1700000001 < t \<and> t \<le> 1700000001 + 3600 \<and> (t - 1699990000) mod 3600 = 0"
proof -
  let ?db = "budget_db\<lparr>db_dynamic := (db_dynamic budget_db)\<lparr>dg_next_maintenance_time := 1699990000\<rparr>\<rparr>"
  have "cp_maintenance_interval (params ?db) = 3600" "head_block_time ?db = 1700000001" "dg_next_maintenance_time (db_dynamic ?db) = 1699990000"
    by (simp_all add: params_def budget_db_def issuer_db_def chain_db_def sample_params_def sample_dynamic_def head_block_time_def)
  with next_maintenance_is_next [of ?db 1700000001 7] show ?thesis by auto
qed

end
