(* ===== verification/Witness_Schedule.thy ===== *)
theory Witness_Schedule
  imports Ledger "HOL-Library.Multiset"
begin

text \<open>
  Block slots and witnesses (db_witness_schedule.cpp, db_update.cpp): the time of a slot and the slot of
  a time, the shuffled schedule of witnesses, the bookkeeping of a new block (missed slots, the absolute
  slot number, the witness's pay) and the last irreversible block.

  Times and slot numbers are unsigned 32-bit, \<open>w32\<close> their wrap-around; absolute slots are 64-bit.
  A block enters with the fields the code reads; the head of the fork database and the checkpoints are
  arguments. A division by the size of an empty witness list is the error \<open>Undefined_behaviour\<close>.
\<close>

unbundle bit_operations_syntax

definition w32 :: "nat \<Rightarrow> nat" where
  "w32 n = n mod 2 ^ 32"

section \<open>Slots\<close>

definition maintenance_flag :: u32 where
  "maintenance_flag = 0x01"

definition block_interval :: "database \<Rightarrow> nat" where
  "block_interval db = cp_block_interval (params db)"

definition head_block_num :: "database \<Rightarrow> nat" where
  "head_block_num db = dg_head_block_number (db_dynamic db)"

definition get_slot_time :: "database \<Rightarrow> nat \<Rightarrow> time_point_sec" where
  "get_slot_time db slot_num =
     (if slot_num = 0 then 0
      else if head_block_num db = 0 then w32 (dg_time (db_dynamic db) + w32 (slot_num * block_interval db))
      else let head_block_abs_slot = head_block_time db div block_interval db;
               head_slot_time = w32 (head_block_abs_slot * block_interval db);
               slot = (if dg_dynamic_flags (db_dynamic db) AND maintenance_flag \<noteq> 0
                       then w32 (slot_num + cp_maintenance_skip_slots (params db)) else slot_num)
           in w32 (head_slot_time + w32 (slot * block_interval db)))"

definition get_slot_at_time :: "database \<Rightarrow> time_point_sec \<Rightarrow> nat" where
  "get_slot_at_time db when =
     (let first_slot_time = get_slot_time db 1
      in if when < first_slot_time then 0 else w32 ((when - first_slot_time) div block_interval db + 1))"

definition get_scheduled_witness :: "database \<Rightarrow> nat \<Rightarrow> nat result" where
  "get_scheduled_witness db slot_num =
     (let current_aslot = (dg_current_aslot (db_dynamic db) + slot_num) mod 2 ^ 64;
          ws = db_shuffled_witnesses db
      in ensure (length ws \<noteq> 0) Undefined_behaviour (Inr (ws ! (current_aslot mod length ws))))"

definition popcount :: "uint128 \<Rightarrow> nat" where
  "popcount w = length (filter (bit w) [0..<128])"

definition witness_participation_rate :: "database \<Rightarrow> nat" where
  "witness_participation_rate db = 10000 * popcount (dg_recent_slots_filled (db_dynamic db)) div 128"

section \<open>The shuffled schedule\<close>

definition xorshift :: "64 word \<Rightarrow> 64 word" where
  "xorshift k0 =
     (let k1 = k0 XOR drop_bit 12 k0; k2 = k1 XOR push_bit 25 k1; k3 = k2 XOR drop_bit 27 k2
      in k3 * 2685821657736338717)"

definition swap :: "nat \<Rightarrow> nat \<Rightarrow> 'a list \<Rightarrow> 'a list" where
  "swap i j xs = xs[i := xs ! j, j := xs ! i]"

definition shuffle_step :: "time_point_sec \<Rightarrow> nat \<Rightarrow> nat list \<Rightarrow> nat list" where
  "shuffle_step now i xs =
     (let now_hi = push_bit 32 (of_nat now :: 64 word);
          k = xorshift (now_hi + of_nat i * 2685821657736338717);
          jmax = length xs - i;
          j = i + unat k mod jmax
      in swap i j xs)"

definition shuffle :: "time_point_sec \<Rightarrow> nat list \<Rightarrow> nat list" where
  "shuffle now xs = fold (shuffle_step now) [0..<length xs] xs"

definition update_witness_schedule :: "database \<Rightarrow> database result" where
  "update_witness_schedule db =
     (let active = gp_active_witnesses (db_global db) in
      ensure (length active \<noteq> 0) Undefined_behaviour
      (if head_block_num db mod length active = 0
       then Inr (db\<lparr>db_shuffled_witnesses := shuffle (head_block_time db) active\<rparr>) else Inr db))"

section \<open>A new block\<close>

record applied_block =
  ab_block_num :: nat
  ab_id :: "u32 list"
  ab_timestamp :: time_point_sec
  ab_witness :: nat

definition GRAPHENE_RECENTLY_MISSED_COUNT_INCREMENT :: nat where
  "GRAPHENE_RECENTLY_MISSED_COUNT_INCREMENT = 4"

definition GRAPHENE_RECENTLY_MISSED_COUNT_DECREMENT :: nat where
  "GRAPHENE_RECENTLY_MISSED_COUNT_DECREMENT = 3"

definition GRAPHENE_MAX_UNDO_HISTORY :: nat where
  "GRAPHENE_MAX_UNDO_HISTORY = 10000"

definition GRAPHENE_IRREVERSIBLE_THRESHOLD :: nat where
  "GRAPHENE_IRREVERSIBLE_THRESHOLD = 7000"

definition count_missed :: "nat \<Rightarrow> nat \<Rightarrow> database \<Rightarrow> database result" where
  "count_missed producer i db =
     rbind (get_scheduled_witness db (i + 1)) (\<lambda>w.
     rbind (index_get (db_witnesses db) w) (\<lambda>_.
     if w \<noteq> producer then modify_witness w (\<lambda>x. Inr (x\<lparr>wt_total_missed := wt_total_missed x + 1\<rparr>)) db else Inr db))"

definition update_missed_count :: "nat option \<Rightarrow> nat \<Rightarrow> nat \<Rightarrow> nat \<Rightarrow> nat" where
  "update_missed_count checkpoint num missed_blocks c =
     (if num = 1 then 0
      else if (case checkpoint of None \<Rightarrow> False | Some p \<Rightarrow> p \<ge> num) then 0
      else if missed_blocks \<noteq> 0 then w32 (c + w32 (GRAPHENE_RECENTLY_MISSED_COUNT_INCREMENT * missed_blocks))
      else if c > GRAPHENE_RECENTLY_MISSED_COUNT_INCREMENT then c - GRAPHENE_RECENTLY_MISSED_COUNT_DECREMENT
      else if c > 0 then c - 1 else c)"

definition update_dynamic :: "nat option \<Rightarrow> applied_block \<Rightarrow> nat \<Rightarrow> dynamic_global_property_object \<Rightarrow> dynamic_global_property_object" where
  "update_dynamic checkpoint b missed_blocks d =
     d\<lparr>dg_recently_missed_count := update_missed_count checkpoint (ab_block_num b) missed_blocks (dg_recently_missed_count d),
       dg_head_block_number := ab_block_num b, dg_head_block_id := ab_id b, dg_time := ab_timestamp b,
       dg_current_witness := ab_witness b,
       dg_recent_slots_filled := push_bit missed_blocks (push_bit 1 (dg_recent_slots_filled d) + 1),
       dg_current_aslot := (dg_current_aslot d + w32 (missed_blocks + 1)) mod 2 ^ 64\<rparr>"

definition update_global_dynamic_data ::
  "nat option \<Rightarrow> nat option \<Rightarrow> bool \<Rightarrow> applied_block \<Rightarrow> database \<Rightarrow> (database \<times> nat \<times> nat) result" where
  "update_global_dynamic_data checkpoint fork_head skip_undo_history_check b db =
     (let missed_blocks = w32 (get_slot_at_time db (ab_timestamp b) + (2 ^ 32 - 1)) in
     rbind (fold_result (count_missed (ab_witness b)) [0..<missed_blocks] db) (\<lambda>db1.
     let db2 = db1\<lparr>db_dynamic := update_dynamic checkpoint b missed_blocks (db_dynamic db1)\<rparr>;
         head = dg_head_block_number (db_dynamic db2); irreversible = dg_last_irreversible_block_num (db_dynamic db2);
         head_number = (case fork_head of None \<Rightarrow> head | Some n \<Rightarrow> max head n) in
     ensure (\<not> skip_undo_history_check \<longrightarrow> w32 (head + (2 ^ 32 - irreversible)) < GRAPHENE_MAX_UNDO_HISTORY) Undo_database_exception
       (Inr (db2, w32 (head + (2 ^ 32 - irreversible) + 1), w32 (head_number + (2 ^ 32 - irreversible) + 1)))))"

definition update_signing_witness :: "safe_ops \<Rightarrow> nat \<Rightarrow> applied_block \<Rightarrow> database \<Rightarrow> database result" where
  "update_signing_witness S signing_witness b db =
     (let dpo = db_dynamic db;
          new_block_aslot = (dg_current_aslot dpo + get_slot_at_time db (ab_timestamp b)) mod 2 ^ 64;
          witness_pay = min (cp_witness_pay_per_block (params db)) (dg_witness_budget dpo) in
     rbind (safe_sub S (dg_witness_budget dpo) witness_pay) (\<lambda>budget.
     let db1 = db\<lparr>db_dynamic := dpo\<lparr>dg_witness_budget := budget\<rparr>\<rparr> in
     rbind (if head_block_time db1 > HARDFORK_1025_TIME \<and> staking_mode_on (get_vote_params db1)
            then rbind (safe_mul S witness_pay (int (witness_reward_proportion (get_vote_params db1)))) (\<lambda>p.
                 let witness_rewards = min (trunc_div p 1000) witness_pay in
                 rbind (safe_sub S witness_pay witness_rewards) (\<lambda>rest.
                 rbind (safe_add S (dg_current_staking_reward_pool (db_dynamic db1)) rest) (\<lambda>pool.
                 deposit_witness_pay S signing_witness witness_rewards
                   (db1\<lparr>db_dynamic := (db_dynamic db1)\<lparr>dg_current_staking_reward_pool := pool\<rparr>\<rparr>))))
            else deposit_witness_pay S signing_witness witness_pay db1) (\<lambda>db2.
     modify_witness signing_witness (\<lambda>w.
       Inr (w\<lparr>wt_last_aslot := new_block_aslot, wt_last_confirmed_block_num := ab_block_num b\<rparr>)) db2)))"

section \<open>Irreversible blocks\<close>

fun fetch_witnesses :: "witness_object index_table \<Rightarrow> nat list \<Rightarrow> witness_object list result" where
  "fetch_witnesses t [] = Inr []"
| "fetch_witnesses t (i # is) =
     rbind (index_get t i) (\<lambda>w. rbind (fetch_witnesses t is) (\<lambda>ws. Inr (w # ws)))"

definition irreversible_offset :: "nat \<Rightarrow> nat" where
  "irreversible_offset n = (10000 - GRAPHENE_IRREVERSIBLE_THRESHOLD) * n div 10000"

definition update_last_irreversible_block :: "database \<Rightarrow> database result" where
  "update_last_irreversible_block db =
     rbind (fetch_witnesses (db_witnesses db) (gp_active_witnesses (db_global db))) (\<lambda>wit_objs.
     ensure (wit_objs \<noteq> []) Undefined_behaviour
     (let confirmed = sort (map wt_last_confirmed_block_num wit_objs);
          new_last = confirmed ! irreversible_offset (length wit_objs)
      in if new_last > dg_last_irreversible_block_num (db_dynamic db)
         then Inr (db\<lparr>db_dynamic := (db_dynamic db)\<lparr>dg_last_irreversible_block_num := new_last\<rparr>\<rparr>) else Inr db))"

definition update_maintenance_flag :: "bool \<Rightarrow> database \<Rightarrow> database" where
  "update_maintenance_flag new_maintenance_flag db =
     (let d = db_dynamic db in
      db\<lparr>db_dynamic := d\<lparr>dg_dynamic_flags :=
        (dg_dynamic_flags d AND NOT maintenance_flag) OR (if new_maintenance_flag then maintenance_flag else 0)\<rparr>\<rparr>)"

section \<open>Slot arithmetic\<close>

text \<open>Away from the end of 32-bit time, the time of slot \<open>s\<close> is \<open>s\<close> intervals after \<open>slot_base\<close>.\<close>

definition slot_base :: "database \<Rightarrow> nat" where
  "slot_base db =
     (if head_block_num db = 0 then dg_time (db_dynamic db)
      else head_block_time db div block_interval db * block_interval db +
        (if dg_dynamic_flags (db_dynamic db) AND maintenance_flag \<noteq> 0 then cp_maintenance_skip_slots (params db) * block_interval db else 0))"

lemma w32_small: "n < 2 ^ 32 \<Longrightarrow> w32 n = n"
  by (simp add: w32_def)

lemma get_slot_time_linear:
  assumes I: "0 < block_interval db" and s: "0 < s" and fits: "slot_base db + s * block_interval db < 2 ^ 32"
  shows "get_slot_time db s = slot_base db + s * block_interval db"
proof -
  let ?I = "block_interval db" and ?m = "dg_dynamic_flags (db_dynamic db) AND maintenance_flag \<noteq> 0"
  have le: "n \<le> n * ?I" for n using I by simp
  show ?thesis
  proof (cases "head_block_num db = 0")
    case True
    with fits have "s * ?I < 2 ^ 32" by (simp add: slot_base_def)
    with True fits s show ?thesis by (simp add: get_slot_time_def slot_base_def w32_small)
  next
    case False
    let ?skip = "if ?m then cp_maintenance_skip_slots (params db) else 0"
    have base: "slot_base db = head_block_time db div ?I * ?I + ?skip * ?I" using False by (simp add: slot_base_def)
    have total: "head_block_time db div ?I * ?I + (s + ?skip) * ?I < 2 ^ 32"
      using fits base by (simp add: algebra_simps)
    then have a: "(s + ?skip) * ?I < 2 ^ 32" "head_block_time db div ?I * ?I < 2 ^ 32" by linarith+
    have "s + ?skip < 2 ^ 32" using a(1) le [of "s + ?skip"] by linarith
    then have slot: "(if ?m then w32 (s + cp_maintenance_skip_slots (params db)) else s) = s + ?skip"
      by (simp add: w32_small split: if_splits)
    have "get_slot_time db s = w32 (w32 (head_block_time db div ?I * ?I) + w32 ((s + ?skip) * ?I))"
      using False s slot unfolding get_slot_time_def Let_def by simp
    also have "\<dots> = head_block_time db div ?I * ?I + (s + ?skip) * ?I"
      using a total by (simp only: w32_small)
    also have "\<dots> = slot_base db + s * ?I" by (simp add: base algebra_simps)
    finally show ?thesis .
  qed
qed

lemma get_slot_at_time_between:
  assumes I: "0 < block_interval db" and s: "0 < s" and fits: "slot_base db + (s + 1) * block_interval db < 2 ^ 32"
    and t: "get_slot_time db s \<le> t" "t < get_slot_time db (s + 1)"
  shows "get_slot_at_time db t = s"
proof -
  let ?I = "block_interval db" and ?b = "slot_base db"
  have mono: "?b + n * ?I \<le> ?b + (s + 1) * ?I" if "n \<le> s + 1" for n
    using mult_le_mono1 [OF that, of ?I] by linarith
  have T: "get_slot_time db s = ?b + s * ?I" "get_slot_time db (s + 1) = ?b + (s + 1) * ?I" "get_slot_time db 1 = ?b + 1 * ?I"
    by (rule get_slot_time_linear; use assms mono [of s] mono [of 1] in linarith)+
  have t': "?b + s * ?I \<le> t" "t < ?b + (s + 1) * ?I" using t T by simp_all
  define r where "r = t - (?b + s * ?I)"
  have "(s + 1) * ?I = s * ?I + ?I" by simp
  with t' have r: "t = ?b + s * ?I + r" "r < ?I" unfolding r_def by linarith+
  obtain s' where s': "s = Suc s'" using s by (cases s) auto
  have "t - (?b + 1 * ?I) = s' * ?I + r" using r(1) s' by (simp add: algebra_simps)
  then have "(t - (?b + 1 * ?I)) div ?I = s'" using r(2) I by simp
  moreover have "\<not> t < ?b + 1 * ?I" using r(1) s' by simp
  moreover have "s < 2 ^ 32"
  proof -
    have "s \<le> s * ?I" using I by simp
    then show ?thesis using t' fits by linarith
  qed
  ultimately show ?thesis unfolding get_slot_at_time_def Let_def T(3) by (simp add: w32_small s')
qed

section \<open>The shuffle is a permutation\<close>

lemma mset_shuffle_step: "i < length xs \<Longrightarrow> mset (shuffle_step now i xs) = mset xs \<and> length (shuffle_step now i xs) = length xs"
proof -
  assume i: "i < length xs"
  then have "i + n mod (length xs - i) < length xs" for n
    using mod_less_divisor [of "length xs - i" n] by linarith
  then show ?thesis using i by (simp add: shuffle_step_def swap_def Let_def mset_swap)
qed

lemma mset_shuffle: "mset (shuffle now xs) = mset xs"
proof -
  have "mset (fold (shuffle_step now) is ys) = mset ys \<and> length (fold (shuffle_step now) is ys) = length ys"
    if "\<forall>i \<in> set is. i < length ys" for "is" ys
    using that
  proof (induction "is" arbitrary: ys)
    case (Cons i "is")
    then show ?case using mset_shuffle_step [of i ys now] by simp
  qed simp
  then show ?thesis by (simp add: shuffle_def)
qed

lemma mset_rotate: "mset (rotate n xs) = mset xs"
proof (induction n)
  case (Suc n)
  have "mset (rotate1 ys) = mset ys" for ys :: "'a list" by (cases ys) simp_all
  with Suc show ?case by simp
qed simp

lemma scheduled_round:
  assumes ws: "db_shuffled_witnesses db = ws" "ws \<noteq> []"
    and small: "dg_current_aslot (db_dynamic db) + s + length ws < 2 ^ 64"
  shows "map (get_scheduled_witness db) [s..<s + length ws] = map Inr (rotate (dg_current_aslot (db_dynamic db) + s) ws)"
proof (rule nth_equalityI)
  fix i assume "i < length (map (get_scheduled_witness db) [s..<s + length ws])"
  then have i: "i < length ws" by simp
  have "(dg_current_aslot (db_dynamic db) + (s + i)) mod 2 ^ 64 = dg_current_aslot (db_dynamic db) + s + i"
    using small i by simp
  then show "map (get_scheduled_witness db) [s..<s + length ws] ! i =
      map Inr (rotate (dg_current_aslot (db_dynamic db) + s) ws) ! i"
    using i ws by (simp add: get_scheduled_witness_def Let_def nth_rotate add.assoc)
qed simp

section \<open>Bookkeeping of a block\<close>

lemma count_missed_frame:
  assumes "fold_result (count_missed p) is db = Inr db'"
  shows "db' = db\<lparr>db_witnesses := db_witnesses db'\<rparr>"
  using assms
proof (induction "is" arbitrary: db)
  case (Cons i "is")
  from Cons.prems obtain db1 where d: "count_missed p i db = Inr db1" and rest: "fold_result (count_missed p) is db1 = Inr db'"
    by (auto simp: result_simps)
  from d have "db1 = db \<or> (\<exists>t. db1 = db\<lparr>db_witnesses := t\<rparr>)"
    by (auto simp: count_missed_def modify_witness_def result_simps split: if_splits)
  then obtain t where "db1 = db\<lparr>db_witnesses := t\<rparr>"
  proof
    assume "db1 = db"
    then have "db1 = db\<lparr>db_witnesses := db_witnesses db\<rparr>" by simp
    then show thesis by (rule that)
  next
    assume "\<exists>t. db1 = db\<lparr>db_witnesses := t\<rparr>"
    then show thesis using that by blast
  qed
  with Cons.IH [OF rest] show ?case by simp
qed simp

lemma update_global_dynamic_data_slots:
  assumes u: "update_global_dynamic_data checkpoint fork_head skip b db = Inr (db', undo_size, fork_size)"
    and s: "get_slot_at_time db (ab_timestamp b) = s" "0 < s"
    and small: "dg_current_aslot (db_dynamic db) + s < 2 ^ 64"
  shows "dg_current_aslot (db_dynamic db') = dg_current_aslot (db_dynamic db) + s"
    and "head_block_num db' = ab_block_num b" and "head_block_time db' = ab_timestamp b"
    and "db_shuffled_witnesses db' = db_shuffled_witnesses db"
proof -
  have s32: "s < 2 ^ 32" using s(1) by (auto simp: get_slot_at_time_def Let_def w32_def)
  have missed: "w32 (s + (2 ^ 32 - 1)) = s - 1"
  proof -
    have "s + (2 ^ 32 - 1) = (s - 1) + 2 ^ 32" using s(2) by simp
    then have "w32 (s + (2 ^ 32 - 1)) = (s - 1) mod 2 ^ 32" by (metis mod_add_self2 w32_def)
    then show ?thesis using s32 by simp
  qed
  from u obtain db1 where d: "fold_result (count_missed (ab_witness b)) [0..<s - 1] db = Inr db1"
    and db': "db' = db1\<lparr>db_dynamic := update_dynamic checkpoint b (s - 1) (db_dynamic db1)\<rparr>"
    unfolding update_global_dynamic_data_def s(1) missed Let_def by (auto simp: rbind_Inr ensure_Inr)
  obtain t where db1: "db1 = db\<lparr>db_witnesses := t\<rparr>" using count_missed_frame [OF d] by blast
  show "dg_current_aslot (db_dynamic db') = dg_current_aslot (db_dynamic db) + s"
    using small s(2) s32 by (simp add: db' db1 update_dynamic_def w32_small)
  show "head_block_num db' = ab_block_num b" "head_block_time db' = ab_timestamp b"
    "db_shuffled_witnesses db' = db_shuffled_witnesses db"
    by (simp_all add: db' db1 update_dynamic_def head_block_num_def head_block_time_def)
qed

section \<open>The irreversible block\<close>

lemma sorted_nth_ge_iff:
  fixes xs :: "'a :: linorder list"
  assumes "sorted xs" "k < length xs"
  shows "m \<le> xs ! k \<longleftrightarrow> length xs - k \<le> length (filter (\<lambda>x. m \<le> x) xs)"
proof -
  have count: "length (filter (\<lambda>x. m \<le> x) xs) = card {i. i < length xs \<and> m \<le> xs ! i}"
    by (rule length_filter_conv_card)
  show ?thesis
  proof
    assume m: "m \<le> xs ! k"
    have "{k..<length xs} \<subseteq> {i. i < length xs \<and> m \<le> xs ! i}"
      using order_trans [OF m sorted_nth_mono [OF assms(1)]] by auto
    then have "card {k..<length xs} \<le> card {i. i < length xs \<and> m \<le> xs ! i}"
      by (intro card_mono) auto
    then show "length xs - k \<le> length (filter (\<lambda>x. m \<le> x) xs)" by (simp add: count)
  next
    assume c: "length xs - k \<le> length (filter (\<lambda>x. m \<le> x) xs)"
    show "m \<le> xs ! k"
    proof (rule ccontr)
      assume "\<not> m \<le> xs ! k"
      then have "{i. i < length xs \<and> m \<le> xs ! i} \<subseteq> {Suc k..<length xs}"
        using assms by (auto simp: not_less_eq_eq [symmetric] dest: order_trans [OF _ sorted_nth_mono])
      then have "card {i. i < length xs \<and> m \<le> xs ! i} \<le> length xs - Suc k"
        using card_mono [of "{Suc k..<length xs}"] by auto
      with c assms(2) show False by (simp add: count)
    qed
  qed
qed

lemma fetch_witnesses_length: "fetch_witnesses t is = Inr ws \<Longrightarrow> length ws = length is \<and> map (index_find t) is = map Some ws"
  by (induction "is" arbitrary: ws) (auto simp: result_simps)

lemma seven_tenths: "(n - 3 * n div 10 \<le> c) = (7 * n \<le> 10 * (c :: nat))"
proof -
  have "10 * (3 * n div 10) \<le> 3 * n" "3 * n < 10 * (3 * n div 10) + 10" by simp_all
  then show ?thesis by linarith
qed

lemma new_irreversible_iff:
  assumes u: "update_last_irreversible_block db = Inr db'"
    and ws: "fetch_witnesses (db_witnesses db) (gp_active_witnesses (db_global db)) = Inr ws"
  shows "m \<le> dg_last_irreversible_block_num (db_dynamic db') \<longleftrightarrow>
    m \<le> dg_last_irreversible_block_num (db_dynamic db) \<or>
    7 * length ws \<le> 10 * length (filter (\<lambda>w. m \<le> wt_last_confirmed_block_num w) ws)"
proof -
  let ?c = "map wt_last_confirmed_block_num ws" and ?k = "irreversible_offset (length ws)"
  let ?new = "sort ?c ! ?k" and ?old = "dg_last_irreversible_block_num (db_dynamic db)"
  have n: "0 < length ws" using u ws by (auto simp: update_last_irreversible_block_def result_simps)
  have k: "?k = 3 * length ws div 10" by (simp add: irreversible_offset_def GRAPHENE_IRREVERSIBLE_THRESHOLD_def)
  moreover have "3 * length ws div 10 < length ws" using n by linarith
  ultimately have "?k < length (sort ?c)" by simp
  from sorted_nth_ge_iff [OF sorted_sort this, of m]
  have "m \<le> ?new \<longleftrightarrow> length ws - ?k \<le> length (filter (\<lambda>x. m \<le> x) (sort ?c))" by simp
  also have "length (filter (\<lambda>x. m \<le> x) (sort ?c)) = length (filter (\<lambda>w. m \<le> wt_last_confirmed_block_num w) ws)"
    by (simp add: filter_sort filter_map comp_def)
  finally have new: "m \<le> ?new \<longleftrightarrow> 7 * length ws \<le> 10 * length (filter (\<lambda>w. m \<le> wt_last_confirmed_block_num w) ws)"
    unfolding k seven_tenths .
  have "dg_last_irreversible_block_num (db_dynamic db') = max ?old ?new"
    using u ws by (auto simp: update_last_irreversible_block_def Let_def result_simps max_def split: if_splits)
  then show ?thesis using new by (simp add: le_max_iff_disj)
qed

section \<open>The witness's pay\<close>

lemma modify_witness_credited:
  assumes "modify_witness i m db = Inr db'" and "db_ok db"
    and "\<And>x y. m x = Inr y \<Longrightarrow> wt_vote_reward_pool y = wt_vote_reward_pool x"
  shows "core_credited 0 db db'"
proof -
  obtain x y t where "m x = Inr y" "db' = db\<lparr>db_witnesses := t\<rparr>" "db_ok db'"
    "\<forall>k. surplus db' k = surplus db k + (if k = current_core_asset_id db then wt_vote_reward_pool y - wt_vote_reward_pool x else 0)"
    using assms(1,2) by (rule modify_witness_effect) metis
  then show ?thesis using assms(3) by (auto simp: core_credited_def)
qed

context checked_int64
begin

lemma deposit_witness_pay_credited:
  assumes d: "deposit_witness_pay S wit amt db = Inr db'" and ok: "db_ok db"
  shows "core_credited amt db db'"
proof (cases "amt = 0")
  case True
  with d ok show ?thesis by (auto simp: deposit_witness_pay_def result_simps core_credited_zero)
next
  case False
  from d [unfolded deposit_witness_pay_def] False obtain w :: witness_object and r db1 where
    v: "deposit_lazy_vesting S (wt_pay_vb w) amt (cp_witness_pay_vesting_seconds (params db)) (wt_witness_account w) True db = Inr (r, db1)"
    and rest: "(case r of None \<Rightarrow> Inr db1 | Some i \<Rightarrow> modify_witness wit (\<lambda>w. Inr (w\<lparr>wt_pay_vb := Some i\<rparr>)) db1) = Inr db'"
    by (auto simp: rbind_Inr)
  have c: "core_credited amt db db1" by (rule deposit_lazy_vesting_credited [OF v ok])
  have "core_credited 0 db1 db'"
    using rest core_credited_fields(1) [OF c]
    by (auto split: option.splits intro: core_credited_zero elim!: modify_witness_credited)
  from core_credited_trans [OF c this] show ?thesis by simp
qed

lemma pay_and_pool_conserves:
  assumes d: "deposit_witness_pay S w amt (db\<lparr>db_dynamic := (db_dynamic db)\<lparr>dg_witness_budget := budget, dg_current_staking_reward_pool := pool\<rparr>\<rparr>) = Inr db'"
    and ok: "db_ok db"
    and total: "amt + pool + budget = dg_current_staking_reward_pool (db_dynamic db) + dg_witness_budget (db_dynamic db)"
  shows "db_ok db' \<and> (\<forall>k. surplus db' k = surplus db k)"
proof -
  let ?d = "(db_dynamic db)\<lparr>dg_witness_budget := budget, dg_current_staking_reward_pool := pool\<rparr>"
  have eff: "db_ok (db\<lparr>db_dynamic := ?d\<rparr>)" "current_core_asset_id (db\<lparr>db_dynamic := ?d\<rparr>) = current_core_asset_id db"
    "surplus (db\<lparr>db_dynamic := ?d\<rparr>) k = surplus db k - (if k = current_core_asset_id db then amt else 0)" for k
    using ok total by (auto simp: dynamic_update_effect)
  from core_credited_fields [OF deposit_witness_pay_credited [OF d eff(1)]] eff show ?thesis by simp
qed

lemma update_signing_witness_conserves:
  assumes u: "update_signing_witness S w b db = Inr db'" and ok: "db_ok db"
  shows "db_ok db' \<and> (\<forall>k. surplus db' k = surplus db k)"
proof -
  let ?d = "db_dynamic db"
  from u obtain db2 amt pool budget m where
    paid: "deposit_witness_pay S w amt (db\<lparr>db_dynamic := ?d\<lparr>dg_witness_budget := budget, dg_current_staking_reward_pool := pool\<rparr>\<rparr>) = Inr db2"
    and total: "amt + pool + budget = dg_current_staking_reward_pool ?d + dg_witness_budget ?d"
    and m: "modify_witness w (\<lambda>w. Inr (m w)) db2 = Inr db'" "\<And>x. wt_vote_reward_pool (m x) = wt_vote_reward_pool x"
  proof -
    let ?pool = "dg_current_staking_reward_pool ?d"
    let ?pay = "min (cp_witness_pay_per_block (params db)) (dg_witness_budget ?d)"
    let ?m = "\<lambda>x. x\<lparr>wt_last_aslot := (dg_current_aslot ?d + get_slot_at_time db (ab_timestamp b)) mod 2 ^ 64,
      wt_last_confirmed_block_num := ab_block_num b\<rparr>"
    have same: "?d\<lparr>dg_witness_budget := B\<rparr> = ?d\<lparr>dg_witness_budget := B, dg_current_staking_reward_pool := ?pool\<rparr>" for B by simp
    define F where "F pool = db\<lparr>db_dynamic := ?d\<lparr>dg_witness_budget := dg_witness_budget ?d - ?pay, dg_current_staking_reward_pool := pool\<rparr>\<rparr>" for pool
    from u obtain db2 where "modify_witness w (\<lambda>w. Inr (?m w)) db2 = Inr db'"
      and "deposit_witness_pay S w ?pay (F ?pool) = Inr db2 \<or> (\<exists>amt. deposit_witness_pay S w amt (F (?pool + (?pay - amt))) = Inr db2)"
      unfolding update_signing_witness_def Let_def F_def
      by (auto simp: result_simps split: if_splits)
    moreover from this(2) obtain amt where "deposit_witness_pay S w amt (F (?pool + (?pay - amt))) = Inr db2"
      using that by (metis add.right_neutral diff_self)
    ultimately have "modify_witness w (\<lambda>w. Inr (?m w)) db2 = Inr db'"
      "deposit_witness_pay S w amt (F (?pool + (?pay - amt))) = Inr db2" by blast+
    then show thesis unfolding F_def by (intro that [where m = ?m]) auto
  qed
  have c: "db_ok db2 \<and> (\<forall>k. surplus db2 k = surplus db k)" by (rule pay_and_pool_conserves [OF paid ok total])
  from core_credited_fields [OF modify_witness_credited [OF m(1)]] m(2) c show ?thesis by auto
qed

end

section \<open>Properties\<close>

text \<open>C28.
  Slot times and slot numbers are inverse to each other: a time from the start of slot s on and before the
  start of the next one lies in slot s (as long as the times stay below the end of 32-bit time).
\<close>

theorem slot_roundtrip:
  assumes "0 < block_interval db" and "0 < s" and "slot_base db + (s + 1) * block_interval db < 2 ^ 32"
    and "get_slot_time db s \<le> t" and "t < get_slot_time db (s + 1)"
  shows "get_slot_at_time db t = s"
  using assms by (rule get_slot_at_time_between)

theorem slot_roundtrip_witness: "get_slot_at_time witness_db (get_slot_time witness_db 5 + 2) = 5"
proof (rule slot_roundtrip)
  show "0 < block_interval witness_db" "slot_base witness_db + (5 + 1) * block_interval witness_db < 2 ^ 32"
    "get_slot_time witness_db 5 + 2 < get_slot_time witness_db (5 + 1)"
    by code_simp+
qed simp_all

text \<open>C29.
  The shuffle is fair: after a reshuffle, any run of as many consecutive slots as there are active
  witnesses schedules every active witness exactly as often as it is listed.
\<close>

theorem schedule_fair:
  assumes "update_witness_schedule db = Inr db'" and "gp_active_witnesses (db_global db) = active"
    and "head_block_num db mod length active = 0" and "dg_current_aslot (db_dynamic db) + s + length active < 2 ^ 64"
  shows "mset (map (get_scheduled_witness db') [s..<s + length active]) = image_mset Inr (mset active)"
proof -
  have ne: "active \<noteq> []" and db': "db' = db\<lparr>db_shuffled_witnesses := shuffle (head_block_time db) active\<rparr>"
    using assms(1-3) by (auto simp: update_witness_schedule_def Let_def result_simps split: if_splits)
  let ?ws = "shuffle (head_block_time db) active"
  have m: "mset ?ws = mset active" by (rule mset_shuffle)
  then have len: "length ?ws = length active" by (metis size_mset)
  have "map (get_scheduled_witness db') [s..<s + length ?ws] = map Inr (rotate (dg_current_aslot (db_dynamic db') + s) ?ws)"
    by (rule scheduled_round) (use ne len assms(4) in \<open>auto simp: db'\<close>)
  then have "map (get_scheduled_witness db') [s..<s + length active] = map Inr (rotate (dg_current_aslot (db_dynamic db') + s) ?ws)"
    by (simp only: len)
  then show ?thesis by (simp add: mset_rotate m)
qed

theorem schedule_fair_witness:
  "\<exists>db'. update_witness_schedule (witness_db\<lparr>db_dynamic := (db_dynamic witness_db)\<lparr>dg_head_block_number := 99\<rparr>\<rparr>) = Inr db' \<and>
    mset (map (get_scheduled_witness db') [1..<1 + length [1, 2, 3 :: nat]]) = image_mset Inr {#1, 2, 3#}"
proof -
  let ?db = "witness_db\<lparr>db_dynamic := (db_dynamic witness_db)\<lparr>dg_head_block_number := 99\<rparr>\<rparr>"
  have sizes: "gp_active_witnesses (db_global ?db) = [1, 2, 3]" "head_block_num ?db mod length [1, 2, 3 :: nat] = 0"
    "dg_current_aslot (db_dynamic ?db) + 1 + length [1, 2, 3 :: nat] < 2 ^ 64"
    by (simp_all add: witness_db_def issuer_db_def chain_db_def sample_dynamic_def head_block_num_def)
  then obtain db' where d: "update_witness_schedule ?db = Inr db'" by (simp add: update_witness_schedule_def)
  from schedule_fair [OF d sizes] d show ?thesis by auto
qed

text \<open>C30.
  A block moves the schedule along by the slot it was produced in: slot t after the block is scheduled to
  the witness that slot s + t was scheduled to before it.
\<close>

theorem schedule_coherent:
  assumes "update_global_dynamic_data checkpoint fork_head skip b db = Inr (db', undo_size, fork_size)"
    and "get_slot_at_time db (ab_timestamp b) = s" and "0 < s" and "dg_current_aslot (db_dynamic db) + s < 2 ^ 64"
  shows "get_scheduled_witness db' t = get_scheduled_witness db (s + t)"
  using update_global_dynamic_data_slots [OF assms] by (simp add: get_scheduled_witness_def add.assoc)

definition sample_block :: applied_block where
  "sample_block = \<lparr>ab_block_num = 101, ab_id = [1, 0, 0, 0, 0], ab_timestamp = 1700000010, ab_witness = 1\<rparr>"

theorem schedule_coherent_witness:
  "\<exists>db' u f. update_global_dynamic_data None None False sample_block witness_db = Inr (db', u, f) \<and>
    get_scheduled_witness db' 1 = get_scheduled_witness witness_db (3 + 1)"
proof -
  have "\<not> isl (update_global_dynamic_data None None False sample_block witness_db)" by code_simp
  then obtain db' u f where d: "update_global_dynamic_data None None False sample_block witness_db = Inr (db', u, f)"
    by (metis not_isl_Inr prod_cases3)
  have "get_slot_at_time witness_db (ab_timestamp sample_block) = 3" by code_simp
  moreover have "dg_current_aslot (db_dynamic witness_db) + 3 < 2 ^ 64"
    by (simp add: witness_db_def issuer_db_def chain_db_def sample_dynamic_def)
  ultimately show ?thesis using schedule_coherent [OF d, of 3 1] d by auto
qed

text \<open>C31.
  A block number is irreversible exactly when it was already, or at least seven tenths of the active
  witnesses have confirmed it or a later block.
\<close>

theorem irreversible_iff:
  assumes "update_last_irreversible_block db = Inr db'"
    and "fetch_witnesses (db_witnesses db) (gp_active_witnesses (db_global db)) = Inr ws"
  shows "m \<le> dg_last_irreversible_block_num (db_dynamic db') \<longleftrightarrow>
    m \<le> dg_last_irreversible_block_num (db_dynamic db) \<or>
    7 * length ws \<le> 10 * length (filter (\<lambda>w. m \<le> wt_last_confirmed_block_num w) ws)"
  using assms by (rule new_irreversible_iff)

theorem irreversible_iff_witness:
  "\<exists>db'. update_last_irreversible_block witness_db = Inr db' \<and> \<not> 92 \<le> dg_last_irreversible_block_num (db_dynamic db') \<and>
    91 \<le> dg_last_irreversible_block_num (db_dynamic db')"
proof -
  have "\<not> isl (update_last_irreversible_block witness_db)" by code_simp
  then obtain db' where d: "update_last_irreversible_block witness_db = Inr db'" using not_isl_Inr by blast
  let ?ws = "[sample_witness 1, sample_witness 2, sample_witness 3]"
  have f: "fetch_witnesses (db_witnesses witness_db) (gp_active_witnesses (db_global witness_db)) = Inr ?ws"
    by (simp add: witness_db_def index_get_def index_find_def)
  have "dg_last_irreversible_block_num (db_dynamic witness_db) = 90"
    by (simp add: witness_db_def issuer_db_def chain_db_def sample_dynamic_def)
  with irreversible_iff [OF d f, of 91] irreversible_iff [OF d f, of 92] d show ?thesis
    by (simp add: sample_witness_def)
qed

text \<open>The pay of a block's witness comes out of the witness budget to the last unit: what the witness does not
  get in its vesting balance stays in the staking reward pool, and no asset is created or lost.
\<close>

theorem block_reward_conserves:
  assumes "checked_int64 S" and "db_ok db" and "update_signing_witness S w b db = Inr db'"
  shows "db_ok db' \<and> (\<forall>k. surplus db' k = surplus db k)"
  using checked_int64.update_signing_witness_conserves [OF assms(1,3,2)] .

theorem block_reward_conserves_witness:
  "\<exists>db'. update_signing_witness int64_ops 3 sample_block witness_db = Inr db' \<and> surplus db' 1 = surplus witness_db 1"
proof -
  have "\<not> isl (update_signing_witness int64_ops 3 sample_block witness_db)" by code_simp
  with block_reward_conserves [OF int64_ops_checked witness_db_ok] show ?thesis by (auto dest!: not_isl_Inr)
qed

end
