(* ===== verification/Staking_Rewards.thy ===== *)
theory Staking_Rewards
  imports Staking Witness_Schedule "HOL-Library.Product_Lexorder"
begin

text \<open>
  What maintenance does with staking (db_maint.cpp): counting the votes of the witnesses, ranking the
  votable objects, sharing the staking reward pool out to the ranked witnesses and on to the accounts that
  stake for them, and expiring stakings.

  The vote buffers of the database class are the record \<open>vote_buffers\<close>. The loops over the witnesses and
  the stakings run over the ids in the index's order; the loop bodies read the objects as they are then,
  as the references of the code do. An index past the end of a buffer and a division by zero are
  \<open>Undefined_behaviour\<close>.
\<close>

section \<open>Counting votes\<close>

record vote_buffers =
  vote_tally_buffer :: "nat list"
  witness_count_histogram_buffer :: "nat list"
  committee_count_histogram_buffer :: "nat list"
  total_voting_stake :: nat

definition new_vote_buffers :: "database \<Rightarrow> vote_buffers" where
  "new_vote_buffers db = \<lparr>vote_tally_buffer = replicate (gp_next_available_vote_id (db_global db)) 0,
     witness_count_histogram_buffer = replicate (cp_maximum_witness_count (params db) div 2 + 1) 0,
     committee_count_histogram_buffer = replicate (cp_maximum_committee_count (params db) div 2 + 1) 0, total_voting_stake = 0\<rparr>"

definition check_witness_available :: "database \<Rightarrow> witness_object \<Rightarrow> bool" where
  "check_witness_available db w \<longleftrightarrow> \<not> wt_is_banned w \<and>
     (wt_total_missed w - wt_previous_missed w \<le> int (missed_block_limit (get_vote_params db)) \<or> wt_previous_missed w = 0)"

definition uint64 :: "int \<Rightarrow> nat" where
  "uint64 x = nat (x mod 2 ^ 64)"

definition count_witness_votes :: "nat \<Rightarrow> vote_buffers \<times> database \<Rightarrow> (vote_buffers \<times> database) result" where
  "count_witness_votes i = (\<lambda>(b, db).
     rbind (index_get (db_witnesses db) i) (\<lambda>w.
     let reset = (\<lambda>x. x\<lparr>wt_previous_missed := wt_total_missed x\<rparr>) in
     if check_witness_available db w
     then ensure (vote_instance (wt_vote_id w) < length (vote_tally_buffer b)) Undefined_behaviour
       (rbind (modify_witness i (\<lambda>x. Inr (reset x)) db) (\<lambda>db1.
        Inr (b\<lparr>vote_tally_buffer := (vote_tally_buffer b)[vote_instance (wt_vote_id w) := uint64 (wt_total_vote_weights w)],
               total_voting_stake := (total_voting_stake b + uint64 (wt_total_vote_weights w)) mod 2 ^ 64\<rparr>, db1)))
     else rbind (modify_witness i (\<lambda>x. Inr (reset (x\<lparr>wt_is_banned := True\<rparr>))) db) (\<lambda>db1. Inr (b, db1))))"

definition set_first :: "nat \<Rightarrow> nat list \<Rightarrow> nat list" where
  "set_first v xs = xs[0 := v]"

definition statistical_vote_weight :: "vote_buffers \<times> database \<Rightarrow> (vote_buffers \<times> database) result" where
  "statistical_vote_weight = (\<lambda>(b, db).
     rbind (fold_result count_witness_votes (map fst (rows (db_witnesses db))) (b, db)) (\<lambda>(b1, db1).
     Inr (b1\<lparr>witness_count_histogram_buffer := set_first (total_voting_stake b1) (witness_count_histogram_buffer b1),
             committee_count_histogram_buffer := set_first (total_voting_stake b1) (committee_count_histogram_buffer b1)\<rparr>, db1)))"

section \<open>Ranking\<close>

definition vote_rank :: "vote_buffers \<Rightarrow> vote_id_type \<Rightarrow> int \<times> nat" where
  "vote_rank b v = (- wrap64 (int (vote_tally_buffer b ! vote_instance v)), vote_instance v)"

definition sort_votable_objects :: "vote_buffers \<Rightarrow> ('a \<Rightarrow> vote_id_type) \<Rightarrow> 'a index_table \<Rightarrow> nat \<Rightarrow> (nat \<times> 'a) list result" where
  "sort_votable_objects b vote_id t n =
     ensure (rows t \<noteq> [] \<and> (\<forall>(i, x) \<in> set (rows t). vote_instance (vote_id x) < length (vote_tally_buffer b))) Undefined_behaviour
       (Inr (take n (sort_key (vote_rank b \<circ> vote_id \<circ> snd) (rows t))))"

section \<open>Rewards\<close>

definition reward_share :: "safe_ops \<Rightarrow> database \<Rightarrow> share_type \<Rightarrow> share_type \<Rightarrow> share_type \<Rightarrow> share_type result" where
  "reward_share S db pool votes tot =
     (if head_block_time db > HARDFORK_1029_TIME then Inr (wrap64 (trunc_div (pool * votes) tot))
      else rbind (safe_mul S pool votes) (\<lambda>p. Inr (trunc_div p tot)))"

definition add_vote_reward :: "safe_ops \<Rightarrow> share_type \<Rightarrow> witness_object \<Rightarrow> witness_object result" where
  "add_vote_reward S v w = rbind (safe_add S (wt_vote_reward_pool w) v) (\<lambda>t. Inr (w\<lparr>wt_vote_reward_pool := t\<rparr>))"

definition reward_witness :: "safe_ops \<Rightarrow> share_type \<Rightarrow> share_type \<Rightarrow> nat \<Rightarrow> database \<Rightarrow> database result" where
  "reward_witness S pools_bak tot i db =
     rbind (index_get (db_witnesses db) i) (\<lambda>wit.
     if \<not> wt_is_banned wit \<and> wt_is_valid wit
     then rbind (reward_share S db pools_bak (wt_total_vote_weights wit) tot) (\<lambda>share.
       let pool = dg_current_staking_reward_pool (db_dynamic db); reward_pay = min share pool in
       rbind (safe_sub S pool reward_pay) (\<lambda>pool1.
       let db1 = db\<lparr>db_dynamic := (db_dynamic db)\<lparr>dg_current_staking_reward_pool := pool1\<rparr>\<rparr> in
       rbind (safe_mul S reward_pay (int (wt_commission_rate wit))) (\<lambda>p.
       let vote_pay = min reward_pay (trunc_div p 1000) in
       rbind (modify_witness i (add_vote_reward S vote_pay) db1) (\<lambda>db2.
       rbind (safe_sub S reward_pay vote_pay) (\<lambda>witness_pay.
       deposit_witness_pay S i witness_pay db2)))))
     else Inr db)"

definition handling_expired_staking :: "safe_ops \<Rightarrow> nat \<Rightarrow> nat \<Rightarrow> database \<Rightarrow> database result" where
  "handling_expired_staking S i witness_id db =
     rbind (index_get (db_stakings db) i) (\<lambda>s.
     if sk_staking_days s * SECONDS_PER_DAY < elapsed db s \<and> index_find (db_witnesses db) witness_id \<noteq> None
     then rbind (modify_staking i (\<lambda>x. Inr (x\<lparr>sk_is_valid := False\<rparr>)) db) (\<lambda>db1.
       modify_witness witness_id (\<lambda>w. rbind (vote_weights S s) (\<lambda>v. sub_votes S (min v (wt_total_vote_weights w)) w)) db1)
     else Inr db)"

definition voter_share :: "safe_ops \<Rightarrow> share_type \<Rightarrow> staking_object \<Rightarrow> share_type \<Rightarrow> share_type result" where
  "voter_share S pool s tot =
     rbind (safe_mul S pool (amount (sk_amount s))) (\<lambda>p. rbind (safe_mul S p (uint (sk_weight s))) (\<lambda>q. Inr (trunc_div q tot)))"

definition pay_voter :: "safe_ops \<Rightarrow> (nat \<rightharpoonup> share_type \<times> share_type) \<Rightarrow> staking_object \<Rightarrow> database \<Rightarrow> database result" where
  "pay_voter S pools s db =
     (case (index_find (db_witnesses db) (sk_trust_node s), pools (sk_trust_node s)) of
        (Some w, Some (pool, tot)) \<Rightarrow>
          rbind (voter_share S pool s tot) (\<lambda>share.
          let voter_pay = min share (wt_vote_reward_pool w) in
          if voter_pay \<noteq> 0
          then rbind (staking_cashback S (sk_owner s) voter_pay db) (\<lambda>db1.
            modify_witness (sk_trust_node s) (\<lambda>x. rbind (safe_sub S (wt_vote_reward_pool x) voter_pay) (\<lambda>t.
              Inr (x\<lparr>wt_vote_reward_pool := t\<rparr>))) db1)
          else Inr db)
      | _ \<Rightarrow> Inr db)"

definition voter_payable :: "(nat \<rightharpoonup> share_type \<times> share_type) \<Rightarrow> staking_object \<Rightarrow> database \<Rightarrow> bool" where
  "voter_payable pools s db =
     (case (index_find (db_witnesses db) (sk_trust_node s), pools (sk_trust_node s)) of
        (Some w, Some (_, tot)) \<Rightarrow> wt_is_valid w \<and> \<not> wt_is_banned w \<and> tot \<noteq> 0 | _ \<Rightarrow> False)"

definition pay_staking :: "safe_ops \<Rightarrow> (nat \<rightharpoonup> share_type \<times> share_type) \<Rightarrow> nat \<Rightarrow> database \<Rightarrow> database result" where
  "pay_staking S pools i db =
     rbind (index_get (db_stakings db) i) (\<lambda>s.
     if sk_is_valid s
     then rbind (if voter_payable pools s db
                 then rbind (pay_voter S pools s db) (\<lambda>db1.
                   if head_block_time db1 \<le> HARDFORK_1026_TIME then handling_expired_staking S i (sk_trust_node s) db1 else Inr db1)
                 else Inr db) (\<lambda>db2.
          if head_block_time db2 > HARDFORK_1026_TIME then handling_expired_staking S i (sk_trust_node s) db2 else Inr db2)
     else Inr db)"

definition add_witness_weight :: "safe_ops \<Rightarrow> (nat \<times> witness_object) \<Rightarrow> share_type \<Rightarrow> share_type result" where
  "add_witness_weight S = (\<lambda>(i, w) tot.
     if \<not> wt_is_banned w \<and> wt_is_valid w then safe_add S tot (wt_total_vote_weights w) else Inr tot)"

definition witness_pools :: "database \<Rightarrow> nat \<rightharpoonup> share_type \<times> share_type" where
  "witness_pools db i = map_option (\<lambda>w. (wt_vote_reward_pool w, wt_total_vote_weights w)) (index_find (db_witnesses db) i)"

definition distribute_rewards :: "safe_ops \<Rightarrow> vote_buffers \<Rightarrow> database \<Rightarrow> database result" where
  "distribute_rewards S b db =
     (let pools_bak = dg_current_staking_reward_pool (db_dynamic db);
          n = min (length (rows (db_witnesses db))) (valid_nodes_number (get_vote_params db)) in
     rbind (sort_votable_objects b wt_vote_id (db_witnesses db) n) (\<lambda>wits.
     rbind (fold_result (add_witness_weight S) wits 0) (\<lambda>tot.
     if tot \<noteq> 0
     then rbind (fold_result (reward_witness S pools_bak tot) (map fst wits) db) (\<lambda>db1.
       fold_result (pay_staking S (witness_pools db1)) (map fst (rows (db_stakings db1))) db1)
     else Inr db)))"

section \<open>Frames\<close>

text \<open>
  A step of the distribution is quiet: it conserves every asset and leaves the stakings, the votes of the
  witnesses, the parameters and the time alone.
\<close>

definition witness_votes :: "database \<Rightarrow> nat \<rightharpoonup> share_type" where
  "witness_votes db i = map_option wt_total_vote_weights (index_find (db_witnesses db) i)"

definition reward_frame :: "database \<Rightarrow> database \<Rightarrow> bool" where
  "reward_frame db db' \<longleftrightarrow> conserves db db' \<and> db_global db' = db_global db \<and> head_block_time db' = head_block_time db"

definition quiet :: "database \<Rightarrow> database \<Rightarrow> bool" where
  "quiet db db' \<longleftrightarrow> reward_frame db db' \<and> db_stakings db' = db_stakings db \<and> witness_votes db' = witness_votes db"

lemma quiet_refl: "db_ok db \<Longrightarrow> balances_ok db \<Longrightarrow> quiet db db"
  by (simp add: quiet_def reward_frame_def conserves_def)

lemma reward_frame_trans: "reward_frame a b \<Longrightarrow> reward_frame b c \<Longrightarrow> reward_frame a c"
  by (auto simp: reward_frame_def conserves_def)

lemma quiet_trans: "quiet a b \<Longrightarrow> quiet b c \<Longrightarrow> quiet a c"
  by (auto simp: quiet_def intro: reward_frame_trans)

lemma votes_ok_alt: "votes_ok db \<longleftrightarrow> (\<forall>i v. witness_votes db i = Some v \<longrightarrow> v = table_sum (votes_for i) (db_stakings db))"
  by (auto simp: votes_ok_def witness_votes_def)

lemma staking_inv_quiet: "quiet db db' \<Longrightarrow> staking_inv db' = staking_inv db"
  by (simp add: staking_inv_def votes_ok_alt quiet_def reward_frame_def get_vote_params_def params_def)

text \<open>The invariant of the loops: what the distribution conserves and keeps of the votes.\<close>

definition rewarded :: "database \<Rightarrow> database \<Rightarrow> bool" where
  "rewarded db db' \<longleftrightarrow> reward_frame db db' \<and> staking_inv db'"

lemma rewarded_step:
  assumes "rewarded db0 db" and "reward_frame db db'" and "staking_inv db'"
  shows "rewarded db0 db'"
  using assms reward_frame_trans by (auto simp: rewarded_def)

lemma rewarded_quiet: "rewarded db0 db \<Longrightarrow> quiet db db' \<Longrightarrow> rewarded db0 db'"
  using reward_frame_trans staking_inv_quiet by (auto simp: rewarded_def quiet_def)

lemma rewarded_ok: "rewarded db0 db \<Longrightarrow> db_ok db \<and> balances_ok db \<and> get_vote_params db = get_vote_params db0"
  by (simp add: rewarded_def reward_frame_def conserves_def get_vote_params_def params_def)

lemma lazy_then_set_frame:
  assumes "deposit_lazy_vesting S ovbid amt secs acct rv db = Inr (r, db1)" and s: "set_account_vb upd who (r, db1) = Inr db'"
  shows "db' = db\<lparr>db_vesting := db_vesting db', db_accounts := db_accounts db'\<rparr>"
proof -
  from assms(1) have db1: "db1 = db\<lparr>db_vesting := db_vesting db1\<rparr>" by (rule deposit_lazy_vesting_frame)
  from s have "db' = db1\<lparr>db_accounts := db_accounts db'\<rparr>"
    by (auto simp: set_account_vb_def modify_account_def result_simps split: option.splits)
  then show ?thesis by (subst (asm) db1) (cases db', simp)
qed

lemma staking_cashback_frame:
  assumes "staking_cashback S acct amt db = Inr db'"
  shows "db' = db\<lparr>db_vesting := db_vesting db', db_accounts := db_accounts db'\<rparr>"
  using assms by (auto simp: staking_cashback_def Let_def result_simps split: if_splits intro: lazy_then_set_frame)

lemma modify_pool_effect:
  assumes m: "modify_witness i m db = Inr db'" and ok: "db_ok db"
    and step: "\<And>x y. m x = Inr y \<Longrightarrow> wt_total_vote_weights y = wt_total_vote_weights x \<and> wt_vote_reward_pool y = wt_vote_reward_pool x + v"
  shows "db_ok db'" and "db' = db\<lparr>db_witnesses := db_witnesses db'\<rparr>" and "witness_votes db' = witness_votes db"
    and "surplus db' k = surplus db k + (if k = current_core_asset_id db then v else 0)"
proof -
  obtain x y where w: "index_find (db_witnesses db) i = Some x" "m x = Inr y"
    "index_find (db_witnesses db') = (index_find (db_witnesses db))(i \<mapsto> y)"
    "db' = db\<lparr>db_witnesses := db_witnesses db'\<rparr>" "db_ok db'"
    "\<forall>k. surplus db' k = surplus db k + (if k = current_core_asset_id db then wt_vote_reward_pool y - wt_vote_reward_pool x else 0)"
    using m ok by (rule modify_witness_effect) (rule that)
  show "db_ok db'" "db' = db\<lparr>db_witnesses := db_witnesses db'\<rparr>" by (fact w)+
  show "witness_votes db' = witness_votes db" using w(1,3) step [OF w(2)] by (auto simp: witness_votes_def fun_eq_iff)
  show "surplus db' k = surplus db k + (if k = current_core_asset_id db then v else 0)" using w(6) step [OF w(2)] by simp
qed

context checked_int64
begin

lemma deposit_witness_pay_frame:
  assumes d: "deposit_witness_pay S wit amt db = Inr db'" and ok: "db_ok db"
  shows "db_stakings db' = db_stakings db" and "witness_votes db' = witness_votes db"
proof -
  have "db_stakings db' = db_stakings db \<and> witness_votes db' = witness_votes db"
  proof (cases "amt = 0")
    case True
    with d show ?thesis by (auto simp: deposit_witness_pay_def result_simps)
  next
    case False
    from d [unfolded deposit_witness_pay_def] False obtain w :: witness_object and r db1 where
      v: "deposit_lazy_vesting S (wt_pay_vb w) amt (cp_witness_pay_vesting_seconds (params db)) (wt_witness_account w) True db = Inr (r, db1)"
      and rest: "(case r of None \<Rightarrow> Inr db1 | Some i \<Rightarrow> modify_witness wit (\<lambda>w. Inr (w\<lparr>wt_pay_vb := Some i\<rparr>)) db1) = Inr db'"
      by (auto simp: rbind_Inr)
    have same: "db_stakings db1 = db_stakings db" "witness_votes db1 = witness_votes db"
      by (subst deposit_lazy_vesting_frame [OF v], simp add: witness_votes_def [abs_def])+
    have ok1: "db_ok db1" by (rule core_credited_fields(1) [OF deposit_lazy_vesting_credited [OF v ok]])
    show ?thesis
    proof (cases r)
      case None
      with rest same show ?thesis by simp
    next
      case (Some i)
      with rest have m: "modify_witness wit (\<lambda>w. Inr (w\<lparr>wt_pay_vb := Some i\<rparr>)) db1 = Inr db'" by simp
      note e = modify_pool_effect [OF m ok1, of 0]
      have "db_stakings db' = db_stakings db1" by (subst e(2)) simp_all
      with e(3) same show ?thesis by simp
    qed
  qed
  then show "db_stakings db' = db_stakings db" and "witness_votes db' = witness_votes db" by blast+
qed

lemma reward_witness_quiet:
  assumes r: "reward_witness S pools tot i db = Inr db'" and ok: "db_ok db" "balances_ok db"
  shows "quiet db db'"
proof (cases "db' = db")
  case True
  with ok show ?thesis by (simp add: quiet_refl)
next
  case False
  let ?d = "db_dynamic db"
  from r False obtain reward vote db2 where
    m: "modify_witness i (add_vote_reward S vote) (db\<lparr>db_dynamic := ?d\<lparr>dg_current_staking_reward_pool :=
      dg_current_staking_reward_pool ?d - reward\<rparr>\<rparr>) = Inr db2"
    and d: "deposit_witness_pay S i (reward - vote) db2 = Inr db'"
    by (auto simp: reward_witness_def Let_def rbind_Inr safe_sub_Inr safe_mul_Inr split: if_splits)
  let ?db1 = "db\<lparr>db_dynamic := ?d\<lparr>dg_current_staking_reward_pool := dg_current_staking_reward_pool ?d - reward\<rparr>\<rparr>"
  have e1: "db_ok ?db1" "current_core_asset_id ?db1 = current_core_asset_id db" "head_block_time ?db1 = head_block_time db"
    "surplus ?db1 k = surplus db k - (if k = current_core_asset_id db then reward else 0)" for k
    using ok(1) by (simp_all add: dynamic_update_effect)
  have step: "\<And>x y. add_vote_reward S vote x = Inr y \<Longrightarrow>
      wt_total_vote_weights y = wt_total_vote_weights x \<and> wt_vote_reward_pool y = wt_vote_reward_pool x + vote"
    by (auto simp: add_vote_reward_def result_simps)
  note e2 = modify_pool_effect [OF m e1(1) step, simplified]
  have f2: "db_balances db2 = db_balances db" "db_global db2 = db_global db" "head_block_time db2 = head_block_time db"
    "current_core_asset_id db2 = current_core_asset_id db" "db_stakings db2 = db_stakings db" "witness_votes db2 = witness_votes db"
    using e1(2,3) e2(3) by (subst e2(2), simp add: witness_votes_def [abs_def])+ 
  note e3 = core_credited_fields [OF deposit_witness_pay_credited [OF d e2(1)]]
  note f3 = deposit_witness_pay_frame [OF d e2(1)]
  have "surplus db' k = surplus db k" for k using e1(4) e2(4) e3(2) f2(4) e1(2) by simp
  moreover have "balances_ok db'" using ok(2) e3(3) f2(1) by (simp add: balances_ok_def)
  ultimately show ?thesis
    using e3 f3 f2 by (auto simp: quiet_def reward_frame_def conserves_def fun_eq_iff)
qed

lemma pay_voter_quiet:
  assumes p: "pay_voter S pools s db = Inr db'" and ok: "db_ok db" "balances_ok db"
  shows "quiet db db'"
proof (cases "db' = db")
  case True
  with ok show ?thesis by (simp add: quiet_refl)
next
  case False
  let ?m = "\<lambda>pay x. rbind (safe_sub S (wt_vote_reward_pool x) pay) (\<lambda>t. Inr (x\<lparr>wt_vote_reward_pool := t\<rparr>))"
  from p False obtain pay db1 where c: "staking_cashback S (sk_owner s) pay db = Inr db1"
    and m: "modify_witness (sk_trust_node s) (?m pay) db1 = Inr db'"
    by (auto simp: pay_voter_def Let_def rbind_Inr split: if_splits option.splits prod.splits)
  note e1 = core_credited_fields [OF staking_cashback_credited [OF c ok(1)]]
  have f1: "db_stakings db1 = db_stakings db" "witness_votes db1 = witness_votes db"
    by (subst staking_cashback_frame [OF c], simp add: witness_votes_def [abs_def])+
  have step: "\<And>x y. ?m pay x = Inr y \<Longrightarrow>
      wt_total_vote_weights y = wt_total_vote_weights x \<and> wt_vote_reward_pool y = wt_vote_reward_pool x + - pay"
    by (auto simp: result_simps)
  note e2 = modify_pool_effect [OF m e1(1) step, simplified]
  have f2: "db_balances db' = db_balances db1" "db_global db' = db_global db1" "head_block_time db' = head_block_time db1"
    "current_core_asset_id db' = current_core_asset_id db1" "db_stakings db' = db_stakings db1"
    by (subst e2(2), simp)+
  have "surplus db' k = surplus db k" for k using e2(4) e1(2,9) by simp
  moreover have "balances_ok db'" using ok(2) e1(3) f2(1) by (simp add: balances_ok_def)
  ultimately show ?thesis
    using e1 e2 f1 f2 by (auto simp: quiet_def reward_frame_def conserves_def fun_eq_iff)
qed

text \<open>Expiring a valid staking takes exactly its votes from its witness.\<close>

lemma handling_expired_effect:
  assumes h: "handling_expired_staking S i (sk_trust_node s) db = Inr db'" and ok: "db_ok db" "balances_ok db"
    and s: "index_find (db_stakings db) i = Some s" "sk_is_valid s"
    and inv: "staking_inv db" and mode: "staking_mode_on (get_vote_params db)"
  shows "reward_frame db db'" and "staking_inv db'"
proof -
  have "reward_frame db db' \<and> staking_inv db'"
  proof (cases "db' = db")
    case True
    with ok inv show ?thesis by (simp add: reward_frame_def conserves_def)
  next
    case False
    let ?n = "sk_trust_node s" and ?v = "amount (sk_amount s) * uint (sk_weight s)"
    let ?m = "\<lambda>w. rbind (vote_weights S s) (\<lambda>v. sub_votes S (min v (wt_total_vote_weights w)) w)"
    let ?e = "\<lambda>x. Inr (x\<lparr>sk_is_valid := False\<rparr>) :: staking_object result"
    from h s(1) False obtain db1 where d1: "modify_staking i ?e db = Inr db1" and d2: "modify_witness ?n ?m db1 = Inr db'"
      by (auto simp: handling_expired_staking_def result_simps split: if_splits)
    obtain x y where x: "index_find (db_stakings db) i = Some x" "?e x = Inr y"
      "index_find (db_stakings db1) = (index_find (db_stakings db))(i \<mapsto> y)"
      "db1 = db\<lparr>db_stakings := db_stakings db1\<rparr>" "db_ok db1"
      "\<forall>k. surplus db1 k = surplus db k + of_asset k (sk_amount y) - of_asset k (sk_amount x)"
      "\<forall>f. table_sum f (db_stakings db1) = table_sum f (db_stakings db) - f x + f y"
      using d1 ok(1) by (rule modify_staking_effect) (rule that)
    have y: "x = s" "y = s\<lparr>sk_is_valid := False\<rparr>" using s(1) x(1,2) by auto
    have w1: "db_witnesses db1 = db_witnesses db" by (subst x(4)) simp
    obtain w w' where w: "index_find (db_witnesses db1) ?n = Some w" "?m w = Inr w'"
      "index_find (db_witnesses db') = (index_find (db_witnesses db1))(?n \<mapsto> w')"
      "db' = db1\<lparr>db_witnesses := db_witnesses db'\<rparr>" "db_ok db'" "surplus db' = surplus db1"
      using d2 x(5) by (rule modify_votes_effect) (auto simp: result_simps intro: that)
    have "db_balances db1 = db_balances db" "db_global db1 = db_global db" "head_block_time db1 = head_block_time db"
      "current_core_asset_id db1 = current_core_asset_id db" by (subst x(4), simp)+
    moreover have "db_balances db' = db_balances db1" "db_global db' = db_global db1" "head_block_time db' = head_block_time db1"
      "current_core_asset_id db' = current_core_asset_id db1" "db_stakings db' = db_stakings db1" by (subst w(4), simp)+
    ultimately have f: "db_balances db' = db_balances db" "db_global db' = db_global db" "head_block_time db' = head_block_time db"
      "current_core_asset_id db' = current_core_asset_id db" "db_stakings db' = db_stakings db1" by simp_all
    have frame: "reward_frame db db'"
      using ok(2) w(5,6) x(6) y f by (auto simp: reward_frame_def conserves_def balances_ok_def fun_eq_iff)
    have it: "index_ok no_uk (db_stakings db)" using ok(1) by (simp add: db_ok_def tables_ok_def)
    have "0 \<le> votes_for n z" if "index_find (db_stakings db) j = Some z" for n j z
      using inv that by (auto simp: staking_inv_def votes_for_def)
    then have "votes_for ?n s \<le> table_sum (votes_for ?n) (db_stakings db)" by (rule table_sum_ge_row [OF it s(1)])
    then have "?v \<le> wt_total_vote_weights w" using inv s(2) w(1) by (auto simp: staking_inv_def votes_ok_def votes_for_def w1)
    then have w': "w' = w\<lparr>wt_total_vote_weights := wt_total_vote_weights w - ?v\<rparr>" using w(2) by (auto simp: result_simps)
    have "votes_ok db'"
      using inv w(1,3) x(7) y s(2) by (auto simp: w' w1 f staking_inv_def votes_ok_def votes_for_def)
    then have "staking_inv db'"
      using inv mode x(3) y s(1) f by (auto simp: staking_inv_def get_vote_params_def params_def)
    with frame show ?thesis by blast
  qed
  then show "reward_frame db db'" and "staking_inv db'" by blast+
qed

lemma pay_staking_rewarded:
  assumes p: "pay_staking S pools i db = Inr db'" and r: "rewarded db0 db" and mode: "staking_mode_on (get_vote_params db0)"
  shows "rewarded db0 db'"
proof -
  from p obtain s where s: "index_find (db_stakings db) i = Some s" by (auto simp: pay_staking_def result_simps)
  show ?thesis
  proof (cases "sk_is_valid s")
    case False
    with p s r show ?thesis by (simp add: pay_staking_def index_get_def)
  next
    case valid: True
    have expire: "rewarded db0 b \<and> head_block_time b = head_block_time a" if "handling_expired_staking S i (sk_trust_node s) a = Inr b" and "rewarded db0 a" and "db_stakings a = db_stakings db" for a b
    proof -
      have "reward_frame a b" "staking_inv b"
        using handling_expired_effect [OF that(1)] rewarded_ok [OF that(2)] that(2,3) s valid mode by (auto simp: rewarded_def)
      with rewarded_step [OF that(2)] show ?thesis by (simp add: reward_frame_def)
    qed
    have paid: "rewarded db0 b \<and> db_stakings b = db_stakings db" if "pay_voter S pools s db = Inr b" for b
      using pay_voter_quiet [OF that] rewarded_ok [OF r] rewarded_quiet [OF r] by (auto simp: quiet_def)
    from p valid s r show ?thesis
      unfolding pay_staking_def index_get_def
      by (auto simp: rbind_Inr split: if_splits dest!: paid dest: expire)
  qed
qed

lemma distribute_rewards_rewarded:
  assumes d: "distribute_rewards S b db = Inr db'" and ok: "db_ok db" "balances_ok db"
    and inv: "staking_inv db" and mode: "staking_mode_on (get_vote_params db)"
  shows "rewarded db db'"
proof -
  have start: "rewarded db db" using ok inv by (simp add: rewarded_def reward_frame_def conserves_def)
  have wit: "rewarded db db1" if "fold_result (reward_witness S pools tot) is db = Inr db1" for pools tot "is" db1
    by (rule fold_result_invariant [where P = "rewarded db", OF that start])
      (use rewarded_ok reward_witness_quiet rewarded_quiet in blast)
  have stk: "rewarded db db2" if "fold_result (pay_staking S pools) is db1 = Inr db2" and "rewarded db db1" for pools "is" db1 db2
    by (rule fold_result_invariant [where P = "rewarded db", OF that]) (rule pay_staking_rewarded [OF _ _ mode])
  from d start show ?thesis
    by (auto simp: distribute_rewards_def Let_def rbind_Inr split: if_splits intro: stk wit)
qed

end

section \<open>Properties of the rewards\<close>

lemma sort_key_rest:
  assumes "x \<in> set (take n (sort_key f xs))" and "y \<in> set xs" and "y \<notin> set (take n (sort_key f xs))"
  shows "f x \<le> f y"
proof -
  have "y \<in> set (drop n (sort_key f xs))"
    using assms(2,3) by (metis Un_iff append_take_drop_id set_append set_sort)
  moreover have "sorted (map f (take n (sort_key f xs)) @ map f (drop n (sort_key f xs)))"
    by (metis append_take_drop_id map_append sorted_sort_key)
  ultimately show ?thesis using assms(1) by (auto simp: sorted_append)
qed

text \<open>C39.
  The ranking selects the objects with the most votes: as many as asked for (or all there are), each from the
  table, in the order of their votes, and none left out has more votes than one selected.
\<close>

theorem ranking_selects_top:
  assumes "sort_votable_objects b vote_id t n = Inr ws"
  shows "length ws = min n (length (rows t)) \<and> set ws \<subseteq> set (rows t) \<and>
    sorted (map (vote_rank b \<circ> vote_id \<circ> snd) ws) \<and>
    (\<forall>x \<in> set ws. \<forall>y \<in> set (rows t) - set ws.
      wrap64 (int (vote_tally_buffer b ! vote_instance (vote_id (snd y)))) \<le>
      wrap64 (int (vote_tally_buffer b ! vote_instance (vote_id (snd x)))))"
proof -
  let ?f = "vote_rank b \<circ> vote_id \<circ> snd"
  have ws: "ws = take n (sort_key ?f (rows t))" using assms by (auto simp: sort_votable_objects_def result_simps)
  have len: "length ws = min n (length (rows t))" by (simp add: ws)
  have sub: "set ws \<subseteq> set (rows t)" using set_take_subset [of n "sort_key ?f (rows t)"] by (simp add: ws)
  have sorted: "sorted (map ?f ws)" unfolding ws take_map [symmetric] by (intro sorted_wrt_take sorted_sort_key)
  have rank: "?f x \<le> ?f y" if "x \<in> set ws" "y \<in> set (rows t) - set ws" for x y
    using that sort_key_rest [of x n ?f "rows t" y] by (simp add: ws)
  have "wrap64 (int (vote_tally_buffer b ! vote_instance (vote_id (snd y)))) \<le>
      wrap64 (int (vote_tally_buffer b ! vote_instance (vote_id (snd x))))" if "x \<in> set ws" "y \<in> set (rows t) - set ws" for x y
    using rank [OF that] by (auto simp: vote_rank_def less_eq_prod_def)
  with len sub sorted show ?thesis by blast
qed

definition sample_buffers :: vote_buffers where
  "sample_buffers = \<lparr>vote_tally_buffer = [0, 50, 90, 70], witness_count_histogram_buffer = [0], committee_count_histogram_buffer = [0],
     total_voting_stake = 0\<rparr>"

theorem ranking_selects_top_witness:
  "\<exists>ws. sort_votable_objects sample_buffers wt_vote_id (db_witnesses witness_db) 2 = Inr ws \<and> length ws = min 2 (length (rows (db_witnesses witness_db)))"
proof -
  have "\<not> isl (sort_votable_objects sample_buffers wt_vote_id (db_witnesses witness_db) 2)" by code_simp
  then obtain ws where w: "sort_votable_objects sample_buffers wt_vote_id (db_witnesses witness_db) 2 = Inr ws" using not_isl_Inr by blast
  from ranking_selects_top [OF w] w show ?thesis by blast
qed

text \<open>C40.
  Sharing out the staking reward pool conserves every asset (each reward leaves one pool and enters another,
  or a vesting balance), and keeps the votes of every witness equal to its valid stakings although it expires
  stakings on the way.
\<close>

theorem rewards_conserve:
  assumes "checked_int64 S" and "db_ok db" "balances_ok db" and "staking_inv db" "staking_mode_on (get_vote_params db)"
    and "distribute_rewards S b db = Inr db'"
  shows "conserves db db' \<and> staking_inv db'"
  using checked_int64.distribute_rewards_rewarded [OF assms(1,6,2-5)] by (simp add: rewarded_def reward_frame_def)

definition rewards_db :: database where
  "rewards_db = (staking_db True)\<lparr>
     db_global := (db_global (staking_db True))\<lparr>gp_parameters := sample_params\<lparr>
       cp_extensions := [Ext_vote_params (default_vote_params\<lparr>staking_mode_on := True\<rparr>)]\<rparr>\<rparr>,
     db_dynamic := (db_dynamic (staking_db True))\<lparr>dg_current_staking_reward_pool := 7000\<rparr>\<rparr>"

lemma rewards_db_ok: "db_ok rewards_db" "balances_ok rewards_db" "staking_inv rewards_db" "staking_mode_on (get_vote_params rewards_db)"
proof -
  have p: "get_vote_params rewards_db = default_vote_params\<lparr>staking_mode_on := True\<rparr>"
    by (simp add: rewards_db_def get_vote_params_def params_def)
  then show "staking_mode_on (get_vote_params rewards_db)" by simp
  have "db_ok (staking_db True)" "balances_ok (staking_db True)" by (rule staking_db_ok)+
  then show "db_ok rewards_db" "balances_ok rewards_db"
    by (simp_all add: rewards_db_def db_ok_def tables_ok_def dyn_links_ok_def balances_ok_def dyn_id_def)
  have "votes_ok rewards_db" using staking_db_votes [of True] by (simp add: rewards_db_def votes_ok_def)
  moreover have "0 \<le> amount (sk_amount s)" if "index_find (db_stakings rewards_db) i = Some s" for i s
    using that by (auto simp: rewards_db_def staking_db_def index_find_def sample_staking_def split: if_splits)
  ultimately show "staking_inv rewards_db" unfolding staking_inv_def p by (auto simp: default_vote_params_def)
qed

theorem rewards_conserve_witness:
  "\<exists>db'. distribute_rewards int64_ops sample_buffers rewards_db = Inr db' \<and> conserves rewards_db db' \<and> staking_inv db'"
proof -
  have "\<not> isl (distribute_rewards int64_ops sample_buffers rewards_db)" by code_simp
  with rewards_conserve [OF int64_ops_checked rewards_db_ok] show ?thesis by (blast dest: not_isl_Inr)
qed

text \<open>The share of one staking is computed through the 64-bit product of the witness's pool and the amount: when
  that product overflows, the distribution throws, although the share itself is no larger than the pool.
\<close>

theorem voter_share_overflow:
  assumes "checked_int64 S" and "index_find (db_stakings db) i = Some s" "sk_is_valid s" and "voter_payable pools s db"
    and "pools (sk_trust_node s) = Some (pool, tot)" and "\<not> in_int64 (pool * amount (sk_amount s))"
  shows "isl (pay_staking S pools i db)"
proof -
  from assms(4,5) obtain w where w: "index_find (db_witnesses db) (sk_trust_node s) = Some w"
    by (auto simp: voter_payable_def split: option.splits)
  have "isl (safe_mul S pool (amount (sk_amount s)))" using assms(1,6) by (rule checked_int64.mul_throws)
  then have "isl (pay_voter S pools s db)"
    using assms(5) w by (auto simp: pay_voter_def voter_share_def rbind_def isl_def)
  then show ?thesis using assms(2-4) by (auto simp: pay_staking_def index_get_def rbind_def isl_def)
qed

theorem voter_share_overflow_witness:
  "isl (pay_staking int64_ops [3 \<mapsto> (20000000000000000, 2000)] 0 (staking_db True)) \<and>
    trunc_div (20000000000000000 * 500 * 2) 2000 \<le> 20000000000000000"
proof
  have "index_find (db_stakings (staking_db True)) 0 = Some (sample_staking True)" "sk_is_valid (sample_staking True)"
    "voter_payable [3 \<mapsto> (20000000000000000, 2000)] (sample_staking True) (staking_db True)"
    "[3 \<mapsto> (20000000000000000, 2000)] (sk_trust_node (sample_staking True)) = Some (20000000000000000, 2000)"
    "\<not> in_int64 (20000000000000000 * amount (sk_amount (sample_staking True)))"
    by (simp_all add: staking_db_def index_find_def sample_staking_def voter_payable_def sample_witness_def int64_defs)
  then show "isl (pay_staking int64_ops [3 \<mapsto> (20000000000000000, 2000)] 0 (staking_db True))"
    by (rule voter_share_overflow [OF int64_ops_checked])
qed (simp add: trunc_div_def)

end
