(* ===== verification/Account_Names.thy ===== *)
theory Account_Names
  imports Gxb_Prelude
begin

text \<open>
  The names of accounts (protocol/account.cpp): \<open>is_valid_name\<close>, the loop over the dot-separated labels of a
  name, and \<open>is_cheap_name\<close>, which decides whether a name is charged the basic or the premium fee. The comment
  above \<open>is_valid_name\<close> gives a grammar; it is the reference the loop is proved equivalent to.
\<close>

section \<open>The loop of is_valid_name\<close>

definition GRAPHENE_MIN_ACCOUNT_NAME_LENGTH :: nat where "GRAPHENE_MIN_ACCOUNT_NAME_LENGTH = 1"
definition GRAPHENE_MAX_ACCOUNT_NAME_LENGTH :: nat where "GRAPHENE_MAX_ACCOUNT_NAME_LENGTH = 63"

definition name_letter :: "char \<Rightarrow> bool" where
  "name_letter c \<longleftrightarrow> c \<in> set ''abcdefghijklmnopqrstuvwxyz''"

definition name_let_dig :: "char \<Rightarrow> bool" where
  "name_let_dig c \<longleftrightarrow> c \<in> set ''abcdefghijklmnopqrstuvwxyz0123456789''"

definition name_let_dig_hyp :: "char \<Rightarrow> bool" where
  "name_let_dig_hyp c \<longleftrightarrow> c \<in> set ''abcdefghijklmnopqrstuvwxyz0123456789-''"

definition find_first_of :: "string \<Rightarrow> char \<Rightarrow> nat \<Rightarrow> nat option" where
  "find_first_of s c begin = List.find (\<lambda>i. s ! i = c) [begin..<length s]"

definition label_end :: "string \<Rightarrow> nat \<Rightarrow> nat" where
  "label_end name begin = (case find_first_of name CHR ''.'' begin of None \<Rightarrow> length name | Some i \<Rightarrow> i)"

lemma label_end_bounds: "label_end name b \<noteq> length name \<Longrightarrow> b \<le> label_end name b \<and> label_end name b < length name"
  by (auto simp: label_end_def find_first_of_def find_Some_iff split: option.splits)

function labels_valid :: "string \<Rightarrow> nat \<Rightarrow> bool" where
  "labels_valid name begin =
     (let e = label_end name begin in
      if e - begin < GRAPHENE_MIN_ACCOUNT_NAME_LENGTH then False
      else if \<not> name_letter (name ! begin) then False
      else if \<not> name_let_dig (name ! (e - 1)) then False
      else if \<not> list_all (\<lambda>i. name_let_dig_hyp (name ! i)) [begin + 1..<e - 1] then False
      else if e = length name then True
      else labels_valid name (e + 1))"
  by pat_completeness auto
termination
  by (relation "measure (\<lambda>(name, b). length name + 1 - b)") (auto dest!: label_end_bounds)

declare labels_valid.simps [simp del]

definition is_valid_name :: "string \<Rightarrow> bool" where
  "is_valid_name name =
     (if length name < GRAPHENE_MIN_ACCOUNT_NAME_LENGTH then False
      else if length name > GRAPHENE_MAX_ACCOUNT_NAME_LENGTH then False
      else labels_valid name 0)"

fun cheap_scan :: "bool \<Rightarrow> string \<Rightarrow> bool" where
  "cheap_scan v [] = (\<not> v)"
| "cheap_scan v (c # cs) =
     (if c \<in> set ''0123456789'' then True
      else if c = CHR ''.'' \<or> c = CHR ''-'' \<or> c = CHR ''/'' then True
      else cheap_scan (if c \<in> set ''aeiouy'' then True else v) cs)"

definition is_cheap_name :: "string \<Rightarrow> bool" where
  "is_cheap_name n = cheap_scan False n"

section \<open>The grammar of the comment\<close>

inductive label :: "string \<Rightarrow> bool" where
  single: "name_letter c \<Longrightarrow> label [c]"
| longer: "name_letter c \<Longrightarrow> list_all name_let_dig_hyp m \<Longrightarrow> name_let_dig d \<Longrightarrow> label (c # m @ [d])"

inductive subdomain :: "string \<Rightarrow> bool" where
  first: "label l \<Longrightarrow> subdomain l"
| dotted: "subdomain s \<Longrightarrow> label l \<Longrightarrow> subdomain (s @ CHR ''.'' # l)"

section \<open>The loop follows the grammar\<close>

definition label_ok :: "string \<Rightarrow> bool" where
  "label_ok l \<longleftrightarrow> l \<noteq> [] \<and> name_letter (hd l) \<and> name_let_dig (last l) \<and> list_all name_let_dig_hyp (butlast (tl l))"

function split_labels :: "string \<Rightarrow> string list" where
  "split_labels s = (case dropWhile (\<lambda>c. c \<noteq> CHR ''.'') s of [] \<Rightarrow> [s]
     | c # r \<Rightarrow> takeWhile (\<lambda>c. c \<noteq> CHR ''.'') s # split_labels r)"
  by pat_completeness auto
termination
proof (relation "measure length")
  fix s r :: string and c
  assume "dropWhile (\<lambda>c. c \<noteq> CHR ''.'') s = c # r"
  then have "length (c # r) \<le> length s" using length_dropWhile_le by metis
  then show "(r, s) \<in> measure length" by simp
qed simp

declare split_labels.simps [simp del]

lemma split_labels_plain: "\<forall>c \<in> set s. c \<noteq> CHR ''.'' \<Longrightarrow> split_labels s = [s]"
  by (simp add: split_labels.simps [of s] dropWhile_eq_Nil_conv [THEN iffD2])

lemma split_labels_dot:
  assumes "\<forall>c \<in> set l. c \<noteq> CHR ''.''"
  shows "split_labels (l @ CHR ''.'' # r) = l # split_labels r"
proof -
  have "dropWhile (\<lambda>c. c \<noteq> CHR ''.'') (l @ CHR ''.'' # r) = CHR ''.'' # r"
    "takeWhile (\<lambda>c. c \<noteq> CHR ''.'') (l @ CHR ''.'' # r) = l"
    using assms by (simp_all add: dropWhile_append2 takeWhile_append2)
  then show ?thesis by (simp only: split_labels.simps [of "l @ CHR ''.'' # r"] list.case)
qed

text \<open>A string has no dot, or it is a first label, a dot and the rest.\<close>

lemma label_cases:
  obtains (plain) "\<forall>c \<in> set s. c \<noteq> CHR ''.''"
  | (dotted) l r where "s = l @ CHR ''.'' # r" and "\<forall>c \<in> set l. c \<noteq> CHR ''.''"
proof (cases "CHR ''.'' \<in> set s")
  case True
  then obtain l r where "s = l @ CHR ''.'' # r" "CHR ''.'' \<notin> set l" by (blast dest: split_list_first)
  then show ?thesis by (intro dotted) auto
qed (auto intro: plain)

lemma labels_induct:
  assumes "\<And>s. \<forall>c \<in> set s. c \<noteq> CHR ''.'' \<Longrightarrow> P s"
    and "\<And>l r. \<forall>c \<in> set l. c \<noteq> CHR ''.'' \<Longrightarrow> P r \<Longrightarrow> P (l @ CHR ''.'' # r)"
  shows "P s"
proof (induction "length s" arbitrary: s rule: less_induct)
  case less
  show ?case
  proof (cases s rule: label_cases)
    case plain
    then show ?thesis by (rule assms(1))
  next
    case (dotted l r)
    then have "P r" by (intro less) simp
    with dotted show ?thesis by (simp add: assms(2))
  qed
qed

lemma split_labels_append: "split_labels (s @ CHR ''.'' # t) = split_labels s @ split_labels t"
  by (induction s rule: labels_induct) (simp_all add: split_labels_plain split_labels_dot)

lemma label_chars:
  "name_letter c \<Longrightarrow> c \<noteq> CHR ''.''" "name_let_dig c \<Longrightarrow> c \<noteq> CHR ''.''" "name_let_dig_hyp c \<Longrightarrow> c \<noteq> CHR ''.''"
  "name_letter c \<Longrightarrow> name_let_dig c"
  by (auto simp: name_letter_def name_let_dig_def name_let_dig_hyp_def)

lemma label_iff: "label l \<longleftrightarrow> label_ok l"
proof
  assume "label l"
  then show "label_ok l" by cases (auto simp: label_ok_def label_chars butlast_append)
next
  assume *: "label_ok l"
  then obtain c t where l: "l = c # t" by (cases l) (auto simp: label_ok_def)
  show "label l"
  proof (cases t rule: rev_cases)
    case Nil
    with * l show ?thesis by (auto simp: label_ok_def intro: label.single)
  next
    case (snoc m d)
    with * l show ?thesis by (auto simp: label_ok_def intro: label.longer)
  qed
qed

lemma label_plain: "label l \<Longrightarrow> \<forall>c \<in> set l. c \<noteq> CHR ''.''"
  by (induction rule: label.induct) (auto simp: list_all_iff dest: label_chars)

lemma subdomain_prepend:
  assumes "subdomain s" and "label l"
  shows "subdomain (l @ CHR ''.'' # s)"
  using assms(1)
proof induction
  case (first k)
  then show ?case using assms(2) by (blast intro: subdomain.intros)
next
  case (dotted s k)
  then show ?case using subdomain.dotted [of "l @ CHR ''.'' # s" k] by simp
qed

lemma subdomain_iff: "subdomain s \<longleftrightarrow> list_all label_ok (split_labels s)"
proof
  assume "subdomain s"
  then show "list_all label_ok (split_labels s)"
    by induction (auto simp: split_labels_append split_labels_plain label_plain simp flip: label_iff)
next
  show "list_all label_ok (split_labels s) \<Longrightarrow> subdomain s"
    by (induction s rule: labels_induct)
       (auto simp: split_labels_plain split_labels_dot simp flip: label_iff intro: subdomain.first subdomain_prepend)
qed

text \<open>One round of the loop is one label.\<close>

lemma find_first_of_None: "find_first_of s c b = None \<longleftrightarrow> c \<notin> set (drop b s)"
proof -
  have "set (drop b s) = (\<lambda>i. s ! i) ` {b..<length s}"
    by (auto simp: in_set_conv_nth image_iff) (metis add.commute atLeastLessThan_iff le_add2 less_diff_conv, metis add_diff_inverse_nat diff_less_mono leD)
  then show ?thesis by (auto simp: find_first_of_def find_None_iff)
qed

lemma find_first_of_split:
  assumes "drop b s = l @ c # r" and "c \<notin> set l"
  shows "find_first_of s c b = Some (b + length l)"
proof -
  have len: "b + length l < length s" using arg_cong [OF assms(1), of length] by simp
  have nth: "s ! (b + i) = (l @ c # r) ! i" for i
    using assms(1) len nth_drop [of b s i] by simp
  show ?thesis
    unfolding find_first_of_def find_Some_iff
    using len nth assms(2) by (intro exI [of _ "length l"]) (auto simp: nth_append)
qed

lemma label_ok_slice:
  assumes "l = take n (drop b s)" and "b + n \<le> length s"
  shows "label_ok l \<longleftrightarrow> n \<noteq> 0 \<and> name_letter (s ! b) \<and> name_let_dig (s ! (b + n - 1)) \<and>
    list_all (\<lambda>i. name_let_dig_hyp (s ! i)) [b + 1..<b + n - 1]"
proof (cases "n = 0")
  case False
  have len: "length l = n" using assms by simp
  have nth: "l ! i = s ! (b + i)" if "i < n" for i using that assms by simp
  have "l \<noteq> []" using len False by auto
  moreover have "hd l = s ! b" using nth [of 0] False len by (simp add: hd_conv_nth \<open>l \<noteq> []\<close>)
  moreover have "last l = s ! (b + n - 1)" using nth [of "n - 1"] False len by (simp add: last_conv_nth \<open>l \<noteq> []\<close>)
  moreover have "butlast (tl l) = map (\<lambda>i. s ! i) [b + 1..<b + n - 1]"
    by (rule nth_equalityI) (simp_all add: len nth_butlast nth_tl nth)
  ultimately show ?thesis using False by (simp add: label_ok_def list_all_iff)
qed (simp add: assms label_ok_def)

lemma labels_valid_step:
  assumes "label_end s b = b + n" and "b + n \<le> length s"
  shows "labels_valid s b \<longleftrightarrow> label_ok (take n (drop b s)) \<and> (b + n = length s \<or> labels_valid s (b + n + 1))"
proof -
  note step = labels_valid.simps [of s b] and slice = label_ok_slice [OF refl assms(2)]
  show ?thesis unfolding step slice Let_def assms(1) GRAPHENE_MIN_ACCOUNT_NAME_LENGTH_def by auto
qed

lemma labels_valid_iff: "b \<le> length s \<Longrightarrow> labels_valid s b \<longleftrightarrow> list_all label_ok (split_labels (drop b s))"
proof (induction s b rule: labels_valid.induct)
  case (1 s b)
  show ?case
  proof (cases "drop b s" rule: label_cases)
    case plain
    then have "CHR ''.'' \<notin> set (drop b s)" by blast
    then have "label_end s b = b + (length s - b)"
      using 1(2) find_first_of_None [of s "CHR ''.''" b] by (simp add: label_end_def)
    with plain 1(2) labels_valid_step [of s b "length s - b"] show ?thesis by (simp add: split_labels_plain)
  next
    case (dotted l r)
    have "CHR ''.'' \<notin> set l" using dotted(2) by blast
    with dotted(1) have e: "label_end s b = b + length l" by (simp add: label_end_def find_first_of_split)
    have len: "b + length l < length s" using arg_cong [OF dotted(1), of length] by simp
    have r: "drop (b + length l + 1) s = r" and l: "take (length l) (drop b s) = l"
      using dotted(1) drop_drop [of "length l + 1" b s] by (simp_all add: ac_simps)
    have step: "labels_valid s b \<longleftrightarrow> label_ok l \<and> labels_valid s (b + length l + 1)"
      using labels_valid_step [OF e] len l by simp
    have rest: "label_ok l \<Longrightarrow> labels_valid s (b + length l + 1) \<longleftrightarrow> list_all label_ok (split_labels r)"
      using 1(1) [OF refl] len label_ok_slice [of l "length l" b s] l r e
      by (simp add: GRAPHENE_MIN_ACCOUNT_NAME_LENGTH_def)
    show ?thesis using step rest unfolding dotted(1) split_labels_dot [OF dotted(2)] by auto
  qed
qed

section \<open>Properties of names\<close>

text \<open>C25.
  \<open>is_valid_name\<close> accepts exactly the names of 1 to 63 characters that are derived, in lower case, by the RFC 1035
  grammar: labels separated by dots, each a letter, or a letter, any letters, digits or hyphens, and a letter or
  digit. The function does not do all that its comment says: the comment also wants each label to be three
  characters or more, which neither the grammar nor the code enforces, so labels of one and two characters are
  accepted (\<open>short_labels_accepted\<close> gives examples).
\<close>

theorem is_valid_name_iff:
  "is_valid_name s \<longleftrightarrow> 1 \<le> length s \<and> length s \<le> 63 \<and> subdomain s"
  using labels_valid_iff [of 0 s]
  by (auto simp: Suc_le_eq is_valid_name_def subdomain_iff GRAPHENE_MIN_ACCOUNT_NAME_LENGTH_def GRAPHENE_MAX_ACCOUNT_NAME_LENGTH_def)

lemma short_labels_accepted: "is_valid_name ''a''" "is_valid_name ''ab.c''" "is_valid_name ''a-b''"
  by code_simp+

text \<open>A name is cheap exactly when it holds a digit, a dot, a hyphen or a slash, or no vowel.\<close>

lemma is_cheap_name_iff:
  "is_cheap_name n \<longleftrightarrow> set n \<inter> set ''0123456789.-/'' \<noteq> {} \<or> set n \<inter> set ''aeiouy'' = {}"
proof -
  have "cheap_scan v n \<longleftrightarrow> set n \<inter> set ''0123456789.-/'' \<noteq> {} \<or> (\<not> v \<and> set n \<inter> set ''aeiouy'' = {})" for v
    by (induction v n rule: cheap_scan.induct) auto
  then show ?thesis by (simp add: is_cheap_name_def)
qed

end
