(* ===== verification/Fee_Schedule.thy ===== *)
theory Fee_Schedule
  imports Sample_State
begin

text \<open>
  The fee schedule (protocol/fee_schedule.cpp): the scaling of an operation's base fee and its conversion
  into the asset the fee is paid in, with the loop that rounds the amount up; and the validation of chain
  parameters, which the same file holds.

  The base value of an operation, which its own \<open>calculate_fee\<close> computes, is an argument.
\<close>

section \<open>The fee of an operation\<close>

type_synonym u64 = "64 word"

definition scaled_fee :: "u64 \<Rightarrow> u32 \<Rightarrow> uint128" where
  "scaled_fee base_value scale = ucast base_value * ucast scale div 10000"

definition fee_exchange_rate :: "price \<Rightarrow> asset_id_type \<Rightarrow> price" where
  "fee_exchange_rate core_exchange_rate core_asset_id =
     (if core_asset_id = 1 \<and> asset_id (quote core_exchange_rate) = 1 \<and> asset_id (base core_exchange_rate) = 0
      then unit_price core_asset_id else core_exchange_rate)"

text \<open>The loop that increments the amount until it converts back to the whole fee.\<close>

partial_function (option) raise_fee :: "safe_ops \<Rightarrow> share_type \<Rightarrow> price \<Rightarrow> asset \<Rightarrow> asset result option" where
  "raise_fee S scaled exchange_rate r =
     (case rbind (asset_times r exchange_rate) (\<lambda>back. asset_lt back (mk_asset scaled (asset_id (base exchange_rate)))) of
        Inl e \<Rightarrow> Some (Inl e)
      | Inr short \<Rightarrow> if short
          then (case safe_add S (amount r) 1 of Inl e \<Rightarrow> Some (Inl e) | Inr v \<Rightarrow> raise_fee S scaled exchange_rate (r\<lparr>amount := v\<rparr>))
          else Some (Inr r))"

declare raise_fee.simps [code]

definition calculate_fee :: "safe_ops \<Rightarrow> u64 \<Rightarrow> u32 \<Rightarrow> price \<Rightarrow> asset_id_type \<Rightarrow> asset result option" where
  "calculate_fee S base_value scale core_exchange_rate core_asset_id =
     (let scaled = scaled_fee base_value scale; exchange_rate = fee_exchange_rate core_exchange_rate core_asset_id in
      case fc_assert (scaled \<le> u128 GRAPHENE_MAX_SHARE_SUPPLY) (asset_times (mk_asset (to_uint64 scaled) core_asset_id) exchange_rate) of
        Inl e \<Rightarrow> Some (Inl e)
      | Inr r \<Rightarrow> map_option (\<lambda>m. rbind m (\<lambda>a. fc_assert (amount a \<le> GRAPHENE_MAX_SHARE_SUPPLY) (Inr a)))
                   (raise_fee S (to_uint64 scaled) exchange_rate r))"

section \<open>Validation of chain parameters\<close>

definition GRAPHENE_MIN_TRANSACTION_SIZE_LIMIT :: nat where "GRAPHENE_MIN_TRANSACTION_SIZE_LIMIT = 1024"
definition GRAPHENE_MIN_BLOCK_SIZE_LIMIT :: nat where "GRAPHENE_MIN_BLOCK_SIZE_LIMIT = GRAPHENE_MIN_TRANSACTION_SIZE_LIMIT * 5"
definition GRAPHENE_MIN_BLOCK_INTERVAL :: nat where "GRAPHENE_MIN_BLOCK_INTERVAL = 1"
definition GRAPHENE_MAX_BLOCK_INTERVAL :: nat where "GRAPHENE_MAX_BLOCK_INTERVAL = 30"

text \<open>The difference of two unsigned 32-bit integers wraps around.\<close>

definition sub_u32 :: "nat \<Rightarrow> nat \<Rightarrow> nat" where
  "sub_u32 a b = unat (of_nat a - of_nat b :: u32)"

definition chain_parameters_validate :: "chain_parameters \<Rightarrow> unit result" where
  "chain_parameters_validate p =
     fc_assert (unat (cp_reserve_percent_of_fee p) \<le> 10000)
    (fc_assert (unat (cp_network_percent_of_fee p) \<le> 10000)
    (fc_assert (unat (cp_lifetime_referrer_percent_of_fee p) \<le> 10000)
    (fc_assert (unat (cp_network_percent_of_fee p) + unat (cp_lifetime_referrer_percent_of_fee p) \<le> 10000)
    (fc_assert (cp_block_interval p \<ge> GRAPHENE_MIN_BLOCK_INTERVAL)
    (fc_assert (cp_block_interval p \<le> GRAPHENE_MAX_BLOCK_INTERVAL)
    (fc_assert (cp_block_interval p > 0)
    (fc_assert (cp_maintenance_interval p > cp_block_interval p)
    (fc_assert (cp_maintenance_interval p mod cp_block_interval p = 0)
    (fc_assert (cp_maximum_transaction_size p \<ge> GRAPHENE_MIN_TRANSACTION_SIZE_LIMIT)
    (fc_assert (cp_maximum_block_size p \<ge> GRAPHENE_MIN_BLOCK_SIZE_LIMIT)
    (fc_assert (cp_maximum_time_until_expiration p > cp_block_interval p)
    (fc_assert (sub_u32 (cp_maximum_proposal_lifetime p) (cp_committee_proposal_review_period p) > cp_block_interval p)
    (Inr ())))))))))))))"

section \<open>Rounding up\<close>

lemma scaled_fee_exact: "uint (scaled_fee b s) = uint b * uint s div 10000"
proof -
  have "uint b * uint s < 2 ^ 64 * 2 ^ 32"
    using uint_lt2p [of b] uint_lt2p [of s] by (intro mult_strict_mono) auto
  then have "uint (ucast b * ucast s :: uint128) = uint b * uint s"
    by (simp add: uint_word_ariths uint_up_ucast is_up take_bit_int_eq_self mod_pos_pos_trivial)
  then show ?thesis by (simp add: scaled_fee_def uint_div)
qed

text \<open>\<open>n\<close> divided by \<open>d\<close>, rounded up.\<close>

definition div_up :: "int \<Rightarrow> int \<Rightarrow> int" where
  "div_up n d = (n + d - 1) div d"

lemma div_up_cases:
  assumes "0 < d"
  shows "div_up n d = (if n div d * d < n then n div d + 1 else n div d)"
proof -
  have m: "0 \<le> n mod d" "n mod d < d" using assms by auto
  have n: "n = n div d * d + n mod d" by simp
  have eq: "n + d - 1 = (n mod d + d - 1) + n div d * d" using n by linarith
  have "(n + d - 1) div d = n div d + (n mod d + d - 1) div d"
    unfolding eq by (rule div_mult_self1) (use assms in simp)
  moreover have "(n mod d + d - 1) div d = (if n mod d = 0 then 0 else 1)"
    using m by (auto intro!: int_div_pos_eq [of _ d 1 "n mod d - 1"])
  moreover have "n div d * d < n \<longleftrightarrow> n mod d \<noteq> 0" using n m by linarith
  ultimately show ?thesis by (simp add: div_up_def)
qed

lemma floor_below_iff:
  assumes "0 < (q::int)"
  shows "m div q < s \<longleftrightarrow> m < s * q"
proof
  assume "m div q < s"
  then have "(m div q + 1) * q \<le> s * q" using assms by (intro mult_right_mono) auto
  moreover have "m < (m div q + 1) * q"
    using assms pos_mod_bound [OF assms, of m] by (simp add: distrib_right minus_mod_eq_div_mult [symmetric])
  ultimately show "m < s * q" by linarith
next
  assume *: "m < s * q"
  show "m div q < s"
  proof (rule ccontr)
    assume "\<not> m div q < s"
    then have "s * q \<le> m div q * q" using assms by (intro mult_right_mono) auto
    also have "\<dots> \<le> m" using assms pos_mod_sign [OF assms, of m] by (simp add: minus_mod_eq_div_mult [symmetric])
    finally show False using * by simp
  qed
qed

lemma asset_times_quote:
  assumes p: "price_ok p" and ids: "asset_id (base p) \<noteq> asset_id (quote p)" and n: "0 \<le> n" "n \<le> int64_max"
  shows "asset_times (mk_asset n (asset_id (quote p))) p = Inr r \<longleftrightarrow>
    n * amount (base p) div amount (quote p) \<le> GRAPHENE_MAX_SHARE_SUPPLY \<and>
    r = mk_asset (n * amount (base p) div amount (quote p)) (asset_id (base p))"
  using asset_times_Inr [OF _ p ids, of "mk_asset n (asset_id (quote p))" r] n ids by (auto simp: amount_ok_def)

lemma rounding_stops:
  assumes b: "0 < (b::int)" and q: "0 < q"
  shows "(s * q div b) * b div q < s \<longleftrightarrow> (s * q div b) * b < s * q" and "\<not> (s * q div b + 1) * b div q < s"
proof -
  show "(s * q div b) * b div q < s \<longleftrightarrow> (s * q div b) * b < s * q" by (rule floor_below_iff [OF q])
  have "s * q < (s * q div b + 1) * b"
    using floor_below_iff [OF b, of "s * q" "s * q div b + 1"] by simp
  then show "\<not> (s * q div b + 1) * b div q < s" using floor_below_iff [OF q] by simp
qed

lemma back_conversion_bound:
  assumes b: "0 < (b::int)" and q: "0 < q" and s: "0 \<le> s"
  shows "(s * q div b + 1) * b div q \<le> s + b" and "(s * q div b) * b div q \<le> s + b"
proof -
  have "(s * q div b) * b \<le> s * q" using floor_below_iff [OF b, of "s * q" "s * q div b"] by simp
  moreover have "b \<le> b * q" using b q by simp
  ultimately have *: "(s * q div b + 1) * b \<le> (s + b) * q" "(s * q div b) * b \<le> (s + b) * q"
    using b unfolding distrib_right by linarith+
  show "(s * q div b + 1) * b div q \<le> s + b" "(s * q div b) * b div q \<le> s + b"
    using * zdiv_mono1 [OF _ q] q by (metis nonzero_mult_div_cancel_right less_irrefl)+
qed

lemma mk_asset_update: "(mk_asset n i)\<lparr>amount := v\<rparr> = mk_asset v i"
  by (simp add: mk_asset_def)

text \<open>One turn of the loop, on an amount of the quote asset.\<close>

context checked_int64
begin

lemma raise_fee_turn:
  assumes p: "price_ok p" and ids: "asset_id (base p) \<noteq> asset_id (quote p)" and n: "0 \<le> n" "n < int64_max"
  shows "(GRAPHENE_MAX_SHARE_SUPPLY < n * amount (base p) div amount (quote p) \<and>
      (\<exists>e. raise_fee S s p (mk_asset n (asset_id (quote p))) = Some (Inl e))) \<or>
    raise_fee S s p (mk_asset n (asset_id (quote p))) =
      (if n * amount (base p) div amount (quote p) < s then raise_fee S s p (mk_asset (n + 1) (asset_id (quote p)))
       else Some (Inr (mk_asset n (asset_id (quote p)))))"
proof (cases "asset_times (mk_asset n (asset_id (quote p))) p")
  case (Inl e)
  then have "GRAPHENE_MAX_SHARE_SUPPLY < n * amount (base p) div amount (quote p)"
    using asset_times_quote [OF p ids, of n] n by (metis less_imp_le linorder_not_less sum.distinct(1))
  moreover have "raise_fee S s p (mk_asset n (asset_id (quote p))) = Some (Inl e)" by (subst raise_fee.simps) (simp add: Inl)
  ultimately show ?thesis by blast
next
  case (Inr r)
  then have r: "r = mk_asset (n * amount (base p) div amount (quote p)) (asset_id (base p))"
    using asset_times_quote [OF p ids, of n r] n by simp
  have "safe_add S n 1 = Inr (n + 1)" using n by (intro add_exact) (auto simp: int64_defs)
  then have "raise_fee S s p (mk_asset n (asset_id (quote p))) =
      (if n * amount (base p) div amount (quote p) < s then raise_fee S s p (mk_asset (n + 1) (asset_id (quote p)))
       else Some (Inr (mk_asset n (asset_id (quote p)))))"
    by (subst raise_fee.simps) (simp add: Inr r asset_lt_def mk_asset_update)
  then show ?thesis by blast
qed

lemma raise_fee_rounds_up:
  assumes p: "price_ok p" and ids: "asset_id (base p) \<noteq> asset_id (quote p)" and s: "0 \<le> s"
    and n: "s * amount (quote p) div amount (base p) \<le> GRAPHENE_MAX_SHARE_SUPPLY"
  shows "(GRAPHENE_MAX_SHARE_SUPPLY < s + amount (base p) \<and>
      (\<exists>e. raise_fee S s p (mk_asset (s * amount (quote p) div amount (base p)) (asset_id (quote p))) = Some (Inl e))) \<or>
    raise_fee S s p (mk_asset (s * amount (quote p) div amount (base p)) (asset_id (quote p))) =
      Some (Inr (mk_asset (div_up (s * amount (quote p)) (amount (base p))) (asset_id (quote p))))"
proof -
  let ?b = "amount (base p)" and ?q = "amount (quote p)"
  let ?n = "s * ?q div ?b"
  have pos: "0 < ?b" "0 < ?q" using p by (auto simp: price_ok_def)
  have n0: "0 \<le> ?n" using s pos by (simp add: pos_imp_zdiv_nonneg_iff)
  have lim: "?n < int64_max" "?n + 1 < int64_max" using n by (auto simp: GRAPHENE_MAX_SHARE_SUPPLY_def int64_max_def)
  have le: "(?n + 1) * ?b div ?q \<le> s + ?b" "?n * ?b div ?q \<le> s + ?b"
    using back_conversion_bound [OF pos s] by (auto simp: zdiv_mono1 intro: order_trans)
  show ?thesis
    using raise_fee_turn [OF p ids n0 lim(1), of s] raise_fee_turn [OF p ids _ lim(2), of s] n0 le
      rounding_stops [OF pos, of s] div_up_cases [OF pos(1), of "s * ?q"]
    by (auto split: if_splits)
qed

lemma calculate_fee_rounds:
  assumes p: "price_ok rate" and ids: "asset_id (base rate) = core" "asset_id (quote rate) \<noteq> core"
    and s_def: "s = uint base_value * uint scale div 10000"
  shows "(\<exists>e. calculate_fee S base_value scale rate core = Some (Inl e)) \<and>
      (GRAPHENE_MAX_SHARE_SUPPLY < s + amount (base rate) \<or> GRAPHENE_MAX_SHARE_SUPPLY < div_up (s * amount (quote rate)) (amount (base rate))) \<or>
    calculate_fee S base_value scale rate core =
      Some (Inr (mk_asset (div_up (s * amount (quote rate)) (amount (base rate))) (asset_id (quote rate))))"
proof -
  let ?b = "amount (base rate)" and ?q = "amount (quote rate)" and ?sc = "scaled_fee base_value scale"
  have pos: "0 < ?b" "0 < ?q" using p by (auto simp: price_ok_def)
  have er: "fee_exchange_rate rate core = rate" using ids by (auto simp: fee_exchange_rate_def)
  have fits: "?sc \<le> u128 GRAPHENE_MAX_SHARE_SUPPLY \<longleftrightarrow> s \<le> GRAPHENE_MAX_SHARE_SUPPLY"
    by (simp add: word_le_def uint_u128 GRAPHENE_MAX_SHARE_SUPPLY_def scaled_fee_exact s_def)
  show ?thesis
  proof (cases "s \<le> GRAPHENE_MAX_SHARE_SUPPLY \<and> s * ?q div ?b \<le> GRAPHENE_MAX_SHARE_SUPPLY")
    case True
    then have sc: "to_uint64 ?sc = s" using fits to_uint64_supply [of ?sc] by (simp add: scaled_fee_exact s_def)
    have s0: "0 \<le> s" by (simp add: s_def pos_imp_zdiv_nonneg_iff)
    have "asset_times (mk_asset s core) rate = Inr (mk_asset (s * ?q div ?b) (asset_id (quote rate)))"
      using asset_times_Inr [OF _ p, of "mk_asset s core"] ids True s0
      by (auto simp: amount_ok_def GRAPHENE_MAX_SHARE_SUPPLY_def int64_max_def)
    then have "calculate_fee S base_value scale rate core =
        map_option (\<lambda>m. rbind m (\<lambda>a. fc_assert (amount a \<le> GRAPHENE_MAX_SHARE_SUPPLY) (Inr a)))
          (raise_fee S s rate (mk_asset (s * ?q div ?b) (asset_id (quote rate))))"
      using True fits by (simp add: calculate_fee_def er sc Let_def)
    with raise_fee_rounds_up [OF p _ s0] True ids show ?thesis by (auto simp: ensure_def)
  next
    case False
    then have "\<exists>e. fc_assert (?sc \<le> u128 GRAPHENE_MAX_SHARE_SUPPLY) (asset_times (mk_asset (to_uint64 ?sc) core) rate) = Inl e"
    proof (cases "s \<le> GRAPHENE_MAX_SHARE_SUPPLY")
      case s: True
      then have sc: "to_uint64 ?sc = s" using fits to_uint64_supply [of ?sc] by (simp add: scaled_fee_exact s_def)
      have "0 \<le> s" by (simp add: s_def pos_imp_zdiv_nonneg_iff)
      then have "asset_times (mk_asset s core) rate \<noteq> Inr r" for r
        using asset_times_Inr [OF _ p, of "mk_asset s core" r] ids False s
        by (auto simp: amount_ok_def GRAPHENE_MAX_SHARE_SUPPLY_def int64_max_def)
      then show ?thesis by (cases "asset_times (mk_asset s core) rate") (auto simp: sc s fits)
    qed (simp add: fits)
    then have "\<exists>e. calculate_fee S base_value scale rate core = Some (Inl e)" by (auto simp: calculate_fee_def er Let_def)
    moreover have "s * ?q div ?b \<le> div_up (s * ?q) ?b" using div_up_cases [OF pos(1), of "s * ?q"] by auto
    ultimately show ?thesis using False pos by auto
  qed
qed

lemma calculate_fee_core:
  assumes s: "uint base_value * uint scale div 10000 \<le> GRAPHENE_MAX_SHARE_SUPPLY"
  shows "calculate_fee S base_value scale (unit_price core) core = Some (Inr (mk_asset (uint base_value * uint scale div 10000) core))"
proof -
  let ?s = "uint base_value * uint scale div 10000"
  have fits: "scaled_fee base_value scale \<le> u128 GRAPHENE_MAX_SHARE_SUPPLY"
    using s by (simp add: word_le_def uint_u128 GRAPHENE_MAX_SHARE_SUPPLY_def scaled_fee_exact)
  then have sc: "to_uint64 (scaled_fee base_value scale) = ?s"
    using to_uint64_supply by (simp add: scaled_fee_exact)
  have s0: "0 \<le> ?s" by (simp add: pos_imp_zdiv_nonneg_iff)
  have er: "fee_exchange_rate (unit_price core) core = unit_price core" by (simp add: fee_exchange_rate_def)
  have t: "asset_times (mk_asset ?s core) (unit_price core) = Inr (mk_asset ?s core)"
  proof -
    let ?u = "mk_asset 1 core"
    have "uint (cross (mk_asset ?s core) ?u div u128 (amount ?u)) = ?s"
      using convert_floor [of "mk_asset ?s core" ?u ?u] s s0 by (simp add: amount_ok_def GRAPHENE_MAX_SHARE_SUPPLY_def int64_max_def)
    then show ?thesis
      using to_uint64_supply [of "cross (mk_asset ?s core) ?u div u128 (amount ?u)"] s
      by (simp add: asset_times_def unit_price_def mk_price_def word_le_def uint_u128 GRAPHENE_MAX_SHARE_SUPPLY_def)
  qed
  have "asset_id (base (unit_price core)) = core" by (simp add: unit_price_def)
  then have "raise_fee S ?s (unit_price core) (mk_asset ?s core) = Some (Inr (mk_asset ?s core))"
    by (subst raise_fee.simps) (simp add: t asset_lt_def)
  then show ?thesis using s fits t by (simp add: calculate_fee_def er sc Let_def)
qed

end

section \<open>Properties of the fee schedule\<close>



text \<open>
  The last check of \<open>chain_parameters::validate\<close> means to refuse a committee review period that is not
  shorter than the maximal lifetime of a proposal. The difference it tests is unsigned: a longer review
  period makes it wrap, and the parameters pass.
\<close>

lemma review_period_check_wraps:
  assumes "cp_maximum_proposal_lifetime p < cp_committee_proposal_review_period p"
    and "cp_committee_proposal_review_period p < 2 ^ 31" and "cp_block_interval p \<le> 30"
    and "chain_parameters_validate (p\<lparr>cp_maximum_proposal_lifetime := cp_committee_proposal_review_period p + 31\<rparr>) = Inr ()"
  shows "chain_parameters_validate p = Inr ()"
proof -
  let ?a = "cp_maximum_proposal_lifetime p" and ?b = "cp_committee_proposal_review_period p"
  have "(of_nat ?a - of_nat ?b :: u32) = of_nat (?a + 2 ^ 32 - ?b)"
    using assms(1,2) by (simp add: of_nat_diff)
  then have "sub_u32 ?a ?b = (?a + 2 ^ 32 - ?b) mod 2 ^ LENGTH(32)" by (simp only: sub_u32_def unat_of_nat)
  then have "sub_u32 ?a ?b > 30" using assms(1,2) by simp
  with assms(3,4) show ?thesis by (auto simp: chain_parameters_validate_def result_simps)
qed

end
