(* ===== verification/Trust_Node_Ops.thy ===== *)
theory Trust_Node_Ops
  imports Staking Fee_Schedule
begin

text \<open>
  Witnesses, committee members and the pledge of a trust node (witness_evaluator.cpp,
  committee_member_evaluator.cpp, trust_node_pledge_helper.cpp): becoming one, updating it, the pledge of
  core tokens that goes with it, and withdrawing that pledge.

  The static members of \<open>trust_node_pledge_helper\<close>, which \<open>do_evaluate\<close> sets and \<open>do_apply\<close> reads, are
  the record \<open>pledge_state\<close> that an evaluation hands to its application; pointers to objects are their ids.
\<close>

section \<open>Operations\<close>

record witness_create_operation =
  wc_fee :: asset
  wc_witness_account :: account_id_type
  wc_url :: string
  wc_block_signing_key :: public_key_type

record witness_update_operation =
  wu_fee :: asset
  wu_witness :: nat
  wu_witness_account :: account_id_type
  wu_new_url :: "string option"
  wu_new_signing_key :: "public_key_type option"

record witness_set_commission_operation =
  ws_fee :: asset
  ws_witness :: nat
  ws_witness_account :: account_id_type
  ws_commission_rate :: nat
  ws_extensions :: "future_extensions list"

record witness_unbanned_operation =
  wb_fee :: asset
  wb_witness :: nat
  wb_witness_account :: account_id_type
  wb_extensions :: "future_extensions list"

record trust_node_pledge_withdraw_operation =
  tw_fee :: asset
  tw_witness_account :: account_id_type

record committee_member_create_operation =
  cc_fee :: asset
  cc_committee_member_account :: account_id_type
  cc_url :: string

record committee_member_update_operation =
  cu_fee :: asset
  cu_committee_member :: nat
  cu_committee_member_account :: account_id_type
  cu_new_url :: "string option"

record committee_member_update_global_parameters_operation =
  cg_fee :: asset
  cg_new_parameters :: chain_parameters

definition GRAPHENE_MAX_URL_LENGTH :: nat where
  "GRAPHENE_MAX_URL_LENGTH = 127"

definition valid_url_option :: "string option \<Rightarrow> bool" where
  "valid_url_option u = (case u of None \<Rightarrow> True | Some s \<Rightarrow> length s < GRAPHENE_MAX_URL_LENGTH)"

definition witness_create_validate :: "witness_create_operation \<Rightarrow> unit result" where
  "witness_create_validate op =
     fc_assert (amount (wc_fee op) \<ge> 0) (fc_assert (length (wc_url op) < GRAPHENE_MAX_URL_LENGTH) (Inr ()))"

definition witness_update_validate :: "witness_update_operation \<Rightarrow> unit result" where
  "witness_update_validate op = fc_assert (amount (wu_fee op) \<ge> 0) (fc_assert (valid_url_option (wu_new_url op)) (Inr ()))"

definition witness_set_commission_validate :: "witness_set_commission_operation \<Rightarrow> unit result" where
  "witness_set_commission_validate op = fc_assert (amount (ws_fee op) \<ge> 0) (Inr ())"

definition witness_unbanned_validate :: "witness_unbanned_operation \<Rightarrow> unit result" where
  "witness_unbanned_validate op = fc_assert (amount (wb_fee op) \<ge> 0) (Inr ())"

definition trust_node_pledge_withdraw_validate :: "trust_node_pledge_withdraw_operation \<Rightarrow> unit result" where
  "trust_node_pledge_withdraw_validate op = fc_assert (amount (tw_fee op) \<ge> 0) (Inr ())"

definition committee_member_create_validate :: "committee_member_create_operation \<Rightarrow> unit result" where
  "committee_member_create_validate op =
     fc_assert (amount (cc_fee op) \<ge> 0) (fc_assert (length (cc_url op) < GRAPHENE_MAX_URL_LENGTH) (Inr ()))"

definition committee_member_update_validate :: "committee_member_update_operation \<Rightarrow> unit result" where
  "committee_member_update_validate op = fc_assert (amount (cu_fee op) \<ge> 0) (fc_assert (valid_url_option (cu_new_url op)) (Inr ()))"

definition update_global_parameters_validate :: "committee_member_update_global_parameters_operation \<Rightarrow> unit result" where
  "update_global_parameters_validate op = fc_assert (amount (cg_fee op) \<ge> 0) (chain_parameters_validate (cg_new_parameters op))"

section \<open>The pledge\<close>

record pledge_state =
  pledge_object_exist :: bool
  pledge_obj_ptr :: "nat option"
  witness_obj_ptr :: "nat option"
  committee_obj_ptr :: "nat option"
  pledge_to_charge :: asset

definition pledge_reset :: pledge_state where
  "pledge_reset = \<lparr>pledge_object_exist = False, pledge_obj_ptr = None, witness_obj_ptr = None, committee_obj_ptr = None,
     pledge_to_charge = mk_asset 0 1\<rparr>"

definition find_pledge :: "database \<Rightarrow> account_id_type \<Rightarrow> (nat \<times> trust_node_pledge_object) option" where
  "find_pledge db acct = List.find (\<lambda>(i, p). tn_owner_account p = acct) (rows (db_pledges db))"

definition find_witness_by_account :: "database \<Rightarrow> account_id_type \<Rightarrow> (nat \<times> witness_object) option" where
  "find_witness_by_account db acct = List.find (\<lambda>(i, w). wt_witness_account w = acct) (rows (db_witnesses db))"

definition find_committee_by_account :: "database \<Rightarrow> account_id_type \<Rightarrow> (nat \<times> committee_member_object) option" where
  "find_committee_by_account db acct = List.find (\<lambda>(i, c). cm_committee_member_account c = acct) (rows (db_committee_members db))"

definition pledge_do_evaluate :: "safe_ops \<Rightarrow> account_id_type \<Rightarrow> database \<Rightarrow> pledge_state result" where
  "pledge_do_evaluate S acct db =
     (let pledge_needed = get_trust_node_pledge db in
      fc_assert (pledge_needed \<ge> 0)
      (rbind (case find_pledge db acct of
                None \<Rightarrow> Inr (pledge_reset\<lparr>pledge_to_charge := mk_asset pledge_needed 1\<rparr>)
              | Some (i, p) \<Rightarrow>
                  rbind (asset_sub S (mk_asset pledge_needed 1) (tn_amount p)) (\<lambda>charge.
                  Inr (pledge_reset\<lparr>pledge_object_exist := True, pledge_to_charge := charge, pledge_obj_ptr := Some i\<rparr>))) (\<lambda>st.
       if amount (pledge_to_charge st) \<le> 0 then Inr st
       else rbind (asset_ge (get_balance db acct 1) (pledge_to_charge st)) (\<lambda>enough. fc_assert enough (Inr st)))))"

definition pledge_do_apply :: "safe_ops \<Rightarrow> account_id_type \<Rightarrow> pledge_state \<Rightarrow> database \<Rightarrow> database result" where
  "pledge_do_apply S acct st db =
     (if amount (pledge_to_charge st) \<noteq> 0
      then rbind (if pledge_object_exist st
                  then case pledge_obj_ptr st of None \<Rightarrow> Inl Undefined_behaviour
                    | Some i \<Rightarrow> modify_pledge i (\<lambda>p. rbind (asset_add S (tn_amount p) (pledge_to_charge st)) (\<lambda>a. Inr (p\<lparr>tn_amount := a\<rparr>))) db
                  else rbind (create_pledge \<lparr>tn_owner_account = acct, tn_amount = pledge_to_charge st\<rparr> db) (\<lambda>(i, db1). Inr db1)) (\<lambda>db1.
           rbind (asset_neg S (pledge_to_charge st)) (\<lambda>minus. adjust_balance S acct minus db1))
      else Inr db)"

definition pledge_withdraw_do_evaluate :: "account_id_type \<Rightarrow> database \<Rightarrow> pledge_state result" where
  "pledge_withdraw_do_evaluate acct db =
     (case find_pledge db acct of None \<Rightarrow> Inl Assert_failed
      | Some (i, p) \<Rightarrow>
        let w = find_witness_by_account db acct; c = find_committee_by_account db acct in
        fc_assert (w \<noteq> None \<or> c \<noteq> None)
          (Inr (pledge_reset\<lparr>pledge_obj_ptr := Some i, witness_obj_ptr := map_option fst w, committee_obj_ptr := map_option fst c\<rparr>)))"

definition set_witness_valid :: "bool \<Rightarrow> nat \<Rightarrow> database \<Rightarrow> database result" where
  "set_witness_valid b i = modify_witness i (\<lambda>w. Inr (w\<lparr>wt_is_valid := b\<rparr>))"

definition set_committee_valid :: "bool \<Rightarrow> nat \<Rightarrow> database \<Rightarrow> database result" where
  "set_committee_valid b i = modify_committee_member i (\<lambda>c. Inr (c\<lparr>cm_is_valid := b\<rparr>))"

definition pledge_withdraw_do_apply :: "safe_ops \<Rightarrow> account_id_type \<Rightarrow> pledge_state \<Rightarrow> database \<Rightarrow> database result" where
  "pledge_withdraw_do_apply S acct st db =
     (case pledge_obj_ptr st of None \<Rightarrow> Inl Undefined_behaviour
      | Some i \<Rightarrow>
        rbind (index_get (db_pledges db) i) (\<lambda>p.
        rbind (deposit_lazy_vesting S None (amount (tn_amount p)) (cp_cashback_vesting_period_seconds (params db)) acct True db) (\<lambda>(v, db1).
        let db2 = remove_pledge i db1 in
        rbind (case witness_obj_ptr st of None \<Rightarrow> Inr db2 | Some w \<Rightarrow> set_witness_valid False w db2) (\<lambda>db3.
        case committee_obj_ptr st of None \<Rightarrow> Inr db3 | Some c \<Rightarrow> set_committee_valid False c db3))))"

section \<open>Evaluators\<close>

text \<open>A vote id of a type: the type in the low byte, the next available instance above it.\<close>

definition get_next_vote_id :: "nat \<Rightarrow> database \<Rightarrow> vote_id_type \<times> database" where
  "get_next_vote_id ty db =
     (let g = db_global db; n = gp_next_available_vote_id g in
      (n * 256 mod 2 ^ 32 + ty, db\<lparr>db_global := g\<lparr>gp_next_available_vote_id := (n + 1) mod 2 ^ 32\<rparr>\<rparr>))"

definition vote_id_committee :: nat where "vote_id_committee = 0"
definition vote_id_witness :: nat where "vote_id_witness = 1"

definition when_1129 :: "database \<Rightarrow> pledge_state result \<Rightarrow> pledge_state result" where
  "when_1129 db m = (if head_block_time db > HARDFORK_1129_TIME then m else Inr pledge_reset)"

definition new_witness :: "witness_create_operation \<Rightarrow> vote_id_type \<Rightarrow> witness_object" where
  "new_witness op v = \<lparr>wt_witness_account = wc_witness_account op, wt_last_aslot = 0, wt_signing_key = wc_block_signing_key op,
     wt_pay_vb = None, wt_vote_id = v, wt_total_votes = 0, wt_url = wc_url op, wt_total_missed = 0, wt_last_confirmed_block_num = 0,
     wt_is_valid = True, wt_total_vote_weights = 0, wt_vote_reward_pool = 0, wt_commission_rate = 0, wt_commission_update_time = 0,
     wt_previous_missed = 0, wt_is_banned = False\<rparr>"

definition witness_create_do_evaluate :: "safe_ops \<Rightarrow> witness_create_operation \<Rightarrow> fee_state \<Rightarrow> database \<Rightarrow> pledge_state result" where
  "witness_create_do_evaluate S op fs db =
     rbind (index_get (db_accounts db) (wc_witness_account op)) (\<lambda>a.
     fc_assert (is_lifetime_member a) (when_1129 db (pledge_do_evaluate S (wc_witness_account op) db)))"

definition witness_create_do_apply :: "safe_ops \<Rightarrow> witness_create_operation \<Rightarrow> pledge_state \<Rightarrow> database \<Rightarrow> database result" where
  "witness_create_do_apply S op st db =
     (let (v, db1) = get_next_vote_id vote_id_witness db in
      rbind (create_witness (new_witness op v) db1) (\<lambda>(i, db2).
      if head_block_time db2 > HARDFORK_1129_TIME then pledge_do_apply S (wc_witness_account op) st db2 else Inr db2))"

definition witness_update_do_evaluate :: "safe_ops \<Rightarrow> witness_update_operation \<Rightarrow> fee_state \<Rightarrow> database \<Rightarrow> pledge_state result" where
  "witness_update_do_evaluate S op fs db =
     rbind (index_get (db_witnesses db) (wu_witness op)) (\<lambda>w.
     fc_assert (wt_witness_account w = wu_witness_account op) (when_1129 db (pledge_do_evaluate S (wu_witness_account op) db)))"

definition pledge_then_valid :: "safe_ops \<Rightarrow> account_id_type \<Rightarrow> nat \<Rightarrow> pledge_state \<Rightarrow> database \<Rightarrow> database result" where
  "pledge_then_valid S acct i st db = rbind (pledge_do_apply S acct st db) (set_witness_valid True i)"

definition witness_update_do_apply :: "safe_ops \<Rightarrow> witness_update_operation \<Rightarrow> pledge_state \<Rightarrow> database \<Rightarrow> database result" where
  "witness_update_do_apply S op st db =
     rbind (modify_witness (wu_witness op) (\<lambda>w.
       let w1 = (case wu_new_url op of None \<Rightarrow> w | Some u \<Rightarrow> w\<lparr>wt_url := u\<rparr>)
       in Inr (case wu_new_signing_key op of None \<Rightarrow> w1 | Some k \<Rightarrow> w1\<lparr>wt_signing_key := k\<rparr>)) db) (\<lambda>db1.
     if head_block_time db1 > HARDFORK_1129_TIME then pledge_then_valid S (wu_witness_account op) (wu_witness op) st db1 else Inr db1)"

definition witness_set_commission_do_evaluate :: "safe_ops \<Rightarrow> witness_set_commission_operation \<Rightarrow> fee_state \<Rightarrow> database \<Rightarrow> pledge_state result" where
  "witness_set_commission_do_evaluate S op fs db =
     rbind (index_get (db_witnesses db) (ws_witness op)) (\<lambda>w.
     fc_assert (wt_witness_account w = ws_witness_account op)
     (rbind (pledge_do_evaluate S (ws_witness_account op) db) (\<lambda>st.
      fc_assert (ws_commission_rate op \<le> 1000)
      (let delta_seconds = sint (of_nat (head_block_time db) - of_nat (wt_commission_update_time w) :: u32) in
       fc_assert (\<bar>delta_seconds\<bar> \<ge> int (set_commission_interval (get_vote_params db))) (Inr st)))))"

definition witness_set_commission_do_apply :: "safe_ops \<Rightarrow> witness_set_commission_operation \<Rightarrow> pledge_state \<Rightarrow> database \<Rightarrow> database result" where
  "witness_set_commission_do_apply S op st db =
     rbind (modify_witness (ws_witness op) (\<lambda>w.
       Inr (w\<lparr>wt_commission_rate := ws_commission_rate op, wt_commission_update_time := head_block_time db\<rparr>)) db)
     (pledge_then_valid S (ws_witness_account op) (ws_witness op) st)"

definition witness_unbanned_do_evaluate :: "safe_ops \<Rightarrow> witness_unbanned_operation \<Rightarrow> fee_state \<Rightarrow> database \<Rightarrow> pledge_state result" where
  "witness_unbanned_do_evaluate S op fs db =
     rbind (pledge_do_evaluate S (wb_witness_account op) db) (\<lambda>st.
     rbind (index_get (db_witnesses db) (wb_witness op)) (\<lambda>w.
     fc_assert (wt_witness_account w = wb_witness_account op) (fc_assert (wt_is_banned w) (Inr st))))"

definition witness_unbanned_do_apply :: "safe_ops \<Rightarrow> witness_unbanned_operation \<Rightarrow> pledge_state \<Rightarrow> database \<Rightarrow> database result" where
  "witness_unbanned_do_apply S op st db =
     rbind (modify_witness (wb_witness op) (\<lambda>w. Inr (w\<lparr>wt_previous_missed := wt_total_missed w, wt_is_banned := False\<rparr>)) db)
     (pledge_then_valid S (wb_witness_account op) (wb_witness op) st)"

definition committee_member_create_do_evaluate :: "safe_ops \<Rightarrow> committee_member_create_operation \<Rightarrow> fee_state \<Rightarrow> database \<Rightarrow> pledge_state result" where
  "committee_member_create_do_evaluate S op fs db =
     rbind (index_get (db_accounts db) (cc_committee_member_account op)) (\<lambda>a.
     fc_assert (is_lifetime_member a) (when_1129 db (pledge_do_evaluate S (cc_committee_member_account op) db)))"

definition committee_member_create_do_apply :: "safe_ops \<Rightarrow> committee_member_create_operation \<Rightarrow> pledge_state \<Rightarrow> database \<Rightarrow> database result" where
  "committee_member_create_do_apply S op st db =
     (let (v, db1) = get_next_vote_id vote_id_committee db in
      rbind (create_committee_member \<lparr>cm_committee_member_account = cc_committee_member_account op, cm_vote_id = v, cm_total_votes = 0,
               cm_url = cc_url op, cm_is_valid = True\<rparr> db1) (\<lambda>(i, db2).
      if head_block_time db2 > HARDFORK_1129_TIME then pledge_do_apply S (cc_committee_member_account op) st db2 else Inr db2))"

definition committee_member_update_do_evaluate :: "safe_ops \<Rightarrow> committee_member_update_operation \<Rightarrow> fee_state \<Rightarrow> database \<Rightarrow> pledge_state result" where
  "committee_member_update_do_evaluate S op fs db =
     rbind (index_get (db_committee_members db) (cu_committee_member op)) (\<lambda>c.
     fc_assert (cm_committee_member_account c = cu_committee_member_account op)
       (when_1129 db (pledge_do_evaluate S (cu_committee_member_account op) db)))"

definition committee_member_update_do_apply :: "safe_ops \<Rightarrow> committee_member_update_operation \<Rightarrow> pledge_state \<Rightarrow> database \<Rightarrow> database result" where
  "committee_member_update_do_apply S op st db =
     rbind (modify_committee_member (cu_committee_member op) (\<lambda>c.
       Inr (case cu_new_url op of None \<Rightarrow> c | Some u \<Rightarrow> c\<lparr>cm_url := u\<rparr>)) db) (\<lambda>db1.
     if head_block_time db1 > HARDFORK_1129_TIME
     then rbind (pledge_do_apply S (cu_committee_member_account op) st db1) (set_committee_valid True (cu_committee_member op)) else Inr db1)"

definition update_global_parameters_do_evaluate ::
  "bool \<Rightarrow> committee_member_update_global_parameters_operation \<Rightarrow> fee_state \<Rightarrow> database \<Rightarrow> unit result" where
  "update_global_parameters_do_evaluate is_proposed_trx op fs db = fc_assert is_proposed_trx (Inr ())"

definition update_global_parameters_do_apply ::
  "committee_member_update_global_parameters_operation \<Rightarrow> unit \<Rightarrow> database \<Rightarrow> database result" where
  "update_global_parameters_do_apply op x db =
     Inr (db\<lparr>db_global := (db_global db)\<lparr>gp_pending_parameters := Some (cg_new_parameters op)\<rparr>\<rparr>)"

definition witness_create_evaluator :: "safe_ops \<Rightarrow> transaction_evaluation_state \<Rightarrow> share_type result \<Rightarrow>
    witness_create_operation \<Rightarrow> database \<Rightarrow> database result" where
  "witness_create_evaluator S T required op =
     start_evaluate S T required (pay_fee S T) (wc_witness_account op) (wc_fee op) (witness_create_do_evaluate S op) (witness_create_do_apply S op)"

definition witness_update_evaluator :: "safe_ops \<Rightarrow> transaction_evaluation_state \<Rightarrow> share_type result \<Rightarrow>
    witness_update_operation \<Rightarrow> database \<Rightarrow> database result" where
  "witness_update_evaluator S T required op =
     start_evaluate S T required (pay_fee S T) (wu_witness_account op) (wu_fee op) (witness_update_do_evaluate S op) (witness_update_do_apply S op)"

definition witness_set_commission_evaluator :: "safe_ops \<Rightarrow> transaction_evaluation_state \<Rightarrow> share_type result \<Rightarrow>
    witness_set_commission_operation \<Rightarrow> database \<Rightarrow> database result" where
  "witness_set_commission_evaluator S T required op =
     start_evaluate S T required (pay_fee S T) (ws_witness_account op) (ws_fee op) (witness_set_commission_do_evaluate S op) (witness_set_commission_do_apply S op)"

definition witness_unbanned_evaluator :: "safe_ops \<Rightarrow> transaction_evaluation_state \<Rightarrow> share_type result \<Rightarrow>
    witness_unbanned_operation \<Rightarrow> database \<Rightarrow> database result" where
  "witness_unbanned_evaluator S T required op =
     start_evaluate S T required (pay_fee S T) (wb_witness_account op) (wb_fee op) (witness_unbanned_do_evaluate S op) (witness_unbanned_do_apply S op)"

definition trust_node_pledge_withdraw_evaluator :: "safe_ops \<Rightarrow> transaction_evaluation_state \<Rightarrow> share_type result \<Rightarrow>
    trust_node_pledge_withdraw_operation \<Rightarrow> database \<Rightarrow> database result" where
  "trust_node_pledge_withdraw_evaluator S T required op =
     start_evaluate S T required (pay_fee S T) (tw_witness_account op) (tw_fee op) (\<lambda>fs. pledge_withdraw_do_evaluate (tw_witness_account op)) (pledge_withdraw_do_apply S (tw_witness_account op))"

definition committee_member_create_evaluator :: "safe_ops \<Rightarrow> transaction_evaluation_state \<Rightarrow> share_type result \<Rightarrow>
    committee_member_create_operation \<Rightarrow> database \<Rightarrow> database result" where
  "committee_member_create_evaluator S T required op =
     start_evaluate S T required (pay_fee S T) (cc_committee_member_account op) (cc_fee op) (committee_member_create_do_evaluate S op) (committee_member_create_do_apply S op)"

definition committee_member_update_evaluator :: "safe_ops \<Rightarrow> transaction_evaluation_state \<Rightarrow> share_type result \<Rightarrow>
    committee_member_update_operation \<Rightarrow> database \<Rightarrow> database result" where
  "committee_member_update_evaluator S T required op =
     start_evaluate S T required (pay_fee S T) (cu_committee_member_account op) (cu_fee op) (committee_member_update_do_evaluate S op) (committee_member_update_do_apply S op)"

definition update_global_parameters_evaluator :: "safe_ops \<Rightarrow> transaction_evaluation_state \<Rightarrow> bool \<Rightarrow> share_type result \<Rightarrow>
    committee_member_update_global_parameters_operation \<Rightarrow> database \<Rightarrow> database result" where
  "update_global_parameters_evaluator S T is_proposed_trx required op =
     start_evaluate S T required (pay_fee S T) 0 (cg_fee op) (update_global_parameters_do_evaluate is_proposed_trx op)
       (update_global_parameters_do_apply op)"

section \<open>Effects\<close>

lemma conserves_frame:
  assumes "db_ok db'" "surplus db' = surplus db" "db_balances db' = db_balances db" "db_dynamic db' = db_dynamic db" "balances_ok db"
  shows "conserves db db'"
  using assms by (simp add: conserves_def balances_ok_def current_core_asset_id_def head_block_time_def)

lemma modify_witness_conserves:
  assumes m: "modify_witness i m db = Inr db'" and ok: "db_ok db" "balances_ok db"
    and step: "\<And>x y. m x = Inr y \<Longrightarrow> wt_vote_reward_pool y = wt_vote_reward_pool x"
  shows "conserves db db'"
proof -
  obtain x y where "m x = Inr y" and db': "db' = db\<lparr>db_witnesses := db_witnesses db'\<rparr>" and "db_ok db'"
    and "\<forall>k. surplus db' k = surplus db k + (if k = current_core_asset_id db then wt_vote_reward_pool y - wt_vote_reward_pool x else 0)"
    using m ok(1) by (rule modify_witness_effect) (rule that)
  moreover have "db_balances db' = db_balances db" "db_dynamic db' = db_dynamic db" by (subst db', simp)+
  ultimately show ?thesis using step ok(2) by (intro conserves_frame) auto
qed

lemma set_witness_valid_conserves:
  "set_witness_valid b i db = Inr db' \<Longrightarrow> db_ok db \<Longrightarrow> balances_ok db \<Longrightarrow> conserves db db'"
  unfolding set_witness_valid_def by (erule modify_witness_conserves) auto

lemma committee_conserves:
  assumes "modify_committee_member i m db = Inr db' \<or> create_committee_member c db = Inr (j, db')" and "db_ok db" "balances_ok db"
  shows "conserves db db'"
proof -
  note e = committee_member_effect [OF assms(1,2)]
  have "db_balances db' = db_balances db" "db_dynamic db' = db_dynamic db" by (subst e(3), simp)+
  with e assms(3) show ?thesis by (intro conserves_frame) auto
qed

lemma set_committee_valid_conserves:
  "set_committee_valid b i db = Inr db' \<Longrightarrow> db_ok db \<Longrightarrow> balances_ok db \<Longrightarrow> conserves db db'"
  unfolding set_committee_valid_def by (rule committee_conserves) auto

lemma create_witness_conserves:
  assumes c: "create_witness w db = Inr (i, db')" and "wt_vote_reward_pool w = 0" and ok: "db_ok db" "balances_ok db"
  shows "conserves db db'"
proof -
  note e = create_witness_effect [OF c ok(1)]
  have "db_balances db' = db_balances db" "db_dynamic db' = db_dynamic db" by (subst e(1), simp)+
  with e assms(2) ok(2) show ?thesis by (intro conserves_frame) (auto simp: fun_eq_iff)
qed

lemma global_conserves:
  assumes "db_ok db" "balances_ok db"
  shows "conserves db (db\<lparr>db_global := g\<rparr>)"
proof -
  have "surplus (db\<lparr>db_global := g\<rparr>) = surplus db"
    by (rule surplus_cong) (simp_all add: dyn_id_def [abs_def])
  moreover have "db_ok (db\<lparr>db_global := g\<rparr>)"
    using assms(1) by (simp add: db_ok_def tables_ok_def dyn_links_ok_def dyn_id_def)
  ultimately show ?thesis using assms(2) by (intro conserves_frame) simp_all
qed

context checked_int64
begin

lemma pledge_do_apply_conserves:
  assumes a: "pledge_do_apply S acct st db = Inr db'" and ok: "db_ok db" "balances_ok db"
  shows "conserves db db'"
proof (cases "amount (pledge_to_charge st) = 0")
  case True
  with a ok show ?thesis by (simp add: pledge_do_apply_def conserves_def)
next
  case False
  let ?c = "pledge_to_charge st"
  let ?m = "\<lambda>p. rbind (asset_add S (tn_amount p) ?c) (\<lambda>a. Inr (p\<lparr>tn_amount := a\<rparr>))"
  from a False obtain i db1 where d1: "modify_pledge i ?m db = Inr db1 \<or> create_pledge \<lparr>tn_owner_account = acct, tn_amount = ?c\<rparr> db = Inr (i, db1)"
    and d2: "adjust_balance S acct (mk_asset (- amount ?c) (asset_id ?c)) db1 = Inr db'"
    by (auto simp: pledge_do_apply_def rbind_Inr asset_neg_Inr split: if_splits option.splits)
  have e: "db_ok db1 \<and> db1 = db\<lparr>db_pledges := db_pledges db1\<rparr> \<and> (\<forall>k. surplus db1 k = surplus db k + of_asset k ?c)"
    using d1
  proof
    assume "modify_pledge i ?m db = Inr db1"
    then show ?thesis using ok(1)
      by (rule modify_pledge_effect) (auto simp: asset_add_Inr rbind_Inr of_asset_def)
  next
    assume "create_pledge \<lparr>tn_owner_account = acct, tn_amount = ?c\<rparr> db = Inr (i, db1)"
    from create_pledge_effect [OF this ok(1)] show ?thesis by simp
  qed
  then have db1: "db1 = db\<lparr>db_pledges := db_pledges db1\<rparr>" and ok1: "db_ok db1" by blast+
  have "db_balances db1 = db_balances db" "current_core_asset_id db1 = current_core_asset_id db" by (subst db1, simp)+
  moreover from this(1) have b1: "balances_ok db1" using ok(2) by (simp add: balances_ok_def)
  moreover note adjust_balance_adjusted [OF d2 ok1 b1] adjusted_fields(9) [OF adjust_balance_adjusted [OF d2 ok1 b1]]
  ultimately show ?thesis using e by (auto simp: conserves_def adjusted_def of_asset_def fun_eq_iff)
qed

lemma pledge_then_valid_conserves:
  assumes "pledge_then_valid S acct i st db = Inr db'" and "db_ok db" "balances_ok db"
  shows "conserves db db'"
proof -
  from assms(1) obtain db1 where p: "pledge_do_apply S acct st db = Inr db1" and v: "set_witness_valid True i db1 = Inr db'"
    by (auto simp: pledge_then_valid_def rbind_Inr)
  have c: "conserves db db1" by (rule pledge_do_apply_conserves [OF p assms(2,3)])
  then have "conserves db1 db'" by (intro set_witness_valid_conserves [OF v]) (simp_all add: conserves_def)
  with c show ?thesis by (rule conserves_trans)
qed

text \<open>Each operation is a sequence of conserving steps.\<close>

lemma conserves_step:
  assumes "conserves db db1" and "\<lbrakk>db_ok db1; balances_ok db1\<rbrakk> \<Longrightarrow> conserves db1 db2"
  shows "conserves db db2"
proof -
  have "db_ok db1" "balances_ok db1" using assms(1) by (simp_all add: conserves_def)
  with assms conserves_trans show ?thesis by blast
qed

lemma next_vote_id_conserves:
  "get_next_vote_id ty db = (v, db') \<Longrightarrow> db_ok db \<Longrightarrow> balances_ok db \<Longrightarrow> conserves db db'"
  by (auto simp: get_next_vote_id_def Let_def intro: global_conserves)

lemma witness_create_conserves:
  assumes a: "witness_create_do_apply S op st db = Inr db'" and ok: "db_ok db" "balances_ok db"
  shows "conserves db db'"
proof -
  obtain v db1 where n: "get_next_vote_id vote_id_witness db = (v, db1)" by force
  from a n obtain i db2 where c: "create_witness (new_witness op v) db1 = Inr (i, db2)"
    and p: "(if head_block_time db2 > HARDFORK_1129_TIME then pledge_do_apply S (wc_witness_account op) st db2 else Inr db2) = Inr db'"
    by (auto simp: witness_create_do_apply_def rbind_Inr)
  have "conserves db db2"
    by (rule conserves_step [OF next_vote_id_conserves [OF n ok]]) (rule create_witness_conserves [OF c], simp_all add: new_witness_def)
  then show ?thesis
    by (rule conserves_step) (use p in \<open>auto split: if_splits intro: pledge_do_apply_conserves conserves_refl\<close>)
qed

lemma witness_update_conserves:
  assumes a: "witness_update_do_apply S op st db = Inr db'" and ok: "db_ok db" "balances_ok db"
  shows "conserves db db'"
proof -
  let ?m = "\<lambda>w. let w1 = (case wu_new_url op of None \<Rightarrow> w | Some u \<Rightarrow> w\<lparr>wt_url := u\<rparr>)
       in Inr (case wu_new_signing_key op of None \<Rightarrow> w1 | Some k \<Rightarrow> w1\<lparr>wt_signing_key := k\<rparr>) :: witness_object result"
  from a obtain db1 where m: "modify_witness (wu_witness op) ?m db = Inr db1"
    and p: "(if head_block_time db1 > HARDFORK_1129_TIME then pledge_then_valid S (wu_witness_account op) (wu_witness op) st db1 else Inr db1) = Inr db'"
    by (auto simp: witness_update_do_apply_def rbind_Inr)
  have "conserves db db1"
    by (rule modify_witness_conserves [OF m ok]) (auto simp: Let_def split: option.splits)
  then show ?thesis
    by (rule conserves_step) (use p in \<open>auto split: if_splits intro: pledge_then_valid_conserves conserves_refl\<close>)
qed

lemma witness_modify_conserves:
  assumes "rbind (modify_witness i m db) (pledge_then_valid S acct i st) = Inr db'" and ok: "db_ok db" "balances_ok db"
    and step: "\<And>x y. m x = Inr y \<Longrightarrow> wt_vote_reward_pool y = wt_vote_reward_pool x"
  shows "conserves db db'"
proof -
  from assms(1) obtain db1 where m: "modify_witness i m db = Inr db1" and p: "pledge_then_valid S acct i st db1 = Inr db'"
    by (auto simp: rbind_Inr)
  show ?thesis
    by (rule conserves_step [OF modify_witness_conserves [OF m ok step]]) (use p in \<open>auto intro: pledge_then_valid_conserves\<close>)
qed

lemma witness_set_commission_conserves:
  "witness_set_commission_do_apply S op st db = Inr db' \<Longrightarrow> db_ok db \<Longrightarrow> balances_ok db \<Longrightarrow> conserves db db'"
  unfolding witness_set_commission_do_apply_def by (erule witness_modify_conserves) auto

lemma witness_unbanned_conserves:
  "witness_unbanned_do_apply S op st db = Inr db' \<Longrightarrow> db_ok db \<Longrightarrow> balances_ok db \<Longrightarrow> conserves db db'"
  unfolding witness_unbanned_do_apply_def by (erule witness_modify_conserves) auto

lemma committee_member_create_conserves:
  assumes a: "committee_member_create_do_apply S op st db = Inr db'" and ok: "db_ok db" "balances_ok db"
  shows "conserves db db'"
proof -
  obtain v db1 where n: "get_next_vote_id vote_id_committee db = (v, db1)" by force
  from a n obtain c i db2 where c: "create_committee_member c db1 = Inr (i, db2)"
    and p: "(if head_block_time db2 > HARDFORK_1129_TIME then pledge_do_apply S (cc_committee_member_account op) st db2 else Inr db2) = Inr db'"
    by (auto simp: committee_member_create_do_apply_def rbind_Inr)
  have "conserves db db2"
    by (rule conserves_step [OF next_vote_id_conserves [OF n ok]]) (rule committee_conserves [OF disjI2 [OF c]])
  then show ?thesis
    by (rule conserves_step) (use p in \<open>auto split: if_splits intro: pledge_do_apply_conserves conserves_refl\<close>)
qed

lemma committee_member_update_conserves:
  assumes a: "committee_member_update_do_apply S op st db = Inr db'" and ok: "db_ok db" "balances_ok db"
  shows "conserves db db'"
proof -
  from a obtain m db1 where m: "modify_committee_member (cu_committee_member op) m db = Inr db1"
    and p: "(if head_block_time db1 > HARDFORK_1129_TIME
       then rbind (pledge_do_apply S (cu_committee_member_account op) st db1) (set_committee_valid True (cu_committee_member op)) else Inr db1) = Inr db'"
    by (auto simp: committee_member_update_do_apply_def rbind_Inr)
  have "conserves db db1" by (rule committee_conserves [OF disjI1 [OF m] ok])
  then show ?thesis
  proof (rule conserves_step)
    assume ok1: "db_ok db1" "balances_ok db1"
    show "conserves db1 db'"
    proof (cases "head_block_time db1 > HARDFORK_1129_TIME")
      case True
      with p obtain db2 where q: "pledge_do_apply S (cu_committee_member_account op) st db1 = Inr db2"
        and v: "set_committee_valid True (cu_committee_member op) db2 = Inr db'" by (auto simp: rbind_Inr)
      show ?thesis by (rule conserves_step [OF pledge_do_apply_conserves [OF q ok1]]) (rule set_committee_valid_conserves [OF v])
    next
      case False
      with p ok1 show ?thesis by (simp add: conserves_refl)
    qed
  qed
qed

lemma pledge_withdraw_conserves:
  assumes a: "pledge_withdraw_do_apply S acct st db = Inr db'" and ok: "db_ok db" "balances_ok db"
    and core: "\<And>i p. index_find (db_pledges db) i = Some p \<Longrightarrow> asset_id (tn_amount p) = current_core_asset_id db"
  shows "conserves db db'"
proof -
  from a obtain i where i: "pledge_obj_ptr st = Some i" by (cases "pledge_obj_ptr st") (auto simp: pledge_withdraw_do_apply_def)
  from a [unfolded pledge_withdraw_do_apply_def i option.case Let_def] obtain p v db1 db3 where p: "index_find (db_pledges db) i = Some p"
    and d: "deposit_lazy_vesting S None (amount (tn_amount p)) (cp_cashback_vesting_period_seconds (params db)) acct True db = Inr (v, db1)"
    and w: "(case witness_obj_ptr st of None \<Rightarrow> Inr (remove_pledge i db1) | Some w \<Rightarrow> set_witness_valid False w (remove_pledge i db1)) = Inr db3"
    and c: "(case committee_obj_ptr st of None \<Rightarrow> Inr db3 | Some c \<Rightarrow> set_committee_valid False c db3) = Inr db'"
    by (auto simp: result_simps)
  note e = core_credited_fields [OF deposit_lazy_vesting_credited [OF d ok(1)]]
  have p1: "index_find (db_pledges db1) i = Some p" using p by (subst deposit_lazy_vesting_frame [OF d]) simp
  note r = remove_pledge_effect [OF p1 e(1)]
  have "conserves db (remove_pledge i db1)"
  proof -
    have "surplus (remove_pledge i db1) k = surplus db k" for k
      using r(3) e(2) core [OF p] by (simp add: of_asset_def)
    then show ?thesis
      using r(1) ok(2) e(3,6) by (intro conserves_frame) (auto simp: remove_pledge_def fun_eq_iff)
  qed
  then have "conserves db db3"
    by (rule conserves_step) (use w in \<open>auto split: option.splits intro: set_witness_valid_conserves conserves_refl\<close>)
  then show ?thesis
    by (rule conserves_step) (use c in \<open>auto split: option.splits intro: set_committee_valid_conserves conserves_refl\<close>)
qed

end

section \<open>What is pledged\<close>

definition pledge_of :: "account_id_type \<Rightarrow> trust_node_pledge_object \<Rightarrow> int" where
  "pledge_of acct p = (if tn_owner_account p = acct then amount (tn_amount p) else 0)"

definition pledged :: "database \<Rightarrow> account_id_type \<Rightarrow> share_type" where
  "pledged db acct = table_sum (pledge_of acct) (db_pledges db)"

definition pledges_ok :: "database \<Rightarrow> bool" where
  "pledges_ok db \<longleftrightarrow> (\<forall>i p. index_find (db_pledges db) i = Some p \<longrightarrow> asset_id (tn_amount p) = 1)"

lemma table_sum_zero:
  assumes "\<And>i x. (i, x) \<in> set (rows t) \<Longrightarrow> f x = 0"
  shows "table_sum f t = 0"
proof -
  have "map (\<lambda>(i, x). f x) (rows t) = map (\<lambda>_. 0) (rows t)" using assms by auto
  then show ?thesis by (simp only: table_sum_def sum_list_0)
qed

lemma find_pledge_cases:
  assumes ok: "index_ok pledge_uk (db_pledges db)"
  shows "case find_pledge db acct of None \<Rightarrow> pledged db acct = 0
    | Some (i, p) \<Rightarrow> index_find (db_pledges db) i = Some p \<and> tn_owner_account p = acct \<and> pledged db acct = amount (tn_amount p)"
proof (cases "find_pledge db acct")
  case None
  then have "pledge_of acct x = 0" if "(i, x) \<in> set (rows (db_pledges db))" for i x
    using that by (auto simp: find_pledge_def find_None_mem pledge_of_def)
  with None show ?thesis by (simp add: pledged_def table_sum_zero)
next
  case (Some q)
  obtain i p where q: "q = (i, p)" by force
  have mem: "(i, p) \<in> set (rows (db_pledges db))" and owner: "tn_owner_account p = acct"
    using Some q by (auto simp: find_pledge_def dest: find_Some_mem)
  have f: "index_find (db_pledges db) i = Some p" using ok mem by (simp add: index_ok_def index_find_mem)
  have "pledge_of acct x = 0" if "(j, x) \<in> set (rows (index_remove i (db_pledges db)))" for j x
    using that ok mem owner by (auto simp: index_remove_def index_ok_def keys_clash_iff pledge_uk_def pledge_of_def)
  then have "table_sum (pledge_of acct) (index_remove i (db_pledges db)) = 0" by (rule table_sum_zero)
  then have "pledged db acct = amount (tn_amount p)"
    using table_sum_remove [OF ok f, of "pledge_of acct"] owner by (simp add: pledged_def pledge_of_def)
  with Some q f owner show ?thesis by simp
qed

context checked_int64
begin

lemma pledge_do_evaluate_charge:
  assumes e: "pledge_do_evaluate S acct db = Inr st" and ok: "index_ok pledge_uk (db_pledges db)"
  shows "amount (pledge_to_charge st) = get_trust_node_pledge db - pledged db acct" and "asset_id (pledge_to_charge st) = 1"
    and "if pledge_object_exist st then \<exists>i p. pledge_obj_ptr st = Some i \<and> index_find (db_pledges db) i = Some p \<and>
      tn_owner_account p = acct \<and> pledged db acct = amount (tn_amount p) \<and> asset_id (tn_amount p) = 1 else pledged db acct = 0"
  using e find_pledge_cases [OF ok, of acct]
  by (auto simp: pledge_do_evaluate_def pledge_reset_def asset_sub_def Let_def result_simps split: option.splits if_splits)

lemma pledge_do_apply_pledged:
  assumes a: "pledge_do_apply S acct st db = Inr db'" and e: "pledge_do_evaluate S acct db0 = Inr st"
    and same: "db_pledges db = db_pledges db0" and ok: "db_ok db" "balances_ok db"
  shows "pledged db' acct = get_trust_node_pledge db0"
proof -
  let ?c = "pledge_to_charge st"
  let ?m = "\<lambda>p. rbind (asset_add S (tn_amount p) ?c) (\<lambda>a. Inr (p\<lparr>tn_amount := a\<rparr>))"
  have it: "index_ok pledge_uk (db_pledges db0)" using ok(1) same by (simp add: db_ok_def tables_ok_def)
  note ch = pledge_do_evaluate_charge [OF e it]
  have pl: "pledged db acct = pledged db0 acct" by (simp add: pledged_def same)
  show ?thesis
  proof (cases "amount ?c = 0")
    case True
    with a have "db' = db" by (simp add: pledge_do_apply_def)
    with True ch(1) pl show ?thesis by simp
  next
    case False
    with a obtain db1 where st: "(if pledge_object_exist st then \<exists>i. pledge_obj_ptr st = Some i \<and> modify_pledge i ?m db = Inr db1
        else \<exists>i. create_pledge \<lparr>tn_owner_account = acct, tn_amount = ?c\<rparr> db = Inr (i, db1))"
      and d2: "adjust_balance S acct (mk_asset (- amount ?c) (asset_id ?c)) db1 = Inr db'"
      by (auto simp: pledge_do_apply_def rbind_Inr asset_neg_Inr split: if_splits option.splits)
    have "pledged db1 acct = get_trust_node_pledge db0 \<and> db_ok db1 \<and> db_balances db1 = db_balances db"
    proof (cases "pledge_object_exist st")
      case True
      then obtain i p where p: "pledge_obj_ptr st = Some i" "index_find (db_pledges db0) i = Some p" "tn_owner_account p = acct"
        "pledged db0 acct = amount (tn_amount p)" using ch(3) by auto
      with st True have m: "modify_pledge i ?m db = Inr db1" by simp
      obtain x y where x: "index_find (db_pledges db) i = Some x" "?m x = Inr y" "db1 = db\<lparr>db_pledges := db_pledges db1\<rparr>" "db_ok db1"
        "\<forall>f. table_sum f (db_pledges db1) = table_sum f (db_pledges db) - f x + f y"
        using m ok(1) by (rule modify_pledge_effect) (rule that)
      have "x = p" using x(1) p(2) same by simp
      then have "pledged db1 acct = pledged db acct + amount ?c"
        using x(2,5) p(3) by (auto simp: pledged_def pledge_of_def asset_add_Inr rbind_Inr)
      moreover have "db_balances db1 = db_balances db" by (subst x(3)) simp
      ultimately show ?thesis using ch(1) pl x(4) by simp
    next
      case False
      with st obtain i where c: "create_pledge \<lparr>tn_owner_account = acct, tn_amount = ?c\<rparr> db = Inr (i, db1)" by auto
      note x = create_pledge_effect [OF c ok(1)]
      have "db_balances db1 = db_balances db" by (subst x(1)) simp
      then show ?thesis using x(2) x(6) [of "pledge_of acct"] ch(1,3) pl False by (simp add: pledged_def pledge_of_def)
    qed
    moreover from this have "balances_ok db1" using ok(2) by (simp add: balances_ok_def)
    ultimately show ?thesis using adjusted_fields(13) [OF adjust_balance_adjusted [OF d2]] by (simp add: pledged_def)
  qed
qed

lemma witness_create_pledged:
  assumes e: "witness_create_do_evaluate S op fs db0 = Inr st" and a: "witness_create_do_apply S op st db = Inr db'"
    and f: "fee_frame db0 db" and ok: "db_ok db" "balances_ok db" and hf: "HARDFORK_1129_TIME < head_block_time db"
  shows "pledged db' (wc_witness_account op) = get_trust_node_pledge db0"
proof -
  obtain v db1 where n: "get_next_vote_id vote_id_witness db = (v, db1)" by force
  have c1: "conserves db db1" by (rule next_vote_id_conserves [OF n ok])
  obtain g where db1: "db1 = db\<lparr>db_global := g\<rparr>" using n by (auto simp: get_next_vote_id_def Let_def)
  from a n obtain i db2 where c: "create_witness (new_witness op v) db1 = Inr (i, db2)"
    and p: "(if head_block_time db2 > HARDFORK_1129_TIME then pledge_do_apply S (wc_witness_account op) st db2 else Inr db2) = Inr db'"
    by (auto simp: witness_create_do_apply_def rbind_Inr)
  have ok1: "db_ok db1" "balances_ok db1" using c1 by (simp_all add: conserves_def)
  note x = create_witness_effect [OF c ok1(1)]
  have same: "db_pledges db2 = db_pledges db0" "head_block_time db2 = head_block_time db"
    by (subst x(1), simp add: db1 fee_frame_fields(9) [OF f] head_block_time_def)+
  have ok2: "db_ok db2" "balances_ok db2"
    using create_witness_conserves [OF c _ ok1] by (auto simp: conserves_def new_witness_def)
  have "pledge_do_apply S (wc_witness_account op) st db2 = Inr db'" using p hf same(2) by simp
  moreover have "pledge_do_evaluate S (wc_witness_account op) db0 = Inr st"
    using e hf fee_frame_fields(10) [OF f] by (auto simp: witness_create_do_evaluate_def when_1129_def result_simps)
  ultimately show ?thesis using same(1) ok2 by (rule pledge_do_apply_pledged)
qed

lemma pledge_withdraw_nothing_left:
  assumes e: "pledge_withdraw_do_evaluate acct db0 = Inr st" and a: "pledge_withdraw_do_apply S acct st db = Inr db'"
    and f: "fee_frame db0 db" and ok: "db_ok db" "balances_ok db"
  shows "pledged db' acct = 0"
proof -
  have it: "index_ok pledge_uk (db_pledges db)" using ok(1) by (simp add: db_ok_def tables_ok_def)
  have same: "find_pledge db0 acct = find_pledge db acct" using fee_frame_fields(9) [OF f] by (simp add: find_pledge_def)
  from e obtain i p where fp: "find_pledge db acct = Some (i, p)" and i: "pledge_obj_ptr st = Some i"
    by (auto simp: pledge_withdraw_do_evaluate_def same Let_def result_simps pledge_reset_def split: option.splits)
  then have x: "index_find (db_pledges db) i = Some p" "tn_owner_account p = acct" "pledged db acct = amount (tn_amount p)"
    using find_pledge_cases [OF it, of acct] by auto
  from a [unfolded pledge_withdraw_do_apply_def i option.case Let_def] x(1) obtain v db1 db3 where
    d: "deposit_lazy_vesting S None (amount (tn_amount p)) (cp_cashback_vesting_period_seconds (params db)) acct True db = Inr (v, db1)"
    and w: "(case witness_obj_ptr st of None \<Rightarrow> Inr (remove_pledge i db1) | Some w \<Rightarrow> set_witness_valid False w (remove_pledge i db1)) = Inr db3"
    and c: "(case committee_obj_ptr st of None \<Rightarrow> Inr db3 | Some c \<Rightarrow> set_committee_valid False c db3) = Inr db'"
    by (auto simp: result_simps)
  have "db_pledges db' = db_pledges db3"
    using c by (auto simp: set_committee_valid_def modify_committee_member_def rbind_Inr split: option.splits)
  also have "\<dots> = index_remove i (db_pledges db1)"
    using w by (auto simp: set_witness_valid_def modify_witness_def remove_pledge_def rbind_Inr split: option.splits)
  also have "db_pledges db1 = db_pledges db" by (subst deposit_lazy_vesting_frame [OF d]) simp
  finally show ?thesis
    using table_sum_remove [OF it x(1), of "pledge_of acct"] x(2,3) by (simp add: pledged_def pledge_of_def)
qed

end

sublocale charging < witness_create: conserving_evaluator S "pay_fee S T" fs_core_fee_paid
    "witness_create_do_evaluate S op" "witness_create_do_apply S op" for op
  by unfold_locales (auto simp: credits_zero intro: witness_create_conserves)

sublocale charging < witness_update: conserving_evaluator S "pay_fee S T" fs_core_fee_paid
    "witness_update_do_evaluate S op" "witness_update_do_apply S op" for op
  by unfold_locales (auto simp: credits_zero intro: witness_update_conserves)

sublocale charging < witness_set_commission: conserving_evaluator S "pay_fee S T" fs_core_fee_paid
    "witness_set_commission_do_evaluate S op" "witness_set_commission_do_apply S op" for op
  by unfold_locales (auto simp: credits_zero intro: witness_set_commission_conserves)

sublocale charging < witness_unbanned: conserving_evaluator S "pay_fee S T" fs_core_fee_paid
    "witness_unbanned_do_evaluate S op" "witness_unbanned_do_apply S op" for op
  by unfold_locales (auto simp: credits_zero intro: witness_unbanned_conserves)

sublocale charging < committee_member_create: conserving_evaluator S "pay_fee S T" fs_core_fee_paid
    "committee_member_create_do_evaluate S op" "committee_member_create_do_apply S op" for op
  by unfold_locales (auto simp: credits_zero intro: committee_member_create_conserves)

sublocale charging < committee_member_update: conserving_evaluator S "pay_fee S T" fs_core_fee_paid
    "committee_member_update_do_evaluate S op" "committee_member_update_do_apply S op" for op
  by unfold_locales (auto simp: credits_zero intro: committee_member_update_conserves)

sublocale charging < update_global_parameters: conserving_evaluator S "pay_fee S T" fs_core_fee_paid
    "update_global_parameters_do_evaluate b op" "update_global_parameters_do_apply op" for b op
  by unfold_locales (auto simp: credits_zero update_global_parameters_do_apply_def intro: global_conserves)

context charging
begin

lemma witness_create_ledger:
  assumes "witness_create_evaluator S T required op db = Inr db'" "db_ok db" "balances_ok db"
  shows "conserves db db'"
  by (rule witness_create.start_evaluate_conserves [OF assms(1) [unfolded witness_create_evaluator_def] assms(2,3) fees_charged])

lemma witness_update_ledger:
  assumes "witness_update_evaluator S T required op db = Inr db'" "db_ok db" "balances_ok db"
  shows "conserves db db'"
  by (rule witness_update.start_evaluate_conserves [OF assms(1) [unfolded witness_update_evaluator_def] assms(2,3) fees_charged])

lemma witness_set_commission_ledger:
  assumes "witness_set_commission_evaluator S T required op db = Inr db'" "db_ok db" "balances_ok db"
  shows "conserves db db'"
  by (rule witness_set_commission.start_evaluate_conserves [OF assms(1) [unfolded witness_set_commission_evaluator_def] assms(2,3) fees_charged])

lemma witness_unbanned_ledger:
  assumes "witness_unbanned_evaluator S T required op db = Inr db'" "db_ok db" "balances_ok db"
  shows "conserves db db'"
  by (rule witness_unbanned.start_evaluate_conserves [OF assms(1) [unfolded witness_unbanned_evaluator_def] assms(2,3) fees_charged])

lemma committee_member_create_ledger:
  assumes "committee_member_create_evaluator S T required op db = Inr db'" "db_ok db" "balances_ok db"
  shows "conserves db db'"
  by (rule committee_member_create.start_evaluate_conserves [OF assms(1) [unfolded committee_member_create_evaluator_def] assms(2,3) fees_charged])

lemma committee_member_update_ledger:
  assumes "committee_member_update_evaluator S T required op db = Inr db'" "db_ok db" "balances_ok db"
  shows "conserves db db'"
  by (rule committee_member_update.start_evaluate_conserves [OF assms(1) [unfolded committee_member_update_evaluator_def] assms(2,3) fees_charged])

lemma update_global_parameters_ledger:
  assumes "update_global_parameters_evaluator S T b required op db = Inr db'" "db_ok db" "balances_ok db"
  shows "conserves db db'"
  by (rule update_global_parameters.start_evaluate_conserves
      [OF assms(1) [unfolded update_global_parameters_evaluator_def] assms(2,3) fees_charged])

lemma pledge_withdraw_ledger:
  assumes run: "trust_node_pledge_withdraw_evaluator S T required op db = Inr db'" and ok: "db_ok db" "balances_ok db"
    and pl: "pledges_ok db" and hf: "HARDFORK_1008_TIME < head_block_time db"
  shows "conserves db db'" and "pledged db' (tw_witness_account op) = 0"
proof -
  let ?a = "tw_witness_account op" and ?core = "current_core_asset_id db"
  obtain fs x db2 db3 where p: "prepare_fee ?a (tw_fee op) db = Inr fs" and e: "pledge_withdraw_do_evaluate ?a db = Inr x"
    and ap: "pledge_withdraw_do_apply S ?a x db2 = Inr db3" and ok2: "db_ok db2" "balances_ok db2" and f: "fee_frame db db2"
    and adj: "adjust_balance S ?a (mk_asset (- amount (tw_fee op)) (asset_id (tw_fee op))) db3 = Inr db'"
    and su: "\<forall>k. surplus db2 k = surplus db k + of_asset k (tw_fee op) - (if k = ?core then fs_core_fee_paid fs - fs_core_fee_paid fs else 0)"
    using run [unfolded trust_node_pledge_withdraw_evaluator_def] ok fees_charged by (rule default_pay.start_evaluate_steps) (rule that)
  have core: "?core = 1" using hf by (simp add: current_core_asset_id_def)
  have c: "conserves db2 db3"
    by (rule pledge_withdraw_conserves [OF ap ok2]) (use pl core fee_frame_fields(9,11) [OF f] in \<open>auto simp: pledges_ok_def\<close>)
  then have ok3: "db_ok db3" "balances_ok db3" by (simp_all add: conserves_def)
  note adj' = adjust_balance_adjusted [OF adj ok3]
  show "conserves db db'"
    using c su adj' adjusted_fields(9) [OF adj'] fee_frame_fields(11) [OF f]
    by (auto simp: conserves_def adjusted_def of_asset_def fun_eq_iff)
  show "pledged db' ?a = 0"
    using pledge_withdraw_nothing_left [OF e ap f ok2] adjusted_fields(13) [OF adj'] by (simp add: pledged_def)
qed

lemma witness_create_pledges:
  assumes run: "witness_create_evaluator S T required op db = Inr db'" and ok: "db_ok db" "balances_ok db"
    and hf: "HARDFORK_1129_TIME < head_block_time db"
  shows "pledged db' (wc_witness_account op) = get_trust_node_pledge db"
proof -
  obtain fs x db2 db3 where e: "witness_create_do_evaluate S op fs db = Inr x" and ap: "witness_create_do_apply S op x db2 = Inr db3"
    and ok2: "db_ok db2" "balances_ok db2" and f: "fee_frame db db2"
    and adj: "adjust_balance S (wc_witness_account op) (mk_asset (- amount (wc_fee op)) (asset_id (wc_fee op))) db3 = Inr db'"
    using run [unfolded witness_create_evaluator_def] ok fees_charged by (rule default_pay.start_evaluate_steps) (rule that)
  have ok3: "db_ok db3" "balances_ok db3" using witness_create_conserves [OF ap ok2] by (simp_all add: conserves_def)
  have "HARDFORK_1129_TIME < head_block_time db2" using hf fee_frame_fields(10) [OF f] by simp
  from witness_create_pledged [OF e ap f ok2 this] show ?thesis
    using adjusted_fields(13) [OF adjust_balance_adjusted [OF adj ok3]] by (simp add: pledged_def)
qed

end

section \<open>Properties of trust nodes\<close>

text \<open>C35.
  Becoming a witness leaves the account with exactly the pledge the chain asks for, whatever it had pledged
  before; withdrawing the pledge leaves none and moves it to a vesting balance. Both conserve every asset.
\<close>

theorem pledge_exact:
  assumes "charging S T" and "db_ok db" "balances_ok db" "pledges_ok db" and "HARDFORK_1129_TIME < head_block_time db"
  shows "(witness_create_evaluator S T required cop db = Inr db1 \<longrightarrow>
      conserves db db1 \<and> pledged db1 (wc_witness_account cop) = get_trust_node_pledge db) \<and>
    (trust_node_pledge_withdraw_evaluator S T required wop db = Inr db2 \<longrightarrow>
      conserves db db2 \<and> pledged db2 (tw_witness_account wop) = 0)"
proof -
  have "HARDFORK_1008_TIME < head_block_time db" using assms(5) by (simp add: HARDFORK_1008_TIME_def HARDFORK_1129_TIME_def)
  with charging.pledge_withdraw_ledger [OF assms(1) _ assms(2-4)] charging.witness_create_ledger [OF assms(1) _ assms(2,3)]
    charging.witness_create_pledges [OF assms(1) _ assms(2,3,5)] show ?thesis by blast
qed

definition trust_node_db :: database where
  "trust_node_db = issuer_db\<lparr>
     db_global := (db_global issuer_db)\<lparr>gp_parameters := sample_params\<lparr>cp_extensions := [Ext_trust_node_pledge 700]\<rparr>\<rparr>\<rparr>"

theorem pledge_exact_witness:
  "\<exists>db'. witness_create_evaluator int64_ops new_evaluation_state (Inr 20)
      \<lparr>wc_fee = mk_asset 100 1, wc_witness_account = 9, wc_url = ''u'', wc_block_signing_key = 7\<rparr> trust_node_db = Inr db' \<and>
    conserves trust_node_db db' \<and> pledged db' 9 = 700"
proof -
  let ?op = "\<lparr>wc_fee = mk_asset 100 1, wc_witness_account = 9, wc_url = ''u'', wc_block_signing_key = 7\<rparr>"
  have "\<not> isl (witness_create_evaluator int64_ops new_evaluation_state (Inr 20) ?op trust_node_db)" by code_simp
  then obtain db' where d: "witness_create_evaluator int64_ops new_evaluation_state (Inr 20) ?op trust_node_db = Inr db'" using not_isl_Inr by blast
  have "db_ok trust_node_db" "balances_ok trust_node_db"
    using global_conserves [OF issuer_db_ok issuer_db_balances_ok] by (simp_all add: trust_node_db_def conserves_def)
  moreover have "pledges_ok trust_node_db" "HARDFORK_1129_TIME < head_block_time trust_node_db"
    by (simp_all add: pledges_ok_def trust_node_db_def issuer_db_def chain_db_def empty_index_def index_find_def head_block_time_def
        sample_dynamic_def HARDFORK_1129_TIME_def)
  moreover have "get_trust_node_pledge trust_node_db = 700" by (simp add: get_trust_node_pledge_def params_def trust_node_db_def)
  ultimately show ?thesis
    using pledge_exact [OF std.charging_axioms, of trust_node_db "Inr 20" ?op db' "\<lparr>tw_fee = mk_asset 100 1, tw_witness_account = 9\<rparr>" db'] d by simp
qed

end
