(* ===== verification/Authority.thy ===== *)
theory Authority
  imports Chain_State "HOL-Library.AList"
begin

text \<open>
  Who may sign (protocol/transaction.cpp, protocol/authority.hpp): the search \<open>sign_state::check_authority\<close>
  for signatures that reach the weight threshold of an authority, through the keys, addresses and accounts it
  names, and \<open>verify_authority\<close>, which a transaction must pass.

  The operations of a transaction enter through what they require: the accounts whose active and owner
  authority must sign, and further authorities. A \<open>flat_set\<close> is iterated in ascending order. A pointer to an
  authority is an \<open>option\<close>; the function that fetches one may throw. The five addresses of a key are hashes of
  the fc library, an argument. Weights are summed in 32 bits.
\<close>

section \<open>The state of the search\<close>

definition GRAPHENE_TEMP_ACCOUNT :: account_id_type where "GRAPHENE_TEMP_ACCOUNT = 4"
definition GRAPHENE_COMMITTEE_ACCOUNT :: account_id_type where "GRAPHENE_COMMITTEE_ACCOUNT = 0"

type_synonym address = nat

record sign_state =
  provided_signatures :: "(public_key_type \<times> bool) list"
  approved_by :: "account_id_type list"
  available_keys :: "public_key_type list"
  available_address_sigs :: "(address \<times> public_key_type) list option"
  provided_address_sigs :: "(address \<times> public_key_type) list option"

type_synonym get_authority = "account_id_type \<Rightarrow> authority option result"

definition new_sign_state :: "public_key_type list \<Rightarrow> public_key_type list \<Rightarrow> sign_state" where
  "new_sign_state sigs keys = \<lparr>provided_signatures = map (\<lambda>k. (k, False)) sigs, approved_by = [GRAPHENE_TEMP_ACCOUNT],
     available_keys = keys, available_address_sigs = None, provided_address_sigs = None\<rparr>"

definition mark_signature :: "public_key_type \<Rightarrow> sign_state \<Rightarrow> sign_state" where
  "mark_signature k st = st\<lparr>provided_signatures := AList.update k True (provided_signatures st)\<rparr>"

definition signed_by_key :: "public_key_type \<Rightarrow> sign_state \<Rightarrow> (bool \<times> sign_state) result" where
  "signed_by_key k st =
     (case map_of (provided_signatures st) k of
        None \<Rightarrow> if k \<in> set (available_keys st) then Inr (True, mark_signature k st) else Inr (False, st)
      | Some used \<Rightarrow> Inr (True, mark_signature k st))"

text \<open>The maps from addresses to keys are built at the first address that is looked up.\<close>

definition address_map :: "(public_key_type \<Rightarrow> address list) \<Rightarrow> public_key_type list \<Rightarrow> (address \<times> public_key_type) list" where
  "address_map addresses keys = rev (concat (map (\<lambda>k. map (\<lambda>a. (a, k)) (addresses k)) keys))"

definition build_addresses :: "(public_key_type \<Rightarrow> address list) \<Rightarrow> sign_state \<Rightarrow> sign_state" where
  "build_addresses addresses st =
     (case available_address_sigs st of Some m \<Rightarrow> st
      | None \<Rightarrow> st\<lparr>available_address_sigs := Some (address_map addresses (available_keys st)),
                    provided_address_sigs := Some (address_map addresses (map fst (provided_signatures st)))\<rparr>)"

text \<open>
  When the address is in neither map, the code dereferences the end iterator: \<open>Undefined_behaviour\<close>.
\<close>

definition signed_by_address :: "(public_key_type \<Rightarrow> address list) \<Rightarrow> address \<Rightarrow> sign_state \<Rightarrow> (bool \<times> sign_state) result" where
  "signed_by_address addresses a st0 =
     (let st = build_addresses addresses st0 in
      case map_of (the (provided_address_sigs st)) a of
        Some k \<Rightarrow> Inr (True, mark_signature k st)
      | None \<Rightarrow> (case map_of (the (available_address_sigs st)) a of
          Some k \<Rightarrow> if k \<in> set (available_keys st) then Inr (True, mark_signature k st) else Inr (False, st)
        | None \<Rightarrow> Inl Undefined_behaviour))"

section \<open>The search\<close>

text \<open>
  One loop of \<open>check_authority\<close>: it adds the weights of the entries that approve and stops when the
  threshold is reached. The result says whether it stopped, and the weight so far.
\<close>

fun weigh :: "('k \<Rightarrow> sign_state \<Rightarrow> (bool \<times> sign_state) result) \<Rightarrow> nat \<Rightarrow> ('k \<times> nat) list \<Rightarrow> nat \<Rightarrow> sign_state \<Rightarrow>
    (bool \<times> nat \<times> sign_state) result" where
  "weigh approves threshold [] total_weight st = Inr (False, total_weight, st)"
| "weigh approves threshold ((k, w) # auths) total_weight st =
     rbind (approves k st) (\<lambda>(yes, st1).
     if yes
     then (let t = (total_weight + w) mod 2 ^ 32 in
           if t \<ge> threshold then Inr (True, t, st1) else weigh approves threshold auths t st1)
     else weigh approves threshold auths total_weight st1)"

definition check_auths :: "(public_key_type \<Rightarrow> address list) \<Rightarrow> (account_id_type \<Rightarrow> sign_state \<Rightarrow> (bool \<times> sign_state) result) \<Rightarrow>
    authority \<Rightarrow> sign_state \<Rightarrow> (bool \<times> sign_state) result" where
  "check_auths addresses approves auth st =
     (let threshold = weight_threshold auth in
      rbind (weigh signed_by_key threshold (key_auths auth) 0 st) (\<lambda>(stop, t, st1).
      if stop then Inr (True, st1) else
      rbind (weigh (signed_by_address addresses) threshold (address_auths auth) t st1) (\<lambda>(stop, t, st2).
      if stop then Inr (True, st2) else
      rbind (weigh approves threshold (account_auths auth) t st2) (\<lambda>(stop, t, st3).
      if stop then Inr (True, st3) else Inr (t \<ge> threshold, st3)))))"

text \<open>The recursion counts down from the maximal depth: \<open>0\<close> is the depth at which accounts are not followed.\<close>

primrec check_authority :: "(public_key_type \<Rightarrow> address list) \<Rightarrow> get_authority \<Rightarrow> nat \<Rightarrow> authority option \<Rightarrow> sign_state \<Rightarrow>
    (bool \<times> sign_state) result" where
  "check_authority addresses get_active 0 au st =
     (case au of None \<Rightarrow> Inr (False, st)
      | Some auth \<Rightarrow> check_auths addresses (\<lambda>a st. Inr (a \<in> set (approved_by st), st)) auth st)"
| "check_authority addresses get_active (Suc n) au st =
     (case au of None \<Rightarrow> Inr (False, st)
      | Some auth \<Rightarrow> check_auths addresses (\<lambda>a st.
          if a \<in> set (approved_by st) then Inr (True, st)
          else rbind (get_active a) (\<lambda>au1. rbind (check_authority addresses get_active n au1 st) (\<lambda>(yes, st1).
               Inr (yes, if yes then st1\<lparr>approved_by := a # approved_by st1\<rparr> else st1)))) auth st)"

definition check_account :: "(public_key_type \<Rightarrow> address list) \<Rightarrow> get_authority \<Rightarrow> nat \<Rightarrow> account_id_type \<Rightarrow> sign_state \<Rightarrow>
    (bool \<times> sign_state) result" where
  "check_account addresses get_active depth a st =
     (if a \<in> set (approved_by st) then Inr (True, st)
      else rbind (get_active a) (\<lambda>au. check_authority addresses get_active depth au st))"

text \<open>\<open>remove_unused_signatures\<close>: what it leaves, and whether it removed anything.\<close>

definition remove_unused_signatures :: "sign_state \<Rightarrow> bool \<times> sign_state" where
  "remove_unused_signatures st =
     (list_ex (\<lambda>(k, used). \<not> used) (provided_signatures st), st\<lparr>provided_signatures := filter snd (provided_signatures st)\<rparr>)"

section \<open>Verifying a transaction\<close>

record required_auths =
  ra_active :: "account_id_type list"
  ra_owner :: "account_id_type list"
  ra_other :: "authority list"

definition flat_set :: "nat list \<Rightarrow> nat list" where
  "flat_set xs = remdups (sort xs)"

definition get_required_authorities :: "('op \<Rightarrow> required_auths) \<Rightarrow> 'op list \<Rightarrow> required_auths" where
  "get_required_authorities auths ops =
     \<lparr>ra_active = flat_set (concat (map (ra_active \<circ> auths) ops)), ra_owner = flat_set (concat (map (ra_owner \<circ> auths) ops)),
      ra_other = concat (map (ra_other \<circ> auths) ops)\<rparr>"

definition check_other :: "(public_key_type \<Rightarrow> address list) \<Rightarrow> get_authority \<Rightarrow> nat \<Rightarrow> authority \<Rightarrow> sign_state \<Rightarrow> sign_state result" where
  "check_other addresses get_active depth auth st =
     rbind (check_authority addresses get_active depth (Some auth) st) (\<lambda>(yes, st1). ensure yes Tx_missing_other_auth (Inr st1))"

definition check_active :: "(public_key_type \<Rightarrow> address list) \<Rightarrow> get_authority \<Rightarrow> get_authority \<Rightarrow> nat \<Rightarrow> account_id_type \<Rightarrow>
    sign_state \<Rightarrow> sign_state result" where
  "check_active addresses get_active get_owner depth a st =
     rbind (check_account addresses get_active depth a st) (\<lambda>(yes, st1).
     if yes then Inr st1
     else rbind (get_owner a) (\<lambda>au. rbind (check_authority addresses get_active depth au st1) (\<lambda>(yes, st2).
          ensure yes Tx_missing_active_auth (Inr st2))))"

definition check_owner :: "(public_key_type \<Rightarrow> address list) \<Rightarrow> get_authority \<Rightarrow> get_authority \<Rightarrow> nat \<Rightarrow> account_id_type list \<Rightarrow>
    account_id_type \<Rightarrow> sign_state \<Rightarrow> sign_state result" where
  "check_owner addresses get_active get_owner depth owner_approvals a st =
     (if a \<in> set owner_approvals then Inr st
      else rbind (get_owner a) (\<lambda>au. rbind (check_authority addresses get_active depth au st) (\<lambda>(yes, st1).
           ensure yes Tx_missing_owner_auth (Inr st1))))"

definition verify_authority :: "('op \<Rightarrow> required_auths) \<Rightarrow> (public_key_type \<Rightarrow> address list) \<Rightarrow> 'op list \<Rightarrow> public_key_type list \<Rightarrow>
    get_authority \<Rightarrow> get_authority \<Rightarrow> nat \<Rightarrow> bool \<Rightarrow> account_id_type list \<Rightarrow> account_id_type list \<Rightarrow> unit result" where
  "verify_authority auths addresses ops sigs get_active get_owner max_recursion_depth allow_committee active_approvals owner_approvals =
     (let req = get_required_authorities auths ops; s0 = new_sign_state sigs [];
          s = s0\<lparr>approved_by := owner_approvals @ active_approvals @ approved_by s0\<rparr> in
      ensure (allow_committee \<or> GRAPHENE_COMMITTEE_ACCOUNT \<notin> set (ra_active req)) Invalid_committee_approval
      (rbind (fold_result (check_other addresses get_active max_recursion_depth) (ra_other req) s) (\<lambda>s1.
       rbind (fold_result (check_active addresses get_active get_owner max_recursion_depth) (ra_active req) s1) (\<lambda>s2.
       rbind (fold_result (check_owner addresses get_active get_owner max_recursion_depth owner_approvals) (ra_owner req) s2) (\<lambda>s3.
       ensure (\<not> fst (remove_unused_signatures s3)) Tx_irrelevant_sig (Inr ()))))))"

section \<open>The specification: who has approved\<close>

text \<open>
  The weight an authority gets from a set of keys, of addresses and of accounts; an account has approved
  when it is one of the given approvals or its active authority is satisfied by keys and by accounts that
  have approved. No depth bounds this relation.
\<close>

definition weight_of :: "('k \<Rightarrow> bool) \<Rightarrow> ('k \<times> nat) list \<Rightarrow> nat" where
  "weight_of P auths = (\<Sum>(k, w) \<leftarrow> auths. if P k then w else 0)"

definition satisfied :: "public_key_type set \<Rightarrow> (public_key_type \<Rightarrow> address list) \<Rightarrow> account_id_type set \<Rightarrow> authority \<Rightarrow> bool" where
  "satisfied K addresses X auth \<longleftrightarrow> weight_threshold auth \<le>
     weight_of (\<lambda>k. k \<in> K) (key_auths auth) + weight_of (\<lambda>a. \<exists>k \<in> K. a \<in> set (addresses k)) (address_auths auth) +
     weight_of (\<lambda>a. a \<in> X) (account_auths auth)"

inductive has_approved :: "public_key_type set \<Rightarrow> (public_key_type \<Rightarrow> address list) \<Rightarrow> account_id_type set \<Rightarrow> get_authority \<Rightarrow>
    account_id_type \<Rightarrow> bool"
  for K addresses A get_active where
  given: "a \<in> A \<Longrightarrow> has_approved K addresses A get_active a"
| by_authority: "get_active a = Inr (Some auth) \<Longrightarrow> \<forall>x \<in> X. has_approved K addresses A get_active x \<Longrightarrow>
    satisfied K addresses X auth \<Longrightarrow> has_approved K addresses A get_active a"

text \<open>The authorities the search may look at, from those it starts with.\<close>

inductive consulted :: "get_authority \<Rightarrow> authority set \<Rightarrow> authority \<Rightarrow> bool" for get_active R where
  root: "auth \<in> R \<Longrightarrow> consulted get_active R auth"
| followed: "consulted get_active R auth \<Longrightarrow> a \<in> fst ` set (account_auths auth) \<Longrightarrow> get_active a = Inr (Some auth1) \<Longrightarrow>
    consulted get_active R auth1"

definition names_key :: "(public_key_type \<Rightarrow> address list) \<Rightarrow> authority \<Rightarrow> public_key_type \<Rightarrow> bool" where
  "names_key addresses auth k \<longleftrightarrow> k \<in> fst ` set (key_auths auth) \<or> (\<exists>a \<in> fst ` set (address_auths auth). a \<in> set (addresses k))"

section \<open>The search is sound\<close>

text \<open>
  What the search keeps: the keys it has are those given, the addresses it knows are theirs, the accounts it
  counts as approved have approved, and a signature it has marked is named by an authority it consulted.
\<close>

definition sound_state :: "public_key_type set \<Rightarrow> (public_key_type \<Rightarrow> address list) \<Rightarrow> account_id_type set \<Rightarrow> get_authority \<Rightarrow>
    authority set \<Rightarrow> sign_state \<Rightarrow> bool" where
  "sound_state K addresses A get_active R st \<longleftrightarrow>
     fst ` set (provided_signatures st) = K \<and> available_keys st = [] \<and>
     (\<forall>m a k. provided_address_sigs st = Some m \<longrightarrow> (a, k) \<in> set m \<longrightarrow> k \<in> K \<and> a \<in> set (addresses k)) \<and>
     (\<forall>m a k. available_address_sigs st = Some m \<longrightarrow> (a, k) \<in> set m \<longrightarrow> k \<in> K \<and> a \<in> set (addresses k)) \<and>
     (available_address_sigs st = None \<longleftrightarrow> provided_address_sigs st = None) \<and>
     (\<forall>a \<in> set (approved_by st). has_approved K addresses A get_active a) \<and>
     (\<forall>k. (k, True) \<in> set (provided_signatures st) \<longrightarrow> (\<exists>auth. consulted get_active R auth \<and> names_key addresses auth k))"

lemma set_update_True: "(k', True) \<in> set (AList.update k True xs) \<Longrightarrow> k' = k \<or> (k', True) \<in> set xs"
  by (induction xs) (auto split: if_splits)

lemma fst_update_True: "fst ` set (AList.update k True xs) = insert k (fst ` set xs)"
  by (induction xs) (auto split: if_splits)

lemma sound_mark:
  assumes "sound_state K addresses A ga R st" and "k \<in> K" and "consulted ga R auth" "names_key addresses auth k"
  shows "sound_state K addresses A ga R (mark_signature k st)"
  using assms by (auto simp: sound_state_def mark_signature_def fst_update_True dest!: set_update_True)

lemma sound_key:
  assumes "signed_by_key k st = Inr (yes, st')" and st: "sound_state K addresses A ga R st"
    and c: "consulted ga R auth" "k \<in> fst ` set (key_auths auth)"
  shows "sound_state K addresses A ga R st' \<and> (yes \<longrightarrow> k \<in> K)"
proof -
  have k: "k \<in> K" if "map_of (provided_signatures st) k = Some b" for b
    using imageI [OF map_of_SomeD [OF that], of fst] st by (simp add: sound_state_def)
  have "available_keys st = []" using st by (simp add: sound_state_def)
  then show ?thesis
    using assms(1) k sound_mark [OF st _ c(1)] c(2) st
    by (auto simp: signed_by_key_def names_key_def split: option.splits if_splits)
qed

lemma sound_build: "sound_state K addresses A ga R st \<Longrightarrow> sound_state K addresses A ga R (build_addresses addresses st) \<and>
    provided_address_sigs (build_addresses addresses st) \<noteq> None \<and> available_address_sigs (build_addresses addresses st) \<noteq> None"
  by (auto simp: sound_state_def build_addresses_def address_map_def split: option.splits)

lemma sound_address:
  assumes run: "signed_by_address addresses a st = Inr (yes, st')" and st: "sound_state K addresses A ga R st"
    and c: "consulted ga R auth" "a \<in> fst ` set (address_auths auth)"
  shows "sound_state K addresses A ga R st' \<and> (yes \<longrightarrow> (\<exists>k \<in> K. a \<in> set (addresses k)))"
proof -
  let ?b = "build_addresses addresses st"
  have b: "sound_state K addresses A ga R ?b" using sound_build [OF st] by blast
  obtain m m' where m: "provided_address_sigs ?b = Some m" "available_address_sigs ?b = Some m'" using sound_build [OF st] by blast
  have k: "k \<in> K \<and> a \<in> set (addresses k)" if "map_of m a = Some k \<or> map_of m' a = Some k" for k
    using that b m by (auto simp: sound_state_def dest: map_of_SomeD)
  then have "sound_state K addresses A ga R (mark_signature k ?b)" if "map_of m a = Some k \<or> map_of m' a = Some k" for k
    using sound_mark [OF b _ c(1)] c(2) that by (auto simp: names_key_def)
  with run k b show ?thesis
    by (auto simp: signed_by_address_def Let_def m split: option.splits if_splits)
qed

text \<open>The three loops by one lemma: what every entry keeps, the loop keeps, and it counts no weight twice.\<close>

lemma weigh_sound:
  assumes "weigh approves threshold auths t st = Inr (stop, t', st')" and "J st"
    and "\<And>k st yes st'. k \<in> fst ` set auths \<Longrightarrow> J st \<Longrightarrow> approves k st = Inr (yes, st') \<Longrightarrow> J st' \<and> (yes \<longrightarrow> P k)"
  shows "J st' \<and> t' \<le> t + weight_of P auths \<and> (stop \<longrightarrow> threshold \<le> t')"
  using assms
proof (induction auths arbitrary: t st)
  case Nil
  then show ?case by (auto simp: weight_of_def)
next
  case (Cons p auths)
  obtain k w where p: "p = (k, w)" by force
  from Cons.prems(1) obtain yes st1 where a: "approves k st = Inr (yes, st1)"
    and rest: "(if yes then let t1 = (t + w) mod 2 ^ 32 in if t1 \<ge> threshold then Inr (True, t1, st1) else weigh approves threshold auths t1 st1
      else weigh approves threshold auths t st1) = Inr (stop, t', st')"
    by (auto simp: p rbind_Inr)
  have j: "J st1" "yes \<Longrightarrow> P k" using Cons.prems(3) [of k st yes st1] a Cons.prems(2) p by auto
  have IH: "J st' \<and> t' \<le> u + weight_of P auths \<and> (stop \<longrightarrow> threshold \<le> t')"
    if "weigh approves threshold auths u st1 = Inr (stop, t', st')" for u
    by (rule Cons.IH [OF that j(1)], rule Cons.prems(3)) auto
  have le: "(t + w) mod 2 ^ 32 \<le> t + w" by simp
  show ?case
  proof (cases yes)
    case True
    with rest j IH [of "(t + w) mod 2 ^ 32"] le show ?thesis
      by (auto simp: p weight_of_def Let_def split: if_splits)
  next
    case False
    with rest IH [of t] show ?thesis by (auto simp: p weight_of_def)
  qed
qed

lemma check_auths_sound:
  assumes run: "check_auths addresses approves auth st = Inr (yes, st')" and st: "sound_state K addresses A ga R st"
    and c: "consulted ga R auth"
    and X: "\<And>a st yes st'. a \<in> fst ` set (account_auths auth) \<Longrightarrow> sound_state K addresses A ga R st \<Longrightarrow>
      approves a st = Inr (yes, st') \<Longrightarrow> sound_state K addresses A ga R st' \<and> (yes \<longrightarrow> has_approved K addresses A ga a)"
  shows "sound_state K addresses A ga R st' \<and> (yes \<longrightarrow> satisfied K addresses {a. has_approved K addresses A ga a} auth)"
proof -
  let ?J = "sound_state K addresses A ga R"
  from run obtain stop1 t1 st1 where r1: "weigh signed_by_key (weight_threshold auth) (key_auths auth) 0 st = Inr (stop1, t1, st1)"
    and r2: "\<not> stop1 \<Longrightarrow> \<exists>stop2 t2 st2. weigh (signed_by_address addresses) (weight_threshold auth) (address_auths auth) t1 st1 = Inr (stop2, t2, st2) \<and>
      (if stop2 then yes \<and> st2 = st' else \<exists>stop3 t3. weigh approves (weight_threshold auth) (account_auths auth) t2 st2 = Inr (stop3, t3, st') \<and>
        yes = (stop3 \<or> weight_threshold auth \<le> t3))"
    and e1: "stop1 \<Longrightarrow> yes \<and> st1 = st'"
    by (fastforce simp: check_auths_def Let_def rbind_Inr split: if_splits)
  have s1: "?J st1 \<and> t1 \<le> 0 + weight_of (\<lambda>k. k \<in> K) (key_auths auth) \<and> (stop1 \<longrightarrow> weight_threshold auth \<le> t1)"
    using r1 st sound_key [OF _ _ c] by (rule weigh_sound) blast+
  show ?thesis
  proof (cases stop1)
    case True
    with e1 s1 show ?thesis by (auto simp: satisfied_def)
  next
    case False
    with r2 obtain stop2 t2 st2 where w2: "weigh (signed_by_address addresses) (weight_threshold auth) (address_auths auth) t1 st1 = Inr (stop2, t2, st2)"
      and r3: "if stop2 then yes \<and> st2 = st' else \<exists>stop3 t3. weigh approves (weight_threshold auth) (account_auths auth) t2 st2 = Inr (stop3, t3, st') \<and>
        yes = (stop3 \<or> weight_threshold auth \<le> t3)" by blast
    have s2: "?J st2 \<and> t2 \<le> t1 + weight_of (\<lambda>a. \<exists>k \<in> K. a \<in> set (addresses k)) (address_auths auth) \<and> (stop2 \<longrightarrow> weight_threshold auth \<le> t2)"
      using w2 conjunct1 [OF s1] sound_address [OF _ _ c] by (rule weigh_sound) blast+
    show ?thesis
    proof (cases stop2)
      case True
      with r3 s1 s2 show ?thesis by (auto simp: satisfied_def)
    next
      case False
      with r3 obtain stop3 t3 where w3: "weigh approves (weight_threshold auth) (account_auths auth) t2 st2 = Inr (stop3, t3, st')"
        and y: "yes = (stop3 \<or> weight_threshold auth \<le> t3)" by auto
      have "?J st' \<and> t3 \<le> t2 + weight_of (\<lambda>a. a \<in> {a. has_approved K addresses A ga a}) (account_auths auth) \<and> (stop3 \<longrightarrow> weight_threshold auth \<le> t3)"
        by (rule weigh_sound [where J = ?J, OF w3 conjunct1 [OF s2]]) (use X in auto)
      with s1 s2 y show ?thesis by (auto simp: satisfied_def)
    qed
  qed
qed

lemma has_approvedI: "ga a = Inr (Some auth) \<Longrightarrow> satisfied K addresses {a. has_approved K addresses A ga a} auth \<Longrightarrow>
    has_approved K addresses A ga a"
  by (rule has_approved.by_authority [where X = "{a. has_approved K addresses A ga a}"]) auto

lemma check_authority_sound:
  assumes "check_authority addresses ga n au st = Inr (yes, st')" and "sound_state K addresses A ga R st"
    and "\<And>auth. au = Some auth \<Longrightarrow> consulted ga R auth"
  shows "sound_state K addresses A ga R st' \<and>
    (yes \<longrightarrow> (\<exists>auth. au = Some auth \<and> satisfied K addresses {a. has_approved K addresses A ga a} auth))"
  using assms
proof (induction n arbitrary: au st yes st')
  case 0
  show ?case
  proof (cases au)
    case None
    with 0 show ?thesis by auto
  next
    case (Some auth)
    have "sound_state K addresses A ga R st' \<and> (yes \<longrightarrow> satisfied K addresses {a. has_approved K addresses A ga a} auth)"
      by (rule check_auths_sound [OF _ 0(2) 0(3) [OF Some]]) (use 0(1) Some in \<open>auto simp: sound_state_def\<close>)
    with Some show ?thesis by auto
  qed
next
  case (Suc n)
  show ?case
  proof (cases au)
    case None
    with Suc.prems show ?thesis by auto
  next
    case (Some auth)
    note c = Suc.prems(3) [OF Some]
    have "sound_state K addresses A ga R st' \<and> (yes \<longrightarrow> satisfied K addresses {a. has_approved K addresses A ga a} auth)"
    proof (rule check_auths_sound [OF Suc.prems(1) [simplified Some, simplified] Suc.prems(2) c])
      fix a st yes st'
      assume a: "a \<in> fst ` set (account_auths auth)" and st: "sound_state K addresses A ga R st"
        and run: "(if a \<in> set (approved_by st) then Inr (True, st)
          else rbind (ga a) (\<lambda>au1. rbind (check_authority addresses ga n au1 st) (\<lambda>(yes, st1).
               Inr (yes, if yes then st1\<lparr>approved_by := a # approved_by st1\<rparr> else st1)))) = Inr (yes, st')"
      show "sound_state K addresses A ga R st' \<and> (yes \<longrightarrow> has_approved K addresses A ga a)"
      proof (cases "a \<in> set (approved_by st)")
        case True
        with run st show ?thesis by (auto simp: sound_state_def)
      next
        case False
        with run obtain au1 st1 where g: "ga a = Inr au1" and r: "check_authority addresses ga n au1 st = Inr (yes, st1)"
          and st': "st' = (if yes then st1\<lparr>approved_by := a # approved_by st1\<rparr> else st1)"
          by (auto simp: rbind_Inr)
        have "sound_state K addresses A ga R st1 \<and>
            (yes \<longrightarrow> (\<exists>auth. au1 = Some auth \<and> satisfied K addresses {a. has_approved K addresses A ga a} auth))"
          by (rule Suc.IH [OF r st]) (use consulted.followed [OF c a] g in simp)
        moreover then have "yes \<longrightarrow> has_approved K addresses A ga a" using g has_approvedI by blast
        ultimately show ?thesis using st' by (auto simp: sound_state_def)
      qed
    qed
    with Some show ?thesis by auto
  qed
qed

text \<open>The steps of \<open>verify_authority\<close>.\<close>

lemma fold_result_each:
  assumes "fold_result f xs s = Inr s'" and "J s"
    and "\<And>x s s'. x \<in> set xs \<Longrightarrow> J s \<Longrightarrow> f x s = Inr s' \<Longrightarrow> J s' \<and> Q x"
  shows "J s' \<and> (\<forall>x \<in> set xs. Q x)"
  using assms
proof (induction xs arbitrary: s)
  case (Cons x xs)
  from Cons.prems(1) obtain t where t: "f x s = Inr t" "fold_result f xs t = Inr s'" by (auto simp: rbind_Inr)
  have "J t \<and> Q x" using Cons.prems(3) [OF _ Cons.prems(2) t(1)] by simp
  with Cons.IH [OF t(2)] Cons.prems(3) show ?case by auto
qed simp

definition roots :: "get_authority \<Rightarrow> get_authority \<Rightarrow> required_auths \<Rightarrow> authority set" where
  "roots get_active get_owner req = set (ra_other req) \<union> {auth. \<exists>a \<in> set (ra_active req). get_active a = Inr (Some auth) \<or>
     get_owner a = Inr (Some auth)} \<union> {auth. \<exists>a \<in> set (ra_owner req). get_owner a = Inr (Some auth)}"

lemma check_other_sound:
  assumes "check_other addresses ga n auth st = Inr st'" and "sound_state K addresses A ga R st" and "consulted ga R auth"
  shows "sound_state K addresses A ga R st' \<and> satisfied K addresses {a. has_approved K addresses A ga a} auth"
  using assms check_authority_sound [of addresses ga n "Some auth" st True st' K A R] by (auto simp: check_other_def result_simps)

lemma check_owner_authority_sound:
  assumes "rbind (m) (\<lambda>au. rbind (check_authority addresses ga n au st) (\<lambda>(yes, st1). ensure yes e (Inr st1))) = Inr st'"
    and "sound_state K addresses A ga R st" and "\<And>auth. m = Inr (Some auth) \<Longrightarrow> consulted ga R auth"
  shows "sound_state K addresses A ga R st' \<and>
    (\<exists>auth. m = Inr (Some auth) \<and> satisfied K addresses {a. has_approved K addresses A ga a} auth)"
proof -
  from assms(1) obtain au where "m = Inr au" "check_authority addresses ga n au st = Inr (True, st')" by (auto simp: result_simps)
  with check_authority_sound [OF this(2) assms(2)] assms(3) show ?thesis by auto
qed

lemma check_active_sound:
  assumes run: "check_active addresses ga go n a st = Inr st'" and st: "sound_state K addresses A ga R st"
    and R: "\<And>auth. ga a = Inr (Some auth) \<or> go a = Inr (Some auth) \<Longrightarrow> consulted ga R auth"
  shows "sound_state K addresses A ga R st' \<and> (has_approved K addresses A ga a \<or>
    (\<exists>auth. go a = Inr (Some auth) \<and> satisfied K addresses {a. has_approved K addresses A ga a} auth))"
proof -
  from run obtain yes st1 where acc: "check_account addresses ga n a st = Inr (yes, st1)" and y: "yes \<Longrightarrow> st1 = st'"
    and no: "\<not> yes \<Longrightarrow> rbind (go a) (\<lambda>au. rbind (check_authority addresses ga n au st1) (\<lambda>(yes, st1). ensure yes Tx_missing_active_auth (Inr st1))) = Inr st'"
    by (auto simp: check_active_def result_simps split: if_splits)
  have "sound_state K addresses A ga R st1 \<and> (yes \<longrightarrow> has_approved K addresses A ga a)"
  proof (cases "a \<in> set (approved_by st)")
    case True
    with acc st show ?thesis by (auto simp: check_account_def sound_state_def)
  next
    case False
    with acc obtain au where g: "ga a = Inr au" "check_authority addresses ga n au st = Inr (yes, st1)"
      by (auto simp: check_account_def rbind_Inr)
    with check_authority_sound [OF g(2) st] R has_approvedI show ?thesis by blast
  qed
  with y check_owner_authority_sound [where m = "go a", OF no] R show ?thesis by (cases yes) blast+
qed

lemma check_owner_sound:
  assumes "check_owner addresses ga go n own a st = Inr st'" and "sound_state K addresses A ga R st"
    and "\<And>auth. go a = Inr (Some auth) \<Longrightarrow> consulted ga R auth"
  shows "sound_state K addresses A ga R st' \<and> (a \<in> set own \<or>
    (\<exists>auth. go a = Inr (Some auth) \<and> satisfied K addresses {a. has_approved K addresses A ga a} auth))"
proof (cases "a \<in> set own")
  case True
  with assms show ?thesis by (simp add: check_owner_def)
next
  case False
  with assms(1) have "rbind (go a) (\<lambda>au. rbind (check_authority addresses ga n au st) (\<lambda>(yes, st1).
      ensure yes Tx_missing_owner_auth (Inr st1))) = Inr st'" by (simp add: check_owner_def)
  from check_owner_authority_sound [where m = "go a", OF this assms(2)] assms(3) show ?thesis by blast
qed

lemma new_state_sound:
  "sound_state (set sigs) addresses (insert GRAPHENE_TEMP_ACCOUNT (set act \<union> set own)) ga R
    ((new_sign_state sigs [])\<lparr>approved_by := own @ act @ approved_by (new_sign_state sigs [])\<rparr>)"
  by (auto simp: sound_state_def new_sign_state_def image_image intro: has_approved.given)

lemma verify_authority_steps:
  assumes run: "verify_authority auths addresses ops sigs ga go depth allow act own = Inr ()"
    and req: "req = get_required_authorities auths ops"
  obtains s1 s2 s3 where "fold_result (check_other addresses ga depth) (ra_other req)
        ((new_sign_state sigs [])\<lparr>approved_by := own @ act @ approved_by (new_sign_state sigs [])\<rparr>) = Inr s1"
    and "fold_result (check_active addresses ga go depth) (ra_active req) s1 = Inr s2"
    and "fold_result (check_owner addresses ga go depth own) (ra_owner req) s2 = Inr s3"
    and "allow \<or> GRAPHENE_COMMITTEE_ACCOUNT \<notin> set (ra_active req)" and "\<forall>p \<in> set (provided_signatures s3). snd p"
  using run by (auto simp: verify_authority_def Let_def req result_simps remove_unused_signatures_def list_ex_iff case_prod_unfold)

section \<open>The search is complete up to its depth\<close>

text \<open>
  What can be reached in a number of steps, and the conditions under which the search cannot go wrong: no
  addresses, accounts that can be fetched, and weights that fit 32 bits.
\<close>

primrec satisfied_within :: "public_key_type set \<Rightarrow> account_id_type set \<Rightarrow> get_authority \<Rightarrow> nat \<Rightarrow> authority \<Rightarrow> bool" where
  "satisfied_within K A get_active 0 auth \<longleftrightarrow>
     weight_threshold auth \<le> weight_of (\<lambda>k. k \<in> K) (key_auths auth) + weight_of (\<lambda>a. a \<in> A) (account_auths auth)"
| "satisfied_within K A get_active (Suc n) auth \<longleftrightarrow>
     weight_threshold auth \<le> weight_of (\<lambda>k. k \<in> K) (key_auths auth) +
       weight_of (\<lambda>a. a \<in> A \<or> (\<exists>auth1. get_active a = Inr (Some auth1) \<and> satisfied_within K A get_active n auth1)) (account_auths auth)"

definition searchable :: "get_authority \<Rightarrow> authority \<Rightarrow> bool" where
  "searchable get_active auth \<longleftrightarrow> address_auths auth = [] \<and> (\<forall>a \<in> fst ` set (account_auths auth). \<exists>au. get_active a = Inr au) \<and>
     weight_of (\<lambda>_. True) (key_auths auth) + weight_of (\<lambda>_. True) (account_auths auth) < 2 ^ 32"

definition complete_state :: "public_key_type set \<Rightarrow> account_id_type set \<Rightarrow> sign_state \<Rightarrow> bool" where
  "complete_state K A st \<longleftrightarrow> K \<subseteq> fst ` set (provided_signatures st) \<and> A \<subseteq> set (approved_by st)"

lemma complete_key:
  assumes "complete_state K A st"
  shows "\<exists>yes st'. signed_by_key k st = Inr (yes, st') \<and> complete_state K A st' \<and> (k \<in> K \<longrightarrow> yes)"
proof -
  have m: "complete_state K A (mark_signature k st)"
    using assms by (auto simp: complete_state_def mark_signature_def fst_update_True)
  show ?thesis
  proof (cases "map_of (provided_signatures st) k")
    case None
    then have "k \<notin> K" using assms by (auto simp: complete_state_def map_of_eq_None_iff)
    with None m assms show ?thesis by (auto simp: signed_by_key_def)
  next
    case (Some b)
    with m show ?thesis by (auto simp: signed_by_key_def)
  qed
qed

lemma weigh_complete:
  assumes "J st" and "t + weight_of (\<lambda>_. True) auths < 2 ^ 32"
    and "\<And>k st. k \<in> fst ` set auths \<Longrightarrow> J st \<Longrightarrow> \<exists>yes st'. approves k st = Inr (yes, st') \<and> J st' \<and> (P k \<longrightarrow> yes)"
  shows "\<exists>stop t' st'. weigh approves threshold auths t st = Inr (stop, t', st') \<and> J st' \<and>
    (\<not> stop \<longrightarrow> t + weight_of P auths \<le> t' \<and> t' \<le> t + weight_of (\<lambda>_. True) auths)"
  using assms
proof (induction auths arbitrary: t st)
  case Nil
  then show ?case by (auto simp: weight_of_def)
next
  case (Cons p auths)
  obtain k w where p: "p = (k, w)" by force
  obtain yes st1 where a: "approves k st = Inr (yes, st1)" "J st1" "P k \<longrightarrow> yes"
    using Cons.prems(3) [of k st] Cons.prems(1) p by auto
  let ?t = "if yes then t + w else t"
  have lim: "?t + weight_of (\<lambda>_. True) auths < 2 ^ 32" using Cons.prems(2) by (auto simp: p weight_of_def)
  have "\<exists>stop t' st'. weigh approves threshold auths ?t st1 = Inr (stop, t', st') \<and> J st' \<and>
    (\<not> stop \<longrightarrow> ?t + weight_of P auths \<le> t' \<and> t' \<le> ?t + weight_of (\<lambda>_. True) auths)"
    by (rule Cons.IH [OF a(2) lim], rule Cons.prems(3)) auto
  then show ?case using a lim by (cases yes) (auto simp: p weight_of_def Let_def)
qed

lemma check_auths_complete:
  assumes st: "complete_state K A st" and s: "searchable ga auth"
    and X: "\<And>a st. a \<in> fst ` set (account_auths auth) \<Longrightarrow> complete_state K A st \<Longrightarrow>
      \<exists>yes st'. approves a st = Inr (yes, st') \<and> complete_state K A st' \<and> (P a \<longrightarrow> yes)"
  shows "\<exists>yes st'. check_auths addresses approves auth st = Inr (yes, st') \<and> complete_state K A st' \<and>
    (weight_threshold auth \<le> weight_of (\<lambda>k. k \<in> K) (key_auths auth) + weight_of P (account_auths auth) \<longrightarrow> yes)"
proof -
  have addr: "address_auths auth = []" and lim: "weight_of (\<lambda>_. True) (key_auths auth) + weight_of (\<lambda>_. True) (account_auths auth) < 2 ^ 32"
    using s by (auto simp: searchable_def)
  have "\<exists>stop t' st'. weigh signed_by_key (weight_threshold auth) (key_auths auth) 0 st = Inr (stop, t', st') \<and> complete_state K A st' \<and>
      (\<not> stop \<longrightarrow> 0 + weight_of (\<lambda>k. k \<in> K) (key_auths auth) \<le> t' \<and> t' \<le> 0 + weight_of (\<lambda>_. True) (key_auths auth))"
    by (rule weigh_complete [OF st _ complete_key]) (use lim in linarith)
  then obtain stop1 t1 st1 where w1: "weigh signed_by_key (weight_threshold auth) (key_auths auth) 0 st = Inr (stop1, t1, st1)"
    and j1: "complete_state K A st1"
    and t1: "\<not> stop1 \<Longrightarrow> weight_of (\<lambda>k. k \<in> K) (key_auths auth) \<le> t1 \<and> t1 \<le> weight_of (\<lambda>_. True) (key_auths auth)" by auto
  show ?thesis
  proof (cases stop1)
    case True
    with w1 j1 show ?thesis by (auto simp: check_auths_def Let_def)
  next
    case False
    have "\<exists>stop t' st'. weigh approves (weight_threshold auth) (account_auths auth) t1 st1 = Inr (stop, t', st') \<and> complete_state K A st' \<and>
        (\<not> stop \<longrightarrow> t1 + weight_of P (account_auths auth) \<le> t' \<and> t' \<le> t1 + weight_of (\<lambda>_. True) (account_auths auth))"
      by (rule weigh_complete [OF j1 _ X]) (use False t1 lim in auto)
    then obtain stop2 t2 st2 where w2: "weigh approves (weight_threshold auth) (account_auths auth) t1 st1 = Inr (stop2, t2, st2)"
      and j2: "complete_state K A st2" and t2: "\<not> stop2 \<Longrightarrow> t1 + weight_of P (account_auths auth) \<le> t2" by blast
    have "check_auths addresses approves auth st = Inr (stop2 \<or> weight_threshold auth \<le> t2, st2)"
      using False w1 w2 by (simp add: check_auths_def Let_def addr)
    with j2 t1 t2 False show ?thesis by force
  qed
qed

lemma check_authority_complete:
  assumes "complete_state K A st" and "consulted ga R auth" and "\<And>auth. consulted ga R auth \<Longrightarrow> searchable ga auth"
  shows "\<exists>yes st'. check_authority addresses ga n (Some auth) st = Inr (yes, st') \<and> complete_state K A st' \<and>
    (satisfied_within K A ga n auth \<longrightarrow> yes)"
  using assms(1,2)
proof (induction n arbitrary: auth st)
  case 0
  have "\<exists>yes st'. check_auths addresses (\<lambda>a st. Inr (a \<in> set (approved_by st), st)) auth st = Inr (yes, st') \<and> complete_state K A st' \<and>
    (weight_threshold auth \<le> weight_of (\<lambda>k. k \<in> K) (key_auths auth) + weight_of (\<lambda>a. a \<in> A) (account_auths auth) \<longrightarrow> yes)"
    by (rule check_auths_complete [OF 0(1) assms(3) [OF 0(2)]]) (auto simp: complete_state_def)
  then show ?case by simp
next
  case (Suc n)
  note s = assms(3) [OF Suc.prems(2)]
  let ?P = "\<lambda>a. a \<in> A \<or> (\<exists>auth1. ga a = Inr (Some auth1) \<and> satisfied_within K A ga n auth1)"
  let ?f = "\<lambda>a st. if a \<in> set (approved_by st) then Inr (True, st)
    else rbind (ga a) (\<lambda>au1. rbind (check_authority addresses ga n au1 st) (\<lambda>(yes, st1).
      Inr (yes, if yes then st1\<lparr>approved_by := a # approved_by st1\<rparr> else st1)))"
  have "\<exists>yes st'. check_auths addresses ?f auth st = Inr (yes, st') \<and> complete_state K A st' \<and>
    (weight_threshold auth \<le> weight_of (\<lambda>k. k \<in> K) (key_auths auth) + weight_of ?P (account_auths auth) \<longrightarrow> yes)"
  proof (rule check_auths_complete [OF Suc.prems(1) s])
    fix a st
    assume a: "a \<in> fst ` set (account_auths auth)" and st: "complete_state K A st"
    from s a obtain au where g: "ga a = Inr au" by (auto simp: searchable_def)
    show "\<exists>yes st'. ?f a st = Inr (yes, st') \<and> complete_state K A st' \<and> (?P a \<longrightarrow> yes)"
    proof (cases "a \<in> set (approved_by st)")
      case True
      with st show ?thesis by auto
    next
      case False
      then have notA: "a \<notin> A" using st by (auto simp: complete_state_def)
      show ?thesis
      proof (cases au)
        case None
        have "check_authority addresses ga n None st = Inr (False, st)" by (cases n) auto
        with False None g st notA show ?thesis by auto
      next
        case (Some auth1)
        with Suc.IH [OF st consulted.followed [OF Suc.prems(2) a]] g obtain yes st1 where
          "check_authority addresses ga n (Some auth1) st = Inr (yes, st1)" "complete_state K A st1" "satisfied_within K A ga n auth1 \<longrightarrow> yes"
          by blast
        with False Some g notA show ?thesis by (auto simp: complete_state_def)
      qed
    qed
  qed
  then show ?case by simp
qed

lemma fold_result_total:
  assumes "J s" and "\<And>x s. x \<in> set xs \<Longrightarrow> J s \<Longrightarrow> \<exists>s'. f x s = Inr s' \<and> J s'"
  shows "\<exists>s'. fold_result f xs s = Inr s' \<and> J s'"
  using assms
proof (induction xs arbitrary: s)
  case (Cons x xs)
  from Cons.prems obtain t where "f x s = Inr t" "J t" by (meson list.set_intros(1))
  with Cons.IH [of t] Cons.prems(2) show ?case by auto
qed simp

lemma check_active_complete:
  assumes st: "complete_state K A st" and s: "\<And>auth. consulted ga R auth \<Longrightarrow> searchable ga auth"
    and a: "ga a = Inr (Some act)" "go a = Inr (Some own)" "consulted ga R act" "consulted ga R own"
    and sat: "a \<in> A \<or> satisfied_within K A ga n act \<or> satisfied_within K A ga n own"
  shows "\<exists>st'. check_active addresses ga go n a st = Inr st' \<and> complete_state K A st'"
proof (cases "a \<in> set (approved_by st)")
  case True
  with st show ?thesis by (simp add: check_active_def check_account_def)
next
  case False
  then have notA: "a \<notin> A" using st by (auto simp: complete_state_def)
  obtain yes st1 where c: "check_authority addresses ga n (Some act) st = Inr (yes, st1)" "complete_state K A st1"
    "satisfied_within K A ga n act \<longrightarrow> yes"
    using check_authority_complete [OF st a(3) s] by blast
  obtain yes2 st2 where d: "check_authority addresses ga n (Some own) st1 = Inr (yes2, st2)" "complete_state K A st2"
    "satisfied_within K A ga n own \<longrightarrow> yes2"
    using check_authority_complete [OF c(2) a(4) s] by blast
  show ?thesis
    using False notA sat a c d by (cases yes) (auto simp: check_active_def check_account_def)
qed

lemma check_owner_complete:
  assumes st: "complete_state K A st" and s: "\<And>auth. consulted ga R auth \<Longrightarrow> searchable ga auth"
    and a: "go a = Inr (Some own)" "consulted ga R own" and sat: "a \<in> set approvals \<or> satisfied_within K A ga n own"
  shows "\<exists>st'. check_owner addresses ga go n approvals a st = Inr st' \<and> complete_state K A st'"
  using check_authority_complete [OF st a(2) s, where n = n and addresses = addresses] sat a(1) st by (auto simp: check_owner_def)

lemma verify_authority_facts:
  assumes run: "verify_authority auths addresses ops sigs ga go depth allow act own = Inr ()"
    and req: "req = get_required_authorities auths ops" and A: "A = insert GRAPHENE_TEMP_ACCOUNT (set act \<union> set own)"
  shows "(\<forall>auth \<in> set (ra_other req). satisfied (set sigs) addresses {a. has_approved (set sigs) addresses A ga a} auth) \<and>
    (\<forall>a \<in> set (ra_active req). has_approved (set sigs) addresses A ga a \<or>
      (\<exists>auth. go a = Inr (Some auth) \<and> satisfied (set sigs) addresses {a. has_approved (set sigs) addresses A ga a} auth)) \<and>
    (\<forall>a \<in> set (ra_owner req). a \<in> set own \<or>
      (\<exists>auth. go a = Inr (Some auth) \<and> satisfied (set sigs) addresses {a. has_approved (set sigs) addresses A ga a} auth)) \<and>
    (allow \<or> GRAPHENE_COMMITTEE_ACCOUNT \<notin> set (ra_active req)) \<and>
    (\<forall>k \<in> set sigs. \<exists>auth. consulted ga (roots ga go req) auth \<and> names_key addresses auth k)"
proof -
  let ?R = "roots ga go req"
  let ?J = "sound_state (set sigs) addresses A ga ?R"
  obtain s1 s2 s3 where f1: "fold_result (check_other addresses ga depth) (ra_other req)
        ((new_sign_state sigs [])\<lparr>approved_by := own @ act @ approved_by (new_sign_state sigs [])\<rparr>) = Inr s1"
    and f2: "fold_result (check_active addresses ga go depth) (ra_active req) s1 = Inr s2"
    and f3: "fold_result (check_owner addresses ga go depth own) (ra_owner req) s2 = Inr s3"
    and comm: "allow \<or> GRAPHENE_COMMITTEE_ACCOUNT \<notin> set (ra_active req)"
    and used: "\<forall>p \<in> set (provided_signatures s3). snd p"
    using run req by (rule verify_authority_steps) (rule that)
  have j1: "?J s1 \<and> (\<forall>auth \<in> set (ra_other req). satisfied (set sigs) addresses {a. has_approved (set sigs) addresses A ga a} auth)"
    by (rule fold_result_each [OF f1, where J = ?J], use A new_state_sound in blast, rule check_other_sound)
      (auto simp: roots_def intro!: consulted.root)
  have j2: "?J s2 \<and> (\<forall>a \<in> set (ra_active req). has_approved (set sigs) addresses A ga a \<or>
      (\<exists>auth. go a = Inr (Some auth) \<and> satisfied (set sigs) addresses {a. has_approved (set sigs) addresses A ga a} auth))"
    by (rule fold_result_each [OF f2, where J = ?J], use j1 in blast, rule check_active_sound)
      (auto simp: roots_def intro!: consulted.root)
  have j3: "?J s3 \<and> (\<forall>a \<in> set (ra_owner req). a \<in> set own \<or>
      (\<exists>auth. go a = Inr (Some auth) \<and> satisfied (set sigs) addresses {a. has_approved (set sigs) addresses A ga a} auth))"
    by (rule fold_result_each [OF f3, where J = ?J], use j2 in blast, rule check_owner_sound)
      (auto simp: roots_def intro!: consulted.root)
  then have keys: "fst ` set (provided_signatures s3) = set sigs"
    and named: "(k, True) \<in> set (provided_signatures s3) \<Longrightarrow> \<exists>auth. consulted ga ?R auth \<and> names_key addresses auth k" for k
    by (auto simp: sound_state_def)
  have "(k, True) \<in> set (provided_signatures s3)" if "k \<in> set sigs" for k
  proof -
    from that keys have "k \<in> fst ` set (provided_signatures s3)" by simp
    then obtain b where "(k, b) \<in> set (provided_signatures s3)" by auto
    with used show ?thesis by fastforce
  qed
  with named j1 j2 j3 comm show ?thesis by blast
qed

lemma authorized_active:
  assumes "verify_authority auths addresses ops sigs ga go depth False [] [] = Inr ()"
    and "a \<in> set (ra_active (get_required_authorities auths ops))"
  shows "a \<noteq> GRAPHENE_COMMITTEE_ACCOUNT \<and> (has_approved (set sigs) addresses {GRAPHENE_TEMP_ACCOUNT} ga a \<or>
    (\<exists>auth. go a = Inr (Some auth) \<and> satisfied (set sigs) addresses {a. has_approved (set sigs) addresses {GRAPHENE_TEMP_ACCOUNT} ga a} auth))"
  using verify_authority_facts [OF assms(1) refl, of "{GRAPHENE_TEMP_ACCOUNT}"] assms(2) by auto

section \<open>Properties of authorities\<close>

text \<open>C8.
  A transaction that passes \<open>verify_authority\<close> is authorized: its signatures satisfy every further authority it
  requires; of every account whose active authority it needs, the account has approved or its owner authority is
  satisfied; and likewise for owner authorities. The committee's account is not among them unless allowed, and
  every signature is named by an authority that the search could consult. Approval is the least relation that
  holds of given approvals and of accounts whose active authority reaches its threshold.
\<close>

theorem verify_authority_sound:
  assumes run: "verify_authority auths addresses ops sigs ga go depth allow act own = Inr ()"
    and req: "req = get_required_authorities auths ops" and A: "A = insert GRAPHENE_TEMP_ACCOUNT (set act \<union> set own)"
  shows "(\<forall>auth \<in> set (ra_other req). satisfied (set sigs) addresses {a. has_approved (set sigs) addresses A ga a} auth) \<and>
    (\<forall>a \<in> set (ra_active req). has_approved (set sigs) addresses A ga a \<or>
      (\<exists>auth. go a = Inr (Some auth) \<and> satisfied (set sigs) addresses {a. has_approved (set sigs) addresses A ga a} auth)) \<and>
    (\<forall>a \<in> set (ra_owner req). a \<in> set own \<or>
      (\<exists>auth. go a = Inr (Some auth) \<and> satisfied (set sigs) addresses {a. has_approved (set sigs) addresses A ga a} auth)) \<and>
    (allow \<or> GRAPHENE_COMMITTEE_ACCOUNT \<notin> set (ra_active req)) \<and>
    (\<forall>k \<in> set sigs. \<exists>auth. consulted ga (roots ga go req) auth \<and> names_key addresses auth k)"
  using assms by (rule verify_authority_facts)

definition shared_active :: get_authority where
  "shared_active a = (if a = 8 then Inr (Some \<lparr>weight_threshold = 2, account_auths = [(9, 1)], key_auths = [(70, 1)], address_auths = []\<rparr>)
     else if a = 9 then Inr (Some \<lparr>weight_threshold = 1, account_auths = [], key_auths = [(90, 1)], address_auths = []\<rparr>)
     else Inl Object_not_found)"

definition needs_account :: "account_id_type \<Rightarrow> required_auths" where
  "needs_account a = \<lparr>ra_active = [a], ra_owner = [], ra_other = []\<rparr>"

theorem verify_authority_sound_witness:
  "verify_authority needs_account (\<lambda>k. []) [8] [70, 90] shared_active shared_active 2 False [] [] = Inr () \<and>
   verify_authority needs_account (\<lambda>k. []) [8] [90] shared_active shared_active 2 False [] [] = Inl Tx_missing_active_auth \<and>
   verify_authority needs_account (\<lambda>k. []) [8] [70, 80, 90] shared_active shared_active 2 False [] [] = Inl Tx_irrelevant_sig \<and>
   (has_approved {70, 90} (\<lambda>k. []) {GRAPHENE_TEMP_ACCOUNT} shared_active 8 \<or>
     (\<exists>auth. shared_active 8 = Inr (Some auth) \<and>
       satisfied {70, 90} (\<lambda>k. []) {a. has_approved {70, 90} (\<lambda>k. []) {GRAPHENE_TEMP_ACCOUNT} shared_active a} auth))"
proof -
  have run: "verify_authority needs_account (\<lambda>k. []) [8] [70, 90] shared_active shared_active 2 False [] [] = Inr ()"
    and bad: "verify_authority needs_account (\<lambda>k. []) [8] [90] shared_active shared_active 2 False [] [] = Inl Tx_missing_active_auth"
    "verify_authority needs_account (\<lambda>k. []) [8] [70, 80, 90] shared_active shared_active 2 False [] [] = Inl Tx_irrelevant_sig"
    unfolding numeral_2_eq_2
    by (simp_all add: verify_authority_def get_required_authorities_def needs_account_def flat_set_def new_sign_state_def
        GRAPHENE_TEMP_ACCOUNT_def GRAPHENE_COMMITTEE_ACCOUNT_def check_active_def check_account_def shared_active_def check_auths_def
        signed_by_key_def mark_signature_def remove_unused_signatures_def Let_def)
  have "ra_active (get_required_authorities needs_account [8]) = [8]"
    by (simp add: get_required_authorities_def flat_set_def needs_account_def)
  moreover have "set [70, 90 :: nat] = {70, 90}" "insert GRAPHENE_TEMP_ACCOUNT (set [] \<union> set []) = {GRAPHENE_TEMP_ACCOUNT}" by auto
  ultimately show ?thesis
    using conjunct1 [OF conjunct2 [OF verify_authority_sound [OF run refl refl]]] run bad by (simp only: list.set ball_simps simp_thms)
qed

text \<open>C9.
  Up to the maximal depth nothing is missed: when the keys satisfy what a transaction requires within that
  depth, and the authorities concerned can be fetched, name no addresses and have weights that fit 32 bits,
  then verification succeeds, or the only fault is a signature that was not needed.
\<close>

theorem verify_authority_complete:
  assumes req: "req = get_required_authorities auths ops" and K: "K = set sigs" and A: "A = insert GRAPHENE_TEMP_ACCOUNT (set act \<union> set own)"
    and comm: "allow \<or> GRAPHENE_COMMITTEE_ACCOUNT \<notin> set (ra_active req)"
    and s: "\<And>auth. consulted ga (roots ga go req) auth \<Longrightarrow> searchable ga auth"
    and other: "\<forall>auth \<in> set (ra_other req). satisfied_within K A ga depth auth"
    and active: "\<forall>a \<in> set (ra_active req). \<exists>x y. ga a = Inr (Some x) \<and> go a = Inr (Some y) \<and>
      (a \<in> A \<or> satisfied_within K A ga depth x \<or> satisfied_within K A ga depth y)"
    and owner: "\<forall>a \<in> set (ra_owner req). \<exists>y. go a = Inr (Some y) \<and> (a \<in> set own \<or> satisfied_within K A ga depth y)"
  shows "verify_authority auths addresses ops sigs ga go depth allow act own \<in> {Inr (), Inl Tx_irrelevant_sig}"
proof -
  let ?R = "roots ga go req" and ?J = "complete_state K A"
  let ?s = "(new_sign_state sigs [])\<lparr>approved_by := own @ act @ approved_by (new_sign_state sigs [])\<rparr>"
  have j0: "?J ?s" by (auto simp: complete_state_def new_sign_state_def A K image_image)
  have "\<exists>s1. fold_result (check_other addresses ga depth) (ra_other req) ?s = Inr s1 \<and> ?J s1"
  proof (rule fold_result_total [where J = ?J, OF j0])
    fix auth st assume "auth \<in> set (ra_other req)" "?J st"
    moreover then have "consulted ga ?R auth" by (auto simp: roots_def intro: consulted.root)
    ultimately show "\<exists>st'. check_other addresses ga depth auth st = Inr st' \<and> ?J st'"
      using check_authority_complete [where K = K and A = A and R = ?R and st = st and auth = auth and n = depth and addresses = addresses, OF _ _ s] other by (auto simp: check_other_def)
  qed
  then obtain s1 where s1: "fold_result (check_other addresses ga depth) (ra_other req) ?s = Inr s1" "?J s1" by blast
  have "\<exists>s2. fold_result (check_active addresses ga go depth) (ra_active req) s1 = Inr s2 \<and> ?J s2"
  proof (rule fold_result_total [where J = ?J, OF s1(2)])
    fix a st assume a: "a \<in> set (ra_active req)" and st: "?J st"
    with active obtain x y where xy: "ga a = Inr (Some x)" "go a = Inr (Some y)"
      "a \<in> A \<or> satisfied_within K A ga depth x \<or> satisfied_within K A ga depth y" by blast
    moreover from this(1,2) a have "consulted ga ?R x" "consulted ga ?R y" by (auto simp: roots_def intro: consulted.root)
    ultimately show "\<exists>st'. check_active addresses ga go depth a st = Inr st' \<and> ?J st'" using check_active_complete [OF st s] by blast
  qed
  then obtain s2 where s2: "fold_result (check_active addresses ga go depth) (ra_active req) s1 = Inr s2" "?J s2" by blast
  have "\<exists>s3. fold_result (check_owner addresses ga go depth own) (ra_owner req) s2 = Inr s3 \<and> ?J s3"
  proof (rule fold_result_total [where J = ?J, OF s2(2)])
    fix a st assume a: "a \<in> set (ra_owner req)" and st: "?J st"
    with owner obtain y where y: "go a = Inr (Some y)" "a \<in> set own \<or> satisfied_within K A ga depth y" by blast
    moreover from this(1) a have "consulted ga ?R y" by (auto simp: roots_def intro: consulted.root)
    ultimately show "\<exists>st'. check_owner addresses ga go depth own a st = Inr st' \<and> ?J st'" using check_owner_complete [OF st s] by blast
  qed
  with s1 s2 comm show ?thesis by (auto simp: verify_authority_def Let_def req ensure_def)
qed

theorem verify_authority_complete_witness:
  "verify_authority needs_account (\<lambda>k. []) [8] [70, 90] shared_active shared_active 1 False [] [] \<in> {Inr (), Inl Tx_irrelevant_sig}"
proof -
  let ?K = "set [70, 90 :: nat]" and ?A = "insert GRAPHENE_TEMP_ACCOUNT (set [] \<union> set [])"
  let ?req = "get_required_authorities needs_account [8]"
  let ?x = "\<lparr>weight_threshold = 2, account_auths = [(9, 1)], key_auths = [(70, 1)], address_auths = []\<rparr>"
    and ?y = "\<lparr>weight_threshold = 1, account_auths = [], key_auths = [(90, 1)], address_auths = []\<rparr>"
  have r: "?req = \<lparr>ra_active = [8], ra_owner = [], ra_other = []\<rparr>"
    by (simp add: get_required_authorities_def flat_set_def needs_account_def)
  have "auth = ?x \<or> auth = ?y" if "consulted shared_active (roots shared_active shared_active ?req) auth" for auth
    using that by induction (auto simp: roots_def r shared_active_def)
  then have "searchable shared_active auth" if "consulted shared_active (roots shared_active shared_active ?req) auth" for auth
    using that by (fastforce simp: searchable_def weight_of_def shared_active_def)
  moreover have "satisfied_within ?K ?A shared_active 1 ?x"
    unfolding One_nat_def by (simp add: weight_of_def shared_active_def)
  ultimately show ?thesis
    by (intro verify_authority_complete [OF refl refl refl]) (auto simp: r shared_active_def GRAPHENE_COMMITTEE_ACCOUNT_def)
qed

text \<open>
  An address that belongs to no signature makes the search read past the end of a map, so any operation that
  requires an authority with such an address leads there before its signatures are known to be wrong.
\<close>

lemma unsigned_address_undefined:
  assumes "\<forall>k \<in> set sigs. a \<notin> set (addresses k)" and "auths op = \<lparr>ra_active = [], ra_owner = [],
      ra_other = [\<lparr>weight_threshold = 1, account_auths = [], key_auths = [], address_auths = [(a, 1)]\<rparr>]\<rparr>"
  shows "verify_authority auths addresses [op] sigs ga go n allow act own = Inl Undefined_behaviour"
proof -
  have "map_of (address_map addresses sigs) a = None" using assms(1) by (auto simp: map_of_eq_None_iff address_map_def)
  moreover have "map_of (address_map addresses []) a = None" by (simp add: address_map_def)
  ultimately show ?thesis
    using assms(2) by (cases n) (simp_all add: verify_authority_def get_required_authorities_def flat_set_def Let_def check_other_def
        check_auths_def signed_by_address_def build_addresses_def new_sign_state_def comp_def)
qed

end
