(* ===== verification/Account_Ops.thy ===== *)
theory Account_Ops
  imports Account_Names Trust_Node_Ops Authority
begin

text \<open>
  The account operations (account_evaluator.cpp, protocol/account.cpp and .hpp, special_authority.cpp,
  buyback.cpp): registering an account, updating its authorities and options, white- and blacklisting, and the
  four upgrades of a membership.

  The extensions of an operation are its optional fields; a flat_set is a list without repetition, in which only
  membership matters. The serialized size of an operation, which its data fee depends on, is a parameter.
\<close>

section \<open>Authorities and options\<close>

definition num_auths :: "authority \<Rightarrow> nat" where
  "num_auths a = (length (account_auths a) + length (key_auths a) + length (address_auths a)) mod 2 ^ 32"

definition is_impossible :: "authority \<Rightarrow> bool" where
  "is_impossible a \<longleftrightarrow> (sum_list (map snd (account_auths a)) + sum_list (map snd (key_auths a)) +
     sum_list (map snd (address_auths a))) mod 2 ^ 64 < weight_threshold a"

definition GRAPHENE_NULL_ACCOUNT :: account_id_type where "GRAPHENE_NULL_ACCOUNT = 3"

definition null_authority :: authority where
  "null_authority = \<lparr>weight_threshold = 1, account_auths = [(GRAPHENE_NULL_ACCOUNT, 1)], key_auths = [], address_auths = []\<rparr>"

definition vote_type :: "vote_id_type \<Rightarrow> nat" where
  "vote_type v = v mod 256"

fun needed_votes :: "nat \<Rightarrow> nat \<Rightarrow> vote_id_type list \<Rightarrow> nat \<times> nat" where
  "needed_votes needed_witnesses needed_committee [] = (needed_witnesses, needed_committee)"
| "needed_votes needed_witnesses needed_committee (v # vs) =
     (if vote_type v = vote_id_witness \<and> needed_witnesses \<noteq> 0 then needed_votes (needed_witnesses - 1) needed_committee vs
      else if vote_type v = vote_id_committee \<and> needed_committee \<noteq> 0 then needed_votes needed_witnesses (needed_committee - 1) vs
      else needed_votes needed_witnesses needed_committee vs)"

definition account_options_validate :: "account_options \<Rightarrow> unit result" where
  "account_options_validate o' =
     (let (needed_witnesses, needed_committee) = needed_votes (ao_num_witness o') (ao_num_committee o') (ao_votes o') in
      fc_assert (needed_witnesses = 0) (fc_assert (needed_committee = 0) (Inr ())))"

fun validate_special_authority :: "special_authority \<Rightarrow> unit result" where
  "validate_special_authority No_special_authority = Inr ()"
| "validate_special_authority (Top_holders_special_authority k n) = fc_assert (n > 0) (Inr ())"

fun evaluate_special_authority :: "database \<Rightarrow> special_authority \<Rightarrow> unit result" where
  "evaluate_special_authority db No_special_authority = Inr ()"
| "evaluate_special_authority db (Top_holders_special_authority k n) = rbind (index_get (db_assets db) k) (\<lambda>_. Inr ())"

text \<open>\<open>if( x.valid() ) f( *x )\<close>\<close>

definition when_valid :: "'a option \<Rightarrow> ('a \<Rightarrow> unit result) \<Rightarrow> unit result" where
  "when_valid x f = (case x of None \<Rightarrow> Inr () | Some v \<Rightarrow> f v)"

section \<open>Operations\<close>

record buyback_account_options =
  bo_asset_to_buy :: asset_id_type
  bo_asset_to_buy_issuer :: account_id_type
  bo_markets :: "asset_id_type list"

record account_create_operation =
  acr_fee :: asset
  acr_registrar :: account_id_type
  acr_referrer :: account_id_type
  acr_referrer_percent :: u16
  acr_name :: string
  acr_owner :: authority
  acr_active :: authority
  acr_options :: account_options
  acr_owner_special_authority :: "special_authority option"
  acr_active_special_authority :: "special_authority option"
  acr_buyback_options :: "buyback_account_options option"

record account_create_fee_parameters =
  acp_basic_fee :: "64 word"
  acp_premium_fee :: "64 word"
  acp_price_per_kbyte :: u32

record account_update_operation =
  aup_fee :: asset
  aup_account :: account_id_type
  aup_owner :: "authority option"
  aup_active :: "authority option"
  aup_new_options :: "account_options option"
  aup_owner_special_authority :: "special_authority option"
  aup_active_special_authority :: "special_authority option"

record account_whitelist_operation =
  awl_fee :: asset
  awl_authorizing_account :: account_id_type
  awl_account_to_list :: account_id_type
  awl_new_listing :: "8 word"

record account_upgrade_operation =
  aug_fee :: asset
  aug_account_to_upgrade :: account_id_type
  aug_upgrade_to_lifetime_member :: bool

record account_upgrade_fee_parameters =
  agp_membership_annual_fee :: "64 word"
  agp_membership_lifetime_fee :: "64 word"

record account_upgrade_merchant_operation =
  aum_fee :: asset
  aum_account_to_upgrade :: account_id_type
  aum_auth_referrer :: account_id_type
  aum_upgrade_to_merchant_member :: bool
  aum_extensions :: "future_extensions list"

record account_upgrade_datasource_operation =
  aud_fee :: asset
  aud_account_to_upgrade :: account_id_type
  aud_auth_referrer :: account_id_type
  aud_upgrade_to_datasource_member :: bool
  aud_extensions :: "future_extensions list"

record account_upgrade_data_transaction_member_operation =
  aut_fee :: asset
  aut_account_to_upgrade :: account_id_type
  aut_upgrade_to_data_transaction_member :: bool

definition white_listed :: "8 word" where "white_listed = 1"
definition black_listed :: "8 word" where "black_listed = 2"

definition operation_version_one :: nat where "operation_version_one = 1"

definition is_version_one :: "future_extensions list \<Rightarrow> bool" where
  "is_version_one exts = list_ex (\<lambda>e. case e of Ext_operation_version v \<Rightarrow> v = operation_version_one | _ \<Rightarrow> False) exts"

definition merchant_fee_payer :: "account_upgrade_merchant_operation \<Rightarrow> account_id_type" where
  "merchant_fee_payer op = (if is_version_one (aum_extensions op) then 0 else aum_auth_referrer op)"

definition datasource_fee_payer :: "account_upgrade_datasource_operation \<Rightarrow> account_id_type" where
  "datasource_fee_payer op = (if is_version_one (aud_extensions op) then 0 else aud_auth_referrer op)"

definition account_create_required_active :: "account_create_operation \<Rightarrow> account_id_type list" where
  "account_create_required_active op =
     (case acr_buyback_options op of None \<Rightarrow> [acr_registrar op]
      | Some b \<Rightarrow> List.insert (bo_asset_to_buy_issuer b) [acr_registrar op])"

definition is_owner_update :: "account_update_operation \<Rightarrow> bool" where
  "is_owner_update op \<longleftrightarrow> aup_owner op \<noteq> None \<or> aup_owner_special_authority op \<noteq> None"

definition account_update_required_owner :: "account_update_operation \<Rightarrow> account_id_type list" where
  "account_update_required_owner op = (if is_owner_update op then [aup_account op] else [])"

definition account_update_required_active :: "account_update_operation \<Rightarrow> account_id_type list" where
  "account_update_required_active op = (if \<not> is_owner_update op then [aup_account op] else [])"

section \<open>Validation and fees\<close>

definition authority_validate :: "authority \<Rightarrow> unit result" where
  "authority_validate a =
     fc_assert (num_auths a \<noteq> 0) (fc_assert (address_auths a = []) (fc_assert (\<not> is_impossible a) (Inr ())))"

definition account_create_validate :: "account_create_operation \<Rightarrow> unit result" where
  "account_create_validate op =
     fc_assert (amount (acr_fee op) \<ge> 0)
     (fc_assert (is_valid_name (acr_name op))
     (fc_assert (uint (acr_referrer_percent op) \<le> GRAPHENE_100_PERCENT)
     (fc_assert (num_auths (acr_owner op) \<noteq> 0)
     (fc_assert (address_auths (acr_owner op) = [])
     (fc_assert (num_auths (acr_active op) \<noteq> 0)
     (fc_assert (address_auths (acr_active op) = [])
     (fc_assert (\<not> is_impossible (acr_owner op))
     (fc_assert (\<not> is_impossible (acr_active op))
     (rbind (account_options_validate (acr_options op)) (\<lambda>_.
      rbind (when_valid (acr_owner_special_authority op) validate_special_authority) (\<lambda>_.
      rbind (when_valid (acr_active_special_authority op) validate_special_authority) (\<lambda>_.
      when_valid (acr_buyback_options op) (\<lambda>b.
        fc_assert (acr_owner_special_authority op = None)
        (fc_assert (acr_active_special_authority op = None)
        (fc_assert (acr_owner op = null_authority)
        (fc_assert (acr_active op = null_authority)
        (fc_assert (length (bo_markets b) > 0)
        (fc_assert (list_all (\<lambda>m. m \<noteq> bo_asset_to_buy b) (bo_markets b)) (Inr ())))))))))))))))))))"

definition account_create_calculate_fee ::
  "(account_create_operation \<Rightarrow> int) \<Rightarrow> account_create_fee_parameters \<Rightarrow> account_create_operation \<Rightarrow> share_type result" where
  "account_create_calculate_fee pack_size k op =
     (let core_fee_required = (if \<not> is_cheap_name (acr_name op) then acp_premium_fee k else acp_basic_fee k) in
      rbind (calculate_data_fee (pack_size op) (uint (acp_price_per_kbyte k))) (\<lambda>data_fee.
      Inr (wrap64 (uint core_fee_required + data_fee))))"

definition account_update_validate :: "account_update_operation \<Rightarrow> unit result" where
  "account_update_validate op =
     fc_assert (aup_account op \<noteq> GRAPHENE_TEMP_ACCOUNT)
     (fc_assert (amount (aup_fee op) \<ge> 0)
     (fc_assert (aup_account op \<noteq> 0)
     (fc_assert (aup_owner op \<noteq> None \<or> aup_active op \<noteq> None \<or> aup_new_options op \<noteq> None \<or>
        aup_owner_special_authority op \<noteq> None \<or> aup_active_special_authority op \<noteq> None)
     (rbind (when_valid (aup_owner op) authority_validate) (\<lambda>_.
      rbind (when_valid (aup_active op) authority_validate) (\<lambda>_.
      rbind (when_valid (aup_new_options op) account_options_validate) (\<lambda>_.
      rbind (when_valid (aup_owner_special_authority op) validate_special_authority) (\<lambda>_.
      when_valid (aup_active_special_authority op) validate_special_authority))))))))"

definition account_update_calculate_fee ::
  "safe_ops \<Rightarrow> (account_update_operation \<Rightarrow> int) \<Rightarrow> fee_parameters \<Rightarrow> account_update_operation \<Rightarrow> share_type result" where
  "account_update_calculate_fee S pack_size k op =
     (if aup_new_options op \<noteq> None
      then rbind (calculate_data_fee (pack_size op) (uint (fp_price_per_kbyte k))) (safe_add S (fp_fee k))
      else Inr (fp_fee k))"

definition account_whitelist_validate :: "account_whitelist_operation \<Rightarrow> unit result" where
  "account_whitelist_validate op = fc_assert (amount (awl_fee op) \<ge> 0) (fc_assert (awl_new_listing op < 4) (Inr ()))"

definition account_upgrade_validate :: "account_upgrade_operation \<Rightarrow> unit result" where
  "account_upgrade_validate op = fc_assert (amount (aug_fee op) \<ge> 0) (Inr ())"

definition account_upgrade_calculate_fee :: "account_upgrade_fee_parameters \<Rightarrow> account_upgrade_operation \<Rightarrow> share_type" where
  "account_upgrade_calculate_fee k op =
     (if aug_upgrade_to_lifetime_member op then sint (agp_membership_lifetime_fee k) else sint (agp_membership_annual_fee k))"

definition account_upgrade_merchant_validate :: "account_upgrade_merchant_operation \<Rightarrow> unit result" where
  "account_upgrade_merchant_validate op = fc_assert (amount (aum_fee op) \<ge> 0) (Inr ())"

definition account_upgrade_datasource_validate :: "account_upgrade_datasource_operation \<Rightarrow> unit result" where
  "account_upgrade_datasource_validate op = fc_assert (amount (aud_fee op) \<ge> 0) (Inr ())"

definition account_upgrade_data_transaction_member_validate ::
  "account_upgrade_data_transaction_member_operation \<Rightarrow> unit result" where
  "account_upgrade_data_transaction_member_validate op = fc_assert (amount (aut_fee op) \<ge> 0) (Inr ())"

section \<open>Evaluators\<close>

definition HARDFORK_453_TIME :: nat where "HARDFORK_453_TIME = 1450288800"
definition HARDFORK_538_TIME :: nat where "HARDFORK_538_TIME = 1456250400"
definition GRAPHENE_DEFAULT_MAX_BUYBACK_MARKETS :: nat where "GRAPHENE_DEFAULT_MAX_BUYBACK_MARKETS = 4"

definition is_merchant_member :: "account_object \<Rightarrow> bool" where
  "is_merchant_member a \<longleftrightarrow> ac_merchant_expiration_date a = time_point_sec_maximum"

definition is_datasource_member :: "account_object \<Rightarrow> bool" where
  "is_datasource_member a \<longleftrightarrow> ac_datasource_expiration_date a = time_point_sec_maximum"

definition is_data_transaction_member :: "account_object \<Rightarrow> bool" where
  "is_data_transaction_member a \<longleftrightarrow> ac_data_transaction_member_expiration_date a = time_point_sec_maximum"

definition verify_authority_accounts :: "database \<Rightarrow> authority \<Rightarrow> unit result" where
  "verify_authority_accounts db a =
     ensure (num_auths a \<le> cp_maximum_authority_membership (params db)) Internal_verify_auth_max_auth_exceeded
     (ensure (list_all (\<lambda>(acnt, w). index_find (db_accounts db) acnt \<noteq> None) (account_auths a))
        Internal_verify_auth_account_not_found (Inr ()))"

definition verify_account_votes :: "database \<Rightarrow> account_options \<Rightarrow> unit result" where
  "verify_account_votes db o' =
     fc_assert (ao_num_witness o' \<le> cp_maximum_witness_count (params db))
     (fc_assert (ao_num_committee o' \<le> cp_maximum_committee_count (params db))
     (fc_assert (index_find (db_accounts db) (ao_voting_account o') \<noteq> None)
     (fc_assert (list_all (\<lambda>v. vote_instance v < gp_next_available_vote_id (db_global db)) (ao_votes o')) (Inr ()))))"

text \<open>\<open>GRAPHENE_RECODE_EXC\<close>\<close>

definition recode_exc :: "chain_error \<Rightarrow> chain_error \<Rightarrow> 'a result \<Rightarrow> 'a result" where
  "recode_exc cause_type effect_type r = (case r of Inl e \<Rightarrow> Inl (if e = cause_type then effect_type else e) | Inr x \<Rightarrow> Inr x)"

definition evaluate_buyback_account_options :: "database \<Rightarrow> buyback_account_options \<Rightarrow> unit result" where
  "evaluate_buyback_account_options db bbo =
     fc_assert (head_block_time db \<ge> HARDFORK_538_TIME)
     (rbind (index_get (db_assets db) (bo_asset_to_buy bbo)) (\<lambda>a.
      ensure (at_issuer a = bo_asset_to_buy_issuer bbo) Account_create_buyback_incorrect_issuer
      (ensure (at_buyback_account a = None) Account_create_buyback_already_exists
      (ensure (length (bo_markets bbo) < GRAPHENE_DEFAULT_MAX_BUYBACK_MARKETS) Account_create_buyback_too_many_markets (Inr ())))))"

definition find_account_by_name :: "database \<Rightarrow> string \<Rightarrow> (nat \<times> account_object) option" where
  "find_account_by_name db nm = List.find (\<lambda>(i, a). ac_name a = nm) (rows (db_accounts db))"

definition account_create_do_evaluate :: "account_create_operation \<Rightarrow> fee_state \<Rightarrow> database \<Rightarrow> unit result" where
  "account_create_do_evaluate op fs db =
     rbind (index_get (db_accounts db) (fs_fee_paying_account fs)) (\<lambda>payer.
     fc_assert (is_lifetime_member payer)
     (rbind (index_get (db_accounts db) (acr_referrer op)) (\<lambda>referrer.
      fc_assert (is_member referrer (head_block_time db))
      (rbind (recode_exc Internal_verify_auth_account_not_found Account_create_auth_account_not_found
               (recode_exc Internal_verify_auth_max_auth_exceeded Account_create_max_auth_exceeded
                 (rbind (verify_authority_accounts db (acr_owner op)) (\<lambda>_. verify_authority_accounts db (acr_active op))))) (\<lambda>_.
       rbind (when_valid (acr_owner_special_authority op) (evaluate_special_authority db)) (\<lambda>_.
       rbind (when_valid (acr_active_special_authority op) (evaluate_special_authority db)) (\<lambda>_.
       rbind (when_valid (acr_buyback_options op) (evaluate_buyback_account_options db)) (\<lambda>_.
       rbind (verify_account_votes db (acr_options op)) (\<lambda>_.
       if acr_name op \<noteq> [] then fc_assert (find_account_by_name db (acr_name op) = None) (Inr ()) else Inr ())))))))))"

definition registered_referrer_percent :: "account_create_operation \<Rightarrow> database \<Rightarrow> u16" where
  "registered_referrer_percent op db =
     (let p = acr_referrer_percent op;
          has_small_percent = (head_block_time db \<le> HARDFORK_453_TIME \<and> acr_referrer op \<noteq> acr_registrar op \<and> p \<noteq> 0 \<and> p \<le> 256)
      in if has_small_percent then (let q = p * 100 in if uint q > GRAPHENE_100_PERCENT then 10000 else q) else p)"

definition new_account :: "account_create_operation \<Rightarrow> account_id_type \<Rightarrow> nat \<Rightarrow> database \<Rightarrow> account_object" where
  "new_account op lifetime_referrer stats db = \<lparr>ac_membership_expiration_date = 0, ac_merchant_expiration_date = 0,
     ac_datasource_expiration_date = 0, ac_data_transaction_member_expiration_date = 0,
     ac_registrar = acr_registrar op, ac_referrer = acr_referrer op, ac_lifetime_referrer = lifetime_referrer,
     ac_merchant_auth_referrer = 0, ac_datasource_auth_referrer = 0,
     ac_network_fee_percentage = cp_network_percent_of_fee (params db),
     ac_lifetime_referrer_fee_percentage = cp_lifetime_referrer_percent_of_fee (params db),
     ac_referrer_rewards_percentage = registered_referrer_percent op db,
     ac_name = acr_name op, ac_vm_type = [], ac_vm_version = [], ac_code = [], ac_code_version = [],
     ac_owner = acr_owner op, ac_active = acr_active op, ac_options = acr_options op, ac_statistics = stats,
     ac_whitelisting_accounts = [], ac_whitelisted_accounts = [], ac_blacklisted_accounts = [], ac_blacklisting_accounts = [],
     ac_cashback_vb = None, ac_contract_call_cashback_vb = None, ac_staking_cashback_vb = None,
     ac_owner_special_authority = (case acr_owner_special_authority op of None \<Rightarrow> No_special_authority | Some s \<Rightarrow> s),
     ac_active_special_authority = (case acr_active_special_authority op of None \<Rightarrow> No_special_authority | Some s \<Rightarrow> s),
     ac_top_n_control_flags = 0,
     ac_allowed_assets = map_option (\<lambda>b. List.insert (bo_asset_to_buy b) (bo_markets b)) (acr_buyback_options op)\<rparr>"

definition new_statistics :: "account_id_type \<Rightarrow> account_statistics_object" where
  "new_statistics i = \<lparr>as_owner = i, as_most_recent_op = 0, as_total_ops = 0, as_removed_ops = 0, as_total_core_in_orders = 0,
     as_lifetime_fees_paid = 0, as_pending_fees = 0, as_pending_vested_fees = 0\<rparr>"

text \<open>
  The registration fee doubles as accounts are registered: at every multiple of \<open>accounts_per_fee_scale\<close> the basic
  fee, a 64-bit integer, is shifted to the left. A division by zero and a shift by 64 or more are undefined.
\<close>

definition set_basic_fee :: "64 word \<Rightarrow> database \<Rightarrow> database" where
  "set_basic_fee f db = db\<lparr>db_global := (db_global db)\<lparr>gp_parameters := (gp_parameters (db_global db))\<lparr>cp_account_create_basic_fee := f\<rparr>\<rparr>\<rparr>"

definition scale_registration_fee :: "database \<Rightarrow> database result" where
  "scale_registration_fee db =
     (let n = (dg_accounts_registered_this_interval (db_dynamic db) + 1) mod 2 ^ 32;
          db1 = db\<lparr>db_dynamic := (db_dynamic db)\<lparr>dg_accounts_registered_this_interval := n\<rparr>\<rparr>;
          per = cp_accounts_per_fee_scale (params db); shifts = cp_account_fee_scale_bitshifts (params db) in
      ensure (per \<noteq> 0) Undefined_behaviour
      (if n mod per = 0 \<and> shifts \<noteq> 0
       then ensure (shifts < 64) Undefined_behaviour
         (Inr (set_basic_fee (push_bit shifts (cp_account_create_basic_fee (params db))) db1))
       else Inr db1))"

definition account_create_do_apply :: "account_create_operation \<Rightarrow> unit \<Rightarrow> database \<Rightarrow> (account_id_type \<times> database) result" where
  "account_create_do_apply op x db =
     rbind (index_get (db_accounts db) (acr_referrer op)) (\<lambda>referrer.
     rbind (create_statistics (new_statistics (next_id (db_accounts db))) db) (\<lambda>(stats, db1).
     rbind (create_account (new_account op (ac_lifetime_referrer referrer) stats db1) db1) (\<lambda>(i, db2).
     rbind (scale_registration_fee db2) (\<lambda>db3.
     rbind (if acr_owner_special_authority op \<noteq> None \<or> acr_active_special_authority op \<noteq> None
            then rbind (create_special_authority \<lparr>sa_account = i\<rparr> db3) (\<lambda>(j, d). Inr d) else Inr db3) (\<lambda>db4.
     rbind (case acr_buyback_options op of None \<Rightarrow> Inr db4
            | Some b \<Rightarrow>
                rbind (create_buyback \<lparr>bb_asset_to_buy = bo_asset_to_buy b\<rparr> db4) (\<lambda>(j, d).
                modify_asset (bo_asset_to_buy b) (\<lambda>a. Inr (a\<lparr>at_buyback_account := Some i\<rparr>)) d)) (\<lambda>db5.
     Inr (i, db5)))))))"

definition account_update_do_evaluate :: "account_update_operation \<Rightarrow> fee_state \<Rightarrow> database \<Rightarrow> unit result" where
  "account_update_do_evaluate op fs db =
     rbind (recode_exc Internal_verify_auth_account_not_found Account_update_auth_account_not_found
             (recode_exc Internal_verify_auth_max_auth_exceeded Account_update_max_auth_exceeded
               (rbind (when_valid (aup_owner op) (verify_authority_accounts db)) (\<lambda>_.
                when_valid (aup_active op) (verify_authority_accounts db))))) (\<lambda>_.
     rbind (when_valid (aup_owner_special_authority op) (evaluate_special_authority db)) (\<lambda>_.
     rbind (when_valid (aup_active_special_authority op) (evaluate_special_authority db)) (\<lambda>_.
     rbind (index_get (db_accounts db) (aup_account op)) (\<lambda>_.
     when_valid (aup_new_options op) (verify_account_votes db)))))"

definition set_authorities :: "account_update_operation \<Rightarrow> account_object \<Rightarrow> account_object" where
  "set_authorities op a =
     (let a1 = (case aup_owner op of None \<Rightarrow> a | Some au \<Rightarrow> a\<lparr>ac_owner := au, ac_top_n_control_flags := 0\<rparr>);
          a2 = (case aup_active op of None \<Rightarrow> a1 | Some au \<Rightarrow> a1\<lparr>ac_active := au, ac_top_n_control_flags := 0\<rparr>)
      in case aup_new_options op of None \<Rightarrow> a2 | Some o' \<Rightarrow> a2\<lparr>ac_options := o'\<rparr>)"

definition set_special_authorities :: "account_update_operation \<Rightarrow> account_object \<Rightarrow> account_object" where
  "set_special_authorities op a =
     (let a1 = (case aup_owner_special_authority op of None \<Rightarrow> a
          | Some s \<Rightarrow> a\<lparr>ac_owner_special_authority := s, ac_top_n_control_flags := 0\<rparr>)
      in case aup_active_special_authority op of None \<Rightarrow> a1
          | Some s \<Rightarrow> a1\<lparr>ac_active_special_authority := s, ac_top_n_control_flags := 0\<rparr>)"

definition find_special_authority :: "database \<Rightarrow> account_id_type \<Rightarrow> (nat \<times> special_authority_object) option" where
  "find_special_authority db acct = List.find (\<lambda>(i, s). sa_account s = acct) (rows (db_special_authorities db))"

definition account_update_do_apply :: "account_update_operation \<Rightarrow> unit \<Rightarrow> database \<Rightarrow> database result" where
  "account_update_do_apply op x db =
     rbind (index_get (db_accounts db) (aup_account op)) (\<lambda>a.
     let a1 = set_authorities op a; a2 = set_special_authorities op a1;
         sa_before = has_special_authority a1; sa_after = has_special_authority a2 in
     rbind (modify_account (aup_account op) (\<lambda>a. Inr (set_special_authorities op (set_authorities op a))) db) (\<lambda>db1.
     if sa_before \<and> \<not> sa_after
     then (case find_special_authority db1 (aup_account op) of None \<Rightarrow> Inl Undefined_behaviour
           | Some (j, s) \<Rightarrow> Inr (remove_special_authority j db1))
     else if \<not> sa_before \<and> sa_after
     then rbind (create_special_authority \<lparr>sa_account = aup_account op\<rparr> db1) (\<lambda>(j, d). Inr d)
     else Inr db1))"

definition account_whitelist_do_evaluate :: "account_whitelist_operation \<Rightarrow> fee_state \<Rightarrow> database \<Rightarrow> unit result" where
  "account_whitelist_do_evaluate op fs db =
     rbind (index_get (db_accounts db) (awl_account_to_list op)) (\<lambda>_.
     if \<not> cp_allow_non_member_whitelists (params db)
     then rbind (index_get (db_accounts db) (awl_authorizing_account op)) (\<lambda>a. fc_assert (is_lifetime_member a) (Inr ()))
     else Inr ())"

definition set_member :: "bool \<Rightarrow> nat \<Rightarrow> nat list \<Rightarrow> nat list" where
  "set_member b i xs = (if b then List.insert i xs else removeAll i xs)"

definition account_whitelist_do_apply :: "account_whitelist_operation \<Rightarrow> unit \<Rightarrow> database \<Rightarrow> database result" where
  "account_whitelist_do_apply op x db =
     (let white = and (awl_new_listing op) white_listed \<noteq> 0; black = and (awl_new_listing op) black_listed \<noteq> 0 in
      rbind (modify_account (awl_account_to_list op) (\<lambda>a. Inr
        (a\<lparr>ac_whitelisting_accounts := set_member white (awl_authorizing_account op) (ac_whitelisting_accounts a),
           ac_blacklisting_accounts := set_member black (awl_authorizing_account op) (ac_blacklisting_accounts a)\<rparr>)) db) (\<lambda>db1.
      modify_account (awl_authorizing_account op) (\<lambda>a. Inr
        (a\<lparr>ac_whitelisted_accounts := set_member white (awl_account_to_list op) (ac_whitelisted_accounts a),
           ac_blacklisted_accounts := set_member black (awl_account_to_list op) (ac_blacklisted_accounts a)\<rparr>)) db1))"

definition account_upgrade_do_evaluate :: "account_upgrade_operation \<Rightarrow> fee_state \<Rightarrow> database \<Rightarrow> unit result" where
  "account_upgrade_do_evaluate op fs db =
     rbind (index_get (db_accounts db) (aug_account_to_upgrade op)) (\<lambda>a. fc_assert (\<not> is_lifetime_member a) (Inr ()))"

text \<open>Each upgrade pays out the pending fees of the account, then changes it.\<close>

definition upgrade_account :: "safe_ops \<Rightarrow> account_id_type \<Rightarrow> (account_object \<Rightarrow> account_object) \<Rightarrow> database \<Rightarrow> database result" where
  "upgrade_account S acct upd db =
     rbind (index_get (db_accounts db) acct) (\<lambda>a.
     rbind (process_fees S (ac_statistics a) acct db) (\<lambda>db1. modify_account acct (\<lambda>a. Inr (upd a)) db1))"

definition account_upgrade_do_apply :: "safe_ops \<Rightarrow> account_upgrade_operation \<Rightarrow> unit \<Rightarrow> database \<Rightarrow> database result" where
  "account_upgrade_do_apply S op x db =
     (let acct = aug_account_to_upgrade op in
      if aug_upgrade_to_lifetime_member op
      then upgrade_account S acct (\<lambda>a. a\<lparr>ac_membership_expiration_date := time_point_sec_maximum,
             ac_referrer := acct, ac_registrar := acct, ac_lifetime_referrer := acct,
             ac_lifetime_referrer_fee_percentage := 10000 - ac_network_fee_percentage a\<rparr>) db
      else modify_account acct (\<lambda>a. Inr a) db)"

definition account_upgrade_merchant_do_evaluate ::
  "bool \<Rightarrow> account_upgrade_merchant_operation \<Rightarrow> fee_state \<Rightarrow> database \<Rightarrow> unit result" where
  "account_upgrade_merchant_do_evaluate is_proposed_trx op fs db =
     (let v1 = is_version_one (aum_extensions op) in
      fc_assert (v1 \<longrightarrow> is_proposed_trx)
      (rbind (index_get (db_accounts db) (aum_account_to_upgrade op)) (\<lambda>a.
       rbind (index_get (db_accounts db) (aum_auth_referrer op)) (\<lambda>r.
       fc_assert (\<not> v1 \<longrightarrow> is_lifetime_member r)
       (if aum_upgrade_to_merchant_member op then fc_assert (\<not> is_merchant_member a) (Inr ())
        else fc_assert (is_merchant_member a) (Inr ()))))))"

definition account_upgrade_merchant_do_apply ::
  "safe_ops \<Rightarrow> account_upgrade_merchant_operation \<Rightarrow> unit \<Rightarrow> database \<Rightarrow> database result" where
  "account_upgrade_merchant_do_apply S op x db =
     upgrade_account S (aum_account_to_upgrade op) (\<lambda>a. a\<lparr>ac_merchant_auth_referrer := aum_auth_referrer op,
       ac_merchant_expiration_date := (if aum_upgrade_to_merchant_member op then time_point_sec_maximum else 0)\<rparr>) db"

definition account_upgrade_data_transaction_member_do_evaluate ::
  "bool \<Rightarrow> account_upgrade_data_transaction_member_operation \<Rightarrow> fee_state \<Rightarrow> database \<Rightarrow> unit result" where
  "account_upgrade_data_transaction_member_do_evaluate is_proposed_trx op fs db =
     fc_assert is_proposed_trx
     (rbind (index_get (db_accounts db) (aut_account_to_upgrade op)) (\<lambda>a.
      if aut_upgrade_to_data_transaction_member op then fc_assert (\<not> is_data_transaction_member a) (Inr ()) else Inr ()))"

definition account_upgrade_data_transaction_member_do_apply ::
  "safe_ops \<Rightarrow> account_upgrade_data_transaction_member_operation \<Rightarrow> unit \<Rightarrow> database \<Rightarrow> database result" where
  "account_upgrade_data_transaction_member_do_apply S op x db =
     (let acct = aut_account_to_upgrade op in
      if aut_upgrade_to_data_transaction_member op
      then upgrade_account S acct (\<lambda>a. a\<lparr>ac_data_transaction_member_expiration_date := time_point_sec_maximum\<rparr>) db
      else modify_account acct (\<lambda>a. Inr a) db)"

definition account_upgrade_datasource_do_evaluate ::
  "bool \<Rightarrow> account_upgrade_datasource_operation \<Rightarrow> fee_state \<Rightarrow> database \<Rightarrow> unit result" where
  "account_upgrade_datasource_do_evaluate is_proposed_trx op fs db =
     (let v1 = is_version_one (aud_extensions op) in
      fc_assert (v1 \<longrightarrow> is_proposed_trx)
      (rbind (index_get (db_accounts db) (aud_account_to_upgrade op)) (\<lambda>a.
       rbind (index_get (db_accounts db) (aud_auth_referrer op)) (\<lambda>r.
       fc_assert (\<not> v1 \<longrightarrow> is_lifetime_member r)
       (fc_assert (is_merchant_member a)
       (if aud_upgrade_to_datasource_member op then fc_assert (\<not> is_datasource_member a) (Inr ())
        else fc_assert (is_datasource_member a) (Inr ())))))))"

definition account_upgrade_datasource_do_apply ::
  "safe_ops \<Rightarrow> account_upgrade_datasource_operation \<Rightarrow> unit \<Rightarrow> database \<Rightarrow> database result" where
  "account_upgrade_datasource_do_apply S op x db =
     upgrade_account S (aud_account_to_upgrade op) (\<lambda>a. a\<lparr>ac_datasource_auth_referrer := aud_auth_referrer op,
       ac_datasource_expiration_date := (if aud_upgrade_to_datasource_member op then time_point_sec_maximum else 0)\<rparr>) db"

definition account_create_evaluator :: "safe_ops \<Rightarrow> transaction_evaluation_state \<Rightarrow> share_type result \<Rightarrow>
    account_create_operation \<Rightarrow> database \<Rightarrow> database result" where
  "account_create_evaluator S T required op =
     start_evaluate S T required (pay_fee S T) (acr_registrar op) (acr_fee op) (account_create_do_evaluate op) (\<lambda>x db. rbind (account_create_do_apply op x db) (\<lambda>(i, d). Inr d))"

definition account_update_evaluator :: "safe_ops \<Rightarrow> transaction_evaluation_state \<Rightarrow> share_type result \<Rightarrow>
    account_update_operation \<Rightarrow> database \<Rightarrow> database result" where
  "account_update_evaluator S T required op =
     start_evaluate S T required (pay_fee S T) (aup_account op) (aup_fee op) (account_update_do_evaluate op) (account_update_do_apply op)"

definition account_whitelist_evaluator :: "safe_ops \<Rightarrow> transaction_evaluation_state \<Rightarrow> share_type result \<Rightarrow>
    account_whitelist_operation \<Rightarrow> database \<Rightarrow> database result" where
  "account_whitelist_evaluator S T required op =
     start_evaluate S T required (pay_fee S T) (awl_authorizing_account op) (awl_fee op) (account_whitelist_do_evaluate op) (account_whitelist_do_apply op)"

definition account_upgrade_evaluator :: "safe_ops \<Rightarrow> transaction_evaluation_state \<Rightarrow> share_type result \<Rightarrow>
    account_upgrade_operation \<Rightarrow> database \<Rightarrow> database result" where
  "account_upgrade_evaluator S T required op =
     start_evaluate S T required (pay_fee S T) (aug_account_to_upgrade op) (aug_fee op) (account_upgrade_do_evaluate op) (account_upgrade_do_apply S op)"

definition account_upgrade_merchant_evaluator :: "safe_ops \<Rightarrow> transaction_evaluation_state \<Rightarrow> bool \<Rightarrow> share_type result \<Rightarrow>
    account_upgrade_merchant_operation \<Rightarrow> database \<Rightarrow> database result" where
  "account_upgrade_merchant_evaluator S T is_proposed_trx required op =
     start_evaluate S T required (pay_fee S T) (merchant_fee_payer op) (aum_fee op) (account_upgrade_merchant_do_evaluate is_proposed_trx op) (account_upgrade_merchant_do_apply S op)"

definition account_upgrade_datasource_evaluator :: "safe_ops \<Rightarrow> transaction_evaluation_state \<Rightarrow> bool \<Rightarrow> share_type result \<Rightarrow>
    account_upgrade_datasource_operation \<Rightarrow> database \<Rightarrow> database result" where
  "account_upgrade_datasource_evaluator S T is_proposed_trx required op =
     start_evaluate S T required (pay_fee S T) (datasource_fee_payer op) (aud_fee op) (account_upgrade_datasource_do_evaluate is_proposed_trx op) (account_upgrade_datasource_do_apply S op)"

definition account_upgrade_data_transaction_member_evaluator :: "safe_ops \<Rightarrow> transaction_evaluation_state \<Rightarrow> bool \<Rightarrow> share_type result \<Rightarrow>
    account_upgrade_data_transaction_member_operation \<Rightarrow> database \<Rightarrow> database result" where
  "account_upgrade_data_transaction_member_evaluator S T is_proposed_trx required op =
     start_evaluate S T required (pay_fee S T) 0 (aut_fee op) (account_upgrade_data_transaction_member_do_evaluate is_proposed_trx op) (account_upgrade_data_transaction_member_do_apply S op)"

text \<open>Chain maintenance takes the scaling of the interval off again, then installs pending parameters (db_maint.cpp).\<close>

definition remove_fee_scaling :: "database \<Rightarrow> database result" where
  "remove_fee_scaling db =
     (let per = cp_accounts_per_fee_scale (params db) in
      ensure (per \<noteq> 0) Undefined_behaviour
      (let shift = cp_account_fee_scale_bitshifts (params db) * (dg_accounts_registered_this_interval (db_dynamic db) div per) mod 2 ^ 32 in
       ensure (shift < 64) Undefined_behaviour
       (let db1 = set_basic_fee (drop_bit shift (cp_account_create_basic_fee (params db))) db; g = db_global db1 in
        Inr (case gp_pending_parameters g of None \<Rightarrow> db1
             | Some p \<Rightarrow> db1\<lparr>db_global := g\<lparr>gp_parameters := p, gp_pending_parameters := None\<rparr>\<rparr>))))"

section \<open>What paying out fees leaves alone\<close>

text \<open>
  Paying out the fees of an account touches accounts in their referrer and cashback balance only, and besides
  accounts the statistics, dynamic asset data and vesting balances.
\<close>

definition account_rest :: "account_object \<Rightarrow> account_object" where
  "account_rest a = a\<lparr>ac_referrer := 0, ac_cashback_vb := None\<rparr>"

definition fee_payout :: "database \<Rightarrow> database \<Rightarrow> bool" where
  "fee_payout db db' \<longleftrightarrow>
     db' = db\<lparr>db_accounts := db_accounts db', db_statistics := db_statistics db', db_dynamic_data := db_dynamic_data db',
       db_vesting := db_vesting db'\<rparr> \<and>
     (\<forall>i. map_option account_rest (index_find (db_accounts db') i) = map_option account_rest (index_find (db_accounts db) i))"

lemma fee_payout_iff: "fee_payout db db' \<longleftrightarrow>
    (\<exists>a s d v. db' = db\<lparr>db_accounts := a, db_statistics := s, db_dynamic_data := d, db_vesting := v\<rparr>) \<and>
    (\<forall>i. map_option account_rest (index_find (db_accounts db') i) = map_option account_rest (index_find (db_accounts db) i))"
  by (auto simp: fee_payout_def)

lemma fee_payout_trans:
  assumes "fee_payout a b" "fee_payout b c"
  shows "fee_payout a c"
proof -
  from assms obtain x s d v x' s' d' v' where
    b: "b = a\<lparr>db_accounts := x, db_statistics := s, db_dynamic_data := d, db_vesting := v\<rparr>" and
    c: "c = b\<lparr>db_accounts := x', db_statistics := s', db_dynamic_data := d', db_vesting := v'\<rparr>"
    unfolding fee_payout_iff by blast
  have "c = a\<lparr>db_accounts := x', db_statistics := s', db_dynamic_data := d', db_vesting := v'\<rparr>"
    unfolding c b by simp
  moreover have "\<forall>i. map_option account_rest (index_find (db_accounts c) i) = map_option account_rest (index_find (db_accounts a) i)"
    using assms unfolding fee_payout_def by (metis (no_types))
  ultimately show ?thesis unfolding fee_payout_iff by blast
qed

lemma fee_payout_upd:
  "fee_payout db db" "fee_payout db (db\<lparr>db_dynamic_data := d\<rparr>)" "fee_payout db (db\<lparr>db_vesting := v\<rparr>)"
  "fee_payout db (db\<lparr>db_statistics := s\<rparr>)"
  by (cases db; simp add: fee_payout_def)+

lemma fee_payout_account:
  assumes m: "modify_account i (\<lambda>a. Inr (f a)) db = Inr db'" and f: "\<And>a. account_rest (f a) = account_rest a"
  shows "fee_payout db db'"
proof -
  from m obtain t where t: "index_modify account_uk i (\<lambda>a. Inr (f a)) (db_accounts db) = Inr t" and db': "db' = db\<lparr>db_accounts := t\<rparr>"
    by (auto simp: modify_account_def result_simps)
  obtain x y where "index_find (db_accounts db) i = Some x" "Inr (f x) = (Inr y :: account_object result)"
    "index_find t = (index_find (db_accounts db))(i \<mapsto> y)"
    using t by (rule index_modify_find)
  then have "\<forall>j. map_option account_rest (index_find t j) = map_option account_rest (index_find (db_accounts db) j)"
    using f by auto
  then show ?thesis by (cases db) (simp add: fee_payout_def db')
qed

lemma fee_payout_fields:
  assumes "fee_payout db db'"
  shows "db_balances db' = db_balances db" and "db_assets db' = db_assets db" and "db_dynamic db' = db_dynamic db"
    and "db_global db' = db_global db" and "db_special_authorities db' = db_special_authorities db"
    and "db_buybacks db' = db_buybacks db"
proof -
  obtain a s d v where "db' = db\<lparr>db_accounts := a, db_statistics := s, db_dynamic_data := d, db_vesting := v\<rparr>"
    using assms unfolding fee_payout_iff by blast
  then show "db_balances db' = db_balances db" and "db_assets db' = db_assets db" and "db_dynamic db' = db_dynamic db"
    and "db_global db' = db_global db" and "db_special_authorities db' = db_special_authorities db"
    and "db_buybacks db' = db_buybacks db" by simp_all
qed

lemma burn_core_payout: "burn_core S amt db = Inr db' \<Longrightarrow> fee_payout db db'"
  by (auto simp: burn_core_def modify_dynamic_data_def result_simps fee_payout_upd)

lemma deposit_cashback_payout:
  assumes "deposit_cashback S acct amt rv db = Inr db'"
  shows "fee_payout db db'"
proof (cases "amt = 0 \<or> is_blockchain_account acct")
  case True
  with assms show ?thesis by (auto simp: deposit_cashback_def result_simps fee_payout_upd intro: burn_core_payout split: if_splits)
next
  case False
  with assms obtain r db1 and a :: account_object where
    l: "deposit_lazy_vesting S (ac_cashback_vb a) amt (cp_cashback_vesting_period_seconds (params db)) acct rv db = Inr (r, db1)"
    and s: "set_account_vb set_cashback_vb acct (r, db1) = Inr db'"
    by (auto simp: deposit_cashback_def rbind_Inr)
  have "fee_payout db db1" by (subst deposit_lazy_vesting_frame [OF l]) (rule fee_payout_upd)
  moreover have "fee_payout db1 db'"
    using s by (auto simp: set_account_vb_def fee_payout_upd account_rest_def set_cashback_vb_def intro: fee_payout_account split: option.splits)
  ultimately show ?thesis by (rule fee_payout_trans)
qed

lemma pay_out_fees_payout:
  assumes "pay_out_fees S acct tot rv db = Inr db'"
  shows "fee_payout db db'"
proof -
  let ?net = "\<lambda>a d. rbind (safe_add S (dd_accumulated_fees d) (cut_fee tot (ac_network_fee_percentage a))) (\<lambda>v. Inr (d\<lparr>dd_accumulated_fees := v\<rparr>))"
  from assms obtain r db1 db2 db3 db4 l1 l2 l3 c1 c2 c3 and a :: account_object where
    ref: "(if is_basic_account r (head_block_time db)
           then modify_account acct (\<lambda>a. Inr (a\<lparr>ac_referrer := ac_lifetime_referrer a\<rparr>)) db else Inr db) = Inr db1"
    and net: "modify_dynamic_data (if head_block_time db1 > HARDFORK_1008_TIME then 1 else 0) (?net a) db1 = Inr db2"
    and d: "deposit_cashback S l1 c1 rv db2 = Inr db3" "deposit_cashback S l2 c2 rv db3 = Inr db4" "deposit_cashback S l3 c3 rv db4 = Inr db'"
    by (auto simp: pay_out_fees_def Let_def rbind_Inr simp del: if_split)
  have "fee_payout db db1"
    using ref by (auto simp: fee_payout_upd account_rest_def intro: fee_payout_account split: if_splits)
  moreover have "fee_payout db1 db2" using net by (auto simp: modify_dynamic_data_def result_simps fee_payout_upd simp del: if_split)
  moreover note d [THEN deposit_cashback_payout]
  ultimately show ?thesis by (blast intro: fee_payout_trans)
qed

lemma process_fees_payout:
  assumes "process_fees S stats acct db = Inr db'"
  shows "fee_payout db db'"
proof -
  have st: "modify_statistics i m d = Inr d' \<Longrightarrow> fee_payout d d'" for i m d d'
    by (auto simp: modify_statistics_def result_simps fee_payout_upd)
  from assms show ?thesis
    by (auto simp: process_fees_def rbind_Inr fee_payout_upd split: if_splits dest!: pay_out_fees_payout st intro: fee_payout_trans)
qed

section \<open>Conservation\<close>

lemma modify_account_conserves:
  assumes m: "modify_account i m db = Inr db'" and ok: "db_ok db" "balances_ok db"
  shows "conserves db db'"
proof -
  obtain x y where db': "db' = db\<lparr>db_accounts := db_accounts db'\<rparr>" and e: "db_ok db'" "surplus db' = surplus db"
    using m ok(1) by (rule modify_account_effect) (rule that)
  have "db_balances db' = db_balances db" "db_dynamic db' = db_dynamic db" by (subst db', simp)+
  with e ok(2) show ?thesis by (intro conserves_frame)
qed

lemma create_statistics_conserves:
  assumes c: "create_statistics (new_statistics a) db = Inr (i, db')" and ok: "db_ok db" "balances_ok db"
  shows "conserves db db'"
proof -
  note e = create_statistics_effect [OF c ok(1)]
  have "db_balances db' = db_balances db" "db_dynamic db' = db_dynamic db" by (subst e(1), simp)+
  moreover have "surplus db' = surplus db" using e(5) by (auto simp: fun_eq_iff pending_def new_statistics_def)
  ultimately show ?thesis using e(2) ok(2) by (intro conserves_frame)
qed

lemma create_account_conserves:
  assumes c: "create_account a db = Inr (i, db')" and ok: "db_ok db" "balances_ok db"
  shows "conserves db db'"
proof -
  note e = create_account_effect [OF c ok(1)]
  have "db_balances db' = db_balances db" "db_dynamic db' = db_dynamic db" by (subst e(1), simp)+
  with e ok(2) show ?thesis by (intro conserves_frame)
qed

lemma special_authority_conserves:
  assumes c: "create_special_authority v db = Inr (i, db') \<or> db' = remove_special_authority j db" and ok: "db_ok db" "balances_ok db"
  shows "conserves db db'"
proof -
  note e = special_authority_effect [OF c ok(1)]
  have "db_balances db' = db_balances db" "db_dynamic db' = db_dynamic db" by (subst e(3), simp)+
  with e ok(2) show ?thesis by (intro conserves_frame)
qed

lemma create_buyback_conserves:
  assumes c: "create_buyback v db = Inr (i, db')" and ok: "db_ok db" "balances_ok db"
  shows "conserves db db'"
proof -
  note e = create_buyback_effect [OF c ok(1)]
  have "db_balances db' = db_balances db" "db_dynamic db' = db_dynamic db" by (subst e(3), simp)+
  with e ok(2) show ?thesis by (intro conserves_frame)
qed

lemma set_buyback_conserves:
  assumes m: "modify_asset k (\<lambda>a. Inr (a\<lparr>at_buyback_account := b\<rparr>)) db = Inr db'" and ok: "db_ok db" "balances_ok db"
  shows "conserves db db'"
proof -
  obtain x y where db': "db' = db\<lparr>db_assets := db_assets db'\<rparr>" and e: "db_ok db'" "surplus db' = surplus db"
    using m ok(1) by (rule modify_asset_effect) (auto intro: that)
  have "db_balances db' = db_balances db" "db_dynamic db' = db_dynamic db" by (subst db', simp)+
  with e ok(2) show ?thesis by (intro conserves_frame)
qed

text \<open>Registering an account changes the counter of the interval and, at most, the basic fee.\<close>

definition count_registration :: "database \<Rightarrow> database" where
  "count_registration db = db\<lparr>db_dynamic := (db_dynamic db)\<lparr>dg_accounts_registered_this_interval :=
     (dg_accounts_registered_this_interval (db_dynamic db) + 1) mod 2 ^ 32\<rparr>\<rparr>"

lemma scale_registration_fee_Inr:
  assumes "scale_registration_fee db = Inr db'"
  shows "db' = set_basic_fee (if dg_accounts_registered_this_interval (db_dynamic db') mod cp_accounts_per_fee_scale (params db) = 0
      then push_bit (cp_account_fee_scale_bitshifts (params db)) (cp_account_create_basic_fee (params db))
      else cp_account_create_basic_fee (params db)) (count_registration db)"
    and "cp_accounts_per_fee_scale (params db) \<noteq> 0"
proof -
  have "set_basic_fee (cp_account_create_basic_fee (params db)) (count_registration db) = count_registration db"
    by (simp add: set_basic_fee_def count_registration_def params_def)
  then show "db' = set_basic_fee (if dg_accounts_registered_this_interval (db_dynamic db') mod cp_accounts_per_fee_scale (params db) = 0
      then push_bit (cp_account_fee_scale_bitshifts (params db)) (cp_account_create_basic_fee (params db))
      else cp_account_create_basic_fee (params db)) (count_registration db)"
    using assms by (auto simp: scale_registration_fee_def Let_def ensure_Inr set_basic_fee_def count_registration_def split: if_splits)
  show "cp_accounts_per_fee_scale (params db) \<noteq> 0"
    using assms by (auto simp: scale_registration_fee_def Let_def ensure_Inr)
qed

lemma scale_registration_fee_conserves:
  assumes r: "scale_registration_fee db = Inr db'" and ok: "db_ok db" "balances_ok db"
  shows "conserves db db'"
proof -
  let ?d = "(db_dynamic db)\<lparr>dg_accounts_registered_this_interval := (dg_accounts_registered_this_interval (db_dynamic db) + 1) mod 2 ^ 32\<rparr>"
  obtain g where db': "db' = db\<lparr>db_dynamic := ?d, db_global := g\<rparr>"
    using scale_registration_fee_Inr(1) [OF r] by (auto simp: set_basic_fee_def count_registration_def)
  let ?db1 = "db\<lparr>db_dynamic := ?d\<rparr>"
  have "dg_time ?d = dg_time (db_dynamic db)" by simp
  note e = dynamic_update_effect [OF this]
  have "surplus ?db1 = surplus db" using e(4) by (auto simp: fun_eq_iff)
  then have "conserves db ?db1" using ok e(1,2) by (simp add: conserves_def balances_ok_def)
  moreover from this have "conserves ?db1 db'" unfolding db' by (intro global_conserves) (simp_all add: conserves_def)
  ultimately show ?thesis by (rule conserves_trans)
qed

text \<open>The application of an account creation, step by step.\<close>

lemma account_create_steps:
  assumes "account_create_do_apply op x db = Inr (i, db')"
  obtains st db1 db2 db3 db4 and r :: account_object where
    "index_find (db_accounts db) (acr_referrer op) = Some r"
    and "create_statistics (new_statistics (next_id (db_accounts db))) db = Inr (st, db1)"
    and "create_account (new_account op (ac_lifetime_referrer r) st db1) db1 = Inr (i, db2)"
    and "scale_registration_fee db2 = Inr db3"
    and "if acr_owner_special_authority op \<noteq> None \<or> acr_active_special_authority op \<noteq> None
      then \<exists>j. create_special_authority \<lparr>sa_account = i\<rparr> db3 = Inr (j, db4) else db4 = db3"
    and "case acr_buyback_options op of None \<Rightarrow> db' = db4
      | Some b \<Rightarrow> \<exists>j d. create_buyback \<lparr>bb_asset_to_buy = bo_asset_to_buy b\<rparr> db4 = Inr (j, d) \<and>
          modify_asset (bo_asset_to_buy b) (\<lambda>a. Inr (a\<lparr>at_buyback_account := Some i\<rparr>)) d = Inr db'"
proof -
  from assms obtain st db1 db2 db3 db4 and r :: account_object where
    d: "index_find (db_accounts db) (acr_referrer op) = Some r" "create_statistics (new_statistics (next_id (db_accounts db))) db = Inr (st, db1)"
      "create_account (new_account op (ac_lifetime_referrer r) st db1) db1 = Inr (i, db2)" "scale_registration_fee db2 = Inr db3"
    and d4: "(if acr_owner_special_authority op \<noteq> None \<or> acr_active_special_authority op \<noteq> None
        then rbind (create_special_authority \<lparr>sa_account = i\<rparr> db3) (\<lambda>(j, d). Inr d) else Inr db3) = Inr db4"
    and d5: "(case acr_buyback_options op of None \<Rightarrow> Inr db4
        | Some b \<Rightarrow> rbind (create_buyback \<lparr>bb_asset_to_buy = bo_asset_to_buy b\<rparr> db4) (\<lambda>(j, d).
            modify_asset (bo_asset_to_buy b) (\<lambda>a. Inr (a\<lparr>at_buyback_account := Some i\<rparr>)) d)) = Inr db'"
    by (auto simp: account_create_do_apply_def rbind_Inr index_get_Inr simp del: if_split)
  show ?thesis
    by (rule that [OF d]) (use d4 d5 in \<open>auto simp: rbind_Inr split: if_splits option.splits\<close>)
qed

lemma create_special_conserves:
  assumes "if c then \<exists>j. create_special_authority v db = Inr (j, db') else db' = db" and "db_ok db" "balances_ok db"
  shows "conserves db db'"
proof (cases c)
  case True
  with assms obtain j where "create_special_authority v db = Inr (j, db')" by auto
  with assms(2,3) show ?thesis by (intro special_authority_conserves) auto
qed (use assms in \<open>simp add: conserves_refl\<close>)

context checked_int64
begin

lemma buyback_step_conserves:
  assumes d: "case bb of None \<Rightarrow> db' = db
      | Some b \<Rightarrow> \<exists>j d. create_buyback \<lparr>bb_asset_to_buy = bo_asset_to_buy b\<rparr> db = Inr (j, d) \<and>
          modify_asset (bo_asset_to_buy b) (\<lambda>a. Inr (a\<lparr>at_buyback_account := Some i\<rparr>)) d = Inr db'"
    and ok: "db_ok db" "balances_ok db"
  shows "conserves db db'"
proof (cases bb)
  case None
  with d ok show ?thesis by (simp add: conserves_refl)
next
  case (Some b)
  with d obtain j d where b: "create_buyback \<lparr>bb_asset_to_buy = bo_asset_to_buy b\<rparr> db = Inr (j, d)"
    and m: "modify_asset (bo_asset_to_buy b) (\<lambda>a. Inr (a\<lparr>at_buyback_account := Some i\<rparr>)) d = Inr db'" by auto
  show ?thesis by (rule conserves_step [OF create_buyback_conserves [OF b ok] set_buyback_conserves [OF m]])
qed

lemma account_create_do_apply_conserves:
  assumes a: "account_create_do_apply op x db = Inr (i, db')" and ok: "db_ok db" "balances_ok db"
  shows "conserves db db'"
proof -
  obtain st db1 db2 db3 db4 and r :: account_object where "index_find (db_accounts db) (acr_referrer op) = Some r"
    and d1: "create_statistics (new_statistics (next_id (db_accounts db))) db = Inr (st, db1)"
    and d2: "create_account (new_account op (ac_lifetime_referrer r) st db1) db1 = Inr (i, db2)"
    and d3: "scale_registration_fee db2 = Inr db3"
    and d4: "if acr_owner_special_authority op \<noteq> None \<or> acr_active_special_authority op \<noteq> None
      then \<exists>j. create_special_authority \<lparr>sa_account = i\<rparr> db3 = Inr (j, db4) else db4 = db3"
    and d5: "case acr_buyback_options op of None \<Rightarrow> db' = db4
      | Some b \<Rightarrow> \<exists>j d. create_buyback \<lparr>bb_asset_to_buy = bo_asset_to_buy b\<rparr> db4 = Inr (j, d) \<and>
          modify_asset (bo_asset_to_buy b) (\<lambda>a. Inr (a\<lparr>at_buyback_account := Some i\<rparr>)) d = Inr db'"
    using a by (rule account_create_steps) (rule that)
  show ?thesis
    by (rule conserves_step [OF conserves_step [OF conserves_step [OF conserves_step [OF create_statistics_conserves [OF d1 ok]
            create_account_conserves [OF d2]] scale_registration_fee_conserves [OF d3]]
            create_special_conserves [OF d4]] buyback_step_conserves [OF d5]])
qed

lemma account_update_do_apply_conserves:
  assumes a: "account_update_do_apply op x db = Inr db'" and ok: "db_ok db" "balances_ok db"
  shows "conserves db db'"
proof -
  from a obtain db1 j v k where d1: "modify_account (aup_account op) (\<lambda>a. Inr (set_special_authorities op (set_authorities op a))) db = Inr db1"
    and d2: "db' = db1 \<or> create_special_authority v db1 = Inr (j, db') \<or> db' = remove_special_authority k db1"
    by (auto simp: account_update_do_apply_def Let_def rbind_Inr split: if_splits option.splits)
  show ?thesis
    by (rule conserves_step [OF modify_account_conserves [OF d1 ok]])
       (use d2 special_authority_conserves conserves_refl in blast)
qed

lemma account_whitelist_do_apply_conserves:
  assumes a: "account_whitelist_do_apply op x db = Inr db'" and ok: "db_ok db" "balances_ok db"
  shows "conserves db db'"
  using a unfolding account_whitelist_do_apply_def Let_def rbind_Inr
  by (auto intro: conserves_step [OF modify_account_conserves [OF _ ok] modify_account_conserves])

lemma process_fees_conserves_all:
  assumes p: "process_fees S stats acct db = Inr db'" and ok: "db_ok db" "balances_ok db"
  shows "conserves db db'"
  using process_fees_surplus [OF p ok(1)] fee_payout_fields(1,3) [OF process_fees_payout [OF p]] ok(2)
  by (intro conserves_frame) auto

lemma upgrade_account_conserves:
  assumes a: "upgrade_account S acct f db = Inr db'" and ok: "db_ok db" "balances_ok db"
  shows "conserves db db'"
  using a unfolding upgrade_account_def rbind_Inr
  by (auto intro: conserves_step [OF process_fees_conserves_all [OF _ ok] modify_account_conserves])

lemma upgrades_conserve:
  "account_upgrade_do_apply S op1 x db = Inr db' \<Longrightarrow> db_ok db \<Longrightarrow> balances_ok db \<Longrightarrow> conserves db db'"
  "account_upgrade_merchant_do_apply S op2 x db = Inr db' \<Longrightarrow> db_ok db \<Longrightarrow> balances_ok db \<Longrightarrow> conserves db db'"
  "account_upgrade_datasource_do_apply S op3 x db = Inr db' \<Longrightarrow> db_ok db \<Longrightarrow> balances_ok db \<Longrightarrow> conserves db db'"
  "account_upgrade_data_transaction_member_do_apply S op4 x db = Inr db' \<Longrightarrow> db_ok db \<Longrightarrow> balances_ok db \<Longrightarrow> conserves db db'"
  by (auto simp: account_upgrade_do_apply_def account_upgrade_merchant_do_apply_def account_upgrade_datasource_do_apply_def
      account_upgrade_data_transaction_member_do_apply_def Let_def
      intro: upgrade_account_conserves modify_account_conserves split: if_splits)

end

end
