(* ===== verification/Account_Registry.thy ===== *)
theory Account_Registry
  imports Account_Ops
begin

text \<open>
  What the account operations keep: the invariant \<open>registry_ok\<close> of the tables of special authorities, lists and
  buybacks, proved for every evaluator of \<open>Account_Ops\<close> through the locale \<open>preserving_evaluator\<close>, and the scaling
  of the registration fee over an interval with its removal at maintenance.
\<close>

section \<open>The registry invariant\<close>

text \<open>
  What the account operations keep: an account with a special authority has an entry in the table the chain
  iterates to apply special authorities; white- and blacklists are recorded on both sides and name existing
  accounts; an asset with a buyback account has an entry in the buyback table.
\<close>

definition special_ok :: "database \<Rightarrow> bool" where
  "special_ok db \<longleftrightarrow> (\<forall>i a. index_find (db_accounts db) i = Some a \<longrightarrow> has_special_authority a \<longrightarrow>
     (\<exists>j s. index_find (db_special_authorities db) j = Some s \<and> sa_account s = i))"

definition listed :: "account_object \<Rightarrow> account_id_type set" where
  "listed a = set (ac_whitelisting_accounts a) \<union> set (ac_whitelisted_accounts a) \<union>
     set (ac_blacklisting_accounts a) \<union> set (ac_blacklisted_accounts a)"

definition lists_agree :: "account_id_type \<Rightarrow> account_object \<Rightarrow> account_id_type \<Rightarrow> account_object \<Rightarrow> bool" where
  "lists_agree i a j b \<longleftrightarrow> (j \<in> set (ac_whitelisted_accounts a) \<longleftrightarrow> i \<in> set (ac_whitelisting_accounts b)) \<and>
     (j \<in> set (ac_blacklisted_accounts a) \<longleftrightarrow> i \<in> set (ac_blacklisting_accounts b))"

definition listing_ok :: "database \<Rightarrow> bool" where
  "listing_ok db \<longleftrightarrow>
     (\<forall>i a. index_find (db_accounts db) i = Some a \<longrightarrow> listed a \<subseteq> dom (index_find (db_accounts db))) \<and>
     (\<forall>i j a b. index_find (db_accounts db) i = Some a \<longrightarrow> index_find (db_accounts db) j = Some b \<longrightarrow> lists_agree i a j b)"

definition buyback_ok :: "database \<Rightarrow> bool" where
  "buyback_ok db \<longleftrightarrow> (\<forall>k a. index_find (db_assets db) k = Some a \<longrightarrow> at_buyback_account a \<noteq> None \<longrightarrow>
     (\<exists>j b. index_find (db_buybacks db) j = Some b \<and> bb_asset_to_buy b = k))"

definition registry_ok :: "database \<Rightarrow> bool" where
  "registry_ok db \<longleftrightarrow> special_ok db \<and> listing_ok db \<and> buyback_ok db"

text \<open>The invariant reads an account through its special authorities and its lists only.\<close>

definition registry_view :: "account_object \<Rightarrow> bool \<times> nat list \<times> nat list \<times> nat list \<times> nat list" where
  "registry_view a = (has_special_authority a, ac_whitelisting_accounts a, ac_whitelisted_accounts a,
     ac_blacklisting_accounts a, ac_blacklisted_accounts a)"

definition list_view :: "account_object \<Rightarrow> nat list \<times> nat list \<times> nat list \<times> nat list" where
  "list_view a = (ac_whitelisting_accounts a, ac_whitelisted_accounts a, ac_blacklisting_accounts a, ac_blacklisted_accounts a)"

lemma view_find:
  assumes "map_option f (index_find t' i) = map_option f (index_find t i)" and "index_find t' i = Some a'"
  obtains a where "index_find t i = Some a" and "f a' = f a"
  using assms that by (cases "index_find t i") auto

lemma listing_ok_cong:
  assumes v: "\<And>i. map_option list_view (index_find (db_accounts db') i) = map_option list_view (index_find (db_accounts db) i)"
    and ok: "listing_ok db"
  shows "listing_ok db'"
proof -
  have "index_find (db_accounts db') i = None \<longleftrightarrow> index_find (db_accounts db) i = None" for i
    using arg_cong [OF v [of i], of "\<lambda>x. x = None"] by simp
  then have dom: "dom (index_find (db_accounts db')) = dom (index_find (db_accounts db))"
    by (simp add: dom_def)
  show ?thesis
    unfolding listing_ok_def dom
  proof (intro conjI allI impI)
    fix i a' assume a': "index_find (db_accounts db') i = Some a'"
    obtain a where "index_find (db_accounts db) i = Some a" "list_view a' = list_view a" by (rule view_find [OF v a'])
    moreover from this(2) have "listed a' = listed a" by (simp add: list_view_def listed_def)
    ultimately show "listed a' \<subseteq> dom (index_find (db_accounts db))" using ok unfolding listing_ok_def by metis
  next
    fix i j a' b' assume a': "index_find (db_accounts db') i = Some a'" and b': "index_find (db_accounts db') j = Some b'"
    obtain a where "index_find (db_accounts db) i = Some a" "list_view a' = list_view a" by (rule view_find [OF v a'])
    moreover obtain b where "index_find (db_accounts db) j = Some b" "list_view b' = list_view b" by (rule view_find [OF v b'])
    moreover from calculation(2,4) have "lists_agree i a' j b' = lists_agree i a j b" by (simp add: list_view_def lists_agree_def)
    ultimately show "lists_agree i a' j b'" using ok unfolding listing_ok_def by metis
  qed
qed

lemma special_ok_cong:
  assumes v: "\<And>i. map_option has_special_authority (index_find (db_accounts db') i) = map_option has_special_authority (index_find (db_accounts db) i)"
    and s: "db_special_authorities db' = db_special_authorities db" and ok: "special_ok db"
  shows "special_ok db'"
  unfolding special_ok_def s
proof (intro allI impI)
  fix i a' assume a': "index_find (db_accounts db') i = Some a'" "has_special_authority a'"
  obtain a where "index_find (db_accounts db) i = Some a" "has_special_authority a' = has_special_authority a" by (rule view_find [OF v a'(1)])
  with a'(2) ok show "\<exists>j s. index_find (db_special_authorities db) j = Some s \<and> sa_account s = i" unfolding special_ok_def by blast
qed

lemma registry_ok_cong:
  assumes v: "\<And>i. map_option registry_view (index_find (db_accounts db') i) = map_option registry_view (index_find (db_accounts db) i)"
    and s: "db_special_authorities db' = db_special_authorities db" "db_assets db' = db_assets db" "db_buybacks db' = db_buybacks db"
    and ok: "registry_ok db"
  shows "registry_ok db'"
proof -
  have e: "list_view = snd \<circ> registry_view" "has_special_authority = fst \<circ> registry_view"
    by (simp_all add: fun_eq_iff registry_view_def list_view_def)
  have "map_option list_view (index_find (db_accounts db') i) = map_option list_view (index_find (db_accounts db) i)"
    "map_option has_special_authority (index_find (db_accounts db') i) = map_option has_special_authority (index_find (db_accounts db) i)" for i
    using arg_cong [OF v [of i], of "map_option snd"] arg_cong [OF v [of i], of "map_option fst"]
    by (simp_all add: option.map_comp e)
  then have "listing_ok db'" "special_ok db'"
    using ok listing_ok_cong [of db' db] special_ok_cong [of db' db] s(1) by (auto simp: registry_ok_def)
  moreover have "buyback_ok db'" using ok unfolding registry_ok_def buyback_ok_def s by blast
  ultimately show ?thesis by (simp add: registry_ok_def)
qed

lemma registry_view_rest: "account_rest a = account_rest b \<Longrightarrow> registry_view a = registry_view b"
  by (cases a; cases b) (simp add: account_rest_def registry_view_def has_special_authority_def)

lemma registry_fee_payout:
  assumes "fee_payout db db'" and ok: "registry_ok db"
  shows "registry_ok db'"
proof (rule registry_ok_cong [OF _ fee_payout_fields(5,2,6) [OF assms(1)] ok])
  fix i
  have "map_option account_rest (index_find (db_accounts db') i) = map_option account_rest (index_find (db_accounts db) i)"
    using assms(1) by (simp add: fee_payout_def)
  then show "map_option registry_view (index_find (db_accounts db') i) = map_option registry_view (index_find (db_accounts db) i)"
    by (cases "index_find (db_accounts db') i"; cases "index_find (db_accounts db) i") (auto intro: registry_view_rest)
qed

lemma registry_modify_account:
  assumes m: "modify_account i (\<lambda>a. Inr (f a)) db = Inr db'" and v: "\<And>a. registry_view (f a) = registry_view a"
    and ok: "db_ok db" "registry_ok db"
  shows "registry_ok db'"
proof -
  obtain x y where x: "index_find (db_accounts db) i = Some x" "Inr (f x) = (Inr y :: account_object result)"
    "index_find (db_accounts db') = (index_find (db_accounts db))(i \<mapsto> y)" and db': "db' = db\<lparr>db_accounts := db_accounts db'\<rparr>"
    using m ok(1) by (rule modify_account_effect) (rule that)
  have same: "db_special_authorities db' = db_special_authorities db" "db_assets db' = db_assets db" "db_buybacks db' = db_buybacks db"
    by (subst db', simp)+
  have "map_option registry_view (index_find (db_accounts db') j) = map_option registry_view (index_find (db_accounts db) j)" for j
    using x v [of x] by simp
  from this same ok(2) show ?thesis by (rule registry_ok_cong)
qed

lemma registry_frame:
  "registry_ok (db\<lparr>db_balances := t\<rparr>) = registry_ok db"
  "registry_ok (db\<lparr>db_statistics := s\<rparr>) = registry_ok db"
  "registry_ok (db\<lparr>db_dynamic_data := d\<rparr>) = registry_ok db"
  "registry_ok (db\<lparr>db_dynamic := dg\<rparr>) = registry_ok db"
  "registry_ok (db\<lparr>db_global := g\<rparr>) = registry_ok db"
  by (simp_all add: registry_ok_def special_ok_def listing_ok_def buyback_ok_def)

lemma registry_fee_frame: "fee_frame db db' \<Longrightarrow> registry_ok db' = registry_ok db"
  by (auto simp: fee_frame_iff registry_frame)

text \<open>A new account with empty lists, and an entry in the tables of special authorities and buybacks.\<close>

lemma listing_create_account:
  assumes c: "create_account v db = Inr (i, db')" and e: "listed v = {}" and ok: "db_ok db" "listing_ok db"
  shows "listing_ok db'"
proof -
  note f = create_account_effect(4,5) [OF c ok(1)]
  have out: "i \<notin> listed a" if "index_find (db_accounts db) j = Some a" for j a
    using ok(2) that f(1) unfolding listing_ok_def by blast
  show ?thesis
    unfolding listing_ok_def f(2)
  proof (intro conjI allI impI)
    fix j a assume a: "((index_find (db_accounts db))(i \<mapsto> v)) j = Some a"
    show "listed a \<subseteq> dom ((index_find (db_accounts db))(i \<mapsto> v))"
    proof (cases "j = i")
      case False
      with a ok(2) have "listed a \<subseteq> dom (index_find (db_accounts db))" unfolding listing_ok_def by simp
      then show ?thesis by auto
    qed (use a e in simp)
  next
    fix j k a b assume a: "((index_find (db_accounts db))(i \<mapsto> v)) j = Some a" and b: "((index_find (db_accounts db))(i \<mapsto> v)) k = Some b"
    show "lists_agree j a k b"
    proof (cases "j = i \<or> k = i")
      case True
      then show ?thesis using a b e out unfolding listed_def lists_agree_def by (auto split: if_splits)
    next
      case False
      with a b have "index_find (db_accounts db) j = Some a" "index_find (db_accounts db) k = Some b" by auto
      then show ?thesis using ok(2) unfolding listing_ok_def by blast
    qed
  qed
qed

lemma special_create:
  assumes "create_special_authority \<lparr>sa_account = i\<rparr> db = Inr (j, db')"
    and "\<And>k a. k \<noteq> i \<Longrightarrow> index_find (db_accounts db) k = Some a \<Longrightarrow> has_special_authority a \<Longrightarrow>
      \<exists>m s. index_find (db_special_authorities db) m = Some s \<and> sa_account s = k"
  shows "special_ok db'"
proof -
  from assms(1) obtain t where t: "index_create special_authority_uk \<lparr>sa_account = i\<rparr> (db_special_authorities db) = Inr (j, t)"
    and db': "db' = db\<lparr>db_special_authorities := t\<rparr>"
    by (auto simp: create_special_authority_def result_simps)
  note f = index_create_find(2,3) [OF t]
  show ?thesis
    unfolding special_ok_def
  proof (intro allI impI)
    fix k a assume k: "index_find (db_accounts db') k = Some a" "has_special_authority a"
    show "\<exists>m s. index_find (db_special_authorities db') m = Some s \<and> sa_account s = k"
    proof (cases "k = i")
      case True
      then show ?thesis using f by (auto simp: db')
    next
      case False
      with k assms(2) [of k a] obtain m s where "index_find (db_special_authorities db) m = Some s" "sa_account s = k" by (auto simp: db')
      with f have "index_find (db_special_authorities db') m = Some s" by (auto simp: db')
      with \<open>sa_account s = k\<close> show ?thesis by blast
    qed
  qed
qed

lemma registry_split:
  assumes "db_accounts db' = db_accounts db" "db_assets db' = db_assets db" "db_buybacks db' = db_buybacks db"
  shows "listing_ok db' = listing_ok db" and "buyback_ok db' = buyback_ok db"
  using assms by (simp_all add: listing_ok_def buyback_ok_def)

text \<open>An update of an account adjusts its entry among the special authorities.\<close>

lemma special_update:
  assumes rest: "(if b \<and> \<not> has_special_authority z
      then (case find_special_authority db i of None \<Rightarrow> Inl Undefined_behaviour | Some (j, s) \<Rightarrow> Inr (remove_special_authority j db))
      else if \<not> b \<and> has_special_authority z
      then rbind (create_special_authority \<lparr>sa_account = i\<rparr> db) (\<lambda>(j, d). Inr d) else Inr db) = Inr db'"
    and z: "index_find (db_accounts db) i = Some z" and ok: "db_ok db"
    and mine: "b \<Longrightarrow> \<exists>m s. index_find (db_special_authorities db) m = Some s \<and> sa_account s = i"
    and other: "\<And>k a. k \<noteq> i \<Longrightarrow> index_find (db_accounts db) k = Some a \<Longrightarrow> has_special_authority a \<Longrightarrow>
      \<exists>m s. index_find (db_special_authorities db) m = Some s \<and> sa_account s = k"
  shows "special_ok db' \<and> db' = db\<lparr>db_special_authorities := db_special_authorities db'\<rparr>"
proof -
  consider (removed) "b" "\<not> has_special_authority z" | (added) "\<not> b" "has_special_authority z" | (same) "b = has_special_authority z" by blast
  then show ?thesis
  proof cases
    case removed
    with rest obtain j s where fs: "find_special_authority db i = Some (j, s)" and db': "db' = remove_special_authority j db"
      by (auto split: option.splits)
    have it: "index_ok special_authority_uk (db_special_authorities db)" using ok by (simp add: db_ok_def tables_ok_def)
    have s: "index_find (db_special_authorities db) j = Some s" "sa_account s = i"
      using fs it by (auto simp: find_special_authority_def index_ok_def index_find_mem dest!: find_Some_mem)
    have "special_ok db'"
      unfolding special_ok_def
    proof (intro allI impI)
      fix k a assume k: "index_find (db_accounts db') k = Some a" "has_special_authority a"
      then have "k \<noteq> i" using z removed by (auto simp: db' remove_special_authority_def)
      with k other [of k a] obtain m u where u: "index_find (db_special_authorities db) m = Some u" "sa_account u = k"
        by (auto simp: db' remove_special_authority_def)
      then have "m \<noteq> j" using s \<open>k \<noteq> i\<close> by auto
      with u show "\<exists>j s. index_find (db_special_authorities db') j = Some s \<and> sa_account s = k"
        by (intro exI [of _ m] exI [of _ u]) (simp add: db' remove_special_authority_def index_remove_find)
    qed
    then show ?thesis by (simp add: db' remove_special_authority_def)
  next
    case added
    with rest obtain j where c: "create_special_authority \<lparr>sa_account = i\<rparr> db = Inr (j, db')" by (auto simp: rbind_Inr)
    have "special_ok db'" by (rule special_create [OF c]) (use other in blast)
    with special_authority_effect(3) [OF disjI1 [OF c] ok] show ?thesis by blast
  next
    case same
    then have "db' = db" using rest by (auto split: if_splits)
    moreover have "special_ok db" using same mine other z unfolding special_ok_def by (metis option.inject)
    ultimately show ?thesis by simp
  qed
qed

text \<open>A listing adds an account to a set or takes it out.\<close>

definition toggle :: "bool \<Rightarrow> nat \<Rightarrow> nat set \<Rightarrow> nat set" where
  "toggle b i A = (if b then insert i A else A - {i})"

lemma set_set_member: "set (set_member b i xs) = toggle b i (set xs)"
  by (simp add: set_member_def toggle_def)

definition registry_sets :: "account_object \<Rightarrow> bool \<times> nat set \<times> nat set \<times> nat set \<times> nat set" where
  "registry_sets a = (has_special_authority a, set (ac_whitelisting_accounts a), set (ac_whitelisted_accounts a),
     set (ac_blacklisting_accounts a), set (ac_blacklisted_accounts a))"

section \<open>Every account operation keeps the registry\<close>

lemma buyback_create:
  assumes c: "create_buyback \<lparr>bb_asset_to_buy = k\<rparr> db = Inr (j, d)"
    and m: "modify_asset k (\<lambda>a. Inr (a\<lparr>at_buyback_account := Some i\<rparr>)) d = Inr db'"
    and ok: "db_ok db" "buyback_ok db"
  shows "buyback_ok db'" and "db_accounts db' = db_accounts db" and "db_special_authorities db' = db_special_authorities db"
proof -
  note e = create_buyback_effect [OF c ok(1)]
  obtain x y where x: "index_find (db_assets d) k = Some x"
    and f: "index_find (db_assets db') = (index_find (db_assets d))(k \<mapsto> y)" and db': "db' = d\<lparr>db_assets := db_assets db'\<rparr>"
    using m e(1) by (rule modify_asset_effect) (auto intro: that)
  have d: "db_assets d = db_assets db" "db_accounts d = db_accounts db" "db_special_authorities d = db_special_authorities db"
    by (subst e(3), simp)+
  have bb: "db_buybacks db' = db_buybacks d" by (subst db') simp
  show "db_accounts db' = db_accounts db" "db_special_authorities db' = db_special_authorities db"
    by (subst db', simp add: d)+
  have fresh: "index_find (db_buybacks db) j = None"
    using c index_create_find(3) by (fastforce simp: create_buyback_def result_simps)
  show "buyback_ok db'"
    unfolding buyback_ok_def bb
  proof (intro allI impI)
    fix q a assume a: "index_find (db_assets db') q = Some a" "at_buyback_account a \<noteq> None"
    show "\<exists>j b. index_find (db_buybacks d) j = Some b \<and> bb_asset_to_buy b = q"
    proof (cases "q = k")
      case True
      then show ?thesis by (auto simp: e(4))
    next
      case False
      with a f d(1) obtain m b where "index_find (db_buybacks db) m = Some b" "bb_asset_to_buy b = q"
        using ok(2) unfolding buyback_ok_def by fastforce
      with fresh show ?thesis by (intro exI [of _ m] exI [of _ b]) (auto simp: e(4))
    qed
  qed
qed

lemma new_account_lists: "listed (new_account op l st db) = {}"
  by (simp add: listed_def new_account_def)

lemma new_account_special:
  "acr_owner_special_authority op = None \<Longrightarrow> acr_active_special_authority op = None \<Longrightarrow> \<not> has_special_authority (new_account op l st db)"
  by (simp add: has_special_authority_def new_account_def)

context checked_int64
begin

lemma account_create_first_steps:
  assumes d1: "create_statistics (new_statistics n) db = Inr (st, db1)"
    and d2: "create_account (new_account op l st db1) db1 = Inr (i, db2)"
    and d3: "scale_registration_fee db2 = Inr db3" and ok: "db_ok db" "balances_ok db" "registry_ok db"
  shows "db_ok db3" and "listing_ok db3" and "buyback_ok db3"
    and "index_find (db_accounts db3) i = Some (new_account op l st db1)"
    and "k \<noteq> i \<Longrightarrow> index_find (db_accounts db3) k = Some a \<Longrightarrow> has_special_authority a \<Longrightarrow>
      \<exists>m s. index_find (db_special_authorities db3) m = Some s \<and> sa_account s = k"
proof -
  note e1 = create_statistics_effect(1,2) [OF d1 ok(1)]
  have r1: "registry_ok db1" by (subst e1(1)) (simp add: registry_frame ok(3))
  note e2 = create_account_effect [OF d2 e1(2)]
  have same2: "db_special_authorities db2 = db_special_authorities db1" "db_assets db2 = db_assets db1" "db_buybacks db2 = db_buybacks db1"
    by (subst e2(1), simp)+
  have l2: "listing_ok db2" by (rule listing_create_account [OF d2 new_account_lists e1(2)]) (use r1 in \<open>simp add: registry_ok_def\<close>)
  have b2: "buyback_ok db2" using r1 unfolding registry_ok_def buyback_ok_def same2 by blast
  have same3: "db_accounts db3 = db_accounts db2" "db_special_authorities db3 = db_special_authorities db2"
    "db_assets db3 = db_assets db2" "db_buybacks db3 = db_buybacks db2"
    by (subst scale_registration_fee_Inr(1) [OF d3], simp add: set_basic_fee_def count_registration_def)+
  show "db_ok db3"
    using conserves_step [OF conserves_step [OF create_statistics_conserves [OF d1 ok(1,2)] create_account_conserves [OF d2]]
        scale_registration_fee_conserves [OF d3]] by (simp add: conserves_def)
  show "listing_ok db3" "buyback_ok db3" using l2 b2 same3 registry_split [of db3 db2] by simp_all
  show "index_find (db_accounts db3) i = Some (new_account op l st db1)" by (simp add: same3 e2(5))
  show "\<exists>m s. index_find (db_special_authorities db3) m = Some s \<and> sa_account s = k"
    if "k \<noteq> i" "index_find (db_accounts db3) k = Some a" "has_special_authority a"
    using r1 that unfolding registry_ok_def special_ok_def same3 same2 e2(5) by auto
qed

lemma account_create_keeps:
  assumes a: "account_create_do_apply op x db = Inr (i, db')" and ok: "db_ok db" "balances_ok db" "registry_ok db"
  shows "registry_ok db'"
proof -
  obtain st db1 db2 db3 db4 and r :: account_object where "index_find (db_accounts db) (acr_referrer op) = Some r"
    and d1: "create_statistics (new_statistics (next_id (db_accounts db))) db = Inr (st, db1)"
    and d2: "create_account (new_account op (ac_lifetime_referrer r) st db1) db1 = Inr (i, db2)"
    and d3: "scale_registration_fee db2 = Inr db3"
    and d4: "if acr_owner_special_authority op \<noteq> None \<or> acr_active_special_authority op \<noteq> None
      then \<exists>j. create_special_authority \<lparr>sa_account = i\<rparr> db3 = Inr (j, db4) else db4 = db3"
    and d5: "case acr_buyback_options op of None \<Rightarrow> db' = db4
      | Some b \<Rightarrow> \<exists>j d. create_buyback \<lparr>bb_asset_to_buy = bo_asset_to_buy b\<rparr> db4 = Inr (j, d) \<and>
          modify_asset (bo_asset_to_buy b) (\<lambda>a. Inr (a\<lparr>at_buyback_account := Some i\<rparr>)) d = Inr db'"
    using a by (rule account_create_steps) (rule that)
  note f = account_create_first_steps [OF d1 d2 d3 ok]
  have s4: "special_ok db4 \<and> db_accounts db4 = db_accounts db3 \<and> db_assets db4 = db_assets db3 \<and> db_buybacks db4 = db_buybacks db3 \<and> db_ok db4"
  proof (cases "acr_owner_special_authority op \<noteq> None \<or> acr_active_special_authority op \<noteq> None")
    case True
    with d4 obtain j where c: "create_special_authority \<lparr>sa_account = i\<rparr> db3 = Inr (j, db4)" by auto
    note e = special_authority_effect(1,3) [OF disjI1 [OF c] f(1)]
    have "db_accounts db4 = db_accounts db3" "db_assets db4 = db_assets db3" "db_buybacks db4 = db_buybacks db3"
      by (subst e(2), simp)+
    moreover have "special_ok db4" using f(5) by (intro special_create [OF c]) blast
    ultimately show ?thesis using e(1) by blast
  next
    case False
    then have "\<not> has_special_authority (new_account op (ac_lifetime_referrer r) st db1)" by (intro new_account_special) auto
    then have "special_ok db3" unfolding special_ok_def by (metis f(4,5) option.inject)
    with False d4 f(1) show ?thesis by auto
  qed
  have l4: "listing_ok db4" "buyback_ok db4" using f(2,3) s4 registry_split [of db4 db3] by simp_all
  show ?thesis
  proof (cases "acr_buyback_options op")
    case None
    with d5 s4 l4 show ?thesis by (simp add: registry_ok_def)
  next
    case (Some b)
    with d5 obtain j d where c: "create_buyback \<lparr>bb_asset_to_buy = bo_asset_to_buy b\<rparr> db4 = Inr (j, d)"
      and m: "modify_asset (bo_asset_to_buy b) (\<lambda>a. Inr (a\<lparr>at_buyback_account := Some i\<rparr>)) d = Inr db'" by auto
    from buyback_create [OF c m _ l4(2)] s4 l4(1) show ?thesis by (simp add: registry_ok_def special_ok_def listing_ok_def)
  qed
qed

lemma account_update_keeps:
  assumes a: "account_update_do_apply op x db = Inr db'" and ok: "db_ok db" "registry_ok db"
  shows "registry_ok db'"
proof -
  let ?i = "aup_account op" and ?f = "\<lambda>a. set_special_authorities op (set_authorities op a)"
  from a obtain acct db1 where acct: "index_find (db_accounts db) ?i = Some acct"
    and m: "modify_account ?i (\<lambda>a. Inr (?f a)) db = Inr db1"
    and rest: "(if has_special_authority (set_authorities op acct) \<and> \<not> has_special_authority (?f acct)
      then (case find_special_authority db1 ?i of None \<Rightarrow> Inl Undefined_behaviour | Some (j, s) \<Rightarrow> Inr (remove_special_authority j db1))
      else if \<not> has_special_authority (set_authorities op acct) \<and> has_special_authority (?f acct)
      then rbind (create_special_authority \<lparr>sa_account = ?i\<rparr> db1) (\<lambda>(j, d). Inr d) else Inr db1) = Inr db'"
    by (auto simp: account_update_do_apply_def Let_def rbind_Inr index_get_Inr simp del: if_split)
  obtain y z where "index_find (db_accounts db) ?i = Some y" "Inr (?f y) = (Inr z :: account_object result)"
    and f: "index_find (db_accounts db1) = (index_find (db_accounts db))(?i \<mapsto> z)"
    and db1: "db1 = db\<lparr>db_accounts := db_accounts db1\<rparr>" and ok1: "db_ok db1"
    using m ok(1) by (rule modify_account_effect) (rule that)
  then have z: "z = ?f acct" using acct by simp
  have same: "db_special_authorities db1 = db_special_authorities db" "db_assets db1 = db_assets db" "db_buybacks db1 = db_buybacks db"
    by (subst db1, simp)+
  have "list_view (?f a) = list_view a" for a
    by (simp add: set_special_authorities_def set_authorities_def list_view_def Let_def split: option.split)
  then have "listing_ok db1" using ok(2) acct f z by (intro listing_ok_cong [of db1 db]) (auto simp: registry_ok_def)
  moreover have "buyback_ok db1" using ok(2) by (simp add: registry_ok_def buyback_ok_def same)
  moreover have other: "\<exists>m s. index_find (db_special_authorities db1) m = Some s \<and> sa_account s = k"
    if "k \<noteq> ?i" "index_find (db_accounts db1) k = Some a" "has_special_authority a" for k a
    using ok(2) that unfolding registry_ok_def special_ok_def same f by auto
  moreover have before: "has_special_authority (set_authorities op acct) = has_special_authority acct"
    by (simp add: set_authorities_def has_special_authority_def Let_def split: option.split)
  moreover have "index_find (db_accounts db1) ?i = Some (?f acct)" using f z by simp
  moreover have "\<exists>m s. index_find (db_special_authorities db1) m = Some s \<and> sa_account s = ?i"
    if "has_special_authority acct" using ok(2) that acct same(1) unfolding registry_ok_def special_ok_def by metis
  ultimately have sp: "special_ok db'" and db': "db' = db1\<lparr>db_special_authorities := db_special_authorities db'\<rparr>"
    and l: "listing_ok db1" "buyback_ok db1"
    using special_update [OF rest [unfolded before]] ok1 by blast+
  have "db_accounts db' = db_accounts db1" "db_assets db' = db_assets db1" "db_buybacks db' = db_buybacks db1"
    by (subst db', simp)+
  with sp l show ?thesis using registry_split [of db' db1] by (simp add: registry_ok_def)
qed

lemma account_whitelist_effect:
  fixes op defines "A \<equiv> awl_account_to_list op" and "B \<equiv> awl_authorizing_account op"
    and "white \<equiv> and (awl_new_listing op) white_listed \<noteq> 0" and "black \<equiv> and (awl_new_listing op) black_listed \<noteq> 0"
  assumes a: "account_whitelist_do_apply op x db = Inr db'" and ok: "db_ok db"
  obtains h where "\<And>i. index_find (db_accounts db') i = map_option (h i) (index_find (db_accounts db) i)"
    and "\<And>i a. registry_sets (h i a) = (has_special_authority a,
      if i = A then toggle white B (set (ac_whitelisting_accounts a)) else set (ac_whitelisting_accounts a),
      if i = B then toggle white A (set (ac_whitelisted_accounts a)) else set (ac_whitelisted_accounts a),
      if i = A then toggle black B (set (ac_blacklisting_accounts a)) else set (ac_blacklisting_accounts a),
      if i = B then toggle black A (set (ac_blacklisted_accounts a)) else set (ac_blacklisted_accounts a))"
    and "A \<in> dom (index_find (db_accounts db))" and "B \<in> dom (index_find (db_accounts db))"
    and "db_special_authorities db' = db_special_authorities db" and "db_assets db' = db_assets db" and "db_buybacks db' = db_buybacks db"
proof -
  define f where "f a = a\<lparr>ac_whitelisting_accounts := set_member white B (ac_whitelisting_accounts a),
      ac_blacklisting_accounts := set_member black B (ac_blacklisting_accounts a)\<rparr>" for a :: account_object
  define g where "g a = a\<lparr>ac_whitelisted_accounts := set_member white A (ac_whitelisted_accounts a),
      ac_blacklisted_accounts := set_member black A (ac_blacklisted_accounts a)\<rparr>" for a :: account_object
  from a obtain db1 where m1: "modify_account A (\<lambda>a. Inr (f a)) db = Inr db1" and m2: "modify_account B (\<lambda>a. Inr (g a)) db1 = Inr db'"
    by (auto simp: account_whitelist_do_apply_def Let_def rbind_Inr f_def g_def white_def black_def A_def B_def)
  obtain x1 y1 where x1: "index_find (db_accounts db) A = Some x1" "Inr (f x1) = (Inr y1 :: account_object result)"
    "index_find (db_accounts db1) = (index_find (db_accounts db))(A \<mapsto> y1)"
    and d1: "db1 = db\<lparr>db_accounts := db_accounts db1\<rparr>" "db_ok db1"
    using m1 ok by (rule modify_account_effect) (rule that)
  obtain x2 y2 where x2: "index_find (db_accounts db1) B = Some x2" "Inr (g x2) = (Inr y2 :: account_object result)"
    "index_find (db_accounts db') = (index_find (db_accounts db1))(B \<mapsto> y2)"
    and d2: "db' = db1\<lparr>db_accounts := db_accounts db'\<rparr>"
    using m2 d1(2) by (rule modify_account_effect) (rule that)
  define h where "h i a = (if i = B then g else id) ((if i = A then f else id) a)" for i a
  show ?thesis
  proof (rule that [of h])
    show "index_find (db_accounts db') i = map_option (h i) (index_find (db_accounts db) i)" for i
      using x1 x2 by (cases "index_find (db_accounts db) i") (auto simp: h_def split: if_splits)
    show "registry_sets (h i a) = (has_special_authority a,
      if i = A then toggle white B (set (ac_whitelisting_accounts a)) else set (ac_whitelisting_accounts a),
      if i = B then toggle white A (set (ac_whitelisted_accounts a)) else set (ac_whitelisted_accounts a),
      if i = A then toggle black B (set (ac_blacklisting_accounts a)) else set (ac_blacklisting_accounts a),
      if i = B then toggle black A (set (ac_blacklisted_accounts a)) else set (ac_blacklisted_accounts a))" for i a
      by (simp add: registry_sets_def h_def f_def g_def has_special_authority_def set_set_member)
    show "A \<in> dom (index_find (db_accounts db))" "B \<in> dom (index_find (db_accounts db))"
      using x1 x2(1) by (auto split: if_splits)
    show "db_special_authorities db' = db_special_authorities db" "db_assets db' = db_assets db" "db_buybacks db' = db_buybacks db"
      by (subst d2, simp, subst d1, simp)+
  qed
qed

lemma account_whitelist_keeps:
  assumes a: "account_whitelist_do_apply op x db = Inr db'" and ok: "db_ok db" "registry_ok db"
  shows "registry_ok db'"
proof -
  obtain h A B white black where find: "\<And>i. index_find (db_accounts db') i = map_option (h i) (index_find (db_accounts db) i)"
    and view: "\<And>i a. registry_sets (h i a) = (has_special_authority a,
      if i = A then toggle white B (set (ac_whitelisting_accounts a)) else set (ac_whitelisting_accounts a),
      if i = B then toggle white A (set (ac_whitelisted_accounts a)) else set (ac_whitelisted_accounts a),
      if i = A then toggle black B (set (ac_blacklisting_accounts a)) else set (ac_blacklisting_accounts a),
      if i = B then toggle black A (set (ac_blacklisted_accounts a)) else set (ac_blacklisted_accounts a))"
    and AB: "A \<in> dom (index_find (db_accounts db))" "B \<in> dom (index_find (db_accounts db))"
    and same: "db_special_authorities db' = db_special_authorities db" "db_assets db' = db_assets db" "db_buybacks db' = db_buybacks db"
    using a ok(1) by (rule account_whitelist_effect) (rule that)
  have "has_special_authority (h i a) = has_special_authority a" for i a using view [of i a] by (simp add: registry_sets_def)
  then have "special_ok db'"
    using ok(2) same(1) by (intro special_ok_cong [of db' db]) (auto simp: find option.map_comp registry_ok_def comp_def)
  moreover have "listing_ok db'"
    unfolding listing_ok_def
  proof (intro conjI allI impI)
    fix i a' assume "index_find (db_accounts db') i = Some a'"
    then obtain a where a: "index_find (db_accounts db) i = Some a" "a' = h i a" using find by auto
    then have "listed a \<subseteq> dom (index_find (db_accounts db))" using ok(2) unfolding registry_ok_def listing_ok_def by blast
    moreover have "listed a' \<subseteq> insert A (insert B (listed a))"
      using view [of i a] a(2) by (auto simp: listed_def registry_sets_def toggle_def split: if_splits)
    moreover have "dom (index_find (db_accounts db')) = dom (index_find (db_accounts db))" by (auto simp: find dom_def)
    ultimately show "listed a' \<subseteq> dom (index_find (db_accounts db'))" using AB by blast
  next
    fix i j a' b' assume "index_find (db_accounts db') i = Some a'" "index_find (db_accounts db') j = Some b'"
    then obtain a b where ab: "index_find (db_accounts db) i = Some a" "a' = h i a" "index_find (db_accounts db) j = Some b" "b' = h j b"
      using find by auto
    then have "lists_agree i a j b" using ok(2) unfolding registry_ok_def listing_ok_def by blast
    then show "lists_agree i a' j b'"
      using view [of i a] view [of j b] ab(2,4) by (auto simp: lists_agree_def registry_sets_def toggle_def split: if_splits)
  qed
  moreover have "buyback_ok db'" using ok(2) by (simp add: registry_ok_def buyback_ok_def same)
  ultimately show ?thesis by (simp add: registry_ok_def)
qed

lemma upgrade_account_keeps:
  assumes a: "upgrade_account S acct f db = Inr db'" and f: "\<And>a. registry_view (f a) = registry_view a"
    and ok: "db_ok db" "balances_ok db" "registry_ok db"
  shows "registry_ok db'"
proof -
  from a obtain st db1 where p: "process_fees S st acct db = Inr db1" and m: "modify_account acct (\<lambda>a. Inr (f a)) db1 = Inr db'"
    by (auto simp: upgrade_account_def rbind_Inr)
  have "registry_ok db1" by (rule registry_fee_payout [OF process_fees_payout [OF p] ok(3)])
  moreover have "db_ok db1" using process_fees_conserves_all [OF p ok(1,2)] by (simp add: conserves_def)
  ultimately show ?thesis using registry_modify_account [OF m f] by blast
qed

lemma upgrades_keep:
  "account_upgrade_do_apply S op1 x db = Inr db' \<Longrightarrow> db_ok db \<Longrightarrow> balances_ok db \<Longrightarrow> registry_ok db \<Longrightarrow> registry_ok db'"
  "account_upgrade_merchant_do_apply S op2 x db = Inr db' \<Longrightarrow> db_ok db \<Longrightarrow> balances_ok db \<Longrightarrow> registry_ok db \<Longrightarrow> registry_ok db'"
  "account_upgrade_datasource_do_apply S op3 x db = Inr db' \<Longrightarrow> db_ok db \<Longrightarrow> balances_ok db \<Longrightarrow> registry_ok db \<Longrightarrow> registry_ok db'"
  "account_upgrade_data_transaction_member_do_apply S op4 x db = Inr db' \<Longrightarrow> db_ok db \<Longrightarrow> balances_ok db \<Longrightarrow> registry_ok db \<Longrightarrow> registry_ok db'"
  by (auto simp: account_upgrade_do_apply_def account_upgrade_merchant_do_apply_def account_upgrade_datasource_do_apply_def
      account_upgrade_data_transaction_member_do_apply_def Let_def registry_view_def has_special_authority_def
      elim!: upgrade_account_keeps registry_modify_account split: if_splits)

end

sublocale charging < account_create: preserving_evaluator S "pay_fee S T" fs_core_fee_paid
    "account_create_do_evaluate op" "\<lambda>x db. rbind (account_create_do_apply op x db) (\<lambda>(i, d). Inr d)" registry_ok for op
  by unfold_locales
     (auto simp: credits_zero rbind_Inr registry_fee_frame registry_frame intro: account_create_do_apply_conserves account_create_keeps)

sublocale charging < account_update: preserving_evaluator S "pay_fee S T" fs_core_fee_paid
    "account_update_do_evaluate op" "account_update_do_apply op" registry_ok for op
  by unfold_locales
     (auto simp: credits_zero registry_fee_frame registry_frame intro: account_update_do_apply_conserves account_update_keeps)

sublocale charging < account_whitelist: preserving_evaluator S "pay_fee S T" fs_core_fee_paid
    "account_whitelist_do_evaluate op" "account_whitelist_do_apply op" registry_ok for op
  by unfold_locales
     (auto simp: credits_zero registry_fee_frame registry_frame intro: account_whitelist_do_apply_conserves account_whitelist_keeps)

sublocale charging < account_upgrade: preserving_evaluator S "pay_fee S T" fs_core_fee_paid
    "account_upgrade_do_evaluate op" "account_upgrade_do_apply S op" registry_ok for op
  by unfold_locales (auto simp: credits_zero registry_fee_frame registry_frame intro: upgrades_conserve upgrades_keep)

sublocale charging < upgrade_merchant: preserving_evaluator S "pay_fee S T" fs_core_fee_paid
    "account_upgrade_merchant_do_evaluate b op" "account_upgrade_merchant_do_apply S op" registry_ok for b op
  by unfold_locales (auto simp: credits_zero registry_fee_frame registry_frame intro: upgrades_conserve upgrades_keep)

sublocale charging < upgrade_datasource: preserving_evaluator S "pay_fee S T" fs_core_fee_paid
    "account_upgrade_datasource_do_evaluate b op" "account_upgrade_datasource_do_apply S op" registry_ok for b op
  by unfold_locales (auto simp: credits_zero registry_fee_frame registry_frame intro: upgrades_conserve upgrades_keep)

sublocale charging < upgrade_data_transaction_member: preserving_evaluator S "pay_fee S T" fs_core_fee_paid
    "account_upgrade_data_transaction_member_do_evaluate b op" "account_upgrade_data_transaction_member_do_apply S op" registry_ok for b op
  by unfold_locales (auto simp: credits_zero registry_fee_frame registry_frame intro: upgrades_conserve upgrades_keep)

context charging
begin

lemma account_create_sound:
  assumes "account_create_evaluator S T required op db = Inr db'" "db_ok db" "balances_ok db" "registry_ok db"
  shows "conserves db db' \<and> registry_ok db'"
  using account_create.start_evaluate_conserves account_create.start_evaluate_keeps assms fees_charged
  unfolding account_create_evaluator_def by blast

lemma account_update_sound:
  assumes "account_update_evaluator S T required op db = Inr db'" "db_ok db" "balances_ok db" "registry_ok db"
  shows "conserves db db' \<and> registry_ok db'"
  using account_update.start_evaluate_conserves account_update.start_evaluate_keeps assms fees_charged
  unfolding account_update_evaluator_def by blast

lemma account_whitelist_sound:
  assumes "account_whitelist_evaluator S T required op db = Inr db'" "db_ok db" "balances_ok db" "registry_ok db"
  shows "conserves db db' \<and> registry_ok db'"
  using account_whitelist.start_evaluate_conserves account_whitelist.start_evaluate_keeps assms fees_charged
  unfolding account_whitelist_evaluator_def by blast

lemma account_upgrade_sound:
  assumes "account_upgrade_evaluator S T required op db = Inr db'" "db_ok db" "balances_ok db" "registry_ok db"
  shows "conserves db db' \<and> registry_ok db'"
  using account_upgrade.start_evaluate_conserves account_upgrade.start_evaluate_keeps assms fees_charged
  unfolding account_upgrade_evaluator_def by blast

lemma upgrade_merchant_sound:
  assumes "account_upgrade_merchant_evaluator S T b required op db = Inr db'" "db_ok db" "balances_ok db" "registry_ok db"
  shows "conserves db db' \<and> registry_ok db'"
  using upgrade_merchant.start_evaluate_conserves upgrade_merchant.start_evaluate_keeps assms fees_charged
  unfolding account_upgrade_merchant_evaluator_def by blast

lemma upgrade_datasource_sound:
  assumes "account_upgrade_datasource_evaluator S T b required op db = Inr db'" "db_ok db" "balances_ok db" "registry_ok db"
  shows "conserves db db' \<and> registry_ok db'"
  using upgrade_datasource.start_evaluate_conserves upgrade_datasource.start_evaluate_keeps assms fees_charged
  unfolding account_upgrade_datasource_evaluator_def by blast

lemma upgrade_data_transaction_member_sound:
  assumes "account_upgrade_data_transaction_member_evaluator S T b required op db = Inr db'" "db_ok db" "balances_ok db" "registry_ok db"
  shows "conserves db db' \<and> registry_ok db'"
  using upgrade_data_transaction_member.start_evaluate_conserves upgrade_data_transaction_member.start_evaluate_keeps assms fees_charged
  unfolding account_upgrade_data_transaction_member_evaluator_def by blast

end

section \<open>Properties of the account operations\<close>

text \<open>C26.
  Every account operation that succeeds conserves every asset and keeps the registry consistent: an account with a
  special authority is in the table of special authorities, white- and blacklists agree on both sides and name
  existing accounts, and an asset with a buyback account is in the buyback table.
\<close>

theorem account_registry_invariant:
  assumes "charging S T" and "db_ok db" "balances_ok db" "registry_ok db"
    and "account_create_evaluator S T required cop db = Inr db' \<or> account_update_evaluator S T required uop db = Inr db' \<or>
      account_whitelist_evaluator S T required wop db = Inr db' \<or> account_upgrade_evaluator S T required gop db = Inr db' \<or>
      account_upgrade_merchant_evaluator S T b required mop db = Inr db' \<or>
      account_upgrade_datasource_evaluator S T b required dop db = Inr db' \<or>
      account_upgrade_data_transaction_member_evaluator S T b required xop db = Inr db'"
  shows "conserves db db' \<and> registry_ok db'"
proof -
  note sound = charging.account_create_sound charging.account_update_sound charging.account_whitelist_sound
    charging.account_upgrade_sound charging.upgrade_merchant_sound charging.upgrade_datasource_sound
    charging.upgrade_data_transaction_member_sound
  from assms(5) show ?thesis by (elim disjE) (rule sound [OF assms(1) _ assms(2-4)]; assumption)+
qed

definition sample_account_create :: "string \<Rightarrow> special_authority option \<Rightarrow> account_create_operation" where
  "sample_account_create nm sa = \<lparr>acr_fee = mk_asset 100 1, acr_registrar = 6, acr_referrer = 7, acr_referrer_percent = 5000, acr_name = nm,
     acr_owner = sample_authority, acr_active = sample_authority,
     acr_options = \<lparr>ao_memo_key = 7, ao_voting_account = 5, ao_num_witness = 0, ao_num_committee = 0, ao_votes = []\<rparr>,
     acr_owner_special_authority = sa, acr_active_special_authority = None, acr_buyback_options = None\<rparr>"

lemma chain_db_registry_ok: "registry_ok chain_db"
proof -
  have "\<not> has_special_authority (sample_account i)" "listed (sample_account i) = {}" "lists_agree i (sample_account i) j (sample_account j)" for i j
    by (simp_all add: sample_account_def has_special_authority_def listed_def lists_agree_def)
  then show ?thesis
    by (simp add: registry_ok_def special_ok_def listing_ok_def buyback_ok_def chain_accounts chain_assets)
       (simp add: sample_asset_def)
qed

theorem account_registry_invariant_witness:
  "\<exists>db'. account_create_evaluator int64_ops new_evaluation_state (Inr 20) (sample_account_create ''alice'' (Some (Top_holders_special_authority 1 3))) chain_db = Inr db' \<and>
     conserves chain_db db' \<and> registry_ok db'"
proof -
  let ?op = "sample_account_create ''alice'' (Some (Top_holders_special_authority 1 3))"
  have "\<not> isl (account_create_evaluator int64_ops new_evaluation_state (Inr 20) ?op chain_db)" by code_simp
  then obtain db' where "account_create_evaluator int64_ops new_evaluation_state (Inr 20) ?op chain_db = Inr db'" using not_isl_Inr by blast
  with account_registry_invariant [OF std.charging_axioms chain_db_ok chain_db_balances_ok chain_db_registry_ok, of "Inr 20" ?op]
  show ?thesis by blast
qed

section \<open>Scaling the registration fee\<close>

definition register_accounts :: "safe_ops \<Rightarrow> transaction_evaluation_state \<Rightarrow> (account_create_operation \<Rightarrow> share_type result) \<Rightarrow>
    account_create_operation list \<Rightarrow> database \<Rightarrow> database result" where
  "register_accounts S T required ops = fold_result (\<lambda>op. account_create_evaluator S T (required op) op) ops"

definition fee_scaled :: "chain_parameters \<Rightarrow> nat \<Rightarrow> database \<Rightarrow> bool" where
  "fee_scaled p n db \<longleftrightarrow> db_ok db \<and> balances_ok db \<and> gp_pending_parameters (db_global db) = None \<and>
     dg_accounts_registered_this_interval (db_dynamic db) = n \<and>
     params db = p\<lparr>cp_account_create_basic_fee :=
       push_bit (cp_account_fee_scale_bitshifts p * (n div cp_accounts_per_fee_scale p)) (cp_account_create_basic_fee p)\<rparr>"

lemma account_create_do_apply_scales:
  assumes a: "account_create_do_apply op x db = Inr (i, db')" and ok: "db_ok db" "balances_ok db"
  obtains d d' where "scale_registration_fee d = Inr d'" and "db_dynamic d = db_dynamic db" and "db_global d = db_global db"
    and "db_dynamic db' = db_dynamic d'" and "db_global db' = db_global d'"
proof -
  obtain st db1 db2 db3 db4 and r :: account_object where "index_find (db_accounts db) (acr_referrer op) = Some r"
    and d1: "create_statistics (new_statistics (next_id (db_accounts db))) db = Inr (st, db1)"
    and d2: "create_account (new_account op (ac_lifetime_referrer r) st db1) db1 = Inr (i, db2)"
    and d3: "scale_registration_fee db2 = Inr db3"
    and d4: "if acr_owner_special_authority op \<noteq> None \<or> acr_active_special_authority op \<noteq> None
      then \<exists>j. create_special_authority \<lparr>sa_account = i\<rparr> db3 = Inr (j, db4) else db4 = db3"
    and d5: "case acr_buyback_options op of None \<Rightarrow> db' = db4
      | Some b \<Rightarrow> \<exists>j d. create_buyback \<lparr>bb_asset_to_buy = bo_asset_to_buy b\<rparr> db4 = Inr (j, d) \<and>
          modify_asset (bo_asset_to_buy b) (\<lambda>a. Inr (a\<lparr>at_buyback_account := Some i\<rparr>)) d = Inr db'"
    using a by (rule account_create_steps) (rule that)
  have "db_dynamic db2 = db_dynamic db" "db_global db2 = db_global db"
    using d1 d2 by (auto simp: create_statistics_def create_account_def rbind_Inr)
  moreover have "db_dynamic db4 = db_dynamic db3" "db_global db4 = db_global db3"
    using d4 by (auto simp: create_special_authority_def rbind_Inr split: if_splits)
  moreover have "db_dynamic db' = db_dynamic db4" "db_global db' = db_global db4"
    using d5 by (auto simp: create_buyback_def modify_asset_def rbind_Inr split: option.splits)
  ultimately show ?thesis using that [OF d3] by simp
qed

lemma scale_registration_fee_step:
  assumes r: "scale_registration_fee d = Inr d'" and n: "dg_accounts_registered_this_interval (db_dynamic d) = n" "n + 1 < 2 ^ 32"
    and p: "params d = p\<lparr>cp_account_create_basic_fee :=
       push_bit (cp_account_fee_scale_bitshifts p * (n div cp_accounts_per_fee_scale p)) (cp_account_create_basic_fee p)\<rparr>"
  shows "dg_accounts_registered_this_interval (db_dynamic d') = n + 1"
    and "gp_pending_parameters (db_global d') = gp_pending_parameters (db_global d)"
    and "params d' = p\<lparr>cp_account_create_basic_fee :=
       push_bit (cp_account_fee_scale_bitshifts p * ((n + 1) div cp_accounts_per_fee_scale p)) (cp_account_create_basic_fee p)\<rparr>"
proof -
  note e = scale_registration_fee_Inr [OF r]
  show n': "dg_accounts_registered_this_interval (db_dynamic d') = n + 1"
    by (subst e(1)) (use n in \<open>simp add: set_basic_fee_def count_registration_def\<close>)
  show "gp_pending_parameters (db_global d') = gp_pending_parameters (db_global d)"
    by (subst e(1)) (simp add: set_basic_fee_def count_registration_def)
  have "params d' = (params d)\<lparr>cp_account_create_basic_fee := (if (n + 1) mod cp_accounts_per_fee_scale p = 0
      then push_bit (cp_account_fee_scale_bitshifts p) (cp_account_create_basic_fee (params d))
      else cp_account_create_basic_fee (params d))\<rparr>"
    by (subst e(1), subst n') (simp add: set_basic_fee_def count_registration_def params_def p [unfolded params_def])
  then show "params d' = p\<lparr>cp_account_create_basic_fee :=
       push_bit (cp_account_fee_scale_bitshifts p * ((n + 1) div cp_accounts_per_fee_scale p)) (cp_account_create_basic_fee p)\<rparr>"
    by (simp add: p push_bit_push_bit div_Suc algebra_simps)
qed

context charging
begin

lemma account_create_fee_scaled:
  assumes run: "account_create_evaluator S T required op db = Inr db'" and inv: "fee_scaled p n db" and n: "n + 1 < 2 ^ 32"
  shows "fee_scaled p (n + 1) db'"
proof -
  have ok: "db_ok db" "balances_ok db" using inv by (simp_all add: fee_scaled_def)
  obtain fs x db2 db3 where ap: "rbind (account_create_do_apply op x db2) (\<lambda>(i, d). Inr d) = Inr db3"
    and ok2: "db_ok db2" "balances_ok db2" and f: "fee_frame db db2"
    and adj: "adjust_balance S (acr_registrar op) (mk_asset (- amount (acr_fee op)) (asset_id (acr_fee op))) db3 = Inr db'"
    using run [unfolded account_create_evaluator_def] ok fees_charged by (rule default_pay.start_evaluate_steps) (rule that)
  from ap obtain i where a: "account_create_do_apply op x db2 = Inr (i, db3)" by (auto simp: rbind_Inr)
  obtain d d' where s: "scale_registration_fee d = Inr d'" and d: "db_dynamic d = db_dynamic db2" "db_global d = db_global db2"
    and d': "db_dynamic db3 = db_dynamic d'" "db_global db3 = db_global d'"
    using a ok2 by (rule account_create_do_apply_scales) (rule that)
  have c: "conserves db2 db3" by (rule account_create_do_apply_conserves [OF a ok2])
  then have ok3: "db_ok db3" "balances_ok db3" by (simp_all add: conserves_def)
  note adj' = adjust_balance_adjusted [OF adj ok3] and F = fee_frame_fields(5,6) [OF f]
  have "dg_accounts_registered_this_interval (db_dynamic d) = n" "params d = p\<lparr>cp_account_create_basic_fee :=
       push_bit (cp_account_fee_scale_bitshifts p * (n div cp_accounts_per_fee_scale p)) (cp_account_create_basic_fee p)\<rparr>"
    using inv d F by (simp_all add: fee_scaled_def params_def)
  from scale_registration_fee_step [OF s this(1) n this(2)]
  show ?thesis
    using adj' adjusted_fields(5,6) [OF adj'] d d' inv F by (simp add: fee_scaled_def params_def adjusted_def)
qed

lemma register_accounts_fee_scaled:
  "register_accounts S T required ops db = Inr db' \<Longrightarrow> fee_scaled p n db \<Longrightarrow> n + length ops < 2 ^ 32 \<Longrightarrow> fee_scaled p (n + length ops) db'"
proof (induction ops arbitrary: n db)
  case (Cons op ops)
  from Cons.prems(1) obtain db1 where d1: "account_create_evaluator S T (required op) op db = Inr db1"
    and d2: "register_accounts S T required ops db1 = Inr db'" by (auto simp: register_accounts_def rbind_Inr)
  have "fee_scaled p (n + 1) db1" by (rule account_create_fee_scaled [OF d1]) (use Cons.prems in auto)
  from Cons.IH [OF d2 this] Cons.prems(3) show ?case by simp
qed (simp add: register_accounts_def)

end

lemma drop_push_bit:
  fixes f :: "64 word"
  assumes fits: "uint f * 2 ^ s < 2 ^ 64"
  shows "drop_bit s (push_bit s f) = f"
proof -
  have u: "uint (push_bit s f) = uint f * 2 ^ s"
    unfolding unsigned_push_bit_eq using fits by (simp add: push_bit_eq_mult take_bit_int_eq_self)
  have "uint (drop_bit s (push_bit s f)) = uint f"
    unfolding unsigned_drop_bit_eq u using fits by (simp add: drop_bit_eq_div take_bit_int_eq_self)
  then show ?thesis by (simp add: word_uint_eq_iff)
qed

text \<open>C27.
  The scaling of the registration fee is undone at maintenance: after any number of registrations in an interval,
  if the scaled basic fee still fits into 64 bits, removing the scaling gives back exactly the parameters from
  before them.
\<close>

theorem account_fee_restored:
  assumes "charging S T" and "db_ok db" "balances_ok db" and "dg_accounts_registered_this_interval (db_dynamic db) = 0"
    and "gp_pending_parameters (db_global db) = None" and "length ops < 2 ^ 32" and "0 < cp_accounts_per_fee_scale (params db)"
    and run: "register_accounts S T required ops db = Inr db'"
    and shift: "shift = cp_account_fee_scale_bitshifts (params db) * (length ops div cp_accounts_per_fee_scale (params db))" "shift < 64"
    and fits: "uint (cp_account_create_basic_fee (params db)) * 2 ^ shift < 2 ^ 64"
  shows "cp_account_create_basic_fee (params db') = push_bit shift (cp_account_create_basic_fee (params db)) \<and>
    (\<exists>db''. remove_fee_scaling db' = Inr db'' \<and> params db'' = params db)"
proof -
  have "fee_scaled (params db) 0 db" using assms(2-5) by (simp add: fee_scaled_def)
  from charging.register_accounts_fee_scaled [OF assms(1) run this] assms(6)
  have *: "gp_pending_parameters (db_global db') = None" "dg_accounts_registered_this_interval (db_dynamic db') = length ops"
    "params db' = (params db)\<lparr>cp_account_create_basic_fee := push_bit shift (cp_account_create_basic_fee (params db))\<rparr>"
    by (simp_all add: fee_scaled_def shift(1))
  with * drop_push_bit [OF fits] assms(7) shift show ?thesis
    by (simp add: remove_fee_scaling_def Let_def set_basic_fee_def params_def)
qed

definition scaling_db :: database where
  "scaling_db = chain_db\<lparr>db_global := (db_global chain_db)\<lparr>gp_parameters := sample_params\<lparr>cp_accounts_per_fee_scale := 2\<rparr>\<rparr>\<rparr>"

definition sample_registrations :: "account_create_operation list" where
  "sample_registrations = map (\<lambda>nm. sample_account_create nm None) [''a'', ''b'', ''c'']"

theorem account_fee_restored_witness:
  "\<exists>db' db''. register_accounts int64_ops new_evaluation_state (\<lambda>op. Inr 20) sample_registrations scaling_db = Inr db' \<and>
     cp_account_create_basic_fee (params db') = 1600 \<and> remove_fee_scaling db' = Inr db'' \<and> cp_account_create_basic_fee (params db'') = 100"
proof -
  have "\<not> isl (register_accounts int64_ops new_evaluation_state (\<lambda>op. Inr 20) sample_registrations scaling_db)" by code_simp
  then obtain db' where d: "register_accounts int64_ops new_evaluation_state (\<lambda>op. Inr 20) sample_registrations scaling_db = Inr db'"
    using not_isl_Inr by blast
  have ok: "db_ok scaling_db" "balances_ok scaling_db"
    using global_conserves [OF chain_db_ok chain_db_balances_ok] by (simp_all add: scaling_db_def conserves_def)
  have n: "dg_accounts_registered_this_interval (db_dynamic scaling_db) = 0" "gp_pending_parameters (db_global scaling_db) = None"
    by (simp_all add: scaling_db_def chain_db_def sample_dynamic_def)
  have p: "cp_account_create_basic_fee (params scaling_db) = 100" "cp_accounts_per_fee_scale (params scaling_db) = 2"
    "cp_account_fee_scale_bitshifts (params scaling_db) = 4"
    by (simp_all add: scaling_db_def params_def sample_params_def)
  have len: "length sample_registrations = 3" by (simp add: sample_registrations_def)
  have "cp_account_create_basic_fee (params db') = push_bit 4 (cp_account_create_basic_fee (params scaling_db)) \<and>
      (\<exists>db''. remove_fee_scaling db' = Inr db'' \<and> params db'' = params scaling_db)"
    by (rule account_fee_restored [OF std.charging_axioms ok n _ _ d]) (simp_all add: p len)
  moreover have "push_bit 4 (100 :: 64 word) = 1600" by (simp add: push_bit_eq_mult)
  ultimately show ?thesis using d p(1) by metis
qed

text \<open>
  Beyond 64 bits the scaling is not undone: with the default parameters, a basic fee of one token and a shift of four
  bits for every thousand accounts, the twelve-thousandth registration of an interval loses the high bits of the
  fee, and maintenance leaves a lower fee for good.
\<close>

theorem fee_scaling_overflow:
  assumes "params db = p\<lparr>cp_accounts_per_fee_scale := 1000, cp_account_fee_scale_bitshifts := 4,
      cp_account_create_basic_fee := push_bit 44 100000\<rparr>"
    and "dg_accounts_registered_this_interval (db_dynamic db) = 11999" and "gp_pending_parameters (db_global db) = None"
  shows "\<exists>db1 db2. scale_registration_fee db = Inr db1 \<and> remove_fee_scaling db1 = Inr db2 \<and>
    cp_account_create_basic_fee (params db2) = 34464"
  using assms
  by (simp add: scale_registration_fee_def remove_fee_scaling_def Let_def set_basic_fee_def params_def push_bit_eq_mult drop_bit_eq_div)

text \<open>
  An account created with an explicit \<open>no_special_authority\<close> has no special authority, yet gets an entry in the
  table of special authorities; giving it a special authority later fails, while it succeeds for an account created
  without the extension.
\<close>

definition sample_special_update :: account_update_operation where
  "sample_special_update = \<lparr>aup_fee = mk_asset 0 1, aup_account = 10, aup_owner = None, aup_active = None, aup_new_options = None,
     aup_owner_special_authority = Some (Top_holders_special_authority 1 3), aup_active_special_authority = None\<rparr>"

theorem no_special_authority_locks_out:
  "isl (rbind (account_create_evaluator int64_ops new_evaluation_state (Inr 20) (sample_account_create ''alice'' (Some No_special_authority)) chain_db)
       (account_update_evaluator int64_ops new_evaluation_state (Inr 0) sample_special_update)) \<and>
   \<not> isl (account_create_evaluator int64_ops new_evaluation_state (Inr 20) (sample_account_create ''alice'' (Some No_special_authority)) chain_db) \<and>
   \<not> isl (rbind (account_create_evaluator int64_ops new_evaluation_state (Inr 20) (sample_account_create ''alice'' None) chain_db)
       (account_update_evaluator int64_ops new_evaluation_state (Inr 0) sample_special_update))"
  by code_simp

end
