(* ===== verification/Vesting_Evaluator.thy ===== *)
theory Vesting_Evaluator
  imports Asset_Ops
begin

text \<open>
  The two operations on vesting balances (protocol/vesting.hpp, vesting_balance_evaluator.cpp): creating
  one out of an account's balance and withdrawing from it.
\<close>

section \<open>Operations\<close>

record linear_vesting_policy_initializer =
  li_begin_timestamp :: time_point_sec
  li_vesting_cliff_seconds :: u32
  li_vesting_duration_seconds :: u32

record cdd_vesting_policy_initializer =
  ci_start_claim :: time_point_sec
  ci_vesting_seconds :: u32

datatype vesting_policy_initializer =
    Linear_initializer linear_vesting_policy_initializer
  | Cdd_initializer cdd_vesting_policy_initializer

record vesting_balance_create_operation =
  vc_fee :: asset
  vc_creator :: account_id_type
  vc_owner :: account_id_type
  vc_op_amount :: asset
  vc_policy :: vesting_policy_initializer

record vesting_balance_withdraw_operation =
  vw_fee :: asset
  vw_vesting_balance :: nat
  vw_owner :: account_id_type
  vw_amount :: asset

definition vesting_balance_create_validate :: "vesting_balance_create_operation \<Rightarrow> unit result" where
  "vesting_balance_create_validate op =
     fc_assert (amount (vc_fee op) \<ge> 0) (fc_assert (amount (vc_op_amount op) > 0) (Inr ()))"

definition vesting_balance_withdraw_validate :: "vesting_balance_withdraw_operation \<Rightarrow> unit result" where
  "vesting_balance_withdraw_validate op =
     fc_assert (amount (vw_fee op) \<ge> 0) (fc_assert (amount (vw_amount op) > 0) (Inr ()))"

section \<open>Evaluators\<close>

definition vesting_balance_create_do_evaluate :: "vesting_balance_create_operation \<Rightarrow> fee_state \<Rightarrow> database \<Rightarrow> unit result" where
  "vesting_balance_create_do_evaluate op fs db =
     rbind (index_get (db_accounts db) (vc_creator op)) (\<lambda>_.
     rbind (index_get (db_accounts db) (vc_owner op)) (\<lambda>_.
     fc_assert (amount (vc_op_amount op) > 0)
     (rbind (asset_ge (get_balance db (vc_creator op) (asset_id (vc_op_amount op))) (vc_op_amount op)) (\<lambda>enough.
      fc_assert enough
      (rbind (index_get (db_assets db) (asset_id (vc_op_amount op))) (\<lambda>a.
       fc_assert (\<not> is_transfer_restricted a) (Inr ())))))))"

definition init_policy :: "share_type \<Rightarrow> time_point_sec \<Rightarrow> vesting_policy_initializer \<Rightarrow> vesting_policy" where
  "init_policy init_balance now i = (case i of
     Linear_initializer i \<Rightarrow> Linear \<lparr>begin_timestamp = li_begin_timestamp i, vesting_cliff_seconds = li_vesting_cliff_seconds i,
       vesting_duration_seconds = li_vesting_duration_seconds i, begin_balance = init_balance\<rparr>
   | Cdd_initializer i \<Rightarrow> Cdd \<lparr>vesting_seconds = ci_vesting_seconds i, coin_seconds_earned = 0,
       start_claim = ci_start_claim i, coin_seconds_earned_last_update = now\<rparr>)"

definition vesting_balance_create_do_apply ::
  "safe_ops \<Rightarrow> vesting_balance_create_operation \<Rightarrow> unit \<Rightarrow> database \<Rightarrow> database result" where
  "vesting_balance_create_do_apply S op x db =
     rbind (asset_ge (get_balance db (vc_creator op) (asset_id (vc_op_amount op))) (vc_op_amount op)) (\<lambda>enough.
     fc_assert enough
     (rbind (asset_neg S (vc_op_amount op)) (\<lambda>minus.
      rbind (adjust_balance S (vc_creator op) minus db) (\<lambda>db1.
      rbind (create_vesting \<lparr>vb_owner = vc_owner op, vb_balance = vc_op_amount op,
               vb_policy = init_policy (amount (vc_op_amount op)) (head_block_time db) (vc_policy op)\<rparr> db1) (\<lambda>(i, db2).
      Inr db2)))))"

definition vesting_balance_withdraw_do_evaluate ::
  "safe_ops \<Rightarrow> vesting_balance_withdraw_operation \<Rightarrow> fee_state \<Rightarrow> database \<Rightarrow> unit result" where
  "vesting_balance_withdraw_do_evaluate S op fs db =
     rbind (index_get (db_vesting db) (vw_vesting_balance op)) (\<lambda>vbo.
     fc_assert (vw_owner op = vb_owner vbo)
     (rbind (vb_is_withdraw_allowed S vbo (head_block_time db) (vw_amount op)) (\<lambda>allowed.
      fc_assert allowed
      (rbind (asset_le (vw_amount op) (vb_balance vbo)) (\<lambda>covered.
       fc_assert covered
       (rbind (index_get (db_accounts db) (vw_owner op)) (\<lambda>_. Inr ())))))))"

definition vesting_balance_withdraw_do_apply ::
  "safe_ops \<Rightarrow> vesting_balance_withdraw_operation \<Rightarrow> unit \<Rightarrow> database \<Rightarrow> database result" where
  "vesting_balance_withdraw_do_apply S op x db =
     rbind (modify_vesting (vw_vesting_balance op) (vb_withdraw S (head_block_time db) (vw_amount op)) db) (\<lambda>db1.
     adjust_balance S (vw_owner op) (vw_amount op) db1)"

definition vesting_balance_create_evaluator :: "safe_ops \<Rightarrow> transaction_evaluation_state \<Rightarrow> share_type result \<Rightarrow>
    vesting_balance_create_operation \<Rightarrow> database \<Rightarrow> database result" where
  "vesting_balance_create_evaluator S T required op =
     start_evaluate S T required (pay_fee S T) (vc_creator op) (vc_fee op)
       (vesting_balance_create_do_evaluate op) (vesting_balance_create_do_apply S op)"

definition vesting_balance_withdraw_evaluator :: "safe_ops \<Rightarrow> transaction_evaluation_state \<Rightarrow> share_type result \<Rightarrow>
    vesting_balance_withdraw_operation \<Rightarrow> database \<Rightarrow> database result" where
  "vesting_balance_withdraw_evaluator S T required op =
     start_evaluate S T required (pay_fee S T) (vw_owner op) (vw_fee op)
       (vesting_balance_withdraw_do_evaluate S op) (vesting_balance_withdraw_do_apply S op)"

section \<open>Effects\<close>

text \<open>A new vesting balance satisfies its invariant from the start.\<close>

lemma init_policy_ok:
  assumes "0 \<le> amount a" "amount a \<le> GRAPHENE_MAX_SHARE_SUPPLY" "now < 2 ^ 32"
  shows "vb_ok now \<lparr>vb_owner = w, vb_balance = a, vb_policy = init_policy (amount a) now i\<rparr>"
proof (cases i)
  case (Linear_initializer x)
  then show ?thesis using assms vested_so_far_bounds
    by (simp add: vb_ok_def init_policy_def linear_ok_def)
next
  case (Cdd_initializer x)
  then show ?thesis using assms by (simp add: vb_ok_def init_policy_def cdd_ok_def effective_seconds_def)
qed

definition vesting_ok :: "database \<Rightarrow> bool" where
  "vesting_ok db \<longleftrightarrow> (\<forall>i v. index_find (db_vesting db) i = Some v \<longrightarrow> vb_ok (head_block_time db) v)"

context checked_int64
begin

lemma vesting_create_effect:
  assumes a: "vesting_balance_create_do_apply S op x db = Inr db'" and ok: "db_ok db" "balances_ok db"
  shows "conserves db db'"
    and "bal db' b k = bal db b k -
      (if b = vc_creator op \<and> k = asset_id (vc_op_amount op) then amount (vc_op_amount op) else 0)"
    and "\<exists>i. index_find (db_vesting db) i = None \<and>
      index_find (db_vesting db') = (index_find (db_vesting db))(i \<mapsto> \<lparr>vb_owner = vc_owner op, vb_balance = vc_op_amount op,
        vb_policy = init_policy (amount (vc_op_amount op)) (head_block_time db) (vc_policy op)\<rparr>)"
    and "head_block_time db' = head_block_time db"
proof -
  let ?a = "vc_op_amount op"
  let ?v = "\<lparr>vb_owner = vc_owner op, vb_balance = ?a, vb_policy = init_policy (amount ?a) (head_block_time db) (vc_policy op)\<rparr>"
  from a obtain db1 i where d1: "adjust_balance S (vc_creator op) (mk_asset (- amount ?a) (asset_id ?a)) db = Inr db1"
    and d2: "create_vesting ?v db1 = Inr (i, db')"
    by (auto simp: vesting_balance_create_do_apply_def rbind_Inr asset_neg_Inr ensure_Inr)
  note a1 = adjust_balance_adjusted [OF d1 ok]
  then have ok1: "db_ok db1" "balances_ok db1" by (auto simp: adjusted_def)
  note c = create_vesting_effect [OF d2 ok1(1)]
  have "balances_ok db' = balances_ok db1" "current_core_asset_id db' = current_core_asset_id db1"
    by (subst c(1), simp add: balances_ok_def)+
  with c(2,5) a1 ok1 adjusted_fields(9) [OF a1] show "conserves db db'"
    by (auto simp: conserves_def adjusted_def of_asset_def fun_eq_iff)
  show "bal db' b k = bal db b k - (if b = vc_creator op \<and> k = asset_id ?a then amount ?a else 0)"
    using a1 by (subst c(1)) (simp add: bal_simps adjusted_def)
  show "head_block_time db' = head_block_time db" using adjusted_fields(8) [OF a1] by (subst c(1)) simp
  show "\<exists>i. index_find (db_vesting db) i = None \<and> index_find (db_vesting db') = (index_find (db_vesting db))(i \<mapsto> ?v)"
    using c(3,4) adjusted_fields(7) [OF a1] by auto
qed

lemma vesting_withdraw_effect:
  assumes a: "vesting_balance_withdraw_do_apply S op x db = Inr db'" and ok: "db_ok db" "balances_ok db"
  shows "conserves db db'"
    and "bal db' b k = bal db b k + (if b = vw_owner op \<and> k = asset_id (vw_amount op) then amount (vw_amount op) else 0)"
    and "\<exists>v v'. index_find (db_vesting db) (vw_vesting_balance op) = Some v \<and>
      vb_withdraw S (head_block_time db) (vw_amount op) v = Inr v' \<and>
      index_find (db_vesting db') = (index_find (db_vesting db))(vw_vesting_balance op \<mapsto> v')"
    and "head_block_time db' = head_block_time db"
proof -
  let ?a = "vw_amount op"
  from a obtain db1 where d1: "modify_vesting (vw_vesting_balance op) (vb_withdraw S (head_block_time db) ?a) db = Inr db1"
    and d2: "adjust_balance S (vw_owner op) ?a db1 = Inr db'"
    by (auto simp: vesting_balance_withdraw_do_apply_def rbind_Inr)
  obtain v v' where v: "index_find (db_vesting db) (vw_vesting_balance op) = Some v"
    "vb_withdraw S (head_block_time db) ?a v = Inr v'"
    "index_find (db_vesting db1) = (index_find (db_vesting db))(vw_vesting_balance op \<mapsto> v')"
    "db1 = db\<lparr>db_vesting := db_vesting db1\<rparr>" "db_ok db1"
    "\<forall>k. surplus db1 k = surplus db k + of_asset k (vb_balance v') - of_asset k (vb_balance v)"
    using d1 ok(1) by (rule modify_vesting_effect) (rule that)
  have b1: "balances_ok db1" using ok(2) by (subst v(4)) (simp add: balances_ok_def)
  note a1 = adjust_balance_adjusted [OF d2 v(5) b1]
  have w: "asset_id (vb_balance v) = asset_id ?a" "vb_balance v' = mk_asset (amount (vb_balance v) - amount ?a) (asset_id ?a)"
    using v(2) by (auto simp: vb_withdraw_def Let_def asset_sub_def result_simps)
  have "current_core_asset_id db1 = current_core_asset_id db" "bal db1 = bal db" "head_block_time db1 = head_block_time db"
    by (subst v(4), simp add: bal_simps)+
  with a1 v(6) w adjusted_fields(8,9) [OF a1] show "conserves db db'"
    and "bal db' b k = bal db b k + (if b = vw_owner op \<and> k = asset_id ?a then amount ?a else 0)"
    and "head_block_time db' = head_block_time db"
    by (auto simp: conserves_def adjusted_def of_asset_def fun_eq_iff)
  show "\<exists>v v'. index_find (db_vesting db) (vw_vesting_balance op) = Some v \<and>
      vb_withdraw S (head_block_time db) ?a v = Inr v' \<and>
      index_find (db_vesting db') = (index_find (db_vesting db))(vw_vesting_balance op \<mapsto> v')"
    using v(1-3) adjusted_fields(7) [OF a1] by auto
qed

end

sublocale charging < vesting_create: moving_evaluator S "pay_fee S T" fs_core_fee_paid
    "vesting_balance_create_do_evaluate op" "vesting_balance_create_do_apply S op"
    "\<lambda>a k. - (if a = vc_creator op \<and> k = asset_id (vc_op_amount op) then amount (vc_op_amount op) else 0)" for op
  by unfold_locales (auto simp: credits_zero vesting_create_effect)

sublocale charging < vesting_withdraw: moving_evaluator S "pay_fee S T" fs_core_fee_paid
    "vesting_balance_withdraw_do_evaluate S op" "vesting_balance_withdraw_do_apply S op"
    "\<lambda>a k. if a = vw_owner op \<and> k = asset_id (vw_amount op) then amount (vw_amount op) else 0" for op
  by unfold_locales (auto simp: credits_zero vesting_withdraw_effect)

lemma asset_le_amount: "asset_le a b = Inr True \<Longrightarrow> amount a \<le> amount b"
  by (auto simp: asset_le_def asset_lt_def result_simps split: if_splits)

context charging
begin

lemma vesting_create_keeps_ok:
  assumes run: "vesting_balance_create_evaluator S T required op db = Inr db'" and ok: "db_ok db" "balances_ok db"
    and v: "vesting_ok db" and a: "0 < amount (vc_op_amount op)" "amount (vc_op_amount op) \<le> GRAPHENE_MAX_SHARE_SUPPLY"
    and now: "head_block_time db < 2 ^ 32"
  shows "vesting_ok db'"
proof -
  obtain fs x db2 db3 where e: "vesting_balance_create_do_evaluate op fs db = Inr x"
    and ap: "vesting_balance_create_do_apply S op x db2 = Inr db3"
    and ok2: "db_ok db2" "balances_ok db2" and f: "fee_frame db db2"
    and adj: "adjust_balance S (vc_creator op) (mk_asset (- amount (vc_fee op)) (asset_id (vc_fee op))) db3 = Inr db'"
    using run [unfolded vesting_balance_create_evaluator_def] ok fees_charged by (rule default_pay.start_evaluate_steps) (rule that)
  note c = vesting_create_effect [OF ap ok2]
  have "db_ok db3" "balances_ok db3" using c(1) by (auto simp: conserves_def)
  note adj' = adjusted_fields [OF adjust_balance_adjusted [OF adj this]]
  have "vb_ok (head_block_time db) w" if "index_find (db_vesting db') j = Some w" for j w
    using that c(3) v init_policy_ok [of "vc_op_amount op" "head_block_time db"] a now
    by (auto simp: adj' fee_frame_fields [OF f] vesting_ok_def split: if_splits)
  then show ?thesis by (simp add: vesting_ok_def adj' c(4) fee_frame_fields [OF f])
qed

lemma vesting_withdraw_keeps_ok:
  assumes run: "vesting_balance_withdraw_evaluator S T required op db = Inr db'" and ok: "db_ok db" "balances_ok db"
    and v: "vesting_ok db" and a: "0 < amount (vw_amount op)"
  shows "vesting_ok db'" and "\<exists>w r. index_find (db_vesting db) (vw_vesting_balance op) = Some w \<and> vb_owner w = vw_owner op \<and>
    vb_get_allowed_withdraw S w (head_block_time db) = Inr r \<and> amount (vw_amount op) \<le> amount r \<and>
    amount r \<le> amount (vb_balance w)"
proof -
  obtain fs x db2 db3 where e: "vesting_balance_withdraw_do_evaluate S op fs db = Inr x"
    and ap: "vesting_balance_withdraw_do_apply S op x db2 = Inr db3"
    and ok2: "db_ok db2" "balances_ok db2" and f: "fee_frame db db2"
    and adj: "adjust_balance S (vw_owner op) (mk_asset (- amount (vw_fee op)) (asset_id (vw_fee op))) db3 = Inr db'"
    using run [unfolded vesting_balance_withdraw_evaluator_def] ok fees_charged by (rule default_pay.start_evaluate_steps) (rule that)
  from e obtain w where w: "index_find (db_vesting db) (vw_vesting_balance op) = Some w" "vb_owner w = vw_owner op"
    "vb_is_withdraw_allowed S w (head_block_time db) (vw_amount op) = Inr True"
    by (auto simp: vesting_balance_withdraw_do_evaluate_def result_simps)
  have wok: "vb_ok (head_block_time db) w" using v w(1) by (auto simp: vesting_ok_def)
  note c = vesting_withdraw_effect [OF ap ok2]
  have "db_ok db3" "balances_ok db3" using c(1) by (auto simp: conserves_def)
  note adj' = adjusted_fields [OF adjust_balance_adjusted [OF adj this]]
  from c(3) obtain w' where w': "vb_withdraw S (head_block_time db) (vw_amount op) w = Inr w'"
    "index_find (db_vesting db3) = (index_find (db_vesting db))(vw_vesting_balance op \<mapsto> w')"
    using w(1) by (auto simp: fee_frame_fields [OF f])
  have i: "asset_id (vw_amount op) = asset_id (vb_balance w)"
    using w'(1) by (auto simp: vb_withdraw_def Let_def asset_sub_def result_simps)
  have "vb_ok (head_block_time db) w'" using vb_withdraw_ok [OF wok w(3) _ i] a w'(1) by auto
  with v show "vesting_ok db'" by (auto simp: vesting_ok_def adj' c(4) fee_frame_fields [OF f] w'(2))
  obtain r where r: "vb_get_allowed_withdraw S w (head_block_time db) = Inr (mk_asset r (asset_id (vb_balance w)))"
    "r \<le> amount (vb_balance w)"
    using vb_allowed_bounds [OF wok] by blast
  have "amount (vw_amount op) \<le> r"
    using w(3) r(1) i
    by (auto simp: vb_is_withdraw_allowed_def vb_get_allowed_withdraw_def linear_is_withdraw_allowed_def linear_get_allowed_withdraw_def
        cdd_is_withdraw_allowed_def cdd_get_allowed_withdraw_def compute_coin_seconds_earned_def vb_ctx_def Let_def result_simps
        split: vesting_policy.splits if_splits dest!: asset_le_amount)
  with r w show "\<exists>w r. index_find (db_vesting db) (vw_vesting_balance op) = Some w \<and> vb_owner w = vw_owner op \<and>
      vb_get_allowed_withdraw S w (head_block_time db) = Inr r \<and> amount (vw_amount op) \<le> amount r \<and> amount r \<le> amount (vb_balance w)"
    by auto
qed

lemma vesting_withdraw_ledger:
  assumes "vesting_balance_withdraw_evaluator S T required op db = Inr db'" "db_ok db" "balances_ok db"
  shows "conserves db db'" and "bal db' a k = bal db a k +
      (if a = vw_owner op \<and> k = asset_id (vw_amount op) then amount (vw_amount op) else 0) -
      (if a = vw_owner op \<and> k = asset_id (vw_fee op) then amount (vw_fee op) else 0)"
  using vesting_withdraw.start_evaluate_conserves [OF assms(1) [unfolded vesting_balance_withdraw_evaluator_def] assms(2,3) fees_charged]
    vesting_withdraw.start_evaluate_moves [OF assms(1) [unfolded vesting_balance_withdraw_evaluator_def] assms(2,3) fees_charged, of a k]
  by simp_all

lemma vesting_create_ledger:
  assumes "vesting_balance_create_evaluator S T required op db = Inr db'" "db_ok db" "balances_ok db"
  shows "conserves db db'"
  by (rule vesting_create.start_evaluate_conserves [OF assms(1) [unfolded vesting_balance_create_evaluator_def] assms(2,3) fees_charged])

end

section \<open>Properties of the vesting operations\<close>

text \<open>C32.
  Both operations keep every vesting balance of the chain well-formed and conserve every asset. A withdrawal
  goes only to the owner, takes no more than has vested, and credits exactly the amount less the fee.
\<close>

theorem vesting_operations_sound:
  assumes "charging S T" and "db_ok db" "balances_ok db" "vesting_ok db" and "head_block_time db < 2 ^ 32"
    and "vesting_balance_withdraw_validate wop = Inr ()" and "vesting_balance_create_validate cop = Inr ()"
    and "amount (vc_op_amount cop) \<le> GRAPHENE_MAX_SHARE_SUPPLY"
  shows "(vesting_balance_create_evaluator S T required cop db = Inr db1 \<longrightarrow> conserves db db1 \<and> vesting_ok db1) \<and>
    (vesting_balance_withdraw_evaluator S T required wop db = Inr db2 \<longrightarrow> conserves db db2 \<and> vesting_ok db2 \<and>
      (\<exists>w r. index_find (db_vesting db) (vw_vesting_balance wop) = Some w \<and> vb_owner w = vw_owner wop \<and>
        vb_get_allowed_withdraw S w (head_block_time db) = Inr r \<and> amount (vw_amount wop) \<le> amount r \<and>
        amount r \<le> amount (vb_balance w)) \<and>
      (\<forall>a k. bal db2 a k = bal db a k +
        (if a = vw_owner wop \<and> k = asset_id (vw_amount wop) then amount (vw_amount wop) else 0) -
        (if a = vw_owner wop \<and> k = asset_id (vw_fee wop) then amount (vw_fee wop) else 0)))"
proof -
  have a: "0 < amount (vw_amount wop)" "0 < amount (vc_op_amount cop)"
    using assms(6,7) by (auto simp: vesting_balance_withdraw_validate_def vesting_balance_create_validate_def result_simps)
  show ?thesis
    using charging.vesting_create_keeps_ok [OF assms(1) _ assms(2-4) a(2) assms(8,5)]
      charging.vesting_create_ledger [OF assms(1) _ assms(2,3)] charging.vesting_withdraw_keeps_ok [OF assms(1) _ assms(2-4) a(1)]
      charging.vesting_withdraw_ledger [OF assms(1) _ assms(2,3)] by blast
qed

definition vesting_db :: database where
  "vesting_db = issuer_db\<lparr>db_vesting := \<lparr>next_id = 1, rows = [(0, \<lparr>vb_owner = 9, vb_balance = mk_asset 200 2,
     vb_policy = Cdd \<lparr>vesting_seconds = 100, coin_seconds_earned = 5000, start_claim = 0,
       coin_seconds_earned_last_update = 1699999951\<rparr>\<rparr>)]\<rparr>\<rparr>"

lemma vesting_db_ok: "db_ok vesting_db" "balances_ok vesting_db" "vesting_ok vesting_db" "head_block_time vesting_db < 2 ^ 32"
proof -
  have "index_ok no_uk (db_vesting vesting_db)"
    by (rule index_okI) (simp_all add: vesting_db_def no_uk_def)
  with issuer_db_ok show "db_ok vesting_db" by (simp add: db_ok_def tables_ok_def dyn_links_ok_def vesting_db_def)
  show "balances_ok vesting_db" using issuer_db_balances_ok by (simp add: balances_ok_def vesting_db_def)
  have t: "head_block_time vesting_db = 1700000001" using chain_time by (simp add: vesting_db_def issuer_db_def)
  then show "head_block_time vesting_db < 2 ^ 32" by simp
  show "vesting_ok vesting_db" unfolding vesting_ok_def t
    by (auto simp: vesting_db_def index_find_def vb_ok_def cdd_ok_def effective_seconds_def GRAPHENE_MAX_SHARE_SUPPLY_def split: if_splits)
qed

theorem vesting_operations_sound_witness:
  "\<exists>db2. vesting_balance_withdraw_evaluator int64_ops new_evaluation_state (Inr 20)
      \<lparr>vw_fee = mk_asset 100 1, vw_vesting_balance = 0, vw_owner = 9, vw_amount = mk_asset 90 2\<rparr> vesting_db = Inr db2 \<and>
    vesting_ok db2 \<and> bal db2 9 2 = bal vesting_db 9 2 + 90"
proof -
  let ?w = "\<lparr>vw_fee = mk_asset 100 1, vw_vesting_balance = 0, vw_owner = 9, vw_amount = mk_asset 90 2\<rparr>"
  let ?c = "\<lparr>vc_fee = mk_asset 100 1, vc_creator = 9, vc_owner = 9, vc_op_amount = mk_asset 90 2,
      vc_policy = Cdd_initializer \<lparr>ci_start_claim = 0, ci_vesting_seconds = 5\<rparr>\<rparr>"
  have "\<not> isl (vesting_balance_withdraw_evaluator int64_ops new_evaluation_state (Inr 20) ?w vesting_db)" by code_simp
  then obtain db2 where d: "vesting_balance_withdraw_evaluator int64_ops new_evaluation_state (Inr 20) ?w vesting_db = Inr db2"
    using not_isl_Inr by blast
  with vesting_operations_sound [OF std.charging_axioms vesting_db_ok, of ?w ?c "Inr 20" db2 db2] show ?thesis
    by (simp add: vesting_balance_withdraw_validate_def vesting_balance_create_validate_def GRAPHENE_MAX_SHARE_SUPPLY_def)
qed

end
