(* ===== verification/Chain_Operations.thy ===== *)
theory Chain_Operations
  imports Asset_Ops Vesting_Evaluator Trust_Node_Ops Authority Block Witness_Schedule
begin

text \<open>
  Transactions (db_block.cpp, protocol/operations.cpp, protocol/transaction.cpp): the dispatch of an operation
  to its evaluator, the checks a transaction passes before its operations run, and the pending state that
  \<open>push_transaction\<close> extends.

  The operation type has the alternatives whose evaluators are modelled; evaluation results, receipts and
  notifications of observers are left out. The digest and the recovery of a key from a signature are of the fc
  library and arguments (\<open>crypto\<close>), as are the base fees of the current schedule (\<open>fee_table\<close>).
\<close>

section \<open>Operations\<close>

datatype 'memo operation =
    Transfer_op "'memo transfer_operation"
  | Override_transfer_op "'memo override_transfer_operation"
  | Inline_transfer_op inline_transfer_operation
  | Asset_create_op asset_create_operation
  | Asset_update_op asset_update_operation
  | Asset_issue_op "'memo asset_issue_operation"
  | Asset_reserve_op asset_reserve_operation
  | Asset_fund_fee_pool_op asset_fund_fee_pool_operation
  | Asset_claim_fees_op asset_claim_fees_operation
  | Vesting_balance_create_op vesting_balance_create_operation
  | Vesting_balance_withdraw_op vesting_balance_withdraw_operation
  | Staking_create_op staking_create_operation
  | Staking_update_op staking_update_operation
  | Staking_claim_op staking_claim_operation
  | Witness_create_op witness_create_operation
  | Witness_update_op witness_update_operation
  | Witness_set_commission_op witness_set_commission_operation
  | Witness_unbanned_op witness_unbanned_operation
  | Trust_node_pledge_withdraw_op trust_node_pledge_withdraw_operation
  | Committee_member_create_op committee_member_create_operation
  | Committee_member_update_op committee_member_update_operation
  | Update_global_parameters_op committee_member_update_global_parameters_operation

primrec operation_validate :: "'memo operation \<Rightarrow> unit result" where
  "operation_validate (Transfer_op x) = transfer_validate x"
| "operation_validate (Override_transfer_op x) = override_transfer_validate x"
| "operation_validate (Inline_transfer_op x) = inline_transfer_validate x"
| "operation_validate (Asset_create_op x) = asset_create_validate x"
| "operation_validate (Asset_update_op x) = asset_update_validate x"
| "operation_validate (Asset_issue_op x) = asset_issue_validate x"
| "operation_validate (Asset_reserve_op x) = asset_reserve_validate x"
| "operation_validate (Asset_fund_fee_pool_op x) = asset_fund_fee_pool_validate x"
| "operation_validate (Asset_claim_fees_op x) = asset_claim_fees_validate x"
| "operation_validate (Vesting_balance_create_op x) = vesting_balance_create_validate x"
| "operation_validate (Vesting_balance_withdraw_op x) = vesting_balance_withdraw_validate x"
| "operation_validate (Staking_create_op x) = Inr ()"
| "operation_validate (Staking_update_op x) = Inr ()"
| "operation_validate (Staking_claim_op x) = Inr ()"
| "operation_validate (Witness_create_op x) = witness_create_validate x"
| "operation_validate (Witness_update_op x) = witness_update_validate x"
| "operation_validate (Witness_set_commission_op x) = witness_set_commission_validate x"
| "operation_validate (Witness_unbanned_op x) = witness_unbanned_validate x"
| "operation_validate (Trust_node_pledge_withdraw_op x) = trust_node_pledge_withdraw_validate x"
| "operation_validate (Committee_member_create_op x) = committee_member_create_validate x"
| "operation_validate (Committee_member_update_op x) = committee_member_update_validate x"
| "operation_validate (Update_global_parameters_op x) = update_global_parameters_validate x"

primrec fee_payer :: "'memo operation \<Rightarrow> account_id_type" where
  "fee_payer (Transfer_op x) = tr_from x"
| "fee_payer (Override_transfer_op x) = ot_issuer x"
| "fee_payer (Inline_transfer_op x) = it_from x"
| "fee_payer (Asset_create_op x) = cr_issuer x"
| "fee_payer (Asset_update_op x) = up_issuer x"
| "fee_payer (Asset_issue_op x) = is_issuer x"
| "fee_payer (Asset_reserve_op x) = rs_payer x"
| "fee_payer (Asset_fund_fee_pool_op x) = fd_from_account x"
| "fee_payer (Asset_claim_fees_op x) = cl_issuer x"
| "fee_payer (Vesting_balance_create_op x) = vc_creator x"
| "fee_payer (Vesting_balance_withdraw_op x) = vw_owner x"
| "fee_payer (Staking_create_op x) = so_owner x"
| "fee_payer (Staking_update_op x) = su_owner x"
| "fee_payer (Staking_claim_op x) = sc_owner x"
| "fee_payer (Witness_create_op x) = wc_witness_account x"
| "fee_payer (Witness_update_op x) = wu_witness_account x"
| "fee_payer (Witness_set_commission_op x) = ws_witness_account x"
| "fee_payer (Witness_unbanned_op x) = wb_witness_account x"
| "fee_payer (Trust_node_pledge_withdraw_op x) = tw_witness_account x"
| "fee_payer (Committee_member_create_op x) = cc_committee_member_account x"
| "fee_payer (Committee_member_update_op x) = cu_committee_member_account x"
| "fee_payer (Update_global_parameters_op x) = 0"

text \<open>Every operation of the type requires the active authority of its fee payer and nothing else.\<close>

definition operation_auths :: "'memo operation \<Rightarrow> required_auths" where
  "operation_auths op = \<lparr>ra_active = [fee_payer op], ra_owner = [], ra_other = []\<rparr>"

primrec apply_operation :: "safe_ops \<Rightarrow> transaction_evaluation_state \<Rightarrow> bool \<Rightarrow> ('memo operation \<Rightarrow> share_type result) \<Rightarrow>
    'memo operation \<Rightarrow> database \<Rightarrow> database result" where
  "apply_operation S T proposed required (Transfer_op x) = transfer_evaluator S T (required (Transfer_op x)) x"
| "apply_operation S T proposed required (Override_transfer_op x) = override_transfer_evaluator S T (required (Override_transfer_op x)) x"
| "apply_operation S T proposed required (Inline_transfer_op x) = inline_transfer_evaluator S T (required (Inline_transfer_op x)) x"
| "apply_operation S T proposed required (Asset_create_op x) = asset_create_evaluator S T (required (Asset_create_op x)) x"
| "apply_operation S T proposed required (Asset_update_op x) = asset_update_evaluator S T (required (Asset_update_op x)) x"
| "apply_operation S T proposed required (Asset_issue_op x) = asset_issue_evaluator S T (required (Asset_issue_op x)) x"
| "apply_operation S T proposed required (Asset_reserve_op x) = asset_reserve_evaluator S T (required (Asset_reserve_op x)) x"
| "apply_operation S T proposed required (Asset_fund_fee_pool_op x) = asset_fund_fee_pool_evaluator S T (required (Asset_fund_fee_pool_op x)) x"
| "apply_operation S T proposed required (Asset_claim_fees_op x) = asset_claim_fees_evaluator S T (required (Asset_claim_fees_op x)) x"
| "apply_operation S T proposed required (Vesting_balance_create_op x) =
     vesting_balance_create_evaluator S T (required (Vesting_balance_create_op x)) x"
| "apply_operation S T proposed required (Vesting_balance_withdraw_op x) =
     vesting_balance_withdraw_evaluator S T (required (Vesting_balance_withdraw_op x)) x"
| "apply_operation S T proposed required (Staking_create_op x) = staking_create_evaluator S T (required (Staking_create_op x)) x"
| "apply_operation S T proposed required (Staking_update_op x) = staking_update_evaluator S T (required (Staking_update_op x)) x"
| "apply_operation S T proposed required (Staking_claim_op x) = staking_claim_evaluator S T (required (Staking_claim_op x)) x"
| "apply_operation S T proposed required (Witness_create_op x) = witness_create_evaluator S T (required (Witness_create_op x)) x"
| "apply_operation S T proposed required (Witness_update_op x) = witness_update_evaluator S T (required (Witness_update_op x)) x"
| "apply_operation S T proposed required (Witness_set_commission_op x) =
     witness_set_commission_evaluator S T (required (Witness_set_commission_op x)) x"
| "apply_operation S T proposed required (Witness_unbanned_op x) = witness_unbanned_evaluator S T (required (Witness_unbanned_op x)) x"
| "apply_operation S T proposed required (Trust_node_pledge_withdraw_op x) =
     trust_node_pledge_withdraw_evaluator S T (required (Trust_node_pledge_withdraw_op x)) x"
| "apply_operation S T proposed required (Committee_member_create_op x) =
     committee_member_create_evaluator S T (required (Committee_member_create_op x)) x"
| "apply_operation S T proposed required (Committee_member_update_op x) =
     committee_member_update_evaluator S T (required (Committee_member_update_op x)) x"
| "apply_operation S T proposed required (Update_global_parameters_op x) =
     update_global_parameters_evaluator S T proposed (required (Update_global_parameters_op x)) x"

section \<open>Transactions\<close>

record 'memo signed_transaction =
  tx_ref_block_num :: nat
  tx_ref_block_prefix :: u32
  tx_expiration :: time_point_sec
  tx_operations :: "'memo operation list"
  tx_signatures :: "nat list"
  tx_signees :: "public_key_type list"

record 'memo crypto =
  transaction_id :: "'memo signed_transaction \<Rightarrow> nat"
  recover_key :: "'memo signed_transaction \<Rightarrow> nat \<Rightarrow> public_key_type"
  key_addresses :: "public_key_type \<Rightarrow> address list"

record 'memo fee_table =
  ft_base :: "'memo operation \<Rightarrow> u64"
  ft_scale :: u32

text \<open>
  The fee the schedule asks of an operation, in the core asset of the time. The rounding loop of
  \<open>calculate_fee\<close> always ends at a unit price (\<open>calculate_fee_core_total\<close>).
\<close>

definition calculate_fee_for_operation :: "safe_ops \<Rightarrow> 'memo fee_table \<Rightarrow> database \<Rightarrow> 'memo operation \<Rightarrow> share_type result" where
  "calculate_fee_for_operation S F db op =
     (let core = (if head_block_time db > HARDFORK_1008_TIME then 1 else 0) in
      case calculate_fee S (ft_base F op) (ft_scale F) (unit_price core) core of
        None \<Rightarrow> Inl Undefined_behaviour
      | Some r \<Rightarrow> rbind r (\<lambda>a. Inr (amount a)))"

definition transaction_validate :: "'memo signed_transaction \<Rightarrow> unit result" where
  "transaction_validate trx =
     fc_assert (tx_operations trx \<noteq> []) (fold_result (\<lambda>op u. operation_validate op) (tx_operations trx) ())"

fun recover_keys :: "('memo signed_transaction \<Rightarrow> nat \<Rightarrow> public_key_type) \<Rightarrow> 'memo signed_transaction \<Rightarrow> nat list \<Rightarrow> public_key_type list \<Rightarrow>
    public_key_type list result" where
  "recover_keys recover trx [] keys = Inr keys"
| "recover_keys recover trx (sig # sigs) keys =
     (let k = recover trx sig in ensure (k \<notin> set keys) Tx_duplicate_sig (recover_keys recover trx sigs (keys @ [k])))"

definition get_signature_keys :: "'memo crypto \<Rightarrow> 'memo signed_transaction \<Rightarrow> public_key_type list result" where
  "get_signature_keys C trx =
     (if tx_signees trx = [] \<and> tx_signatures trx \<noteq> [] then recover_keys (recover_key C) trx (tx_signatures trx) []
      else Inr (tx_signees trx))"

record skip_flags =
  skip_transaction_signatures :: bool
  skip_authority_check :: bool
  skip_transaction_dupe_check :: bool
  skip_tapos_check :: bool
  skip_witness_signature :: bool
  skip_witness_schedule_check :: bool
  skip_merkle_check :: bool
  skip_undo_history_check :: bool

definition skip_nothing :: skip_flags where
  "skip_nothing = \<lparr>skip_transaction_signatures = False, skip_authority_check = False, skip_transaction_dupe_check = False,
     skip_tapos_check = False, skip_witness_signature = False, skip_witness_schedule_check = False, skip_merkle_check = False,
     skip_undo_history_check = False\<rparr>"

definition skip_all :: skip_flags where
  "skip_all = \<lparr>skip_transaction_signatures = True, skip_authority_check = True, skip_transaction_dupe_check = True,
     skip_tapos_check = True, skip_witness_signature = True, skip_witness_schedule_check = True, skip_merkle_check = True,
     skip_undo_history_check = True\<rparr>"

text \<open>The state a transaction runs on: the objects, the ids of recent transactions and the block summaries.\<close>

record chain =
  ch_db :: database
  ch_transactions :: "(nat \<times> time_point_sec) list"
  ch_block_summaries :: "block_id_type list"

definition is_known_transaction :: "nat \<Rightarrow> chain \<Rightarrow> bool" where
  "is_known_transaction i ch \<longleftrightarrow> i \<in> fst ` set (ch_transactions ch)"

definition account_active :: "database \<Rightarrow> get_authority" where
  "account_active db i = rbind (index_get (db_accounts db) i) (\<lambda>a. Inr (Some (ac_active a)))"

definition account_owner :: "database \<Rightarrow> get_authority" where
  "account_owner db i = rbind (index_get (db_accounts db) i) (\<lambda>a. Inr (Some (ac_owner a)))"

definition verify_transaction_authority :: "'memo crypto \<Rightarrow> 'memo signed_transaction \<Rightarrow> database \<Rightarrow> unit result" where
  "verify_transaction_authority C trx db =
     rbind (get_signature_keys C trx) (\<lambda>keys.
     verify_authority operation_auths (key_addresses C) (tx_operations trx) keys (account_active db) (account_owner db)
       (cp_max_authority_depth (params db)) False [] [])"

definition check_expiration :: "skip_flags \<Rightarrow> 'memo signed_transaction \<Rightarrow> chain \<Rightarrow> unit result" where
  "check_expiration skip trx ch =
     (let db = ch_db ch; now = head_block_time db in
      if head_block_num db > 0
      then rbind (if skip_tapos_check skip then Inr ()
                  else if tx_ref_block_num trx < length (ch_block_summaries ch)
                    then fc_assert (tx_ref_block_prefix trx = ch_block_summaries ch ! tx_ref_block_num trx ! 1) (Inr ())
                    else Inl Object_not_found) (\<lambda>_.
           fc_assert (tx_expiration trx \<le> (now + cp_maximum_time_until_expiration (params db)) mod 2 ^ 32)
           (fc_assert (now \<le> tx_expiration trx) (Inr ())))
      else Inr ())"

definition temp_account_empty :: "database \<Rightarrow> bool" where
  "temp_account_empty db \<longleftrightarrow>
     list_all (\<lambda>(i, b). ab_owner b = GRAPHENE_TEMP_ACCOUNT \<longrightarrow> ab_balance b = 0) (rows (db_balances db))"

definition apply_transaction :: "safe_ops \<Rightarrow> 'memo crypto \<Rightarrow> 'memo fee_table \<Rightarrow> skip_flags \<Rightarrow> 'memo signed_transaction \<Rightarrow> chain \<Rightarrow> chain result" where
  "apply_transaction S C F skip trx ch =
     (let db = ch_db ch; trx_id = transaction_id C trx in
      rbind (transaction_validate trx) (\<lambda>_.
      fc_assert (skip_transaction_dupe_check skip \<or> \<not> is_known_transaction trx_id ch)
      (rbind (if skip_transaction_signatures skip \<or> skip_authority_check skip then Inr () else verify_transaction_authority C trx db) (\<lambda>_.
       rbind (check_expiration skip trx ch) (\<lambda>_.
       let ch1 = (if skip_transaction_dupe_check skip then ch else ch\<lparr>ch_transactions := ch_transactions ch @ [(trx_id, tx_expiration trx)]\<rparr>) in
       rbind (fold_result (\<lambda>op db. apply_operation S new_evaluation_state False (calculate_fee_for_operation S F db) op db)
                (tx_operations trx) db) (\<lambda>db1.
       fc_assert (temp_account_empty db1) (Inr (ch1\<lparr>ch_db := db1\<rparr>))))))))"

section \<open>What operations leave alone\<close>

text \<open>
  No operation touches the dynamic global properties, so the time of the chain stands still within a
  transaction; only the operations of trust nodes touch pledges.
\<close>

definition keeps_clock :: "database \<Rightarrow> database \<Rightarrow> bool" where
  "keeps_clock db db' \<longleftrightarrow> db_dynamic db' = db_dynamic db \<and> db_pledges db' = db_pledges db"

named_theorems clock_rules "steps that touch neither the clock nor the pledges"

lemma keeps_clock_refl [simp]: "keeps_clock db db"
  by (simp add: keeps_clock_def)

lemma keeps_clock_trans: "keeps_clock a b \<Longrightarrow> keeps_clock b c \<Longrightarrow> keeps_clock a c"
  by (simp add: keeps_clock_def)

lemma keeps_clock_steps [clock_rules]:
  "modify_balance i m1 db = Inr db' \<Longrightarrow> keeps_clock db db'" "create_balance b db = Inr db' \<Longrightarrow> keeps_clock db db'"
  "modify_asset i m2 db = Inr db' \<Longrightarrow> keeps_clock db db'" "create_asset a db = Inr (j, db') \<Longrightarrow> keeps_clock db db'"
  "create_dynamic_data d db = Inr (j, db') \<Longrightarrow> keeps_clock db db'" "modify_dynamic_data i m3 db = Inr db' \<Longrightarrow> keeps_clock db db'"
  "modify_vesting i m4 db = Inr db' \<Longrightarrow> keeps_clock db db'" "create_vesting v db = Inr (j, db') \<Longrightarrow> keeps_clock db db'"
  "modify_witness i m5 db = Inr db' \<Longrightarrow> keeps_clock db db'" "create_witness w db = Inr (j, db') \<Longrightarrow> keeps_clock db db'"
  "modify_staking i m6 db = Inr db' \<Longrightarrow> keeps_clock db db'" "create_staking s db = Inr (j, db') \<Longrightarrow> keeps_clock db db'"
  "modify_committee_member i m7 db = Inr db' \<Longrightarrow> keeps_clock db db'" "create_committee_member c db = Inr (j, db') \<Longrightarrow> keeps_clock db db'"
  by (auto simp: keeps_clock_def modify_balance_def create_balance_def modify_asset_def create_asset_def create_dynamic_data_def
      modify_dynamic_data_def modify_vesting_def create_vesting_def modify_witness_def create_witness_def modify_staking_def create_staking_def
      modify_committee_member_def create_committee_member_def result_simps)

lemma keeps_clock_adjust [clock_rules]: "adjust_balance S a d db = Inr db' \<Longrightarrow> keeps_clock db db'"
  by (auto simp: adjust_balance_def result_simps intro: clock_rules split: if_splits option.splits)

lemma keeps_clock_derived [clock_rules]:
  "modify_witness_at i m5 db = Inr db' \<Longrightarrow> keeps_clock db db'" "set_witness_valid v i db = Inr db' \<Longrightarrow> keeps_clock db db'"
  "set_committee_valid v i db = Inr db' \<Longrightarrow> keeps_clock db db'"
  by (auto simp: modify_witness_at_def set_witness_valid_def set_committee_valid_def intro: clock_rules split: option.splits)

lemma keeps_clock_remove_staking [simp]: "keeps_clock a (remove_staking i db) \<longleftrightarrow> keeps_clock a db"
  by (simp add: keeps_clock_def remove_staking_def)

lemma keeps_clock_apply:
  "transfer_do_apply S op1 x db = Inr db' \<Longrightarrow> keeps_clock db db'"
  "override_transfer_do_apply S op2 x db = Inr db' \<Longrightarrow> keeps_clock db db'"
  "inline_transfer_do_apply S op3 x db = Inr db' \<Longrightarrow> keeps_clock db db'"
  "asset_issue_do_apply S op4 i db = Inr db' \<Longrightarrow> keeps_clock db db'"
  "asset_reserve_do_apply S op5 i db = Inr db' \<Longrightarrow> keeps_clock db db'"
  "asset_fund_fee_pool_do_apply S op6 i db = Inr db' \<Longrightarrow> keeps_clock db db'"
  "asset_claim_fees_do_apply S op7 x db = Inr db' \<Longrightarrow> keeps_clock db db'"
  "asset_update_do_apply op8 symb db = Inr db' \<Longrightarrow> keeps_clock db db'"
  "vesting_balance_create_do_apply S op9 x db = Inr db' \<Longrightarrow> keeps_clock db db'"
  "vesting_balance_withdraw_do_apply S op10 x db = Inr db' \<Longrightarrow> keeps_clock db db'"
  by (auto simp: transfer_do_apply_def override_transfer_do_apply_def inline_transfer_do_apply_def move_asset_def asset_issue_do_apply_def
      asset_reserve_do_apply_def asset_fund_fee_pool_do_apply_def asset_claim_fees_do_apply_def asset_update_do_apply_def
      vesting_balance_create_do_apply_def vesting_balance_withdraw_do_apply_def Let_def result_simps split: if_splits
      dest!: clock_rules elim!: keeps_clock_trans)

lemma keeps_clock_create: "asset_create_do_apply S op fs db = Inr db' \<Longrightarrow> keeps_clock db db'"
  by (auto simp: asset_create_do_apply_def Let_def result_simps split: if_splits dest!: clock_rules elim!: keeps_clock_trans)

lemma keeps_clock_staking:
  "staking_create_do_apply S op1 x db = Inr db' \<Longrightarrow> keeps_clock db db'"
  "staking_update_do_apply S op2 x db = Inr db' \<Longrightarrow> keeps_clock db db'"
  "staking_claim_do_apply S op3 x db = Inr db' \<Longrightarrow> keeps_clock db db'"
  by (auto simp: staking_create_do_apply_def staking_update_do_apply_def staking_claim_do_apply_def Let_def result_simps
      split: if_splits option.splits dest!: clock_rules elim!: keeps_clock_trans)

text \<open>Operations of trust nodes keep the clock, and every pledge in core tokens.\<close>

definition pledge_step :: "database \<Rightarrow> database \<Rightarrow> bool" where
  "pledge_step db db' \<longleftrightarrow> db_dynamic db' = db_dynamic db \<and> (pledges_ok db \<longrightarrow> pledges_ok db')"

lemma keeps_clock_pledge_step: "keeps_clock db db' \<Longrightarrow> pledge_step db db'"
  by (simp add: keeps_clock_def pledge_step_def pledges_ok_def)

lemma pledge_step_global: "pledge_step (db\<lparr>db_global := g\<rparr>) db' \<longleftrightarrow> pledge_step db db'"
  by (simp add: pledge_step_def pledges_ok_def)

lemma pledge_step_trans: "pledge_step a b \<Longrightarrow> pledge_step b c \<Longrightarrow> pledge_step a c"
  by (auto simp: pledge_step_def)

lemma map_of_insort_cases: "map_of (insort_key fst (i, v) xs) j = Some p \<Longrightarrow> map_of xs j = Some p \<or> p = v"
  by (induction xs) (auto split: if_splits)

lemma index_create_cases:
  assumes "index_create uk v t = Inr (i, t')" "index_find t' j = Some p"
  shows "index_find t j = Some p \<or> p = v"
  using assms by (auto simp: index_create_def index_insert_def index_find_def use_next_id_def result_simps dest: map_of_insort_cases)

lemma modify_pledge_step:
  assumes "modify_pledge i m db = Inr db'" and "\<And>p q. m p = Inr q \<Longrightarrow> asset_id (tn_amount q) = asset_id (tn_amount p)"
  shows "pledge_step db db'"
proof -
  from assms(1) obtain t where t: "index_modify pledge_uk i m (db_pledges db) = Inr t" "db' = db\<lparr>db_pledges := t\<rparr>"
    by (auto simp: modify_pledge_def result_simps)
  from t(1) obtain x y where "index_find (db_pledges db) i = Some x" "m x = Inr y" "index_find t = (index_find (db_pledges db))(i \<mapsto> y)"
    by (rule index_modify_find)
  with assms(2) t(2) show ?thesis by (auto simp: pledge_step_def pledges_ok_def split: if_splits)
qed

lemma create_pledge_step:
  assumes "create_pledge p db = Inr (i, db')" and "asset_id (tn_amount p) = 1"
  shows "pledge_step db db'"
  using assms index_create_cases by (fastforce simp: create_pledge_def pledge_step_def pledges_ok_def result_simps)

lemma remove_pledge_step: "pledge_step db (remove_pledge i db)"
  by (auto simp: pledge_step_def pledges_ok_def remove_pledge_def index_remove_find split: if_splits)

context checked_int64
begin

lemma pledge_do_apply_step:
  assumes a: "pledge_do_apply S acct st db = Inr db'" and c: "asset_id (pledge_to_charge st) = 1"
  shows "pledge_step db db'"
proof (cases "amount (pledge_to_charge st) = 0")
  case True
  with a show ?thesis by (simp add: pledge_do_apply_def pledge_step_def)
next
  case False
  with a obtain db1 minus where d1: "(if pledge_object_exist st
      then case pledge_obj_ptr st of None \<Rightarrow> Inl Undefined_behaviour
        | Some i \<Rightarrow> modify_pledge i (\<lambda>p. rbind (asset_add S (tn_amount p) (pledge_to_charge st)) (\<lambda>a. Inr (p\<lparr>tn_amount := a\<rparr>))) db
      else rbind (create_pledge \<lparr>tn_owner_account = acct, tn_amount = pledge_to_charge st\<rparr> db) (\<lambda>(i, db1). Inr db1)) = Inr db1"
    and d2: "adjust_balance S acct minus db1 = Inr db'"
    by (auto simp: pledge_do_apply_def rbind_Inr)
  have "pledge_step db db1"
    using d1 c by (auto simp: result_simps asset_add_def split: if_splits option.splits intro: create_pledge_step elim!: modify_pledge_step)
  then show ?thesis using keeps_clock_pledge_step [OF clock_rules(15) [OF d2]] pledge_step_trans by blast
qed

lemma pledge_evaluated: "pledge_do_evaluate S acct db = Inr st \<Longrightarrow> asset_id (pledge_to_charge st) = 1"
  by (auto simp: pledge_do_evaluate_def Let_def asset_sub_def pledge_reset_def result_simps split: option.splits if_splits)

lemma pledge_evaluated_1129: "when_1129 db (pledge_do_evaluate S acct db) = Inr st \<Longrightarrow> asset_id (pledge_to_charge st) = 1"
  by (auto simp: when_1129_def pledge_reset_def dest: pledge_evaluated split: if_splits)

lemma trust_node_charges:
  "witness_create_do_evaluate S op1 fs db = Inr st \<Longrightarrow> asset_id (pledge_to_charge st) = 1"
  "witness_update_do_evaluate S op2 fs db = Inr st \<Longrightarrow> asset_id (pledge_to_charge st) = 1"
  "witness_set_commission_do_evaluate S op3 fs db = Inr st \<Longrightarrow> asset_id (pledge_to_charge st) = 1"
  "witness_unbanned_do_evaluate S op4 fs db = Inr st \<Longrightarrow> asset_id (pledge_to_charge st) = 1"
  "committee_member_create_do_evaluate S op5 fs db = Inr st \<Longrightarrow> asset_id (pledge_to_charge st) = 1"
  "committee_member_update_do_evaluate S op6 fs db = Inr st \<Longrightarrow> asset_id (pledge_to_charge st) = 1"
  by (auto simp: witness_create_do_evaluate_def witness_update_do_evaluate_def witness_set_commission_do_evaluate_def
      witness_unbanned_do_evaluate_def committee_member_create_do_evaluate_def committee_member_update_do_evaluate_def Let_def result_simps
      dest!: pledge_evaluated pledge_evaluated_1129)

lemmas pledge_rules = clock_rules [THEN keeps_clock_pledge_step]

lemma trust_node_applied:
  assumes c: "asset_id (pledge_to_charge st) = 1"
  shows "witness_create_do_apply S op1 st db = Inr db' \<Longrightarrow> pledge_step db db'"
    and "witness_update_do_apply S op2 st db = Inr db' \<Longrightarrow> pledge_step db db'"
    and "witness_set_commission_do_apply S op3 st db = Inr db' \<Longrightarrow> pledge_step db db'"
    and "witness_unbanned_do_apply S op4 st db = Inr db' \<Longrightarrow> pledge_step db db'"
    and "committee_member_create_do_apply S op5 st db = Inr db' \<Longrightarrow> pledge_step db db'"
    and "committee_member_update_do_apply S op6 st db = Inr db' \<Longrightarrow> pledge_step db db'"
  by (auto simp: witness_create_do_apply_def witness_update_do_apply_def witness_set_commission_do_apply_def witness_unbanned_do_apply_def
      committee_member_create_do_apply_def committee_member_update_do_apply_def pledge_then_valid_def get_next_vote_id_def Let_def rbind_Inr
      pledge_step_global split: if_splits dest!: pledge_rules pledge_do_apply_step [OF _ c] elim!: pledge_step_trans)

end

lemma pledge_withdraw_step: "pledge_withdraw_do_apply S acct st db = Inr db' \<Longrightarrow> pledge_step db db'"
proof -
  assume "pledge_withdraw_do_apply S acct st db = Inr db'"
  then obtain i v n secs db1 db3 where d1: "deposit_lazy_vesting S None n secs acct True db = Inr (v, db1)"
    and d3: "(case witness_obj_ptr st of None \<Rightarrow> Inr (remove_pledge i db1) | Some w \<Rightarrow> set_witness_valid False w (remove_pledge i db1)) = Inr db3"
    and d4: "(case committee_obj_ptr st of None \<Rightarrow> Inr db3 | Some c \<Rightarrow> set_committee_valid False c db3) = Inr db'"
    by (cases "pledge_obj_ptr st") (auto simp: pledge_withdraw_do_apply_def Let_def rbind_Inr)
  obtain t where "db1 = db\<lparr>db_vesting := t\<rparr>" using deposit_lazy_vesting_frame [OF d1] by blast
  then have "pledge_step db (remove_pledge i db1)"
    using remove_pledge_step [of db1 i] by (auto simp: pledge_step_def pledges_ok_def)
  moreover have "pledge_step (remove_pledge i db1) db3" "pledge_step db3 db'"
    using d3 d4 by (auto split: option.splits intro: keeps_clock_pledge_step clock_rules)
  ultimately show ?thesis using pledge_step_trans by blast
qed

context paying_evaluator
begin

lemma start_evaluate_pledge_step:
  assumes run: "start_evaluate S T required pay payer fee ev ap db = Inr db'"
    and ok: "db_ok db" "balances_ok db" and T: "\<not> skip_fee T"
    and step: "\<And>fs x db2 db3. ev fs db = Inr x \<Longrightarrow> ap x db2 = Inr db3 \<Longrightarrow> pledge_step db2 db3"
  shows "pledge_step db db'"
proof -
  obtain fs x db2 db3 where e: "ev fs db = Inr x" and a: "ap x db2 = Inr db3" and f: "fee_frame db db2"
    and adj: "adjust_balance S payer (mk_asset (- amount fee) (asset_id fee)) db3 = Inr db'"
    using run ok T by (rule start_evaluate_steps) (rule that)
  have "pledge_step db db2" using fee_frame_fields(5,9) [OF f] by (simp add: pledge_step_def pledges_ok_def)
  then show ?thesis
    using step [OF e a] keeps_clock_pledge_step [OF keeps_clock_adjust [OF adj]] pledge_step_trans by blast
qed

end

section \<open>What every operation keeps\<close>

definition chain_ok :: "database \<Rightarrow> bool" where
  "chain_ok db \<longleftrightarrow> db_ok db \<and> balances_ok db \<and> pledges_ok db \<and> HARDFORK_1129_TIME < head_block_time db"

context charging
begin

lemma asset_update_keeps:
  assumes run: "asset_update_evaluator S T required op db = Inr db'" and ok: "db_ok db" "balances_ok db"
  shows "db_ok db'" "balances_ok db'" "k \<noteq> current_core_asset_id db \<Longrightarrow> surplus db' k = surplus db k"
proof -
  obtain fs x db2 db3 where e: "asset_update_do_evaluate op fs db = Inr x" and ap: "asset_update_do_apply op x db2 = Inr db3"
    and ok2: "db_ok db2" "balances_ok db2" and f: "fee_frame db db2"
    and adj: "adjust_balance S (up_issuer op) (mk_asset (- amount (up_fee op)) (asset_id (up_fee op))) db3 = Inr db'"
    and su: "\<forall>k. surplus db2 k = surplus db k + of_asset k (up_fee op) -
      (if k = current_core_asset_id db then fs_core_fee_paid fs - fs_core_fee_paid fs else 0)"
    using run [unfolded asset_update_evaluator_def] ok fees_charged by (rule default_pay.start_evaluate_steps) (rule that)
  from ap obtain a where o: "index_find (db_assets db2) (up_asset_to_update op) = Some a"
    by (auto simp: asset_update_do_apply_def rbind_Inr index_get_Inr)
  then obtain d where d: "index_find (db_dynamic_data db2) (at_dynamic_asset_data_id a) = Some d"
    using ok2(1) by (fastforce simp: db_ok_def dyn_links_ok_def dyn_id_def)
  note u = asset_update_effect [OF ap ok2 o d]
  note adj' = adjust_balance_adjusted [OF adj u(1,2)]
  then show "db_ok db'" "balances_ok db'" by (simp_all add: adjusted_def)
  show "surplus db' k = surplus db k" if "k \<noteq> current_core_asset_id db"
    using that u(6) [of k] su adj' fee_frame_fields(11) [OF f] by (auto simp: adjusted_def of_asset_def)
qed

lemma update_global_step: "update_global_parameters_do_apply op x db = Inr db' \<Longrightarrow> pledge_step db db'"
  by (auto simp: update_global_parameters_do_apply_def pledge_step_def pledges_ok_def)

text \<open>Every operation but two conserves every asset, whatever the pledges.\<close>

lemma apply_operation_conserves:
  assumes run: "apply_operation S T proposed required op db = Inr db'" and ok: "db_ok db" "balances_ok db"
    and op: "\<forall>x. op \<noteq> Asset_update_op x" "\<forall>x. op \<noteq> Trust_node_pledge_withdraw_op x"
  shows "conserves db db'"
proof (cases op)
  case (Override_transfer_op x)
  with run override.start_evaluate_conserves [OF _ ok fees_charged] show ?thesis by (simp add: override_transfer_evaluator_def)
next
  case (Inline_transfer_op x)
  with run inline.start_evaluate_conserves [OF _ ok fees_charged] show ?thesis by (simp add: inline_transfer_evaluator_def)
qed (use run op in \<open>auto intro: transfer_moves(1) asset_create_conserves asset_issue_moves(1) asset_ops_conserve vesting_create_ledger
    vesting_withdraw_ledger(1) staking_create_sound(1) staking_update_sound(1) staking_claim_sound(1) witness_create_ledger witness_update_ledger
    witness_set_commission_ledger witness_unbanned_ledger committee_member_create_ledger committee_member_update_ledger
    update_global_parameters_ledger ok\<close>)

lemma creation_pay: "paying_evaluator S (asset_create_pay_fee S T) (\<lambda>fs. fs_core_fee_paid fs - half (fs_core_fee_paid fs))"
  by unfold_locales (auto simp: asset_create_pay_credits)

lemma apply_operation_pledge_step:
  assumes run: "apply_operation S T proposed required op db = Inr db'" and ok: "db_ok db" "balances_ok db"
  shows "pledge_step db db'"
proof -
  note step = default_pay.start_evaluate_pledge_step [OF _ ok fees_charged]
  note kept = keeps_clock_apply [THEN keeps_clock_pledge_step] keeps_clock_staking [THEN keeps_clock_pledge_step]
  note node = trust_node_applied(1) [OF trust_node_charges(1)] trust_node_applied(2) [OF trust_node_charges(2)]
    trust_node_applied(3) [OF trust_node_charges(3)] trust_node_applied(4) [OF trust_node_charges(4)]
    trust_node_applied(5) [OF trust_node_charges(5)] trust_node_applied(6) [OF trust_node_charges(6)]
  show ?thesis
  proof (cases op)
    case (Asset_create_op x)
    with run show ?thesis
      using paying_evaluator.start_evaluate_pledge_step [OF creation_pay _ ok fees_charged] keeps_clock_create [THEN keeps_clock_pledge_step]
      by (simp add: asset_create_evaluator_def) blast
  qed (use run in \<open>auto simp: transfer_evaluator_def override_transfer_evaluator_def inline_transfer_evaluator_def asset_update_evaluator_def
      asset_issue_evaluator_def asset_reserve_evaluator_def asset_fund_fee_pool_evaluator_def asset_claim_fees_evaluator_def
      vesting_balance_create_evaluator_def vesting_balance_withdraw_evaluator_def staking_create_evaluator_def staking_update_evaluator_def
      staking_claim_evaluator_def witness_create_evaluator_def witness_update_evaluator_def witness_set_commission_evaluator_def
      witness_unbanned_evaluator_def trust_node_pledge_withdraw_evaluator_def committee_member_create_evaluator_def
      committee_member_update_evaluator_def update_global_parameters_evaluator_def
      intro: kept node pledge_withdraw_step update_global_step elim!: step\<close>)
qed

lemma apply_operation_ok:
  assumes run: "apply_operation S T proposed required op db = Inr db'" and ok: "chain_ok db"
  shows "chain_ok db'" and "db_dynamic db' = db_dynamic db"
    and "k \<noteq> 1 \<or> (\<forall>x. op \<noteq> Asset_update_op x) \<Longrightarrow> surplus db' k = surplus db k"
proof -
  have ok': "db_ok db" "balances_ok db" "pledges_ok db" "HARDFORK_1129_TIME < head_block_time db" using ok by (simp_all add: chain_ok_def)
  have hf: "HARDFORK_1008_TIME < head_block_time db" using ok'(4) by (simp add: HARDFORK_1008_TIME_def HARDFORK_1129_TIME_def)
  then have core: "current_core_asset_id db = 1" by (simp add: current_core_asset_id_def)
  note step = apply_operation_pledge_step [OF run ok'(1,2)]
  then show dyn: "db_dynamic db' = db_dynamic db" by (simp add: pledge_step_def)
  have "(db_ok db' \<and> balances_ok db') \<and> (k \<noteq> 1 \<or> (\<forall>x. op \<noteq> Asset_update_op x) \<longrightarrow> surplus db' k = surplus db k)"
  proof (cases "(\<exists>x. op = Asset_update_op x) \<or> (\<exists>x. op = Trust_node_pledge_withdraw_op x)")
    case True
    with run asset_update_keeps [OF _ ok'(1,2)] pledge_withdraw_ledger(1) [OF _ ok'(1-3) hf] core show ?thesis
      by (auto simp: conserves_def)
  next
    case False
    then have "conserves db db'" using apply_operation_conserves [OF run ok'(1,2)] by blast
    then show ?thesis by (simp add: conserves_def)
  qed
  with step ok' dyn show "chain_ok db'" and "k \<noteq> 1 \<or> (\<forall>x. op \<noteq> Asset_update_op x) \<Longrightarrow> surplus db' k = surplus db k"
    by (auto simp: chain_ok_def pledge_step_def head_block_time_def)
qed

end

section \<open>Transactions\<close>

lemma charging_transaction: "checked_int64 S \<Longrightarrow> charging S new_evaluation_state"
  by (simp add: charging_def charging_axioms_def new_evaluation_state_def)

definition updates_asset :: "'memo signed_transaction \<Rightarrow> bool" where
  "updates_asset trx \<longleftrightarrow> (\<exists>x. Asset_update_op x \<in> set (tx_operations trx))"

lemma apply_operations_ok:
  assumes S: "checked_int64 S"
    and run: "fold_result (\<lambda>op db. apply_operation S new_evaluation_state proposed (calculate_fee_for_operation S F db) op db) ops db = Inr db'"
    and ok: "chain_ok db"
  shows "chain_ok db' \<and> db_dynamic db' = db_dynamic db \<and>
    (k \<noteq> 1 \<or> (\<forall>x. Asset_update_op x \<notin> set ops) \<longrightarrow> surplus db' k = surplus db k)"
  using run ok
proof (induction ops arbitrary: db)
  case (Cons op ops)
  from Cons.prems(1) obtain db1 where d: "apply_operation S new_evaluation_state proposed (calculate_fee_for_operation S F db) op db = Inr db1"
    and rest: "fold_result (\<lambda>op db. apply_operation S new_evaluation_state proposed (calculate_fee_for_operation S F db) op db) ops db1 = Inr db'"
    by (auto simp: rbind_Inr)
  note c = charging_transaction [OF S]
  note o = charging.apply_operation_ok [OF c d Cons.prems(2)]
  show ?case using Cons.IH [OF rest o(1)] o(2) o(3) [of k] by auto
qed simp

lemma apply_transaction_Inr:
  assumes "apply_transaction S C F skip trx ch = Inr ch'"
  obtains db1 where "transaction_validate trx = Inr ()"
    and "skip_transaction_dupe_check skip \<or> \<not> is_known_transaction (transaction_id C trx) ch"
    and "skip_transaction_signatures skip \<or> skip_authority_check skip \<or> verify_transaction_authority C trx (ch_db ch) = Inr ()"
    and "check_expiration skip trx ch = Inr ()"
    and "fold_result (\<lambda>op db. apply_operation S new_evaluation_state False (calculate_fee_for_operation S F db) op db)
        (tx_operations trx) (ch_db ch) = Inr db1"
    and "temp_account_empty db1"
    and "ch' = (if skip_transaction_dupe_check skip then ch
        else ch\<lparr>ch_transactions := ch_transactions ch @ [(transaction_id C trx, tx_expiration trx)]\<rparr>)\<lparr>ch_db := db1\<rparr>"
  using assms by (auto simp: apply_transaction_def Let_def result_simps split: if_splits)

lemma required_active: "set (ra_active (get_required_authorities operation_auths ops)) = fee_payer ` set ops"
  by (auto simp: get_required_authorities_def flat_set_def operation_auths_def)

text \<open>The rounding loop always ends when the fee is in the core asset.\<close>

lemma calculate_fee_core_total:
  assumes "checked_int64 S"
  shows "calculate_fee S base_value scale (unit_price core) core \<noteq> None"
proof (cases "uint base_value * uint scale div 10000 \<le> GRAPHENE_MAX_SHARE_SUPPLY")
  case True
  then show ?thesis using checked_int64.calculate_fee_core [OF assms] by simp
next
  case False
  then have "\<not> scaled_fee base_value scale \<le> u128 GRAPHENE_MAX_SHARE_SUPPLY"
    by (simp add: word_le_def uint_u128 GRAPHENE_MAX_SHARE_SUPPLY_def scaled_fee_exact)
  then show ?thesis by (simp add: calculate_fee_def Let_def)
qed

section \<open>Properties of transactions\<close>

text \<open>C7.
  A transaction that is applied keeps the chain well-formed: every table keeps its unique keys, no balance is
  negative, every asset keeps its dynamic data, pledges are in core tokens, and time stands still. It conserves
  every asset but the core asset, and the core asset too unless it updates an asset, which can drop a pool of core
  tokens (\<open>asset_update_drops_fee_pool\<close>). Unless a flag skips the signatures or the check of authorities, the payer
  of every operation has approved it. Unless a flag skips the check for duplicates, it was not known before.
\<close>

theorem transaction_well_formed:
  assumes "checked_int64 S" and run: "apply_transaction S C F skip trx ch = Inr ch'" and ok: "chain_ok (ch_db ch)"
    and K: "get_signature_keys C trx = Inr keys" and A: "A = {GRAPHENE_TEMP_ACCOUNT}" and ga: "ga = account_active (ch_db ch)"
    and op: "op \<in> set (tx_operations trx)"
  shows "chain_ok (ch_db ch') \<and> db_dynamic (ch_db ch') = db_dynamic (ch_db ch) \<and> temp_account_empty (ch_db ch') \<and>
    (\<forall>k. k \<noteq> 1 \<or> \<not> updates_asset trx \<longrightarrow> surplus (ch_db ch') k = surplus (ch_db ch) k) \<and>
    (skip_transaction_signatures skip \<or> skip_authority_check skip \<or>
      (fee_payer op \<noteq> GRAPHENE_COMMITTEE_ACCOUNT \<and>
       (has_approved (set keys) (key_addresses C) A ga (fee_payer op) \<or>
        (\<exists>auth. account_owner (ch_db ch) (fee_payer op) = Inr (Some auth) \<and>
          satisfied (set keys) (key_addresses C) {a. has_approved (set keys) (key_addresses C) A ga a} auth)))) \<and>
    (skip_transaction_dupe_check skip \<or> \<not> is_known_transaction (transaction_id C trx) ch)"
proof -
  obtain db1 where dup: "skip_transaction_dupe_check skip \<or> \<not> is_known_transaction (transaction_id C trx) ch"
    and auth: "skip_transaction_signatures skip \<or> skip_authority_check skip \<or> verify_transaction_authority C trx (ch_db ch) = Inr ()"
    and run1: "fold_result (\<lambda>op db. apply_operation S new_evaluation_state False (calculate_fee_for_operation S F db) op db)
        (tx_operations trx) (ch_db ch) = Inr db1"
    and temp: "temp_account_empty db1"
    and ch': "ch' = (if skip_transaction_dupe_check skip then ch
        else ch\<lparr>ch_transactions := ch_transactions ch @ [(transaction_id C trx, tx_expiration trx)]\<rparr>)\<lparr>ch_db := db1\<rparr>"
    using run by (rule apply_transaction_Inr) (rule that)
  have db1: "ch_db ch' = db1" using ch' by simp
  have signed: "verify_transaction_authority C trx (ch_db ch) = Inr () \<Longrightarrow> verify_authority operation_auths (key_addresses C) (tx_operations trx)
      keys ga (account_owner (ch_db ch)) (cp_max_authority_depth (params (ch_db ch))) False [] [] = Inr ()"
    using K ga by (simp add: verify_transaction_authority_def)
  note v = authorized_active [OF signed]
  show ?thesis
    unfolding db1 using apply_operations_ok [OF assms(1) run1 ok] temp dup auth v op A required_active [of "tx_operations trx"]
    by (auto simp: updates_asset_def)
qed

text \<open>A transaction of account 9 of the sample state: it becomes a witness, signed with the key of its active authority.\<close>

definition sample_chain :: chain where
  "sample_chain = \<lparr>ch_db = trust_node_db, ch_transactions = [], ch_block_summaries = [[0, 5, 0, 0, 0]]\<rparr>"

definition sample_trx :: "unit signed_transaction" where
  "sample_trx = \<lparr>tx_ref_block_num = 0, tx_ref_block_prefix = 5, tx_expiration = 1700000009,
     tx_operations = [Witness_create_op \<lparr>wc_fee = mk_asset 100 1, wc_witness_account = 9, wc_url = ''u'', wc_block_signing_key = 7\<rparr>],
     tx_signatures = [3], tx_signees = []\<rparr>"

definition sample_crypto :: "unit crypto" where
  "sample_crypto = \<lparr>transaction_id = tx_expiration, recover_key = (\<lambda>trx sig. sig + 4), key_addresses = (\<lambda>k. [])\<rparr>"

definition sample_fees :: "unit fee_table" where
  "sample_fees = \<lparr>ft_base = (\<lambda>op. 20), ft_scale = 10000\<rparr>"

lemma trust_node_db_chain_ok: "chain_ok trust_node_db"
proof -
  have "db_ok trust_node_db" "balances_ok trust_node_db"
    using global_conserves [OF issuer_db_ok issuer_db_balances_ok] by (simp_all add: trust_node_db_def conserves_def)
  moreover have "pledges_ok trust_node_db" "HARDFORK_1129_TIME < head_block_time trust_node_db"
    by (simp_all add: pledges_ok_def trust_node_db_def issuer_db_def chain_db_def empty_index_def index_find_def head_block_time_def
        sample_dynamic_def HARDFORK_1129_TIME_def)
  ultimately show ?thesis by (simp add: chain_ok_def)
qed

lemma sample_trx_keys: "get_signature_keys sample_crypto sample_trx = Inr [7]"
  by (simp add: get_signature_keys_def sample_crypto_def sample_trx_def)

lemma sample_trx_signed: "verify_transaction_authority sample_crypto sample_trx trust_node_db = Inr ()"
proof -
  have a: "account_active trust_node_db 9 = Inr (Some sample_authority)" by code_simp
  have d: "cp_max_authority_depth (params trust_node_db) = Suc (Suc 0)" by code_simp
  have "verify_authority operation_auths (key_addresses sample_crypto) (tx_operations sample_trx) [7] (account_active trust_node_db)
      (account_owner trust_node_db) (Suc (Suc 0)) False [] [] = Inr ()"
    by (simp add: verify_authority_def get_required_authorities_def sample_trx_def operation_auths_def flat_set_def new_sign_state_def
      GRAPHENE_TEMP_ACCOUNT_def GRAPHENE_COMMITTEE_ACCOUNT_def check_active_def check_account_def a sample_authority_def check_auths_def
      signed_by_key_def mark_signature_def remove_unused_signatures_def Let_def)
  then show ?thesis by (simp add: verify_transaction_authority_def sample_trx_keys d)
qed

lemma sample_trx_runs: "\<exists>ch'. apply_transaction int64_ops sample_crypto sample_fees skip_nothing sample_trx sample_chain = Inr ch'"
proof -
  let ?op = "Witness_create_op \<lparr>wc_fee = mk_asset 100 1, wc_witness_account = 9, wc_url = ''u'', wc_block_signing_key = 7\<rparr> :: unit operation"
  have fee: "calculate_fee_for_operation int64_ops sample_fees trust_node_db ?op = Inr 20"
    using checked_int64.calculate_fee_core [OF int64_ops_checked, of 20 10000 1] trust_node_db_chain_ok
    by (simp add: calculate_fee_for_operation_def sample_fees_def chain_ok_def HARDFORK_1129_TIME_def HARDFORK_1008_TIME_def
        GRAPHENE_MAX_SHARE_SUPPLY_def Let_def)
  have "\<not> isl (rbind (apply_operation int64_ops new_evaluation_state False (\<lambda>_. Inr 20) ?op trust_node_db) (\<lambda>db. fc_assert (temp_account_empty db) (Inr db)))"
    by code_simp
  then obtain db1 where "apply_operation int64_ops new_evaluation_state False (\<lambda>_. Inr 20) ?op trust_node_db = Inr db1" "temp_account_empty db1"
    by (auto dest!: not_isl_Inr simp: result_simps)
  moreover have "check_expiration skip_nothing sample_trx sample_chain = Inr ()"
    by (simp add: check_expiration_def Let_def sample_trx_def sample_chain_def skip_nothing_def head_block_num_def head_block_time_def
        trust_node_db_def issuer_db_def chain_db_def sample_dynamic_def params_def sample_params_def)
  moreover have "transaction_validate sample_trx = Inr ()"
    by (simp add: transaction_validate_def sample_trx_def witness_create_validate_def GRAPHENE_MAX_URL_LENGTH_def)
  moreover have "tx_operations sample_trx = [?op]" by (simp add: sample_trx_def)
  ultimately show ?thesis
    using sample_trx_signed fee
    by (simp add: apply_transaction_def sample_chain_def skip_nothing_def is_known_transaction_def Let_def)
qed

theorem transaction_well_formed_witness:
  "\<exists>ch'. apply_transaction int64_ops sample_crypto sample_fees skip_nothing sample_trx sample_chain = Inr ch' \<and>
    chain_ok (ch_db ch') \<and> surplus (ch_db ch') 1 = surplus trust_node_db 1 \<and>
    (has_approved {7} (\<lambda>k. []) {GRAPHENE_TEMP_ACCOUNT} (account_active trust_node_db) 9 \<or>
      (\<exists>auth. account_owner trust_node_db 9 = Inr (Some auth) \<and>
        satisfied {7} (\<lambda>k. []) {a. has_approved {7} (\<lambda>k. []) {GRAPHENE_TEMP_ACCOUNT} (account_active trust_node_db) a} auth))"
proof -
  obtain ch' where r: "apply_transaction int64_ops sample_crypto sample_fees skip_nothing sample_trx sample_chain = Inr ch'"
    using sample_trx_runs by blast
  let ?op = "Witness_create_op \<lparr>wc_fee = mk_asset 100 1, wc_witness_account = 9, wc_url = ''u'', wc_block_signing_key = 7\<rparr> :: unit operation"
  have o: "?op \<in> set (tx_operations sample_trx)" "\<not> updates_asset sample_trx" by (simp_all add: sample_trx_def updates_asset_def)
  have c: "chain_ok (ch_db sample_chain)" using trust_node_db_chain_ok by (simp add: sample_chain_def)
  from transaction_well_formed [OF int64_ops_checked r c sample_trx_keys refl refl o(1)] o(2) r show ?thesis
    by (auto simp: sample_chain_def skip_nothing_def sample_crypto_def)
qed

end
