(* ===== verification/Withdraw_Permission.thy ===== *)
theory Withdraw_Permission
  imports Transfer_Ops Vesting_Evaluator Trust_Node_Ops
begin

text \<open>
  Withdraw permissions (withdraw_permission_evaluator.cpp, protocol/withdraw_permission.cpp and .hpp,
  withdraw_permission_object.hpp): an account allows another to withdraw a limited amount per period. Creating,
  updating, deleting a permission and claiming from it, and the limit per period over a run of claims.

  A time is a number of seconds below \<open>2 ^ 32\<close>; sums and products of times wrap around as in the source.
\<close>

section \<open>Operations\<close>

record withdraw_permission_create_operation =
  wpc_fee :: asset
  wpc_withdraw_from_account :: account_id_type
  wpc_authorized_account :: account_id_type
  wpc_withdrawal_limit :: asset
  wpc_withdrawal_period_sec :: nat
  wpc_periods_until_expiration :: nat
  wpc_period_start_time :: time_point_sec

record withdraw_permission_update_operation =
  wpu_fee :: asset
  wpu_withdraw_from_account :: account_id_type
  wpu_authorized_account :: account_id_type
  wpu_permission_to_update :: nat
  wpu_withdrawal_limit :: asset
  wpu_withdrawal_period_sec :: nat
  wpu_period_start_time :: time_point_sec
  wpu_periods_until_expiration :: nat

record 'memo withdraw_permission_claim_operation =
  wpl_fee :: asset
  wpl_withdraw_permission :: nat
  wpl_withdraw_from_account :: account_id_type
  wpl_withdraw_to_account :: account_id_type
  wpl_amount_to_withdraw :: asset
  wpl_memo :: "'memo option"

record withdraw_permission_delete_operation =
  wpd_fee :: asset
  wpd_withdraw_from_account :: account_id_type
  wpd_authorized_account :: account_id_type
  wpd_withdrawal_permission :: nat

definition withdraw_permission_create_validate :: "withdraw_permission_create_operation \<Rightarrow> unit result" where
  "withdraw_permission_create_validate op =
     fc_assert (amount (wpc_fee op) \<ge> 0)
     (fc_assert (wpc_withdraw_from_account op \<noteq> wpc_authorized_account op)
     (fc_assert (amount (wpc_withdrawal_limit op) > 0)
     (fc_assert (wpc_withdrawal_period_sec op > 0)
     (fc_assert (wpc_periods_until_expiration op > 0) (Inr ())))))"

definition withdraw_permission_update_validate :: "withdraw_permission_update_operation \<Rightarrow> unit result" where
  "withdraw_permission_update_validate op =
     fc_assert (amount (wpu_withdrawal_limit op) > 0)
     (fc_assert (amount (wpu_fee op) \<ge> 0)
     (fc_assert (wpu_withdrawal_period_sec op > 0)
     (fc_assert (wpu_withdraw_from_account op \<noteq> wpu_authorized_account op)
     (fc_assert (wpu_periods_until_expiration op > 0) (Inr ())))))"

definition withdraw_permission_claim_validate :: "'memo withdraw_permission_claim_operation \<Rightarrow> unit result" where
  "withdraw_permission_claim_validate op =
     fc_assert (wpl_withdraw_to_account op \<noteq> wpl_withdraw_from_account op)
     (fc_assert (amount (wpl_amount_to_withdraw op) > 0)
     (fc_assert (amount (wpl_fee op) \<ge> 0) (Inr ())))"

definition withdraw_permission_delete_validate :: "withdraw_permission_delete_operation \<Rightarrow> unit result" where
  "withdraw_permission_delete_validate op =
     fc_assert (amount (wpd_fee op) \<ge> 0)
     (fc_assert (wpd_withdraw_from_account op \<noteq> wpd_authorized_account op) (Inr ()))"

definition withdraw_permission_claim_calculate_fee ::
  "safe_ops \<Rightarrow> ('memo option \<Rightarrow> int) \<Rightarrow> fee_parameters \<Rightarrow> 'memo withdraw_permission_claim_operation \<Rightarrow> share_type result" where
  "withdraw_permission_claim_calculate_fee S pack_size k op = memo_fee S (\<lambda>m. pack_size (Some m)) (wpl_memo op) k"

section \<open>Evaluators\<close>

definition period_end :: "time_point_sec \<Rightarrow> nat \<Rightarrow> nat \<Rightarrow> time_point_sec" where
  "period_end start periods sec = (start + periods * sec mod 2 ^ 32) mod 2 ^ 32"

definition available_this_period :: "safe_ops \<Rightarrow> withdraw_permission_object \<Rightarrow> time_point_sec \<Rightarrow> asset result" where
  "available_this_period S p current_time =
     (if current_time \<ge> (wp_period_start_time p + wp_withdrawal_period_sec p) mod 2 ^ 32 then Inr (wp_withdrawal_limit p)
      else rbind (if amount (wp_withdrawal_limit p) > wp_claimed_this_period p
                  then safe_sub S (amount (wp_withdrawal_limit p)) (wp_claimed_this_period p) else Inr 0) (\<lambda>a.
           Inr (mk_asset a (asset_id (wp_withdrawal_limit p)))))"

definition withdraw_permission_create_do_evaluate ::
  "withdraw_permission_create_operation \<Rightarrow> fee_state \<Rightarrow> database \<Rightarrow> unit result" where
  "withdraw_permission_create_do_evaluate op fs db =
     fc_assert (index_find (db_accounts db) (wpc_withdraw_from_account op) \<noteq> None)
     (fc_assert (index_find (db_accounts db) (wpc_authorized_account op) \<noteq> None)
     (fc_assert (index_find (db_assets db) (asset_id (wpc_withdrawal_limit op)) \<noteq> None)
     (fc_assert (wpc_period_start_time op > head_block_time db)
     (fc_assert (period_end (wpc_period_start_time op) (wpc_periods_until_expiration op) (wpc_withdrawal_period_sec op) > head_block_time db)
     (fc_assert (wpc_withdrawal_period_sec op \<ge> cp_block_interval (params db)) (Inr ()))))))"

definition withdraw_permission_create_do_apply ::
  "withdraw_permission_create_operation \<Rightarrow> unit \<Rightarrow> database \<Rightarrow> (nat \<times> database) result" where
  "withdraw_permission_create_do_apply op x db =
     create_withdraw_permission \<lparr>wp_withdraw_from_account = wpc_withdraw_from_account op,
       wp_authorized_account = wpc_authorized_account op, wp_withdrawal_limit = wpc_withdrawal_limit op,
       wp_withdrawal_period_sec = wpc_withdrawal_period_sec op, wp_period_start_time = wpc_period_start_time op,
       wp_expiration = period_end (wpc_period_start_time op) (wpc_periods_until_expiration op) (wpc_withdrawal_period_sec op),
       wp_claimed_this_period = 0\<rparr> db"

definition withdraw_permission_claim_do_evaluate ::
  "safe_ops \<Rightarrow> 'memo withdraw_permission_claim_operation \<Rightarrow> fee_state \<Rightarrow> database \<Rightarrow> unit result" where
  "withdraw_permission_claim_do_evaluate S op fs db =
     (let a = wpl_amount_to_withdraw op; k = asset_id a in
      rbind (index_get (db_withdraw_permissions db) (wpl_withdraw_permission op)) (\<lambda>permit.
      fc_assert (wp_expiration permit > head_block_time db)
      (fc_assert (wp_authorized_account permit = wpl_withdraw_to_account op)
      (fc_assert (wp_withdraw_from_account permit = wpl_withdraw_from_account op)
      (rbind (available_this_period S permit (head_block_time db)) (\<lambda>available.
       rbind (asset_le a available) (\<lambda>within_limits.
       fc_assert within_limits
       (rbind (asset_ge (get_balance db (wpl_withdraw_from_account op) k) a) (\<lambda>enough.
       fc_assert enough
       (rbind (index_get (db_assets db) k) (\<lambda>asset_obj.
       fc_assert (is_transfer_restricted asset_obj \<longrightarrow> at_issuer asset_obj = wp_authorized_account permit \<or> at_issuer asset_obj = wp_withdraw_from_account permit)
       (rbind (index_get (db_accounts db) (wpl_withdraw_to_account op)) (\<lambda>from.
       rbind (index_get (db_accounts db) (wp_authorized_account permit)) (\<lambda>to.
       fc_assert (is_authorized_asset db to k asset_obj) (fc_assert (is_authorized_asset db from k asset_obj) (Inr ()))))))))))))))))"

definition count_claim :: "safe_ops \<Rightarrow> time_point_sec \<Rightarrow> share_type \<Rightarrow> withdraw_permission_object \<Rightarrow> withdraw_permission_object result" where
  "count_claim S now amt p =
     ensure (wp_withdrawal_period_sec p \<noteq> 0) Undefined_behaviour
     (let periods = trunc_div (int now - int (wp_period_start_time p)) (int (wp_withdrawal_period_sec p));
          start = nat ((int (wp_period_start_time p) + periods * int (wp_withdrawal_period_sec p)) mod 2 ^ 32) in
      rbind (if periods = 0 then safe_add S (wp_claimed_this_period p) amt else Inr amt) (\<lambda>c.
      Inr (p\<lparr>wp_period_start_time := start, wp_claimed_this_period := c\<rparr>)))"

definition withdraw_permission_claim_do_apply ::
  "safe_ops \<Rightarrow> 'memo withdraw_permission_claim_operation \<Rightarrow> unit \<Rightarrow> database \<Rightarrow> database result" where
  "withdraw_permission_claim_do_apply S op x db =
     rbind (modify_withdraw_permission (wpl_withdraw_permission op)
              (count_claim S (head_block_time db) (amount (wpl_amount_to_withdraw op))) db)
       (move_asset S (wpl_withdraw_from_account op) (wpl_withdraw_to_account op) (wpl_amount_to_withdraw op))"

definition withdraw_permission_update_do_evaluate ::
  "withdraw_permission_update_operation \<Rightarrow> fee_state \<Rightarrow> database \<Rightarrow> unit result" where
  "withdraw_permission_update_do_evaluate op fs db =
     rbind (index_get (db_withdraw_permissions db) (wpu_permission_to_update op)) (\<lambda>permit.
     fc_assert (wp_authorized_account permit = wpu_authorized_account op)
     (fc_assert (wp_withdraw_from_account permit = wpu_withdraw_from_account op)
     (fc_assert (index_find (db_assets db) (asset_id (wpu_withdrawal_limit op)) \<noteq> None)
     (fc_assert (wpu_period_start_time op \<ge> head_block_time db)
     (fc_assert (period_end (wpu_period_start_time op) (wpu_periods_until_expiration op) (wpu_withdrawal_period_sec op) > head_block_time db)
     (fc_assert (wpu_withdrawal_period_sec op \<ge> cp_block_interval (params db)) (Inr ())))))))"

definition withdraw_permission_update_do_apply ::
  "withdraw_permission_update_operation \<Rightarrow> unit \<Rightarrow> database \<Rightarrow> database result" where
  "withdraw_permission_update_do_apply op x db =
     modify_withdraw_permission (wpu_permission_to_update op) (\<lambda>p.
       Inr (p\<lparr>wp_period_start_time := wpu_period_start_time op,
         wp_expiration := period_end (wpu_period_start_time op) (wpu_periods_until_expiration op) (wpu_withdrawal_period_sec op),
         wp_withdrawal_limit := wpu_withdrawal_limit op, wp_withdrawal_period_sec := wpu_withdrawal_period_sec op\<rparr>)) db"

definition withdraw_permission_delete_do_evaluate ::
  "withdraw_permission_delete_operation \<Rightarrow> fee_state \<Rightarrow> database \<Rightarrow> unit result" where
  "withdraw_permission_delete_do_evaluate op fs db =
     rbind (index_get (db_withdraw_permissions db) (wpd_withdrawal_permission op)) (\<lambda>permit.
     fc_assert (wp_authorized_account permit = wpd_authorized_account op)
     (fc_assert (wp_withdraw_from_account permit = wpd_withdraw_from_account op) (Inr ())))"

definition withdraw_permission_delete_do_apply ::
  "withdraw_permission_delete_operation \<Rightarrow> unit \<Rightarrow> database \<Rightarrow> database result" where
  "withdraw_permission_delete_do_apply op x db =
     rbind (index_get (db_withdraw_permissions db) (wpd_withdrawal_permission op)) (\<lambda>_.
     Inr (remove_withdraw_permission (wpd_withdrawal_permission op) db))"

definition withdraw_permission_create_evaluator :: "safe_ops \<Rightarrow> transaction_evaluation_state \<Rightarrow> share_type result \<Rightarrow>
    withdraw_permission_create_operation \<Rightarrow> database \<Rightarrow> database result" where
  "withdraw_permission_create_evaluator S T required op =
     start_evaluate S T required (pay_fee S T) (wpc_withdraw_from_account op) (wpc_fee op) (withdraw_permission_create_do_evaluate op)
       (\<lambda>x db. rbind (withdraw_permission_create_do_apply op x db) (\<lambda>(i, d). Inr d))"

definition withdraw_permission_claim_evaluator :: "safe_ops \<Rightarrow> transaction_evaluation_state \<Rightarrow> share_type result \<Rightarrow>
    'memo withdraw_permission_claim_operation \<Rightarrow> database \<Rightarrow> database result" where
  "withdraw_permission_claim_evaluator S T required op =
     start_evaluate S T required (pay_fee S T) (wpl_withdraw_to_account op) (wpl_fee op) (withdraw_permission_claim_do_evaluate S op)
       (withdraw_permission_claim_do_apply S op)"

definition withdraw_permission_update_evaluator :: "safe_ops \<Rightarrow> transaction_evaluation_state \<Rightarrow> share_type result \<Rightarrow>
    withdraw_permission_update_operation \<Rightarrow> database \<Rightarrow> database result" where
  "withdraw_permission_update_evaluator S T required op =
     start_evaluate S T required (pay_fee S T) (wpu_withdraw_from_account op) (wpu_fee op) (withdraw_permission_update_do_evaluate op)
       (withdraw_permission_update_do_apply op)"

definition withdraw_permission_delete_evaluator :: "safe_ops \<Rightarrow> transaction_evaluation_state \<Rightarrow> share_type result \<Rightarrow>
    withdraw_permission_delete_operation \<Rightarrow> database \<Rightarrow> database result" where
  "withdraw_permission_delete_evaluator S T required op =
     start_evaluate S T required (pay_fee S T) (wpd_withdraw_from_account op) (wpd_fee op) (withdraw_permission_delete_do_evaluate op)
       (withdraw_permission_delete_do_apply op)"

text \<open>
  At the end of a block the expired permissions are removed, the one that expires first at first; the index
  orders them by expiration, and the loop stops at the first that has not expired.
\<close>

definition update_withdraw_permissions :: "database \<Rightarrow> database" where
  "update_withdraw_permissions db =
     fold remove_withdraw_permission (map fst (takeWhile (\<lambda>(i, p). wp_expiration p \<le> head_block_time db)
       (sort_key (\<lambda>(i, p). wp_expiration p) (rows (db_withdraw_permissions db))))) db"

section \<open>Effects\<close>

lemma modify_withdraw_permission_effect:
  assumes m: "modify_withdraw_permission i m db = Inr db'" and ok: "db_ok db" "balances_ok db"
  obtains x y where "index_find (db_withdraw_permissions db) i = Some x" and "m x = Inr y"
    and "index_find (db_withdraw_permissions db') = (index_find (db_withdraw_permissions db))(i \<mapsto> y)"
    and "db' = db\<lparr>db_withdraw_permissions := db_withdraw_permissions db'\<rparr>" and "conserves db db'"
proof -
  from m obtain t where t: "index_modify no_uk i m (db_withdraw_permissions db) = Inr t"
    and db': "db' = db\<lparr>db_withdraw_permissions := t\<rparr>"
    by (auto simp: modify_withdraw_permission_def result_simps)
  obtain x y where xy: "index_find (db_withdraw_permissions db) i = Some x" "m x = Inr y"
    "index_find t = (index_find (db_withdraw_permissions db))(i \<mapsto> y)"
    using t by (rule index_modify_find)
  have it: "index_ok no_uk (db_withdraw_permissions db)" using ok(1) by (simp add: db_ok_def tables_ok_def)
  have "conserves db db'"
    using withdraw_permission_effect [OF index_ok_modify [OF it t] ok(1)] ok(2) by (intro conserves_frame) (simp_all add: db')
  with xy show ?thesis by (intro that [of x y]) (simp_all add: db')
qed

lemma permission_table_conserves:
  assumes "create_withdraw_permission p db = Inr (i, db') \<or> db' = remove_withdraw_permission j db" and ok: "db_ok db" "balances_ok db"
  shows "conserves db db'"
proof -
  have it: "index_ok no_uk (db_withdraw_permissions db)" using ok(1) by (simp add: db_ok_def tables_ok_def)
  have "\<exists>t. index_ok no_uk t \<and> db' = db\<lparr>db_withdraw_permissions := t\<rparr>"
    using assms(1)
  proof
    assume "create_withdraw_permission p db = Inr (i, db')"
    then show ?thesis using index_ok_create [OF it] by (auto simp: create_withdraw_permission_def result_simps)
  next
    assume "db' = remove_withdraw_permission j db"
    then show ?thesis using index_ok_remove [OF it] by (auto simp: remove_withdraw_permission_def)
  qed
  then obtain t where t: "index_ok no_uk t" and db': "db' = db\<lparr>db_withdraw_permissions := t\<rparr>" by blast
  show ?thesis using withdraw_permission_effect [OF t ok(1)] ok(2) by (intro conserves_frame) (simp_all add: db')
qed

lemma takeWhile_sorted:
  "sorted (map f xs) \<Longrightarrow> set (takeWhile (\<lambda>x. f x \<le> t) xs) = {x \<in> set xs. f x \<le> (t :: nat)}"
  by (induction xs) auto

lemma fold_remove_permissions:
  assumes "db_ok db"
  shows "\<exists>t. index_ok no_uk t \<and> fold remove_withdraw_permission is db = db\<lparr>db_withdraw_permissions := t\<rparr> \<and>
    (\<forall>i. index_find t i = (if i \<in> set is then None else index_find (db_withdraw_permissions db) i))"
  using assms
proof (induction "is" arbitrary: db)
  case Nil
  then show ?case by (intro exI [of _ "db_withdraw_permissions db"]) (simp add: db_ok_def tables_ok_def)
next
  case (Cons j "is")
  let ?t = "index_remove j (db_withdraw_permissions db)"
  have t: "index_ok no_uk ?t" using Cons.prems index_ok_remove by (auto simp: db_ok_def tables_ok_def)
  have r: "remove_withdraw_permission j db = db\<lparr>db_withdraw_permissions := ?t\<rparr>" by (simp add: remove_withdraw_permission_def)
  from Cons.IH [OF withdraw_permission_effect(1) [OF t Cons.prems]] show ?case by (auto simp: r index_remove_find)
qed

lemma update_withdraw_permissions_dynamic [simp]: "db_dynamic (update_withdraw_permissions db) = db_dynamic db"
proof -
  have "db_dynamic (fold remove_withdraw_permission is db) = db_dynamic db" for "is"
    by (induction "is" arbitrary: db) (simp_all add: remove_withdraw_permission_def)
  then show ?thesis by (simp add: update_withdraw_permissions_def)
qed

text \<open>Afterwards exactly the permissions that have not expired are left, and no value has moved.\<close>

lemma update_withdraw_permissions_effect:
  assumes ok: "db_ok db" "balances_ok db"
  obtains t where "update_withdraw_permissions db = db\<lparr>db_withdraw_permissions := t\<rparr>" and "conserves db (update_withdraw_permissions db)"
    and "\<And>i. index_find t i = (case index_find (db_withdraw_permissions db) i of
      Some p \<Rightarrow> if wp_expiration p \<le> head_block_time db then None else Some p | None \<Rightarrow> None)"
proof -
  let ?P = "db_withdraw_permissions db" and ?e = "\<lambda>(i::nat, p). wp_expiration p"
  let ?is = "map fst (takeWhile (\<lambda>(i, p). wp_expiration p \<le> head_block_time db) (sort_key ?e (rows ?P)))"
  obtain t where t: "index_ok no_uk t" and u: "update_withdraw_permissions db = db\<lparr>db_withdraw_permissions := t\<rparr>"
    and find: "\<And>i. index_find t i = (if i \<in> set ?is then None else index_find ?P i)"
    using fold_remove_permissions [OF ok(1), of ?is] unfolding update_withdraw_permissions_def by blast
  have d: "distinct (map fst (rows ?P))" using ok(1) by (simp add: db_ok_def tables_ok_def index_ok_def)
  have "i \<in> set ?is \<longleftrightarrow> (\<exists>p. (i, p) \<in> set (rows ?P) \<and> wp_expiration p \<le> head_block_time db)" for i
    using takeWhile_sorted [of ?e "sort_key ?e (rows ?P)" "head_block_time db"] by (force simp: case_prod_beta' image_iff)
  then have "i \<in> set ?is \<longleftrightarrow> (\<exists>p. index_find ?P i = Some p \<and> wp_expiration p \<le> head_block_time db)" for i
    using d by (auto simp: index_find_def dest: map_of_SomeD intro: map_of_is_SomeI)
  with find have "index_find t i = (case index_find ?P i of
      Some p \<Rightarrow> if wp_expiration p \<le> head_block_time db then None else Some p | None \<Rightarrow> None)" for i
    by (auto split: option.splits)
  moreover have "conserves db (update_withdraw_permissions db)"
    using withdraw_permission_effect [OF t ok(1)] ok(2) by (intro conserves_frame) (simp_all add: u)
  ultimately show ?thesis using u by (intro that) auto
qed

context checked_int64
begin

lemma claim_do_apply_effect:
  assumes a: "withdraw_permission_claim_do_apply S op x db = Inr db'" and ok: "db_ok db" "balances_ok db"
  obtains p p' where "index_find (db_withdraw_permissions db) (wpl_withdraw_permission op) = Some p"
    and "count_claim S (head_block_time db) (amount (wpl_amount_to_withdraw op)) p = Inr p'"
    and "index_find (db_withdraw_permissions db') = (index_find (db_withdraw_permissions db))(wpl_withdraw_permission op \<mapsto> p')"
    and "conserves db db'" and "db_dynamic db' = db_dynamic db"
    and "\<And>y k. bal db' y k = bal db y k
      + (if y = wpl_withdraw_to_account op \<and> k = asset_id (wpl_amount_to_withdraw op) then amount (wpl_amount_to_withdraw op) else 0)
      - (if y = wpl_withdraw_from_account op \<and> k = asset_id (wpl_amount_to_withdraw op) then amount (wpl_amount_to_withdraw op) else 0)"
proof -
  from a obtain db1 where m: "modify_withdraw_permission (wpl_withdraw_permission op)
        (count_claim S (head_block_time db) (amount (wpl_amount_to_withdraw op))) db = Inr db1"
    and mv: "move_asset S (wpl_withdraw_from_account op) (wpl_withdraw_to_account op) (wpl_amount_to_withdraw op) db1 = Inr db'"
    by (auto simp: withdraw_permission_claim_do_apply_def rbind_Inr)
  obtain p p' where p: "index_find (db_withdraw_permissions db) (wpl_withdraw_permission op) = Some p"
      "count_claim S (head_block_time db) (amount (wpl_amount_to_withdraw op)) p = Inr p'"
      "index_find (db_withdraw_permissions db1) = (index_find (db_withdraw_permissions db))(wpl_withdraw_permission op \<mapsto> p')"
    and db1: "db1 = db\<lparr>db_withdraw_permissions := db_withdraw_permissions db1\<rparr>" and c: "conserves db db1"
    using m ok by (rule modify_withdraw_permission_effect) (rule that)
  have ok1: "db_ok db1" "balances_ok db1" using c by (simp_all add: conserves_def)
  note e = move_asset_effect [OF mv ok1]
  have "db_withdraw_permissions db' = db_withdraw_permissions db1" "db_dynamic db' = db_dynamic db1" by (subst e(3), simp)+
  moreover have "db_dynamic db1 = db_dynamic db" "bal db1 = bal db" by (subst db1, simp add: bal_simps)+
  ultimately show ?thesis using that [OF p(1,2)] p(3) conserves_trans [OF c e(1)] e(2) by simp
qed

end

sublocale charging < permission_create: conserving_evaluator S "pay_fee S T" fs_core_fee_paid
    "withdraw_permission_create_do_evaluate op" "\<lambda>x db. rbind (withdraw_permission_create_do_apply op x db) (\<lambda>(i, d). Inr d)" for op
  by unfold_locales (auto simp: credits_zero rbind_Inr withdraw_permission_create_do_apply_def intro: permission_table_conserves)

sublocale charging < permission_update: conserving_evaluator S "pay_fee S T" fs_core_fee_paid
    "withdraw_permission_update_do_evaluate op" "withdraw_permission_update_do_apply op" for op
  by unfold_locales (auto simp: credits_zero withdraw_permission_update_do_apply_def elim: modify_withdraw_permission_effect)

sublocale charging < permission_delete: conserving_evaluator S "pay_fee S T" fs_core_fee_paid
    "withdraw_permission_delete_do_evaluate op" "withdraw_permission_delete_do_apply op" for op
  by unfold_locales (auto simp: credits_zero withdraw_permission_delete_do_apply_def rbind_Inr intro: permission_table_conserves)

sublocale charging < permission_claim: moving_evaluator S "pay_fee S T" fs_core_fee_paid
    "withdraw_permission_claim_do_evaluate S op" "withdraw_permission_claim_do_apply S op"
    "\<lambda>a k. (if a = wpl_withdraw_to_account op \<and> k = asset_id (wpl_amount_to_withdraw op) then amount (wpl_amount_to_withdraw op) else 0) -
      (if a = wpl_withdraw_from_account op \<and> k = asset_id (wpl_amount_to_withdraw op) then amount (wpl_amount_to_withdraw op) else 0)" for op
  by unfold_locales (auto simp: credits_zero elim: claim_do_apply_effect)

section \<open>The limit of a period\<close>

text \<open>The claims \<open>cs\<close>, each a time and an amount, that fall into period \<open>j\<close> of a permission that starts at \<open>s\<close>.\<close>

definition period_sum :: "time_point_sec \<Rightarrow> nat \<Rightarrow> nat \<Rightarrow> (time_point_sec \<times> share_type) list \<Rightarrow> share_type" where
  "period_sum s sec j cs = sum_list (map snd (filter (\<lambda>(t, a). (t - s) div sec = j) cs))"

lemma period_sum_snoc: "period_sum s sec j (cs @ [(t, a)]) = period_sum s sec j cs + (if (t - s) div sec = j then a else 0)"
  by (simp add: period_sum_def)

lemma period_sum_later: "\<forall>(t, a) \<in> set cs. (t - s) div sec < j \<Longrightarrow> period_sum s sec j cs = 0"
  by (induction cs) (auto simp: period_sum_def)

definition within_limit :: "withdraw_permission_object \<Rightarrow> (time_point_sec \<times> share_type) list \<Rightarrow> withdraw_permission_object \<Rightarrow> bool" where
  "within_limit p0 cs p \<longleftrightarrow> (let s = wp_period_start_time p0; sec = wp_withdrawal_period_sec p0 in
     \<exists>k. p = p0\<lparr>wp_period_start_time := s + k * sec, wp_claimed_this_period := period_sum s sec k cs\<rparr> \<and>
       (\<forall>(t, a) \<in> set cs. (t - s) div sec \<le> k) \<and> (\<forall>j. period_sum s sec j cs \<le> amount (wp_withdrawal_limit p0)))"

lemma period_index:
  assumes "s + k * sec \<le> now" and "0 < (sec::nat)"
  shows "(now - s) div sec = k + (now - (s + k * sec)) div sec"
    and "s + (k + (now - (s + k * sec)) div sec) * sec \<le> now"
proof -
  have "now - s = (now - (s + k * sec)) + k * sec" using assms(1) by simp
  then show "(now - s) div sec = k + (now - (s + k * sec)) div sec" using assms(2) by simp
  have "(now - (s + k * sec)) div sec * sec \<le> now - (s + k * sec)" by (rule div_times_less_eq_dividend)
  then show "s + (k + (now - (s + k * sec)) div sec) * sec \<le> now" using assms(1) by (subst add_mult_distrib) linarith
qed

text \<open>
  From the start of a permission on, a claim moves its start to the period of the claim, counted in whole
  periods, and the count of the period starts anew when the period changes.
\<close>

lemma count_claim_forward:
  assumes st: "wp_period_start_time p \<le> now" and sec: "0 < wp_withdrawal_period_sec p" and now: "now < 2 ^ 32"
  defines "q \<equiv> (now - wp_period_start_time p) div wp_withdrawal_period_sec p"
  shows "count_claim S now amt p =
    rbind (if q = 0 then safe_add S (wp_claimed_this_period p) amt else Inr amt) (\<lambda>c.
    Inr (p\<lparr>wp_period_start_time := wp_period_start_time p + q * wp_withdrawal_period_sec p, wp_claimed_this_period := c\<rparr>))"
proof -
  let ?s = "wp_period_start_time p" and ?sec = "wp_withdrawal_period_sec p"
  have td: "trunc_div (int now - int ?s) (int ?sec) = int q"
    unfolding of_nat_diff [OF st, symmetric] q_def by (subst trunc_div_nonneg) (simp_all only: zdiv_int of_nat_0_le_iff)
  have "?s + q * ?sec \<le> now" using period_index(2) [of ?s 0 ?sec now] st sec by (simp add: q_def)
  then have small: "?s + q * ?sec < 2 ^ 32" using now by simp
  have wrap: "nat (int n mod 2 ^ 32) = n" if "n < 2 ^ 32" for n using that by simp
  have "int ?s + int q * int ?sec = int (?s + q * ?sec)" by simp
  then have start: "nat ((int ?s + int q * int ?sec) mod 2 ^ 32) = ?s + q * ?sec" by (simp only: wrap [OF small])
  show ?thesis unfolding count_claim_def Let_def by (simp only: td start) (use sec in \<open>simp add: ensure_def\<close>)
qed

text \<open>Before the end of the current period the rest of the limit is available, after it the whole limit.\<close>

lemma available_Inr:
  assumes "available_this_period S p now = Inr av" and "checked_int64 S"
    and "wp_period_start_time p \<le> now" and "now + wp_withdrawal_period_sec p < 2 ^ 32" and "0 < wp_withdrawal_period_sec p"
  shows "amount av = (if (now - wp_period_start_time p) div wp_withdrawal_period_sec p = 0
    then max 0 (amount (wp_withdrawal_limit p) - wp_claimed_this_period p) else amount (wp_withdrawal_limit p))"
proof -
  have "now \<ge> (wp_period_start_time p + wp_withdrawal_period_sec p) mod 2 ^ 32 \<longleftrightarrow>
      \<not> (now - wp_period_start_time p) div wp_withdrawal_period_sec p = 0"
    using assms(3-5) by (auto simp: div_eq_0_iff)
  then show ?thesis
    using assms(1) by (auto simp: available_this_period_def rbind_Inr checked_int64.safe_sub_Inr [OF assms(2)] split: if_splits)
qed

context checked_int64
begin

lemma count_claim_within:
  assumes c: "count_claim S now amt p = Inr p'" and av: "available_this_period S p now = Inr av" "amt \<le> amount av"
    and inv: "within_limit p0 cs p" and t: "wp_period_start_time p \<le> now" "now < wp_expiration p0"
    and p0: "0 < wp_withdrawal_period_sec p0" "wp_expiration p0 + wp_withdrawal_period_sec p0 < 2 ^ 32"
    and L: "0 \<le> amount (wp_withdrawal_limit p0)"
  shows "within_limit p0 (cs @ [(now, amt)]) p'" and "wp_period_start_time p' \<le> now"
proof -
  let ?s = "wp_period_start_time p0" and ?sec = "wp_withdrawal_period_sec p0" and ?L = "amount (wp_withdrawal_limit p0)"
  from inv obtain k where p: "p = p0\<lparr>wp_period_start_time := ?s + k * ?sec, wp_claimed_this_period := period_sum ?s ?sec k cs\<rparr>"
    and le: "\<forall>(t, a) \<in> set cs. (t - ?s) div ?sec \<le> k" and lim: "\<And>j. period_sum ?s ?sec j cs \<le> ?L"
    by (auto simp: within_limit_def Let_def)
  define q where "q = (now - (?s + k * ?sec)) div ?sec"
  have st: "?s + k * ?sec \<le> now" using t(1) p by simp
  have idx: "(now - ?s) div ?sec = k + q" and q_le: "?s + (k + q) * ?sec \<le> now"
    using period_index [OF st p0(1)] by (simp_all only: q_def)
  let ?c = "if q = 0 then period_sum ?s ?sec k cs + amt else amt"
  have "count_claim S now amt p = rbind (if q = 0 then safe_add S (period_sum ?s ?sec k cs) amt else Inr amt) (\<lambda>c.
      Inr (p0\<lparr>wp_period_start_time := ?s + (k + q) * ?sec, wp_claimed_this_period := c\<rparr>))"
    using count_claim_forward [of p now S amt] t p0 st by (simp add: p q_def algebra_simps)
  from c [unfolded this] have p': "p' = p0\<lparr>wp_period_start_time := ?s + (k + q) * ?sec, wp_claimed_this_period := ?c\<rparr>"
    by (auto simp: rbind_Inr safe_add_Inr split: if_splits)
  have amt: "?c \<le> ?L"
    using available_Inr [OF av(1) checked_int64_axioms] av(2) lim [of k] L t p0 st by (simp add: p q_def [symmetric] split: if_splits)
  have sum: "period_sum ?s ?sec (k + q) (cs @ [(now, amt)]) = ?c"
  proof (cases "q = 0")
    case False
    then have "period_sum ?s ?sec (k + q) cs = 0" using le by (intro period_sum_later) auto
    with False idx show ?thesis by (simp add: period_sum_snoc)
  qed (use idx in \<open>simp add: period_sum_snoc\<close>)
  have "period_sum ?s ?sec j (cs @ [(now, amt)]) \<le> ?L" for j
    using sum amt idx lim [of j] by (cases "j = k + q") (simp_all add: period_sum_snoc)
  moreover have "\<forall>(t, a) \<in> set (cs @ [(now, amt)]). (t - ?s) div ?sec \<le> k + q" using le idx by auto
  ultimately show "within_limit p0 (cs @ [(now, amt)]) p'"
    unfolding within_limit_def Let_def using p' sum by (intro exI [of _ "k + q"]) simp
  show "wp_period_start_time p' \<le> now" using q_le p' by simp
qed

end

text \<open>
  The claims of one permission in a run of the chain: each claim is an operation that succeeds, and between
  two claims the chain may do anything that keeps the permission and does not turn back the time.
\<close>

inductive permission_run :: "safe_ops \<Rightarrow> transaction_evaluation_state \<Rightarrow> nat \<Rightarrow> database \<Rightarrow>
    (time_point_sec \<times> 'memo withdraw_permission_claim_operation) list \<Rightarrow> database \<Rightarrow> bool"
  for S T i db0 where
  start: "permission_run S T i db0 [] db0"
| claim: "permission_run S T i db0 cs db \<Longrightarrow> wpl_withdraw_permission op = i \<Longrightarrow>
    withdraw_permission_claim_evaluator S T required op db = Inr db' \<Longrightarrow>
    permission_run S T i db0 (cs @ [(head_block_time db, op)]) db'"
| other: "permission_run S T i db0 cs db \<Longrightarrow> db_ok db' \<Longrightarrow> balances_ok db' \<Longrightarrow>
    index_find (db_withdraw_permissions db') i = index_find (db_withdraw_permissions db) i \<Longrightarrow>
    head_block_time db \<le> head_block_time db' \<Longrightarrow> permission_run S T i db0 cs db'"

definition claimed_amounts :: "(time_point_sec \<times> 'memo withdraw_permission_claim_operation) list \<Rightarrow> (time_point_sec \<times> share_type) list" where
  "claimed_amounts = map (\<lambda>(t, op). (t, amount (wpl_amount_to_withdraw op)))"

lemma claimed_amounts_simps [simp]:
  "claimed_amounts [] = []" "claimed_amounts (cs @ [(t, op)]) = claimed_amounts cs @ [(t, amount (wpl_amount_to_withdraw op))]"
  by (simp_all add: claimed_amounts_def)

lemma claim_do_evaluate_Inr:
  assumes "withdraw_permission_claim_do_evaluate S op fs db = Inr x"
  obtains p av where "index_find (db_withdraw_permissions db) (wpl_withdraw_permission op) = Some p"
    and "head_block_time db < wp_expiration p" and "available_this_period S p (head_block_time db) = Inr av"
    and "amount (wpl_amount_to_withdraw op) \<le> amount av"
    and "wp_authorized_account p = wpl_withdraw_to_account op" and "wp_withdraw_from_account p = wpl_withdraw_from_account op"
proof -
  from assms obtain p av where p: "index_get (db_withdraw_permissions db) (wpl_withdraw_permission op) = Inr p"
    and q: "head_block_time db < wp_expiration p" "wp_authorized_account p = wpl_withdraw_to_account op"
      "wp_withdraw_from_account p = wpl_withdraw_from_account op" "available_this_period S p (head_block_time db) = Inr av"
      "asset_le (wpl_amount_to_withdraw op) av = Inr True"
    unfolding withdraw_permission_claim_do_evaluate_def Let_def by (auto simp only: rbind_Inr ensure_Inr)
  have "amount (wpl_amount_to_withdraw op) \<le> amount av"
    using q(5) by (auto simp: asset_le_def asset_lt_def result_simps split: if_splits)
  with p q show ?thesis by (intro that) (auto simp: index_get_def split: option.splits)
qed

context charging
begin

lemma claim_step:
  assumes run: "withdraw_permission_claim_evaluator S T required op db = Inr db'" and ok: "db_ok db" "balances_ok db"
  obtains p av p' where "index_find (db_withdraw_permissions db) (wpl_withdraw_permission op) = Some p"
    and "head_block_time db < wp_expiration p" and "available_this_period S p (head_block_time db) = Inr av"
    and "amount (wpl_amount_to_withdraw op) \<le> amount av"
    and "count_claim S (head_block_time db) (amount (wpl_amount_to_withdraw op)) p = Inr p'"
    and "index_find (db_withdraw_permissions db') (wpl_withdraw_permission op) = Some p'"
    and "conserves db db'" and "head_block_time db' = head_block_time db"
proof -
  obtain fs x db2 db3 where e: "withdraw_permission_claim_do_evaluate S op fs db = Inr x"
    and ap: "withdraw_permission_claim_do_apply S op x db2 = Inr db3" and ok2: "db_ok db2" "balances_ok db2" and f: "fee_frame db db2"
    and adj: "adjust_balance S (wpl_withdraw_to_account op) (mk_asset (- amount (wpl_fee op)) (asset_id (wpl_fee op))) db3 = Inr db'"
    using run unfolding withdraw_permission_claim_evaluator_def
    by (rule default_pay.start_evaluate_steps [OF _ ok fees_charged]) (rule that)
  obtain p av where p: "index_find (db_withdraw_permissions db) (wpl_withdraw_permission op) = Some p"
      "head_block_time db < wp_expiration p" "available_this_period S p (head_block_time db) = Inr av"
      "amount (wpl_amount_to_withdraw op) \<le> amount av"
    using e by (rule claim_do_evaluate_Inr) (rule that)
  have f2: "db_withdraw_permissions db2 = db_withdraw_permissions db" "head_block_time db2 = head_block_time db"
    using fee_frame_fields(10) [OF f] by (subst f [unfolded fee_frame_def], simp)+
  obtain p2 p' where p': "index_find (db_withdraw_permissions db2) (wpl_withdraw_permission op) = Some p2"
      "count_claim S (head_block_time db2) (amount (wpl_amount_to_withdraw op)) p2 = Inr p'"
      "index_find (db_withdraw_permissions db3) = (index_find (db_withdraw_permissions db2))(wpl_withdraw_permission op \<mapsto> p')"
    and c: "conserves db2 db3" and d: "db_dynamic db3 = db_dynamic db2"
    using ap ok2 by (rule claim_do_apply_effect) (rule that)
  have ok3: "db_ok db3" "balances_ok db3" using c by (simp_all add: conserves_def)
  obtain t where t: "db' = db3\<lparr>db_balances := t\<rparr>" using adjust_balance_adjusted [OF adj ok3] unfolding adjusted_def by blast
  have "conserves db db'"
    using permission_claim.start_evaluate_conserves [OF run [unfolded withdraw_permission_claim_evaluator_def] ok fees_charged] .
  then show ?thesis
    using p p' f2 d by (intro that [of p av p']) (simp_all add: t head_block_time_def)
qed

lemma permission_run_within:
  assumes "permission_run S T i db0 cs db" and ok: "db_ok db0" "balances_ok db0"
    and p: "index_find (db_withdraw_permissions db0) i = Some p" "wp_claimed_this_period p = 0" "0 \<le> amount (wp_withdrawal_limit p)"
    and t: "wp_period_start_time p \<le> head_block_time db0" "0 < wp_withdrawal_period_sec p" "wp_expiration p + wp_withdrawal_period_sec p < 2 ^ 32"
  shows "db_ok db \<and> balances_ok db \<and> (\<forall>(t, a) \<in> set cs. t < wp_expiration p) \<and>
    (\<exists>p'. index_find (db_withdraw_permissions db) i = Some p' \<and> within_limit p (claimed_amounts cs) p' \<and> wp_period_start_time p' \<le> head_block_time db)"
  using assms(1)
proof induction
  case start
  have "within_limit p [] p" using p(2,3) by (auto simp: within_limit_def period_sum_def intro: exI [of _ 0])
  with ok p t show ?case by simp
next
  case (claim cs db op required db')
  then obtain r where r: "index_find (db_withdraw_permissions db) i = Some r" "within_limit p (claimed_amounts cs) r" "wp_period_start_time r \<le> head_block_time db"
    and okd: "db_ok db" "balances_ok db" and old: "\<forall>(t, a) \<in> set cs. t < wp_expiration p" by auto
  obtain av r' where s: "head_block_time db < wp_expiration r" "available_this_period S r (head_block_time db) = Inr av"
      "amount (wpl_amount_to_withdraw op) \<le> amount av" "count_claim S (head_block_time db) (amount (wpl_amount_to_withdraw op)) r = Inr r'"
      "index_find (db_withdraw_permissions db') i = Some r'" "conserves db db'" "head_block_time db' = head_block_time db"
    using claim_step [OF claim.hyps(3) okd] r(1) claim.hyps(2) by (metis option.inject)
  have e: "wp_expiration r = wp_expiration p" using r(2) by (auto simp: within_limit_def Let_def)
  note w = count_claim_within [OF s(4) s(2,3) r(2,3) s(1) [unfolded e] t(2,3) p(3)]
  show ?case using s w old e by (auto simp: conserves_def)
next
  case (other cs db db')
  then show ?case by auto
qed

end

text \<open>C34.
  The limit of a withdraw permission holds. Take a permission from the start of its first period on, before any
  claim, and any run of the chain with any number of successful claims in it: the claims that fall into a period sum
  up to no more than the limit, for every period, counted from the start of the permission, and no claim happens at
  or after the expiration. The check before a claim and the lazy reset of \<open>claimed_this_period\<close> together
  see to that. The last hypothesis keeps the times away from the end of the 32-bit range.
\<close>

theorem withdraw_limit_holds:
  assumes "charging S T" and "db_ok db0" "balances_ok db0"
    and "index_find (db_withdraw_permissions db0) i = Some p"
    and "wp_claimed_this_period p = 0" "0 \<le> amount (wp_withdrawal_limit p)" "wp_period_start_time p \<le> head_block_time db0"
    and "0 < wp_withdrawal_period_sec p" "wp_expiration p + wp_withdrawal_period_sec p < 2 ^ 32"
    and "permission_run S T i db0 cs db"
  shows "(\<forall>j. period_sum (wp_period_start_time p) (wp_withdrawal_period_sec p) j (claimed_amounts cs) \<le> amount (wp_withdrawal_limit p)) \<and>
    (\<forall>(t, a) \<in> set cs. t < wp_expiration p)"
  using charging.permission_run_within [OF assms(1,10,2-9)] by (auto simp: within_limit_def Let_def)

definition sample_permission :: withdraw_permission_object where
  "sample_permission = \<lparr>wp_withdraw_from_account = 9, wp_authorized_account = 6, wp_withdrawal_limit = mk_asset 300 2,
     wp_withdrawal_period_sec = 3600, wp_period_start_time = 1700000000, wp_expiration = 1700018000, wp_claimed_this_period = 0\<rparr>"

definition permission_db :: database where
  "permission_db = chain_db\<lparr>db_withdraw_permissions := \<lparr>next_id = 1, rows = [(0, sample_permission)]\<rparr>\<rparr>"

definition claim_of :: "share_type \<Rightarrow> unit withdraw_permission_claim_operation" where
  "claim_of a = \<lparr>wpl_fee = mk_asset 20 1, wpl_withdraw_permission = 0, wpl_withdraw_from_account = 9,
     wpl_withdraw_to_account = 6, wpl_amount_to_withdraw = mk_asset a 2, wpl_memo = None\<rparr>"

lemma permission_db_ok: "db_ok permission_db" "balances_ok permission_db"
proof -
  have "index_ok no_uk \<lparr>next_id = 1, rows = [(0, sample_permission)]\<rparr>" by (rule index_okI) (simp_all add: no_uk_def)
  from withdraw_permission_effect [OF this chain_db_ok] chain_db_balances_ok
  show "db_ok permission_db" "balances_ok permission_db" by (simp_all add: permission_db_def balances_ok_def)
qed

theorem withdraw_limit_holds_witness:
  "\<exists>db. permission_run int64_ops new_evaluation_state 0 permission_db [(1700000001, claim_of 200), (1700000001, claim_of 100)] db \<and>
    (\<forall>j. period_sum 1700000000 3600 j [(1700000001, 200), (1700000001, 100)] \<le> 300) \<and> db_ok permission_db"
proof -
  let ?ev = "withdraw_permission_claim_evaluator int64_ops new_evaluation_state (Inr 20)"
  have "\<not> isl (rbind (?ev (claim_of 200) permission_db) (?ev (claim_of 100)))" by code_simp
  then obtain db1 db where d: "?ev (claim_of 200) permission_db = Inr db1" "?ev (claim_of 100) db1 = Inr db"
    by (auto simp: rbind_Inr dest!: not_isl_Inr)
  have h: "head_block_time permission_db = 1700000001" using chain_time by (simp add: permission_db_def head_block_time_def)
  have "head_block_time db1 = 1700000001"
    using std.claim_step [OF d(1) permission_db_ok] h by metis
  then have run: "permission_run int64_ops new_evaluation_state 0 permission_db ([] @ [(1700000001, claim_of 200)] @ [(1700000001, claim_of 100)]) db"
    using permission_run.claim [OF permission_run.claim [OF permission_run.start _ d(1)] _ d(2), of 0] h by (simp add: claim_of_def)
  have "index_find (db_withdraw_permissions permission_db) 0 = Some sample_permission" by (simp add: permission_db_def index_find_def)
  from withdraw_limit_holds [OF std.charging_axioms permission_db_ok this _ _ _ _ _ run] h
  show ?thesis using run permission_db_ok(1) by (auto simp: sample_permission_def claimed_amounts_def claim_of_def)
qed

text \<open>
  No check looks at the start of the first period: before it the whole limit is available, and a claim made more
  than a period early moves the start of the permission back.
\<close>

lemma claim_before_start:
  "available_this_period int64_ops sample_permission 1699990000 = Inr (mk_asset 300 2) \<and>
   count_claim int64_ops 1699990000 300 sample_permission =
     Inr (sample_permission\<lparr>wp_period_start_time := 1699992800, wp_claimed_this_period := 300\<rparr>)"
  by code_simp

text \<open>The product of the periods and their length wraps around, so that a permission for more periods can end earlier.\<close>

lemma period_end_wraps: "period_end 1700000000 1193047 3600 < period_end 1700000000 1 3600"
  by code_simp

text \<open>The asset authorization of the account that pays is never looked at: \<open>from\<close> is taken from the receiving account too.\<close>

lemma claim_ignores_payer_authorization:
  assumes "wpl_withdraw_from_account op \<noteq> wpl_withdraw_to_account op"
    and "\<And>i. i \<noteq> wpl_withdraw_from_account op \<Longrightarrow> index_find t i = index_find (db_accounts db) i"
  shows "withdraw_permission_claim_do_evaluate S op fs (db\<lparr>db_accounts := t\<rparr>) = withdraw_permission_claim_do_evaluate S op fs db"
proof -
  have "index_get t (wpl_withdraw_to_account op) = index_get (db_accounts db) (wpl_withdraw_to_account op)"
    using assms by (simp add: index_get_def)
  moreover have "is_authorized_asset (db\<lparr>db_accounts := t\<rparr>) = is_authorized_asset db" "get_balance (db\<lparr>db_accounts := t\<rparr>) = get_balance db"
    by (simp_all add: fun_eq_iff is_authorized_asset_def is_authorized_asset_slow_def get_balance_def find_balance_def)
  ultimately show ?thesis by (simp add: withdraw_permission_claim_do_evaluate_def Let_def ensure_def cong: if_cong)
qed

end
