(* ===== verification/Block_Application.thy ===== *)
theory Block_Application
  imports Chain_Operations Withdraw_Permission
begin

text \<open>
  Applying a block (db_block.cpp, db_update.cpp): the checks of its header, its transactions in order, the
  bookkeeping that follows them, and the removal of expired transactions from the list of known ones.

  What the fc library does with hashes and signatures is the record \<open>block_crypto\<close>, an argument. The work of
  the maintenance interval is the argument \<open>maint\<close> (its modelled parts are in \<open>Budget\<close> and
  \<open>Staking_Rewards\<close>). The database has no proposals and no signatures of contracts, so their
  expiry has nothing to do; no modelled operation returns a contract receipt, so the limit on the time of
  contracts is met.
\<close>

section \<open>Blocks\<close>

record 'memo block_crypto =
  bc_trx :: "'memo crypto"
  bc_hash :: fc_hash
  bc_pair_hash :: "digest_type \<Rightarrow> digest_type \<Rightarrow> digest_type"
  bc_checksum :: "digest_type \<Rightarrow> digest_type"
  bc_merkle_digest :: "'memo signed_transaction \<Rightarrow> digest_type"
  bc_signee :: "'memo signed_transaction signed_block \<Rightarrow> public_key_type"

definition applied_of :: "fc_hash \<Rightarrow> 'tx signed_block \<Rightarrow> applied_block" where
  "applied_of F b = \<lparr>ab_block_num = unat (block_num F b), ab_id = block_id F b,
     ab_timestamp = bh_timestamp b, ab_witness = bh_witness b\<rparr>"

definition validate_block_header :: "'memo block_crypto \<Rightarrow> skip_flags \<Rightarrow> 'memo signed_transaction signed_block \<Rightarrow> database \<Rightarrow> witness_object result" where
  "validate_block_header E skip b db =
     fc_assert (dg_head_block_id (db_dynamic db) = bh_previous b)
    (fc_assert (head_block_time db < bh_timestamp b)
    (rbind (index_get (db_witnesses db) (bh_witness b)) (\<lambda>w.
     rbind (if skip_witness_signature skip then Inr () else fc_assert (bc_signee E b = wt_signing_key w) (Inr ())) (\<lambda>_.
     rbind (if skip_witness_schedule_check skip then Inr ()
            else let slot_num = get_slot_at_time db (bh_timestamp b) in
                 fc_assert (slot_num > 0)
                 (rbind (get_scheduled_witness db slot_num) (\<lambda>scheduled. fc_assert (bh_witness b = scheduled) (Inr ())))) (\<lambda>_.
     Inr w)))))"

definition create_block_summary :: "u32 \<Rightarrow> block_id_type \<Rightarrow> chain \<Rightarrow> chain result" where
  "create_block_summary num bid ch =
     (let sid = unat (num AND 0xffff) in
      ensure (sid < length (ch_block_summaries ch)) Object_not_found
        (Inr (ch\<lparr>ch_block_summaries := (ch_block_summaries ch)[sid := bid]\<rparr>)))"

text \<open>The index orders transactions by expiration; the loop removes the first one while it has expired.\<close>

definition clear_expired_transactions :: "chain \<Rightarrow> chain" where
  "clear_expired_transactions ch =
     ch\<lparr>ch_transactions := dropWhile (\<lambda>(i, e). head_block_time (ch_db ch) > e) (sort_key snd (ch_transactions ch))\<rparr>"

definition maintenance_needed :: "'tx signed_block \<Rightarrow> database \<Rightarrow> bool" where
  "maintenance_needed b db \<longleftrightarrow> dg_next_maintenance_time (db_dynamic db) \<le> bh_timestamp b"

text \<open>The first part of \<open>_apply_block\<close>, up to the new sizes of the undo and fork databases, which it returns.\<close>

definition apply_block_start :: "safe_ops \<Rightarrow> 'memo block_crypto \<Rightarrow> 'memo fee_table \<Rightarrow> nat option \<Rightarrow> nat option \<Rightarrow> skip_flags \<Rightarrow>
    'memo signed_transaction signed_block \<Rightarrow> chain \<Rightarrow> (chain \<times> database \<times> nat \<times> nat) result" where
  "apply_block_start S E F checkpoint fork_head skip b ch =
      fc_assert (skip_merkle_check skip \<or>
          bh_transaction_merkle_root b = calculate_merkle_root (bc_pair_hash E) (bc_checksum E) (bc_merkle_digest E) b)
     (rbind (validate_block_header E skip b (ch_db ch)) (\<lambda>signing_witness.
      rbind (fold_result (apply_transaction S (bc_trx E) F skip) (bh_transactions b) ch) (\<lambda>ch1.
      rbind (update_global_dynamic_data checkpoint fork_head (skip_undo_history_check skip) (applied_of (bc_hash E) b) (ch_db ch1))
        (\<lambda>(db2, undo_size, fork_size). Inr (ch1, db2, undo_size, fork_size)))))"

definition apply_block_inner :: "safe_ops \<Rightarrow> 'memo block_crypto \<Rightarrow> 'memo fee_table \<Rightarrow> (applied_block \<Rightarrow> database \<Rightarrow> database result) \<Rightarrow>
    nat option \<Rightarrow> nat option \<Rightarrow> skip_flags \<Rightarrow> 'memo signed_transaction signed_block \<Rightarrow> chain \<Rightarrow> (chain \<times> nat \<times> nat) result" where
  "apply_block_inner S E F maint checkpoint fork_head skip b ch =
     (let ab = applied_of (bc_hash E) b; maint_needed = maintenance_needed b (ch_db ch) in
      rbind (apply_block_start S E F checkpoint fork_head skip b ch) (\<lambda>(ch1, db2, undo_size, fork_size).
      rbind (update_signing_witness S (bh_witness b) ab db2) (\<lambda>db3.
      rbind (update_last_irreversible_block db3) (\<lambda>db4.
      rbind (if maint_needed then maint ab db4 else Inr db4) (\<lambda>db5.
      rbind (create_block_summary (block_num (bc_hash E) b) (block_id (bc_hash E) b) (ch1\<lparr>ch_db := db5\<rparr>)) (\<lambda>ch6.
      let ch7 = clear_expired_transactions ch6 in
      rbind (update_witness_schedule (update_maintenance_flag maint_needed (update_withdraw_permissions (ch_db ch7)))) (\<lambda>db8.
      Inr (ch7\<lparr>ch_db := db8\<rparr>, undo_size, fork_size))))))))"

text \<open>\<open>checkpoints\<close> is ordered by block number; a null id at the end switches them off. The flags a block runs with:\<close>

definition checkpoint_skip :: "(nat \<times> block_id_type) list \<Rightarrow> nat \<Rightarrow> block_id_type \<Rightarrow> skip_flags \<Rightarrow> skip_flags result" where
  "checkpoint_skip checkpoints num i skip =
     (if checkpoints \<noteq> [] \<and> snd (last checkpoints) \<noteq> zero_block_id
      then fc_assert (case map_of checkpoints num of None \<Rightarrow> True | Some j \<Rightarrow> i = j)
             (Inr (if fst (last checkpoints) \<ge> num then skip_all else skip))
      else Inr skip)"

definition last_checkpoint :: "(nat \<times> block_id_type) list \<Rightarrow> nat option" where
  "last_checkpoint checkpoints = (if checkpoints = [] then None else Some (fst (last checkpoints)))"

definition apply_block :: "safe_ops \<Rightarrow> 'memo block_crypto \<Rightarrow> 'memo fee_table \<Rightarrow> (applied_block \<Rightarrow> database \<Rightarrow> database result) \<Rightarrow>
    (nat \<times> block_id_type) list \<Rightarrow> nat option \<Rightarrow> skip_flags \<Rightarrow> 'memo signed_transaction signed_block \<Rightarrow> chain \<Rightarrow> (chain \<times> nat \<times> nat) result" where
  "apply_block S E F maint checkpoints fork_head skip b ch =
     rbind (checkpoint_skip checkpoints (unat (block_num (bc_hash E) b)) (block_id (bc_hash E) b) skip) (\<lambda>skip.
     apply_block_inner S E F maint (last_checkpoint checkpoints) fork_head skip b ch)"

section \<open>Transactions of a block\<close>

lemma clear_expired_mem:
  "p \<in> set (ch_transactions (clear_expired_transactions ch)) \<longleftrightarrow> p \<in> set (ch_transactions ch) \<and> head_block_time (ch_db ch) \<le> snd p"
proof -
  let ?t = "head_block_time (ch_db ch)"
  have "set (dropWhile (\<lambda>(i, e). ?t > e) xs) = {p \<in> set xs. ?t \<le> snd p}" if "sorted (map snd xs)" for xs :: "(nat \<times> nat) list"
    using that by (induction xs) (auto split: prod.splits)
  from this [of "sort_key snd (ch_transactions ch)"] show ?thesis by (auto simp: clear_expired_transactions_def)
qed

lemma clear_expired_fields [simp]:
  "ch_db (clear_expired_transactions ch) = ch_db ch" "ch_block_summaries (clear_expired_transactions ch) = ch_block_summaries ch"
  by (simp_all add: clear_expired_transactions_def)

lemma apply_transactions_ok:
  assumes S: "checked_int64 S" and run: "fold_result (apply_transaction S C F skip) trxs ch = Inr ch'" and ok: "chain_ok (ch_db ch)"
  shows "chain_ok (ch_db ch') \<and> db_dynamic (ch_db ch') = db_dynamic (ch_db ch) \<and> ch_block_summaries ch' = ch_block_summaries ch \<and>
    (k \<noteq> 1 \<or> (\<forall>trx \<in> set trxs. \<not> updates_asset trx) \<longrightarrow> surplus (ch_db ch') k = surplus (ch_db ch) k) \<and>
    set (ch_transactions ch) \<subseteq> set (ch_transactions ch')"
  using run ok
proof (induction trxs arbitrary: ch)
  case (Cons trx trxs)
  from Cons.prems(1) obtain ch1 where d: "apply_transaction S C F skip trx ch = Inr ch1"
    and rest: "fold_result (apply_transaction S C F skip) trxs ch1 = Inr ch'" by (auto simp: rbind_Inr)
  obtain db1 where run1: "fold_result (\<lambda>op db. apply_operation S new_evaluation_state False (calculate_fee_for_operation S F db) op db)
        (tx_operations trx) (ch_db ch) = Inr db1"
    and ch1: "ch1 = (if skip_transaction_dupe_check skip then ch
        else ch\<lparr>ch_transactions := ch_transactions ch @ [(transaction_id C trx, tx_expiration trx)]\<rparr>)\<lparr>ch_db := db1\<rparr>"
    using d by (rule apply_transaction_Inr) (rule that)
  have db1: "ch_db ch1 = db1" "ch_block_summaries ch1 = ch_block_summaries ch" "set (ch_transactions ch) \<subseteq> set (ch_transactions ch1)"
    using ch1 by auto
  note o = apply_operations_ok [OF S run1 Cons.prems(2)]
  have ok1: "chain_ok (ch_db ch1)" using o db1 by auto
  show ?case using Cons.IH [OF rest ok1] o db1 by (auto simp: updates_asset_def)
qed simp

section \<open>What a block keeps\<close>

text \<open>The bookkeeping after the transactions touches the clock, the witnesses and their pay, nothing else.\<close>

definition bookkeeping :: "database \<Rightarrow> database \<Rightarrow> bool" where
  "bookkeeping db db' \<longleftrightarrow> db_ok db' \<and> db_balances db' = db_balances db \<and> db_pledges db' = db_pledges db \<and>
     (\<forall>k. surplus db' k = surplus db k) \<and> head_block_time db \<le> head_block_time db'"

lemma bookkeeping_trans: "bookkeeping a b \<Longrightarrow> bookkeeping b c \<Longrightarrow> bookkeeping a c"
  by (auto simp: bookkeeping_def)

lemma bookkeeping_chain_ok: "bookkeeping db db' \<Longrightarrow> chain_ok db \<Longrightarrow> chain_ok db'"
  by (auto simp: bookkeeping_def chain_ok_def balances_ok_def pledges_ok_def)

lemma dynamic_bookkeeping:
  assumes ok: "chain_ok db" and t: "head_block_time db \<le> dg_time d" and pools: "dg_witness_budget d = dg_witness_budget (db_dynamic db)"
    "dg_current_staking_reward_pool d = dg_current_staking_reward_pool (db_dynamic db)"
  shows "bookkeeping db (db\<lparr>db_dynamic := d\<rparr>)"
proof -
  have hf: "HARDFORK_1008_TIME < head_block_time db" using ok by (simp add: chain_ok_def HARDFORK_1008_TIME_def HARDFORK_1129_TIME_def)
  then have core: "current_core_asset_id (db\<lparr>db_dynamic := d\<rparr>) = current_core_asset_id db"
    using t by (simp add: current_core_asset_id_def head_block_time_def)
  have "surplus (db\<lparr>db_dynamic := d\<rparr>) k = surplus db k" for k
    unfolding surplus_def core using pools by (simp add: core_pools_def)
  moreover have "db_ok (db\<lparr>db_dynamic := d\<rparr>)"
    using ok by (simp add: chain_ok_def db_ok_def tables_ok_def dyn_links_ok_def)
  ultimately show ?thesis using t by (simp add: bookkeeping_def head_block_time_def)
qed

lemma count_missed_bookkeeping:
  assumes run: "fold_result (count_missed p) is db = Inr db'" and ok: "db_ok db"
  shows "bookkeeping db db' \<and> db_dynamic db' = db_dynamic db"
proof -
  have "core_credited 0 db db'"
    using run
  proof (rule fold_result_invariant)
    show "core_credited 0 db db" using ok by (rule core_credited_zero)
    show "core_credited 0 db s'" if P: "core_credited 0 db s" and c: "count_missed p x s = Inr s'" for x s s'
    proof -
      have "db_ok s" using P by (rule core_credited_fields)
      with c have "core_credited 0 s s'"
        by (auto simp: count_missed_def result_simps core_credited_zero split: if_splits intro: modify_witness_credited)
      with core_credited_trans [OF P this] show ?thesis by simp
    qed
  qed
  moreover obtain t where "db' = db\<lparr>db_witnesses := t\<rparr>" using count_missed_frame [OF run] by blast
  ultimately show ?thesis by (auto simp: bookkeeping_def core_credited_def head_block_time_def)
qed

lemma update_global_dynamic_data_keeps:
  assumes run: "update_global_dynamic_data checkpoint fork_head skip b db = Inr (db', u, f)" and ok: "chain_ok db"
    and t: "head_block_time db < ab_timestamp b"
  shows "bookkeeping db db'" and "head_block_time db' = ab_timestamp b" and "head_block_num db' = ab_block_num b"
proof -
  from run obtain db1 m where d: "fold_result (count_missed (ab_witness b)) [0..<m] db = Inr db1"
    and db': "db' = db1\<lparr>db_dynamic := update_dynamic checkpoint b m (db_dynamic db1)\<rparr>"
    by (auto simp: update_global_dynamic_data_def Let_def rbind_Inr ensure_Inr)
  have "db_ok db" using ok by (simp add: chain_ok_def)
  from count_missed_bookkeeping [OF d this] have c: "bookkeeping db db1" "db_dynamic db1 = db_dynamic db" by auto
  have "bookkeeping db1 db'"
    unfolding db' by (rule dynamic_bookkeeping [OF bookkeeping_chain_ok [OF c(1) ok]])
      (use t c(2) in \<open>simp_all add: update_dynamic_def head_block_time_def\<close>)
  then show "bookkeeping db db'" using c(1) bookkeeping_trans by blast
  show "head_block_time db' = ab_timestamp b" "head_block_num db' = ab_block_num b"
    by (simp_all add: db' update_dynamic_def head_block_time_def head_block_num_def)
qed

lemma deposit_lazy_vesting_fields:
  assumes "deposit_lazy_vesting S v amt secs acct rv db = Inr (r, db')"
  shows "db_balances db' = db_balances db \<and> db_pledges db' = db_pledges db \<and> db_dynamic db' = db_dynamic db"
proof -
  obtain t where "db' = db\<lparr>db_vesting := t\<rparr>" using deposit_lazy_vesting_frame [OF assms] by blast
  then show ?thesis by simp
qed

lemma deposit_witness_pay_fields:
  assumes "deposit_witness_pay S w amt db = Inr db'"
  shows "db_balances db' = db_balances db \<and> db_pledges db' = db_pledges db \<and> db_dynamic db' = db_dynamic db"
  using assms by (auto simp: deposit_witness_pay_def modify_witness_def result_simps split: if_splits option.splits
      dest!: deposit_lazy_vesting_fields)

lemma update_signing_witness_frame:
  assumes "update_signing_witness S w b db = Inr db'"
  shows "db_balances db' = db_balances db" "db_pledges db' = db_pledges db" "head_block_time db' = head_block_time db"
    "head_block_num db' = head_block_num db"
  using assms by (auto simp: update_signing_witness_def modify_witness_def Let_def result_simps head_block_time_def head_block_num_def
      split: if_splits dest!: deposit_witness_pay_fields)

lemma update_signing_witness_keeps:
  assumes "checked_int64 S" and "update_signing_witness S w b db = Inr db'" and "db_ok db"
  shows "bookkeeping db db'" and "head_block_time db' = head_block_time db" and "head_block_num db' = head_block_num db"
  using checked_int64.update_signing_witness_conserves [OF assms] update_signing_witness_frame [OF assms(2)]
  by (auto simp: bookkeeping_def)

lemma update_last_irreversible_keeps:
  assumes "update_last_irreversible_block db = Inr db'" and "chain_ok db"
  shows "bookkeeping db db' \<and> head_block_time db' = head_block_time db \<and> head_block_num db' = head_block_num db"
  using assms dynamic_bookkeeping [OF assms(2)]
  by (auto simp: update_last_irreversible_block_def Let_def result_simps head_block_time_def head_block_num_def bookkeeping_def chain_ok_def
      split: if_splits)

lemma update_withdraw_permissions_keeps:
  assumes "chain_ok db"
  shows "bookkeeping db (update_withdraw_permissions db)"
proof -
  have ok: "db_ok db" "balances_ok db" using assms by (simp_all add: chain_ok_def)
  obtain t where u: "update_withdraw_permissions db = db\<lparr>db_withdraw_permissions := t\<rparr>"
    and "conserves db (update_withdraw_permissions db)"
    using ok by (rule update_withdraw_permissions_effect) (rule that)
  then show ?thesis by (simp add: bookkeeping_def conserves_def u head_block_time_def)
qed

lemma update_schedule_keeps:
  assumes run: "update_witness_schedule (update_maintenance_flag m (update_withdraw_permissions db)) = Inr db'" and ok: "chain_ok db"
  shows "bookkeeping db db' \<and> head_block_time db' = head_block_time db \<and> head_block_num db' = head_block_num db"
proof -
  let ?p = "update_withdraw_permissions db"
  let ?db = "update_maintenance_flag m ?p"
  note p = update_withdraw_permissions_keeps [OF ok]
  note okp = bookkeeping_chain_ok [OF p ok]
  have b: "bookkeeping ?p ?db" "head_block_time ?db = head_block_time ?p" "head_block_num ?db = head_block_num ?p"
    using dynamic_bookkeeping [OF okp]
    by (auto simp: update_maintenance_flag_def Let_def head_block_time_def head_block_num_def)
  have "bookkeeping ?db (?db\<lparr>db_shuffled_witnesses := ws\<rparr>)" for ws
    using bookkeeping_chain_ok [OF b(1) okp] surplus_cong [of "?db\<lparr>db_shuffled_witnesses := ws\<rparr>" ?db]
    by (auto simp: bookkeeping_def chain_ok_def db_ok_def tables_ok_def dyn_links_ok_def dyn_id_def fun_eq_iff head_block_time_def)
  with run b bookkeeping_trans [OF b(1)] have "bookkeeping ?p db' \<and> head_block_time db' = head_block_time ?p \<and> head_block_num db' = head_block_num ?p"
    by (auto simp: update_witness_schedule_def Let_def result_simps head_block_time_def head_block_num_def split: if_splits)
  with p bookkeeping_trans [OF p] show ?thesis by (simp add: head_block_time_def head_block_num_def)
qed

lemma apply_block_inner_Inr:
  assumes "apply_block_inner S E F maint checkpoint fork_head skip b ch = Inr (ch', u, f)" and "\<not> maintenance_needed b (ch_db ch)"
  obtains ch1 db2 db3 db4 db8 w where "validate_block_header E skip b (ch_db ch) = Inr w"
    and "fold_result (apply_transaction S (bc_trx E) F skip) (bh_transactions b) ch = Inr ch1"
    and "update_global_dynamic_data checkpoint fork_head (skip_undo_history_check skip) (applied_of (bc_hash E) b) (ch_db ch1) = Inr (db2, u, f)"
    and "update_signing_witness S (bh_witness b) (applied_of (bc_hash E) b) db2 = Inr db3"
    and "update_last_irreversible_block db3 = Inr db4"
    and "update_witness_schedule (update_maintenance_flag False (update_withdraw_permissions db4)) = Inr db8"
    and "ch_db ch' = db8"
    and "ch_transactions ch' = ch_transactions (clear_expired_transactions (ch1\<lparr>ch_db := db4\<rparr>))"
  using assms
  by (auto simp: apply_block_inner_def apply_block_start_def Let_def result_simps create_block_summary_def clear_expired_transactions_def)

lemma apply_block_inner_keeps:
  assumes S: "checked_int64 S" and run: "apply_block_inner S E F maint checkpoint fork_head skip b ch = Inr (ch', u, f)"
    and m: "\<not> maintenance_needed b (ch_db ch)" and ok: "chain_ok (ch_db ch)"
  shows "chain_ok (ch_db ch')" and "head_block_time (ch_db ch) < head_block_time (ch_db ch')" and "head_block_time (ch_db ch') = bh_timestamp b"
    and "head_block_num (ch_db ch') = unat (block_num (bc_hash E) b)"
    and "k \<noteq> 1 \<or> (\<forall>trx \<in> set (bh_transactions b). \<not> updates_asset trx) \<Longrightarrow> surplus (ch_db ch') k = surplus (ch_db ch) k"
proof -
  obtain ch1 db2 db3 db4 db8 w where h: "validate_block_header E skip b (ch_db ch) = Inr w"
    and t: "fold_result (apply_transaction S (bc_trx E) F skip) (bh_transactions b) ch = Inr ch1"
    and g: "update_global_dynamic_data checkpoint fork_head (skip_undo_history_check skip) (applied_of (bc_hash E) b) (ch_db ch1) = Inr (db2, u, f)"
    and p: "update_signing_witness S (bh_witness b) (applied_of (bc_hash E) b) db2 = Inr db3"
    and i: "update_last_irreversible_block db3 = Inr db4"
    and s: "update_witness_schedule (update_maintenance_flag False (update_withdraw_permissions db4)) = Inr db8" and ch': "ch_db ch' = db8"
    using run m by (rule apply_block_inner_Inr) (rule that)
  note T = apply_transactions_ok [OF S t ok, of k]
  have time1: "head_block_time (ch_db ch1) = head_block_time (ch_db ch)" using T by (simp add: head_block_time_def)
  have later: "head_block_time (ch_db ch) < bh_timestamp b" using h by (simp add: validate_block_header_def result_simps)
  then have "head_block_time (ch_db ch1) < ab_timestamp (applied_of (bc_hash E) b)" by (simp add: applied_of_def time1)
  note G = update_global_dynamic_data_keeps [OF g conjunct1 [OF T] this]
  note ok2 = bookkeeping_chain_ok [OF G(1) conjunct1 [OF T]]
  note P = update_signing_witness_keeps [OF S p conjunct1 [OF ok2 [unfolded chain_ok_def]]]
  note ok3 = bookkeeping_chain_ok [OF P(1) ok2]
  note I = update_last_irreversible_keeps [OF i ok3]
  note ok4 = bookkeeping_chain_ok [OF conjunct1 [OF I] ok3]
  note U = update_schedule_keeps [OF s ok4]
  show "chain_ok (ch_db ch')" unfolding ch' by (rule bookkeeping_chain_ok [OF conjunct1 [OF U] ok4])
  show "head_block_time (ch_db ch') = bh_timestamp b" "head_block_num (ch_db ch') = unat (block_num (bc_hash E) b)"
    using G P I U by (simp_all add: ch' applied_of_def)
  then show "head_block_time (ch_db ch) < head_block_time (ch_db ch')" using later by simp
  show "surplus (ch_db ch') k = surplus (ch_db ch) k" if "k \<noteq> 1 \<or> (\<forall>trx \<in> set (bh_transactions b). \<not> updates_asset trx)"
    using that T G(1) P(1) I U by (simp add: ch' bookkeeping_def)
qed

lemma clear_expired_block:
  assumes S: "checked_int64 S" and run: "apply_block_inner S E F maint checkpoint fork_head skip b ch = Inr (ch', u, f)"
    and m: "\<not> maintenance_needed b (ch_db ch)" and ok: "chain_ok (ch_db ch)"
  obtains ch1 db4 where "fold_result (apply_transaction S (bc_trx E) F skip) (bh_transactions b) ch = Inr ch1"
    and "ch_transactions ch' = ch_transactions (clear_expired_transactions (ch1\<lparr>ch_db := db4\<rparr>))"
    and "head_block_time db4 = head_block_time (ch_db ch')"
proof -
  obtain ch1 db2 db3 db4 db8 w where t: "fold_result (apply_transaction S (bc_trx E) F skip) (bh_transactions b) ch = Inr ch1"
    and s: "update_witness_schedule (update_maintenance_flag False (update_withdraw_permissions db4)) = Inr db8" and ch': "ch_db ch' = db8"
    and k: "ch_transactions ch' = ch_transactions (clear_expired_transactions (ch1\<lparr>ch_db := db4\<rparr>))"
    using run m by (rule apply_block_inner_Inr) (rule that)
  have "head_block_time db4 = head_block_time db8"
    using s by (auto simp: update_witness_schedule_def update_maintenance_flag_def Let_def result_simps head_block_time_def split: if_splits)
  then show thesis using that [OF t k] ch' by simp
qed

lemma apply_block_inner:
  assumes "apply_block S E F maint checkpoints fork_head skip b ch = Inr r"
  obtains checkpoint skip' where "apply_block_inner S E F maint checkpoint fork_head skip' b ch = Inr r"
    and "checkpoints = [] \<Longrightarrow> skip' = skip"
  using assms by (auto simp: apply_block_def checkpoint_skip_def result_simps split: if_splits)

section \<open>No transaction runs twice\<close>

text \<open>
  Blocks applied one after the other, with the transactions they contain. Maintenance blocks are left out, and
  so are block numbers that wrap around 32 bits.
\<close>

inductive blocks_applied :: "safe_ops \<Rightarrow> 'memo block_crypto \<Rightarrow> 'memo fee_table \<Rightarrow> chain \<Rightarrow> 'memo signed_transaction list \<Rightarrow> chain \<Rightarrow> bool"
  for S E F ch where
  start: "blocks_applied S E F ch [] ch"
| block: "blocks_applied S E F ch txs ch1 \<Longrightarrow> apply_block S E F maint [] fork_head skip b ch1 = Inr (ch2, u, f) \<Longrightarrow>
    \<not> maintenance_needed b (ch_db ch1) \<Longrightarrow> block_num (bc_hash E) b \<noteq> 0 \<Longrightarrow> \<not> skip_transaction_dupe_check skip \<Longrightarrow>
    blocks_applied S E F ch (txs @ bh_transactions b) ch2"

text \<open>Every transaction that ran is known or has expired.\<close>

definition remembered :: "'memo crypto \<Rightarrow> 'memo signed_transaction list \<Rightarrow> chain \<Rightarrow> bool" where
  "remembered C txs ch \<longleftrightarrow> distinct (map (transaction_id C) txs) \<and>
     (\<forall>trx \<in> set txs. (transaction_id C trx, tx_expiration trx) \<in> set (ch_transactions ch) \<or> tx_expiration trx < head_block_time (ch_db ch))"

lemma apply_transaction_remembered:
  assumes S: "checked_int64 S" and run: "apply_transaction S C F skip trx ch = Inr ch'" and ok: "chain_ok (ch_db ch)"
    and dup: "\<not> skip_transaction_dupe_check skip" and n: "0 < head_block_num (ch_db ch)" and r: "remembered C txs ch"
    and ids: "\<And>t u. transaction_id C t = transaction_id C u \<Longrightarrow> tx_expiration t = tx_expiration u"
  shows "remembered C (txs @ [trx]) ch'"
proof -
  obtain db1 where known: "skip_transaction_dupe_check skip \<or> \<not> is_known_transaction (transaction_id C trx) ch"
    and e: "check_expiration skip trx ch = Inr ()"
    and run1: "fold_result (\<lambda>op db. apply_operation S new_evaluation_state False (calculate_fee_for_operation S F db) op db)
        (tx_operations trx) (ch_db ch) = Inr db1"
    and ch': "ch' = (if skip_transaction_dupe_check skip then ch
        else ch\<lparr>ch_transactions := ch_transactions ch @ [(transaction_id C trx, tx_expiration trx)]\<rparr>)\<lparr>ch_db := db1\<rparr>"
    using run by (rule apply_transaction_Inr) (rule that)
  have t: "head_block_time (ch_db ch') = head_block_time (ch_db ch)"
    using apply_operations_ok [OF S run1 ok, of 0] ch' by (simp add: head_block_time_def)
  have live: "head_block_time (ch_db ch) \<le> tx_expiration trx" using e n by (auto simp: check_expiration_def Let_def result_simps)
  have "transaction_id C trx \<notin> transaction_id C ` set txs"
  proof
    assume "transaction_id C trx \<in> transaction_id C ` set txs"
    then obtain u where u: "u \<in> set txs" "transaction_id C u = transaction_id C trx" by force
    with r live ids [OF u(2)] have "(transaction_id C trx, tx_expiration trx) \<in> set (ch_transactions ch)"
      by (auto simp: remembered_def)
    then have "is_known_transaction (transaction_id C trx) ch" by (force simp: is_known_transaction_def)
    with known dup show False by simp
  qed
  then show ?thesis using r ch' dup t by (auto simp: remembered_def)
qed

lemma apply_transactions_remembered:
  assumes S: "checked_int64 S" and dup: "\<not> skip_transaction_dupe_check skip"
    and ids: "\<And>t u. transaction_id C t = transaction_id C u \<Longrightarrow> tx_expiration t = tx_expiration u"
    and "fold_result (apply_transaction S C F skip) trxs ch = Inr ch'" "chain_ok (ch_db ch)" "0 < head_block_num (ch_db ch)" "remembered C txs ch"
  shows "remembered C (txs @ trxs) ch'"
  using assms(4-)
proof (induction trxs arbitrary: ch txs)
  case (Cons trx trxs)
  from Cons.prems(1) obtain ch1 where d: "apply_transaction S C F skip trx ch = Inr ch1"
    and rest: "fold_result (apply_transaction S C F skip) trxs ch1 = Inr ch'" by (auto simp: rbind_Inr)
  have "fold_result (apply_transaction S C F skip) [trx] ch = Inr ch1" using d by simp
  from apply_transactions_ok [OF S this Cons.prems(2), of 0]
  have "chain_ok (ch_db ch1)" "0 < head_block_num (ch_db ch1)" using Cons.prems(3) by (auto simp: head_block_num_def)
  from Cons.IH [OF rest this apply_transaction_remembered [OF S d Cons.prems(2) dup Cons.prems(3,4) ids]] show ?case by simp
qed simp

lemma blocks_applied_remembered:
  assumes "blocks_applied S E F ch txs ch'" and S: "checked_int64 S" and "chain_ok (ch_db ch)" "0 < head_block_num (ch_db ch)"
    and ids: "\<And>t u. transaction_id (bc_trx E) t = transaction_id (bc_trx E) u \<Longrightarrow> tx_expiration t = tx_expiration u"
  shows "chain_ok (ch_db ch') \<and> 0 < head_block_num (ch_db ch') \<and> remembered (bc_trx E) txs ch' \<and>
    (\<forall>k. k \<noteq> 1 \<or> (\<forall>trx \<in> set txs. \<not> updates_asset trx) \<longrightarrow> surplus (ch_db ch') k = surplus (ch_db ch) k)"
  using assms(1,3,4)
proof (induction rule: blocks_applied.induct)
  case start
  then show ?case by (simp add: remembered_def)
next
  case (block txs ch1 maint fork_head skip b ch2 u f)
  obtain checkpoint where inner: "apply_block_inner S E F maint checkpoint fork_head skip b ch1 = Inr (ch2, u, f)"
    using block.hyps(2) by (rule apply_block_inner) simp
  have IH: "chain_ok (ch_db ch1)" "0 < head_block_num (ch_db ch1)" "remembered (bc_trx E) txs ch1"
    using block.IH block.prems by blast+
  obtain ch3 db4 where t: "fold_result (apply_transaction S (bc_trx E) F skip) (bh_transactions b) ch1 = Inr ch3"
    and kept: "ch_transactions ch2 = ch_transactions (clear_expired_transactions (ch3\<lparr>ch_db := db4\<rparr>))" and db4: "head_block_time db4 = head_block_time (ch_db ch2)"
    using inner block.hyps(3) by (rule clear_expired_block [OF S _ _ IH(1)]) (rule that)
  have r: "remembered (bc_trx E) (txs @ bh_transactions b) ch3"
    by (rule apply_transactions_remembered [OF S block.hyps(5) ids t IH])
  note K = apply_block_inner_keeps [OF S inner block.hyps(3) IH(1)]
  have "head_block_time (ch_db ch3) \<le> head_block_time (ch_db ch2)"
    using apply_transactions_ok [OF S t IH(1), of 0] K(2) by (simp add: head_block_time_def)
  then have "remembered (bc_trx E) (txs @ bh_transactions b) ch2"
    using r db4 by (fastforce simp: remembered_def kept clear_expired_mem)
  moreover have "0 < head_block_num (ch_db ch2)" using K(4) block.hyps(4) by (simp add: unat_gt_0)
  ultimately show ?case using K(1) K(5) block.IH block.prems by auto
qed

section \<open>Properties of blocks\<close>

definition sample_block_crypto :: "unit block_crypto" where
  "sample_block_crypto = \<lparr>bc_trx = sample_crypto, bc_hash = \<lparr>endian_reverse_u32 = (\<lambda>w. w), sha224 = (\<lambda>h. [1, 2, 3, 4, 5, 6, 7])\<rparr>,
     bc_pair_hash = (\<lambda>a b. a + b), bc_checksum = (\<lambda>d. d), bc_merkle_digest = (\<lambda>t. 1), bc_signee = (\<lambda>b. 7)\<rparr>"

definition lock_trx :: "unit signed_transaction" where
  "lock_trx = \<lparr>tx_ref_block_num = 0, tx_ref_block_prefix = 5, tx_expiration = 1700000030,
     tx_operations = [Vesting_balance_create_op \<lparr>vc_fee = mk_asset 100 1, vc_creator = 9, vc_owner = 9, vc_op_amount = mk_asset 50 1,
       vc_policy = Cdd_initializer \<lparr>ci_start_claim = 0, ci_vesting_seconds = 60\<rparr>\<rparr>],
     tx_signatures = [3], tx_signees = []\<rparr>"

definition block_chain :: chain where
  "block_chain = \<lparr>ch_db = witness_db\<lparr>db_dynamic := (db_dynamic witness_db)\<lparr>dg_head_block_id := [100, 0, 0, 0, 0]\<rparr>\<rparr>, ch_transactions = [],
     ch_block_summaries = replicate 110 [0, 5, 0, 0, 0]\<rparr>"

definition next_block :: "unit signed_transaction signed_block" where
  "next_block = \<lparr>bh_previous = [100, 0, 0, 0, 0], bh_timestamp = 1700000010, bh_witness = 3, bh_transaction_merkle_root = 1,
     bh_witness_signature = 0, bh_transactions = [lock_trx]\<rparr>"

lemma block_chain_ok: "chain_ok (ch_db block_chain)"
proof -
  have "db_ok (ch_db block_chain)" using witness_db_ok by (simp add: block_chain_def dynamic_update_effect(1))
  moreover have "db_balances (ch_db block_chain) = db_balances issuer_db" "db_pledges (ch_db block_chain) = db_pledges issuer_db"
    "head_block_time (ch_db block_chain) = 1700000001"
    by (simp_all add: block_chain_def witness_db_def issuer_db_def chain_db_def sample_dynamic_def head_block_time_def)
  ultimately show ?thesis
    using issuer_db_balances_ok by (simp add: chain_ok_def balances_ok_def pledges_ok_def HARDFORK_1129_TIME_def issuer_db_def chain_db_def
        empty_index_def index_find_def)
qed

text \<open>The run of the block, with the fee of its transaction computed first.\<close>

definition lock_run :: "chain result" where
  "lock_run =
     rbind (apply_operation int64_ops new_evaluation_state False (\<lambda>_. Inr 20) (hd (tx_operations lock_trx)) (ch_db block_chain)) (\<lambda>db1.
     fc_assert (temp_account_empty db1) (Inr (block_chain\<lparr>ch_transactions := [(1700000030, 1700000030)], ch_db := db1\<rparr>)))"

lemma rbind_assoc: "rbind (rbind m f) g = rbind m (\<lambda>x. rbind (f x) g)"
  by (cases m) simp_all

lemma fold_result_single: "fold_result f [x] s = f x s"
  by (cases "f x s") simp_all

lemma lock_trx_runs:
  "apply_transaction int64_ops sample_crypto sample_fees (skip_nothing\<lparr>skip_authority_check := True\<rparr>) lock_trx block_chain = lock_run"
proof -
  let ?db = "ch_db block_chain"
  have "calculate_fee_for_operation int64_ops sample_fees ?db op = Inr 20" for op
    using checked_int64.calculate_fee_core [OF int64_ops_checked, of 20 10000 1] block_chain_ok
    by (simp add: calculate_fee_for_operation_def sample_fees_def chain_ok_def HARDFORK_1129_TIME_def HARDFORK_1008_TIME_def
        GRAPHENE_MAX_SHARE_SUPPLY_def Let_def)
  then have fee: "calculate_fee_for_operation int64_ops sample_fees ?db = (\<lambda>_. Inr 20)" by (rule ext)
  have ops: "tx_operations lock_trx = [hd (tx_operations lock_trx)]" by (simp add: lock_trx_def)
  have "transaction_validate lock_trx = Inr ()" by code_simp
  moreover have "check_expiration (skip_nothing\<lparr>skip_authority_check := True\<rparr>) lock_trx block_chain = Inr ()" by code_simp
  moreover have "fold_result (\<lambda>op db. apply_operation int64_ops new_evaluation_state False (calculate_fee_for_operation int64_ops sample_fees db) op db)
      (tx_operations lock_trx) ?db =
      apply_operation int64_ops new_evaluation_state False (\<lambda>_. Inr 20) (hd (tx_operations lock_trx)) ?db"
    by (subst ops) (simp only: fold_result_single fee)
  moreover have "transaction_id sample_crypto lock_trx = 1700000030" "tx_expiration lock_trx = 1700000030" "ch_transactions block_chain = []"
    by (simp_all add: sample_crypto_def lock_trx_def block_chain_def)
  ultimately show ?thesis
    by (simp add: apply_transaction_def lock_run_def Let_def skip_nothing_def is_known_transaction_def)
qed

lemma next_block_runs:
  "\<exists>ch' u f. apply_block int64_ops sample_block_crypto sample_fees (\<lambda>b db. Inr db) [] None (skip_nothing\<lparr>skip_authority_check := True\<rparr>)
    next_block block_chain = Inr (ch', u, f)"
proof -
  let ?E = sample_block_crypto and ?skip = "skip_nothing\<lparr>skip_authority_check := True\<rparr>" and ?b = next_block
  let ?ab = "applied_of (bc_hash ?E) ?b"
  have "\<not> isl (rbind lock_run (\<lambda>ch1.
      rbind (update_global_dynamic_data None None False ?ab (ch_db ch1)) (\<lambda>(db2, undo_size, fork_size).
      rbind (update_signing_witness int64_ops 3 ?ab db2) (\<lambda>db3.
      rbind (update_last_irreversible_block db3) (\<lambda>db4.
      rbind (create_block_summary (block_num (bc_hash ?E) ?b) (block_id (bc_hash ?E) ?b) (ch1\<lparr>ch_db := db4\<rparr>)) (\<lambda>ch6.
      let ch7 = clear_expired_transactions ch6 in
      rbind (update_witness_schedule (update_maintenance_flag False (update_withdraw_permissions (ch_db ch7)))) (\<lambda>db8.
      Inr (ch7\<lparr>ch_db := db8\<rparr>, undo_size, fork_size))))))))" by code_simp
  moreover have "\<not> isl (validate_block_header ?E ?skip ?b (ch_db block_chain))" by code_simp
  moreover have "bh_transaction_merkle_root ?b = calculate_merkle_root (bc_pair_hash ?E) (bc_checksum ?E) (bc_merkle_digest ?E) ?b" by code_simp
  moreover have "\<not> maintenance_needed ?b (ch_db block_chain)" by code_simp
  moreover have "fold_result (apply_transaction int64_ops (bc_trx ?E) sample_fees ?skip) (bh_transactions ?b) block_chain = lock_run"
    using lock_trx_runs by (simp add: sample_block_crypto_def next_block_def fold_result_single del: fold_result.simps)
  moreover have "bh_witness ?b = 3" by (simp add: next_block_def)
  ultimately show ?thesis
    by (auto simp: apply_block_def checkpoint_skip_def last_checkpoint_def apply_block_inner_def apply_block_start_def Let_def skip_nothing_def
        rbind_assoc case_prod_beta' dest!: not_isl_Inr)
qed

text \<open>C3.
  A block outside maintenance that the chain accepts keeps the state well formed: no table is broken and no
  balance negative. The clock moves strictly forward to the timestamp of the block and the head to its number.
  For every asset the difference between what the accounts hold and what the asset records as its supply is
  unchanged, except for the core asset in a block with a transaction that updates an asset, since such an
  update can drop a pool of core tokens (\<open>asset_update_drops_fee_pool\<close>). On a node without checkpoints, unless the
  flag for the signature or for the schedule skips the check, the block was signed with the key of its witness, and
  that witness was scheduled for its slot.
\<close>

theorem block_conserves:
  assumes "checked_int64 S" and "apply_block S E F maint checkpoints fork_head skip b ch = Inr (ch', u, f)"
    and "\<not> maintenance_needed b (ch_db ch)" and "chain_ok (ch_db ch)"
  shows "chain_ok (ch_db ch') \<and>
    head_block_time (ch_db ch) < head_block_time (ch_db ch') \<and> head_block_time (ch_db ch') = bh_timestamp b \<and>
    head_block_num (ch_db ch') = unat (block_num (bc_hash E) b) \<and>
    (k \<noteq> 1 \<or> (\<forall>trx \<in> set (bh_transactions b). \<not> updates_asset trx) \<longrightarrow> surplus (ch_db ch') k = surplus (ch_db ch) k) \<and>
    (checkpoints = [] \<and> \<not> skip_witness_signature skip \<longrightarrow>
      (\<exists>w. index_get (db_witnesses (ch_db ch)) (bh_witness b) = Inr w \<and> bc_signee E b = wt_signing_key w)) \<and>
    (checkpoints = [] \<and> \<not> skip_witness_schedule_check skip \<longrightarrow>
      0 < get_slot_at_time (ch_db ch) (bh_timestamp b) \<and>
      get_scheduled_witness (ch_db ch) (get_slot_at_time (ch_db ch) (bh_timestamp b)) = Inr (bh_witness b))"
proof -
  obtain checkpoint skip' where inner: "apply_block_inner S E F maint checkpoint fork_head skip' b ch = Inr (ch', u, f)"
    and same: "checkpoints = [] \<Longrightarrow> skip' = skip"
    using assms(2) by (rule apply_block_inner) (rule that)
  note K = apply_block_inner_keeps [OF assms(1) inner assms(3,4)]
  obtain w where h: "validate_block_header E skip' b (ch_db ch) = Inr w"
    using inner assms(3) by (rule apply_block_inner_Inr) (rule that)
  have "\<exists>w. index_get (db_witnesses (ch_db ch)) (bh_witness b) = Inr w \<and> bc_signee E b = wt_signing_key w"
    if "checkpoints = []" "\<not> skip_witness_signature skip"
    using h same that by (auto simp: validate_block_header_def Let_def result_simps)
  moreover have "0 < get_slot_at_time (ch_db ch) (bh_timestamp b) \<and>
      get_scheduled_witness (ch_db ch) (get_slot_at_time (ch_db ch) (bh_timestamp b)) = Inr (bh_witness b)"
    if "checkpoints = []" "\<not> skip_witness_schedule_check skip"
    using h same that by (auto simp: validate_block_header_def Let_def result_simps)
  ultimately show ?thesis using K by blast
qed

lemma next_block_facts:
  "\<not> maintenance_needed next_block (ch_db block_chain)" "\<not> updates_asset lock_trx" "bh_transactions next_block = [lock_trx]"
  "bh_timestamp next_block = 1700000010" "bh_witness next_block = 3"
  "block_num (bc_hash sample_block_crypto) next_block \<noteq> 0"
proof -
  show "\<not> maintenance_needed next_block (ch_db block_chain)" by code_simp
  show "block_num (bc_hash sample_block_crypto) next_block \<noteq> 0" by code_simp
qed (simp_all add: updates_asset_def lock_trx_def next_block_def)

theorem block_conserves_witness:
  "\<exists>ch' u f. apply_block int64_ops sample_block_crypto sample_fees (\<lambda>b db. Inr db) [] None (skip_nothing\<lparr>skip_authority_check := True\<rparr>)
      next_block block_chain = Inr (ch', u, f) \<and>
    chain_ok (ch_db ch') \<and> head_block_time (ch_db ch') = 1700000010 \<and> (\<forall>k. surplus (ch_db ch') k = surplus (ch_db block_chain) k) \<and>
    get_scheduled_witness (ch_db block_chain) (get_slot_at_time (ch_db block_chain) 1700000010) = Inr 3"
proof -
  obtain ch' u f where r: "apply_block int64_ops sample_block_crypto sample_fees (\<lambda>b db. Inr db) [] None (skip_nothing\<lparr>skip_authority_check := True\<rparr>)
      next_block block_chain = Inr (ch', u, f)" using next_block_runs by blast
  note B = block_conserves [OF int64_ops_checked r next_block_facts(1) block_chain_ok]
  from r B next_block_facts show ?thesis by (auto simp: skip_nothing_def)
qed

text \<open>C2.
  Over any run of blocks outside maintenance, from a well-formed state with a head block, without checkpoints and
  with the check for duplicates on, no transaction is executed
  twice: the ids of all executed transactions differ, although an expired one is forgotten. The reason is that a
  transaction is forgotten only once the clock has passed its expiration, and from then on it is refused as
  expired. It is assumed that two transactions with the same id have the same expiration, the id being a hash over it.
  Over the whole run every asset but the core asset is conserved, and the core asset too when no transaction of the
  run updates an asset. (Updating an asset can drop its pool of core tokens, \<open>asset_update_drops_fee_pool\<close>; nothing
  is claimed of the core asset then.)
\<close>

theorem no_replay:
  assumes "blocks_applied S E F ch txs ch'" and "checked_int64 S" and "chain_ok (ch_db ch)" and "0 < head_block_num (ch_db ch)"
    and "\<And>t u. transaction_id (bc_trx E) t = transaction_id (bc_trx E) u \<Longrightarrow> tx_expiration t = tx_expiration u"
  shows "distinct (map (transaction_id (bc_trx E)) txs) \<and>
    (k \<noteq> 1 \<or> (\<forall>trx \<in> set txs. \<not> updates_asset trx) \<longrightarrow> surplus (ch_db ch') k = surplus (ch_db ch) k)"
  using blocks_applied_remembered [OF assms(1-4) assms(5)] by (auto simp: remembered_def)

theorem no_replay_witness:
  "\<exists>ch'. blocks_applied int64_ops sample_block_crypto sample_fees block_chain [lock_trx] ch' \<and>
    distinct (map (transaction_id sample_crypto) [lock_trx]) \<and> surplus (ch_db ch') 1 = surplus (ch_db block_chain) 1"
proof -
  obtain ch' u f where r: "apply_block int64_ops sample_block_crypto sample_fees (\<lambda>b db. Inr db) [] None (skip_nothing\<lparr>skip_authority_check := True\<rparr>)
      next_block block_chain = Inr (ch', u, f)" using next_block_runs by blast
  have b: "blocks_applied int64_ops sample_block_crypto sample_fees block_chain [lock_trx] ch'"
    using blocks_applied.block [OF blocks_applied.start r next_block_facts(1,6)] next_block_facts(3) by (simp add: skip_nothing_def)
  have n: "0 < head_block_num (ch_db block_chain)" by code_simp
  have "tx_expiration t = tx_expiration u"
    if "transaction_id (bc_trx sample_block_crypto) t = transaction_id (bc_trx sample_block_crypto) u" for t u
    using that by (simp add: sample_block_crypto_def sample_crypto_def)
  from no_replay [OF b int64_ops_checked block_chain_ok n this] b show ?thesis
    using next_block_facts(2) by (auto simp: sample_block_crypto_def)
qed

end
