(* ===== verification/Block_Database.thy ===== *)
theory Block_Database
  imports Block
begin

text \<open>
  The block file (block_database.cpp): an index of fixed-size entries, one per block number, and a file of
  packed blocks to which \<open>store\<close> appends.

  The index file is the list of its entries; the file of blocks is the list of its bytes. How a block becomes
  bytes is fc::raw::pack and fc::raw::unpack of the fc library: the arguments \<open>pack\<close> and \<open>unpack\<close>, where
  \<open>unpack\<close> gives \<open>None\<close> when it throws. Opening, closing and flushing the files have no counterpart. A read past the end of a file throws and leaves the stream unusable; the
  invariant \<open>bd_ok\<close> rules such reads out. Storing a block under its own id and removing a block keep it; storing a block
  under the id of another one, as db_block.cpp:191 does, breaks it. The search for the last block is therefore
  proved without it, for all files that the operations can leave, whatever the file of blocks holds.
\<close>

section \<open>Files\<close>

type_synonym byte = "8 word"

record index_entry =
  ie_block_pos :: nat
  ie_block_size :: u32
  ie_block_id :: block_id_type

record block_database =
  bd_block_num_to_pos :: "index_entry list"
  bd_blocks :: "byte list"

definition zero_entry :: index_entry where
  "zero_entry = \<lparr>ie_block_pos = 0, ie_block_size = 0, ie_block_id = zero_block_id\<rparr>"

text \<open>Writing at a position past the end fills the gap with zero bytes, which read as empty entries.\<close>

definition write_entry :: "nat \<Rightarrow> index_entry \<Rightarrow> index_entry list \<Rightarrow> index_entry list" where
  "write_entry n e es = (if n < length es then es[n := e] else es @ replicate (n - length es) zero_entry @ [e])"

definition read_bytes :: "nat \<Rightarrow> nat \<Rightarrow> byte list \<Rightarrow> byte list option" where
  "read_bytes pos n bs = (if n = 0 \<or> pos + n \<le> length bs then Some (take n (drop pos bs)) else None)"

section \<open>Operations\<close>

definition store_block :: "fc_hash \<Rightarrow> ('tx signed_block \<Rightarrow> byte list) \<Rightarrow> block_id_type \<Rightarrow> 'tx signed_block \<Rightarrow> block_database \<Rightarrow> block_database" where
  "store_block F pack i b d =
     (let i = (if i = zero_block_id then block_id F b else i); vec = pack b;
          e = \<lparr>ie_block_pos = length (bd_blocks d), ie_block_size = of_nat (length vec), ie_block_id = i\<rparr>
      in d\<lparr>bd_block_num_to_pos := write_entry (unat (num_from_id F i)) e (bd_block_num_to_pos d), bd_blocks := bd_blocks d @ vec\<rparr>)"

definition remove_block :: "fc_hash \<Rightarrow> block_id_type \<Rightarrow> block_database \<Rightarrow> block_database result" where
  "remove_block F i d =
     (let n = unat (num_from_id F i) in
      ensure (n < length (bd_block_num_to_pos d)) Key_not_found
     (let e = bd_block_num_to_pos d ! n in
      Inr (if ie_block_id e = i then d\<lparr>bd_block_num_to_pos := (bd_block_num_to_pos d)[n := e\<lparr>ie_block_size := 0\<rparr>]\<rparr> else d)))"

text \<open>For block number 0 the seek before the first entry throws.\<close>

definition truncate_block_db :: "nat \<Rightarrow> block_database \<Rightarrow> block_database result" where
  "truncate_block_db num d =
     (if length (bd_block_num_to_pos d) < num then Inr d
      else fc_assert (0 < num)
       (let e = bd_block_num_to_pos d ! (num - 1); target = ie_block_pos e + unat (ie_block_size e) in
        if length (bd_blocks d) < target then Inr d
        else Inr (d\<lparr>bd_block_num_to_pos := take num (bd_block_num_to_pos d), bd_blocks := take target (bd_blocks d)\<rparr>)))"

definition contains_block :: "fc_hash \<Rightarrow> block_id_type \<Rightarrow> block_database \<Rightarrow> bool" where
  "contains_block F i d \<longleftrightarrow>
     i \<noteq> zero_block_id \<and>
     (let n = unat (num_from_id F i) in
      n < length (bd_block_num_to_pos d) \<and>
      ie_block_id (bd_block_num_to_pos d ! n) = i \<and> 0 < ie_block_size (bd_block_num_to_pos d ! n))"

definition fetch_block_id :: "u32 \<Rightarrow> block_database \<Rightarrow> block_id_type result" where
  "fetch_block_id num d =
     ensure (unat num < length (bd_block_num_to_pos d)) Key_not_found
       (let e = bd_block_num_to_pos d ! unat num in fc_assert (ie_block_id e \<noteq> zero_block_id) (Inr (ie_block_id e)))"

text \<open>The block an entry points to: the bytes are read and unpacked, and the id is compared.\<close>

definition read_entry :: "fc_hash \<Rightarrow> (byte list \<Rightarrow> 'tx signed_block option) \<Rightarrow> index_entry \<Rightarrow> block_database \<Rightarrow> 'tx signed_block option" where
  "read_entry F unpack e d =
     (case read_bytes (ie_block_pos e) (unat (ie_block_size e)) (bd_blocks d) of
        None \<Rightarrow> None
      | Some data \<Rightarrow> (case unpack data of
          None \<Rightarrow> None
        | Some b \<Rightarrow> if block_id F b = ie_block_id e then Some b else None))"

definition fetch_optional :: "fc_hash \<Rightarrow> (byte list \<Rightarrow> 'tx signed_block option) \<Rightarrow> block_id_type \<Rightarrow> block_database \<Rightarrow> 'tx signed_block option" where
  "fetch_optional F unpack i d =
     (let n = unat (num_from_id F i) in
      if length (bd_block_num_to_pos d) \<le> n then None
      else let e = bd_block_num_to_pos d ! n in
        if ie_block_id e \<noteq> i then None else read_entry F unpack e d)"

definition fetch_by_number :: "fc_hash \<Rightarrow> (byte list \<Rightarrow> 'tx signed_block option) \<Rightarrow> u32 \<Rightarrow> block_database \<Rightarrow> 'tx signed_block option" where
  "fetch_by_number F unpack num d =
     (if length (bd_block_num_to_pos d) \<le> unat num then None
      else read_entry F unpack (bd_block_num_to_pos d ! unat num) d)"

text \<open>
  The last entry that leads to its block: entries at the end that do not are cut off the file.
  The list is given from the end.
\<close>

fun last_valid :: "fc_hash \<Rightarrow> (byte list \<Rightarrow> 'tx signed_block option) \<Rightarrow> block_database \<Rightarrow> index_entry list \<Rightarrow> index_entry list" where
  "last_valid F unpack d [] = []"
| "last_valid F unpack d (e # es) =
     (if 0 < ie_block_size e \<and> ie_block_pos e + unat (ie_block_size e) \<le> length (bd_blocks d) \<and> read_entry F unpack e d \<noteq> None
      then e # es else last_valid F unpack d es)"

definition last_index_entry :: "fc_hash \<Rightarrow> (byte list \<Rightarrow> 'tx signed_block option) \<Rightarrow> block_database \<Rightarrow> index_entry option \<times> block_database" where
  "last_index_entry F unpack d =
     (let es = last_valid F unpack d (rev (bd_block_num_to_pos d)) in
      (case es of [] \<Rightarrow> None | e # _ \<Rightarrow> Some e, d\<lparr>bd_block_num_to_pos := rev es\<rparr>))"

definition last_block :: "fc_hash \<Rightarrow> (byte list \<Rightarrow> 'tx signed_block option) \<Rightarrow> block_database \<Rightarrow> 'tx signed_block option \<times> block_database" where
  "last_block F unpack d =
     (case last_index_entry F unpack d of
        (Some e, d1) \<Rightarrow> (fetch_by_number F unpack (num_from_id F (ie_block_id e)) d1, d1)
      | (None, d1) \<Rightarrow> (None, d1))"

definition last_id :: "fc_hash \<Rightarrow> (byte list \<Rightarrow> 'tx signed_block option) \<Rightarrow> block_database \<Rightarrow> block_id_type option \<times> block_database" where
  "last_id F unpack d = (let (e, d1) = last_index_entry F unpack d in (map_option ie_block_id e, d1))"

definition total_block_size :: "block_database \<Rightarrow> nat" where
  "total_block_size d = length (bd_blocks d)"

section \<open>Consistent files\<close>

text \<open>Every entry that is in use leads to its block, and stands at the number of its id.\<close>

definition entry_valid :: "fc_hash \<Rightarrow> (byte list \<Rightarrow> 'tx signed_block option) \<Rightarrow> block_database \<Rightarrow> nat \<Rightarrow> bool" where
  "entry_valid F unpack d n \<longleftrightarrow>
     (let e = bd_block_num_to_pos d ! n in
      ie_block_pos e + unat (ie_block_size e) \<le> length (bd_blocks d) \<and>
      (0 < ie_block_size e \<longrightarrow> ie_block_id e \<noteq> zero_block_id \<and> unat (num_from_id F (ie_block_id e)) = n \<and> read_entry F unpack e d \<noteq> None))"

definition bd_ok :: "fc_hash \<Rightarrow> (byte list \<Rightarrow> 'tx signed_block option) \<Rightarrow> block_database \<Rightarrow> bool" where
  "bd_ok F unpack d \<longleftrightarrow> unpack [] = None \<and> (\<forall>n < length (bd_block_num_to_pos d). entry_valid F unpack d n)"

lemma read_bytes_append:
  "pos + n \<le> length bs \<Longrightarrow> read_bytes pos n (bs @ xs) = read_bytes pos n bs"
  by (simp add: read_bytes_def)

lemma read_bytes_end: "read_bytes (length bs) (length xs) (bs @ xs) = Some xs"
  by (simp add: read_bytes_def)

lemma read_entry_empty: "unpack [] = None \<Longrightarrow> ie_block_size e = 0 \<Longrightarrow> read_entry F unpack e d = None"
  by (simp add: read_entry_def read_bytes_def)

lemma read_entry_append:
  assumes "ie_block_pos e + unat (ie_block_size e) \<le> length (bd_blocks d)" and "bd_blocks d' = bd_blocks d @ xs"
  shows "read_entry F unpack e d' = read_entry F unpack e d"
  using assms by (simp add: read_entry_def read_bytes_append)

lemma read_entry_blocks: "bd_blocks d' = bd_blocks d \<Longrightarrow> read_entry F unpack e d' = read_entry F unpack e d"
  by (simp add: read_entry_def)

lemma read_entry_index [simp]: "read_entry F unpack e (d\<lparr>bd_block_num_to_pos := es\<rparr>) = read_entry F unpack e d"
  by (simp add: read_entry_def)

lemma entry_valid_zero: "bd_block_num_to_pos d ! n = zero_entry \<Longrightarrow> entry_valid F unpack d n"
  by (simp add: entry_valid_def zero_entry_def)

lemma length_write_entry [simp]: "length (write_entry n e es) = max (Suc n) (length es)"
  by (auto simp: write_entry_def)

lemma nth_write_entry:
  "m < length (write_entry n e es) \<Longrightarrow> write_entry n e es ! m = (if m = n then e else if m < length es then es ! m else zero_entry)"
  by (auto simp: write_entry_def nth_append split: if_splits)

lemma unat_size: "n < 2 ^ 32 \<Longrightarrow> unat (of_nat n :: u32) = n"
  by (simp add: unat_of_nat)

text \<open>What storing a block under its own id does to the index.\<close>

lemma store_block_entries:
  fixes F :: fc_hash and d :: block_database and b :: "'tx signed_block" and pack :: "'tx signed_block \<Rightarrow> byte list"
  assumes "i \<noteq> zero_block_id"
  defines "d' \<equiv> store_block F pack i b d" and "n \<equiv> unat (num_from_id F i)"
  shows "bd_block_num_to_pos d' ! n = \<lparr>ie_block_pos = length (bd_blocks d), ie_block_size = of_nat (length (pack b)), ie_block_id = i\<rparr>"
    and "bd_blocks d' = bd_blocks d @ pack b" and "length (bd_block_num_to_pos d') = max (Suc n) (length (bd_block_num_to_pos d))"
    and "m \<noteq> n \<Longrightarrow> m < length (bd_block_num_to_pos d') \<Longrightarrow>
      bd_block_num_to_pos d' ! m = (if m < length (bd_block_num_to_pos d) then bd_block_num_to_pos d ! m else zero_entry)"
  using assms(1) by (auto simp: d'_def n_def store_block_def Let_def nth_write_entry)

lemma store_block_reads:
  assumes rt: "unpack (pack b) = Some b" and fits: "length (pack b) < 2 ^ 32" and i: "i \<noteq> zero_block_id"
  shows "read_entry F unpack (bd_block_num_to_pos (store_block F pack i b d) ! unat (num_from_id F i)) (store_block F pack i b d) =
    (if block_id F b = i then Some b else None)"
  using store_block_entries [where pack = pack and b = b and F = F and d = d, OF i] rt unat_size [OF fits] by (simp add: read_entry_def read_bytes_end)

lemma store_block_ok:
  assumes ok: "bd_ok F unpack d" and rt: "unpack (pack b) = Some b" and fits: "length (pack b) < 2 ^ 32"
    and i: "block_id F b \<noteq> zero_block_id"
  shows "bd_ok F unpack (store_block F pack (block_id F b) b d)"
proof -
  let ?i = "block_id F b" and ?d = "store_block F pack (block_id F b) b d"
  let ?n = "unat (num_from_id F ?i)"
  note E = store_block_entries [where pack = pack and b = b and F = F and d = d, OF i]
  have "entry_valid F unpack ?d m" if m: "m < length (bd_block_num_to_pos ?d)" for m
  proof (cases "m = ?n")
    case True
    then show ?thesis using E i unat_size [OF fits] store_block_reads [where unpack = unpack and pack = pack and b = b, OF rt fits i, of F d] by (simp add: entry_valid_def)
  next
    case False
    show ?thesis
    proof (cases "m < length (bd_block_num_to_pos d)")
      case True
      then have old: "bd_block_num_to_pos ?d ! m = bd_block_num_to_pos d ! m" using E(4) [OF False m] by simp
      from ok True have "entry_valid F unpack d m" by (simp add: bd_ok_def)
      then show ?thesis
        using read_entry_append [OF _ E(2), of "bd_block_num_to_pos d ! m" F unpack] E(2) by (auto simp: entry_valid_def old Let_def)
    qed (use E(4) [OF False m] in \<open>simp add: entry_valid_zero\<close>)
  qed
  then show ?thesis using ok by (simp add: bd_ok_def)
qed

lemma fetch_by_number_store:
  assumes ok: "bd_ok F unpack d" and rt: "unpack (pack b) = Some b" and fits: "length (pack b) < 2 ^ 32"
    and i: "block_id F b \<noteq> zero_block_id"
  shows "fetch_by_number F unpack m (store_block F pack (block_id F b) b d) =
    (if m = num_from_id F (block_id F b) then Some b else fetch_by_number F unpack m d)"
proof (cases "m = num_from_id F (block_id F b)")
  case True
  then show ?thesis
    using store_block_entries(3) [where pack = pack and b = b and F = F and d = d, OF i] store_block_reads [where unpack = unpack and pack = pack and b = b, OF rt fits i, of F d] by (simp add: fetch_by_number_def)
next
  case False
  let ?d = "store_block F pack (block_id F b) b d"
  have ne: "unat m \<noteq> unat (num_from_id F (block_id F b))" using False by (simp add: word_unat_eq_iff)
  note E = store_block_entries [where pack = pack and b = b and F = F and d = d, OF i]
  show ?thesis
  proof (cases "unat m < length (bd_block_num_to_pos d)")
    case True
    then have old: "bd_block_num_to_pos ?d ! unat m = bd_block_num_to_pos d ! unat m" using E(3,4) ne by simp
    from ok True have "entry_valid F unpack d (unat m)" by (simp add: bd_ok_def)
    then have "read_entry F unpack (bd_block_num_to_pos d ! unat m) ?d = read_entry F unpack (bd_block_num_to_pos d ! unat m) d"
      by (auto simp: entry_valid_def Let_def intro: read_entry_append [OF _ E(2)])
    then show ?thesis using True False E(3) by (simp add: fetch_by_number_def old)
  next
    case new: False
    show ?thesis
    proof (cases "unat m < length (bd_block_num_to_pos ?d)")
      case True
      have "read_entry F unpack zero_entry ?d = None"
        using ok read_entry_empty [of unpack zero_entry F ?d] by (simp add: bd_ok_def zero_entry_def)
      then show ?thesis using new False E(4) [OF ne True] by (simp add: fetch_by_number_def)
    qed (use new False in \<open>simp add: fetch_by_number_def\<close>)
  qed
qed

lemma entry_valid_cong:
  "bd_blocks d' = bd_blocks d \<Longrightarrow> bd_block_num_to_pos d' ! n = bd_block_num_to_pos d ! n \<Longrightarrow> entry_valid F unpack d' n = entry_valid F unpack d n"
  by (simp add: entry_valid_def Let_def read_entry_blocks [of d' d])

lemma remove_block_effect:
  assumes ok: "bd_ok F unpack d" and run: "remove_block F i d = Inr d'"
  shows "bd_ok F unpack d' \<and>
    fetch_by_number F unpack m d' = (if m = num_from_id F i \<and> contains_block F i d then None else fetch_by_number F unpack m d)"
proof -
  let ?n = "unat (num_from_id F i)"
  let ?e = "bd_block_num_to_pos d ! ?n"
  have n: "?n < length (bd_block_num_to_pos d)" and d': "d' = (if ie_block_id ?e = i
      then d\<lparr>bd_block_num_to_pos := (bd_block_num_to_pos d)[?n := ?e\<lparr>ie_block_size := 0\<rparr>]\<rparr> else d)"
    using run by (auto simp: remove_block_def Let_def ensure_Inr)
  have none: "unpack [] = None" and ev: "\<And>k. k < length (bd_block_num_to_pos d) \<Longrightarrow> entry_valid F unpack d k" using ok by (simp_all add: bd_ok_def)
  show ?thesis
  proof (cases "ie_block_id ?e = i")
    case True
    have "entry_valid F unpack d' k" if k: "k < length (bd_block_num_to_pos d)" for k
    proof (cases "k = ?n")
      case True
      then show ?thesis using ev [OF n] d' n \<open>ie_block_id ?e = i\<close> by (simp add: entry_valid_def Let_def)
    next
      case False
      then show ?thesis using ev [OF k] d' True entry_valid_cong [of d' d k F unpack] by simp
    qed
    then have "bd_ok F unpack d'" using none d' True by (simp add: bd_ok_def)
    moreover have "fetch_by_number F unpack m d' = fetch_by_number F unpack m d" if "m \<noteq> num_from_id F i"
      using that d' True by (simp add: fetch_by_number_def word_unat_eq_iff)
    moreover have "fetch_by_number F unpack (num_from_id F i) d' = None"
      using d' True n none by (simp add: fetch_by_number_def read_entry_empty)
    moreover have "fetch_by_number F unpack (num_from_id F i) d = None" if "\<not> contains_block F i d"
    proof -
      have "ie_block_size ?e = 0"
        using that ev [OF n] n True by (auto simp: contains_block_def entry_valid_def Let_def word_gt_0)
      then show ?thesis using none by (simp add: fetch_by_number_def read_entry_empty)
    qed
    ultimately show ?thesis by (cases "m = num_from_id F i") auto
  qed (use d' ok in \<open>auto simp: contains_block_def Let_def\<close>)
qed

lemma contains_iff_fetch:
  assumes "bd_ok F unpack d" and "i \<noteq> zero_block_id"
  shows "contains_block F i d \<longleftrightarrow> fetch_optional F unpack i d \<noteq> None"
proof (cases "unat (num_from_id F i) < length (bd_block_num_to_pos d)")
  case True
  with assms(1) have "entry_valid F unpack d (unat (num_from_id F i))" "unpack [] = None" by (simp_all add: bd_ok_def)
  then show ?thesis
    using True assms(2) read_entry_empty [of unpack "bd_block_num_to_pos d ! unat (num_from_id F i)" F d]
    by (auto simp: contains_block_def fetch_optional_def entry_valid_def Let_def word_gt_0)
qed (simp add: contains_block_def fetch_optional_def Let_def)

text \<open>The search for the last block drops entries that lead to no block.\<close>

lemma last_valid_split:
  "\<exists>ys. es = ys @ last_valid F unpack d es \<and>
    (\<forall>e \<in> set ys. \<not> (0 < ie_block_size e \<and> ie_block_pos e + unat (ie_block_size e) \<le> length (bd_blocks d) \<and> read_entry F unpack e d \<noteq> None)) \<and>
    (\<forall>e es'. last_valid F unpack d es = e # es' \<longrightarrow> 0 < ie_block_size e \<and> read_entry F unpack e d \<noteq> None)"
proof (induction es)
  case (Cons e es)
  then obtain ys where ys: "es = ys @ last_valid F unpack d es"
    "\<forall>e \<in> set ys. \<not> (0 < ie_block_size e \<and> ie_block_pos e + unat (ie_block_size e) \<le> length (bd_blocks d) \<and> read_entry F unpack e d \<noteq> None)"
    "\<forall>e es'. last_valid F unpack d es = e # es' \<longrightarrow> 0 < ie_block_size e \<and> read_entry F unpack e d \<noteq> None" by blast
  show ?case
  proof (cases "0 < ie_block_size e \<and> ie_block_pos e + unat (ie_block_size e) \<le> length (bd_blocks d) \<and> read_entry F unpack e d \<noteq> None")
    case False
    then show ?thesis by (intro exI [of _ "e # ys"]) (use ys in auto)
  qed auto
qed simp

lemma last_index_entry_cut:
  assumes none: "unpack [] = None" and run: "last_index_entry F unpack d = (r, d1)"
  obtains ys where "bd_block_num_to_pos d = bd_block_num_to_pos d1 @ ys" and "\<forall>e \<in> set ys. read_entry F unpack e d = None" and "bd_blocks d1 = bd_blocks d"
    and "\<forall>e. r = Some e \<longrightarrow> bd_block_num_to_pos d1 \<noteq> [] \<and> e = last (bd_block_num_to_pos d1) \<and> 0 < ie_block_size e \<and> read_entry F unpack e d \<noteq> None"
    and "r = None \<longrightarrow> bd_block_num_to_pos d1 = []"
proof -
  let ?es = "rev (bd_block_num_to_pos d)"
  obtain ys where ys: "?es = ys @ last_valid F unpack d ?es"
    "\<forall>e \<in> set ys. \<not> (0 < ie_block_size e \<and> ie_block_pos e + unat (ie_block_size e) \<le> length (bd_blocks d) \<and> read_entry F unpack e d \<noteq> None)"
    "\<forall>e es'. last_valid F unpack d ?es = e # es' \<longrightarrow> 0 < ie_block_size e \<and> read_entry F unpack e d \<noteq> None"
    using last_valid_split by blast
  have d1: "bd_block_num_to_pos d1 = rev (last_valid F unpack d ?es)" "bd_blocks d1 = bd_blocks d"
    using run by (auto simp: last_index_entry_def Let_def)
  have "bd_block_num_to_pos d = rev ?es" by simp
  also have "\<dots> = bd_block_num_to_pos d1 @ rev ys" by (subst ys(1)) (simp add: d1)
  finally have split: "bd_block_num_to_pos d = bd_block_num_to_pos d1 @ rev ys" .
  have "read_entry F unpack e d = None" if "e \<in> set (rev ys)" for e
    using that ys(2) none by (auto simp: read_entry_def read_bytes_def word_gt_0 unat_eq_0 split: option.splits)
  moreover have "r = (case last_valid F unpack d ?es of [] \<Rightarrow> None | e # _ \<Rightarrow> Some e)"
    using run by (simp add: last_index_entry_def Let_def)
  ultimately show thesis using that [OF split] ys(3) d1 by (auto simp: last_rev split: list.splits)
qed

text \<open>
  The files that the operations can leave: blocks stored under any id, removed, the files truncated, the
  search for the last block; and the file of blocks may change in any way, for example when the process stops
  in the middle of a write. An entry in use always stands at the number of its id.
\<close>

inductive files_reachable ::
  "fc_hash \<Rightarrow> ('tx signed_block \<Rightarrow> byte list) \<Rightarrow> (byte list \<Rightarrow> 'tx signed_block option) \<Rightarrow> block_database \<Rightarrow> bool"
  for F pack unpack where
  new: "files_reachable F pack unpack \<lparr>bd_block_num_to_pos = [], bd_blocks = []\<rparr>"
| store: "files_reachable F pack unpack d \<Longrightarrow> files_reachable F pack unpack (store_block F pack i b d)"
| remove: "files_reachable F pack unpack d \<Longrightarrow> remove_block F i d = Inr d' \<Longrightarrow> files_reachable F pack unpack d'"
| cut: "files_reachable F pack unpack d \<Longrightarrow> truncate_block_db n d = Inr d' \<Longrightarrow> files_reachable F pack unpack d'"
| search: "files_reachable F pack unpack d \<Longrightarrow> last_index_entry F unpack d = (l, d') \<Longrightarrow> files_reachable F pack unpack d'"
| damage: "files_reachable F pack unpack d \<Longrightarrow> files_reachable F pack unpack (d\<lparr>bd_blocks := bs\<rparr>)"

definition entries_placed :: "fc_hash \<Rightarrow> index_entry list \<Rightarrow> bool" where
  "entries_placed F es \<longleftrightarrow> (\<forall>n < length es. 0 < ie_block_size (es ! n) \<longrightarrow> unat (num_from_id F (ie_block_id (es ! n))) = n)"

lemma entries_placed_prefix: "entries_placed F (xs @ ys) \<Longrightarrow> entries_placed F xs"
  by (auto simp: entries_placed_def nth_append split: if_splits)

lemma files_reachable_placed:
  "files_reachable F pack unpack d \<Longrightarrow> entries_placed F (bd_block_num_to_pos d)"
proof (induction rule: files_reachable.induct)
  case new
  then show ?case by (simp add: entries_placed_def)
next
  case (store d i b)
  then show ?case by (auto simp: entries_placed_def store_block_def Let_def nth_write_entry zero_entry_def split: if_splits)
next
  case (remove d i d')
  then show ?case by (auto simp: entries_placed_def remove_block_def Let_def ensure_Inr nth_list_update split: if_splits)
next
  case (cut d n d')
  then show ?case by (auto simp: entries_placed_def truncate_block_db_def Let_def ensure_Inr split: if_splits)
next
  case (search d l d')
  obtain ys where "rev (bd_block_num_to_pos d) = ys @ last_valid F unpack d (rev (bd_block_num_to_pos d))"
    using last_valid_split by blast
  moreover have "bd_block_num_to_pos d' = rev (last_valid F unpack d (rev (bd_block_num_to_pos d)))"
    using search.hyps(2) by (auto simp: last_index_entry_def Let_def)
  ultimately have "bd_block_num_to_pos d = bd_block_num_to_pos d' @ rev ys" by (metis rev_append rev_rev_ident)
  then show ?case using search.IH entries_placed_prefix by metis
next
  case (damage d bs)
  then show ?case by simp
qed

lemma fetch_block_num:
  assumes "block_hashing F" and "fetch_by_number F unpack m d = Some b" and "bd_ok F unpack d"
  shows "block_num F b = m"
proof -
  let ?e = "bd_block_num_to_pos d ! unat m"
  from assms(2) have m: "unat m < length (bd_block_num_to_pos d)" and r: "read_entry F unpack ?e d = Some b"
    by (simp_all add: fetch_by_number_def split: if_splits)
  have i: "block_id F b = ie_block_id ?e" using r by (simp add: read_entry_def split: option.splits if_splits)
  have "ie_block_size ?e \<noteq> 0" using r assms(3) read_entry_empty [of unpack ?e F d] by (auto simp: bd_ok_def)
  with assms(3) m have "unat (num_from_id F (ie_block_id ?e)) = unat m" by (simp add: bd_ok_def entry_valid_def Let_def word_gt_0)
  then show ?thesis using block_hashing.num_from_block_id [OF assms(1), of b] i by (simp add: word_unat_eq_iff)
qed

section \<open>Properties of the block file\<close>

text \<open>C13.
  A block stored under its id is found again, by id and by number, and no other number changes. Removing it
  makes its number empty again and changes nothing else. Both keep the file consistent: every entry in use
  leads to the block whose id it carries. The packing of the block must be undone by unpacking, and fit 32 bits.
\<close>

theorem block_file_roundtrip:
  assumes F: "block_hashing F" and ok: "bd_ok F unpack d" and rt: "unpack (pack b) = Some b" and fits: "length (pack b) < 2 ^ 32"
    and i: "block_id F b \<noteq> zero_block_id" and d': "d' = store_block F pack (block_id F b) b d"
  shows "bd_ok F unpack d' \<and> contains_block F (block_id F b) d' \<and> fetch_optional F unpack (block_id F b) d' = Some b \<and>
    fetch_block_id (block_num F b) d' = Inr (block_id F b) \<and>
    fetch_by_number F unpack m d' = (if m = block_num F b then Some b else fetch_by_number F unpack m d) \<and>
    (\<exists>d''. remove_block F (block_id F b) d' = Inr d'' \<and> bd_ok F unpack d'' \<and>
      fetch_by_number F unpack m d'' = (if m = block_num F b then None else fetch_by_number F unpack m d))"
proof -
  note num = block_hashing.num_from_block_id [OF F, of b]
  have ok': "bd_ok F unpack d'" unfolding d' by (rule store_block_ok [where unpack = unpack and pack = pack and b = b, OF ok rt fits i])
  note S = fetch_by_number_store [where unpack = unpack and pack = pack and b = b, OF ok rt fits i, unfolded num, folded d']
  note E = store_block_entries [where pack = pack and b = b and F = F and d = d, OF i, unfolded num, folded d']
  have o: "fetch_optional F unpack (block_id F b) d' = Some b"
    using S [of "block_num F b"] E(1,3) by (simp add: fetch_optional_def fetch_by_number_def num)
  then have c: "contains_block F (block_id F b) d'" using contains_iff_fetch [OF ok' i] by simp
  have n: "unat (block_num F b) < length (bd_block_num_to_pos d')" using E(3) by simp
  then obtain d'' where d'': "remove_block F (block_id F b) d' = Inr d''" by (simp add: remove_block_def Let_def num)
  from remove_block_effect [OF ok' d'', of m] have "bd_ok F unpack d''"
    "fetch_by_number F unpack m d'' = (if m = block_num F b then None else fetch_by_number F unpack m d)"
    using c S [of m] by (auto simp: num)
  moreover have "fetch_block_id (block_num F b) d' = Inr (block_id F b)" using E(1) n i by (simp add: fetch_block_id_def)
  ultimately show ?thesis using ok' c o S [of m] d'' by simp
qed

text \<open>C14.
  After a restart the node asks for the last block. Whatever blocks were stored and removed before, under whatever
  ids, and whatever the file of blocks holds now, it gets the readable block with the greatest number,
  or nothing when none is readable; the entries that the search cuts off the index led to no block, so every
  number still gives what it gave before. Unpacking no bytes must fail.
\<close>

theorem last_block_is_highest:
  assumes F: "block_hashing F" and none: "unpack [] = None" and reach: "files_reachable F pack unpack d"
    and run: "last_block F unpack d = (r, d1)"
  shows "fetch_by_number F unpack m d1 = fetch_by_number F unpack m d \<and>
    (case r of None \<Rightarrow> fetch_by_number F unpack m d = None
     | Some b \<Rightarrow> fetch_by_number F unpack (block_num F b) d = Some b \<and> (block_num F b < m \<longrightarrow> fetch_by_number F unpack m d = None))"
proof -
  obtain l where L: "last_index_entry F unpack d = (l, d1)" using run by (auto simp: last_block_def split: prod.splits option.splits)
  obtain ys where cut: "bd_block_num_to_pos d = bd_block_num_to_pos d1 @ ys" and empty: "\<forall>e \<in> set ys. read_entry F unpack e d = None"
    and bytes: "bd_blocks d1 = bd_blocks d"
    and some: "\<forall>e. l = Some e \<longrightarrow> bd_block_num_to_pos d1 \<noteq> [] \<and> e = last (bd_block_num_to_pos d1) \<and> 0 < ie_block_size e \<and> read_entry F unpack e d \<noteq> None"
    and empty_index: "l = None \<longrightarrow> bd_block_num_to_pos d1 = []"
    using none L by (rule last_index_entry_cut) (rule that)
  have beyond: "fetch_by_number F unpack k d = None" if "length (bd_block_num_to_pos d1) \<le> unat k" for k
    using that cut empty by (auto simp: fetch_by_number_def nth_append)
  have same: "fetch_by_number F unpack k d1 = fetch_by_number F unpack k d" for k
    using beyond [of k] cut by (auto simp: fetch_by_number_def nth_append read_entry_blocks [OF bytes])
  show ?thesis
  proof (cases l)
    case None
    then have "r = None" using run L by (simp add: last_block_def)
    then show ?thesis using same beyond empty_index None by simp
  next
    case (Some e)
    let ?n = "length (bd_block_num_to_pos d1) - 1"
    have r: "r = fetch_by_number F unpack (num_from_id F (ie_block_id e)) d"
      using run L Some same by (auto simp: last_block_def)
    have n: "?n < length (bd_block_num_to_pos d)" "bd_block_num_to_pos d ! ?n = e"
      using some Some cut by (auto simp: nth_append last_conv_nth intro: trans_less_add1)
    have e: "unat (num_from_id F (ie_block_id e)) = ?n"
      using files_reachable_placed [OF reach] n some Some unfolding entries_placed_def by blast
    obtain b where b: "read_entry F unpack e d = Some b" using some Some by auto
    then have rb: "r = Some b" using r n e by (simp add: fetch_by_number_def)
    have num: "block_num F b = num_from_id F (ie_block_id e)"
      using b block_hashing.num_from_block_id [OF F, of b] by (auto simp: read_entry_def split: option.splits if_splits)
    have "fetch_by_number F unpack m d = None" if "block_num F b < m"
      using that num e beyond [of m] some Some by (simp add: word_less_nat_alt)
    then show ?thesis using rb r num same by simp
  qed
qed

definition file_block :: "unit signed_block" where
  "file_block = \<lparr>bh_previous = [6, 0, 0, 0, 0], bh_timestamp = 10, bh_witness = 3, bh_transaction_merkle_root = 1,
     bh_witness_signature = 0, bh_transactions = []\<rparr>"

definition file_hash :: fc_hash where
  "file_hash = \<lparr>endian_reverse_u32 = (\<lambda>w. w), sha224 = (\<lambda>h. [1, 2, 3, 4, 5, 6, of_nat (bh_timestamp h)])\<rparr>"

definition file_unpack :: "byte list \<Rightarrow> unit signed_block option" where
  "file_unpack bs = (if bs = [1, 2, 3] then Some file_block else None)"

definition empty_files :: block_database where
  "empty_files = \<lparr>bd_block_num_to_pos = [], bd_blocks = []\<rparr>"

lemma empty_files_ok: "bd_ok file_hash file_unpack empty_files"
  by (simp add: bd_ok_def file_unpack_def empty_files_def)

lemma file_hashing: "block_hashing file_hash"
  by unfold_locales (simp_all add: file_hash_def)

lemma file_block_facts:
  "file_unpack [1, 2, 3] = Some file_block" "length [1, 2, 3 :: byte] < 2 ^ 32" "block_id file_hash file_block \<noteq> zero_block_id"
  "block_num file_hash file_block = 7"
  by (simp add: file_unpack_def) (simp, code_simp, code_simp)

theorem block_file_roundtrip_witness:
  "fetch_by_number file_hash file_unpack 7 (store_block file_hash (\<lambda>b. [1, 2, 3]) (block_id file_hash file_block) file_block empty_files) = Some file_block \<and>
   fetch_by_number file_hash file_unpack 8 (store_block file_hash (\<lambda>b. [1, 2, 3]) (block_id file_hash file_block) file_block empty_files) = None"
  using block_file_roundtrip [where pack = "\<lambda>b. [1, 2, 3]" and m = 7, OF file_hashing empty_files_ok file_block_facts(1-3) refl]
    block_file_roundtrip [where pack = "\<lambda>b. [1, 2, 3]" and m = 8, OF file_hashing empty_files_ok file_block_facts(1-3) refl]
  by (simp add: file_block_facts(4)) (simp add: fetch_by_number_def empty_files_def)

text \<open>Block 7, and under the id of block 9 once more the same block: the entry of block 9 leads to no block and is cut off.\<close>

definition damaged_files :: block_database where
  "damaged_files = store_block file_hash (\<lambda>b. [1, 2, 3]) [9, 0, 0, 0, 0] file_block
     (store_block file_hash (\<lambda>b. [1, 2, 3]) (block_id file_hash file_block) file_block empty_files)"

theorem last_block_is_highest_witness:
  "\<exists>d1. last_block file_hash file_unpack damaged_files = (Some file_block, d1) \<and>
    contains_block file_hash [9, 0, 0, 0, 0] damaged_files \<and> fetch_by_number file_hash file_unpack 9 d1 = None"
proof -
  have reach: "files_reachable file_hash (\<lambda>b. [1, 2, 3]) file_unpack damaged_files"
    unfolding damaged_files_def empty_files_def by (intro files_reachable.intros)
  have none: "file_unpack [] = None" by (simp add: file_unpack_def)
  have "fst (last_block file_hash file_unpack damaged_files) = Some file_block" by code_simp
  then obtain d1 where r: "last_block file_hash file_unpack damaged_files = (Some file_block, d1)" by (metis prod.collapse)
  have "contains_block file_hash [9, 0, 0, 0, 0] damaged_files" by code_simp
  with last_block_is_highest [OF file_hashing none reach r, of 9] r show ?thesis by (simp add: file_block_facts(4))
qed

text \<open>A block stored under the id of another block is reported as contained but can never be fetched.\<close>

lemma stored_under_wrong_id:
  assumes ok: "bd_ok F unpack d" and rt: "unpack (pack b) = Some b" and fits: "length (pack b) < 2 ^ 32" and "pack b \<noteq> []"
    and i: "i \<noteq> zero_block_id" and "i \<noteq> block_id F b" and d': "d' = store_block F pack i b d"
  shows "contains_block F i d' \<and> fetch_optional F unpack i d' = None \<and> fetch_by_number F unpack (num_from_id F i) d' = None"
proof -
  note E = store_block_entries [where pack = pack and b = b and F = F and d = d, OF i, folded d']
  have "0 < (of_nat (length (pack b)) :: u32)" using unat_size [OF fits] assms(4) by (metis length_greater_0_conv unat_gt_0 word_gt_0 unat_0 less_not_refl)
  then show ?thesis
    using E store_block_reads [where unpack = unpack and pack = pack and b = b, OF rt fits i, of F d] assms(6) i
    by (simp add: contains_block_def fetch_optional_def fetch_by_number_def Let_def d')
qed

end
