(* ===== verification/Push_Block.thy ===== *)
theory Push_Block
  imports Block_Application Fork_Database Block_Database
begin

text \<open>
  Pushing blocks and transactions (db_block.cpp, db_with.hpp): the pending transactions, the switch to a longer
  branch and back when it turns out to be invalid.

  The undo database is seen through what \<open>Undo_Database\<close> proves of it. There undoing or popping a session either
  brings the objects from before it back or throws, and it throws only when the session gave a unique key away. A
  session below is the state it started in, and undoing or popping it brings that state back: the case that throws
  is left out. Where the session is undone by its destructor, the exception leaves the destructor and the process
  ends, so there is no later state to speak of; where a block is popped, the exception ends the push.
  The stack below has its top first; the undo database is enabled.
  An operation that throws leaves a state behind, so it returns the exception beside that state. After an
  exception within a session the objects are the ones the destructor of the session restores. Signals to
  observers have no counterpart.
\<close>

section \<open>The state of a node\<close>

record 'memo node =
  nd_chain :: chain
  nd_undo_stack :: "chain list"
  nd_undo_max_size :: nat
  nd_pending_session :: bool
  nd_pending_tx :: "'memo signed_transaction list"
  nd_popped_tx :: "'memo signed_transaction list"
  nd_fork_db :: "'memo signed_transaction fork_database"
  nd_block_id_to_block :: block_database

text \<open>What a node runs with: the library functions, the maintenance, the checkpoints and the flags.\<close>

record 'memo node_env =
  ne_safe :: safe_ops
  ne_crypto :: "'memo block_crypto"
  ne_fees :: "'memo fee_table"
  ne_maint :: "applied_block \<Rightarrow> database \<Rightarrow> database result"
  ne_pack :: "'memo signed_transaction signed_block \<Rightarrow> byte list"
  ne_unpack :: "byte list \<Rightarrow> 'memo signed_transaction signed_block option"
  ne_checkpoints :: "(nat \<times> block_id_type) list"
  ne_skip :: skip_flags
  ne_skip_fork_db :: bool

abbreviation ne_hash :: "'memo node_env \<Rightarrow> fc_hash" where
  "ne_hash N \<equiv> bc_hash (ne_crypto N)"

abbreviation head_block_id :: "'memo node \<Rightarrow> block_id_type" where
  "head_block_id n \<equiv> dg_head_block_id (db_dynamic (ch_db (nd_chain n)))"

type_synonym ('a, 'memo) outcome = "'a result \<times> 'memo node"

section \<open>Sessions\<close>

definition start_session :: "'memo node \<Rightarrow> 'memo node" where
  "start_session n = n\<lparr>nd_undo_stack := nd_chain n # take (nd_undo_max_size n) (nd_undo_stack n)\<rparr>"

definition abandon_session :: "'memo node \<Rightarrow> 'memo node" where
  "abandon_session n = (case nd_undo_stack n of [] \<Rightarrow> n | s # r \<Rightarrow> n\<lparr>nd_chain := s, nd_undo_stack := r\<rparr>)"

text \<open>Merging a session into the one below; it throws when there is none.\<close>

definition merge_session :: "'memo node \<Rightarrow> 'memo node result" where
  "merge_session n = fc_assert (2 \<le> length (nd_undo_stack n)) (Inr (n\<lparr>nd_undo_stack := tl (nd_undo_stack n)\<rparr>))"

definition reset_pending_session :: "'memo node \<Rightarrow> 'memo node" where
  "reset_pending_session n = (if nd_pending_session n then (abandon_session n)\<lparr>nd_pending_session := False\<rparr> else n)"

definition clear_pending :: "'memo node \<Rightarrow> 'memo node" where
  "clear_pending n = reset_pending_session (n\<lparr>nd_pending_tx := []\<rparr>)"

section \<open>Transactions\<close>

definition open_pending :: "'memo node \<Rightarrow> 'memo node" where
  "open_pending n = (if nd_pending_session n then n else (start_session n)\<lparr>nd_pending_session := True\<rparr>)"

definition push_transaction :: "'memo node_env \<Rightarrow> 'memo signed_transaction \<Rightarrow> 'memo node \<Rightarrow> (unit, 'memo) outcome" where
  "push_transaction N trx n =
     (let n2 = start_session (open_pending n) in
      case apply_transaction (ne_safe N) (bc_trx (ne_crypto N)) (ne_fees N) (ne_skip N) trx (nd_chain n2) of
        Inl e \<Rightarrow> (Inl e, abandon_session n2)
      | Inr ch \<Rightarrow> let n3 = n2\<lparr>nd_chain := ch, nd_pending_tx := nd_pending_tx n2 @ [trx]\<rparr> in
          (case merge_session n3 of Inl e \<Rightarrow> (Inl e, abandon_session n3) | Inr n4 \<Rightarrow> (Inr (), n4)))"

text \<open>The destructor that pushes popped and pending transactions again: unknown ones are tried, failures are ignored.\<close>

definition push_again :: "'memo node_env \<Rightarrow> 'memo signed_transaction \<Rightarrow> 'memo node \<Rightarrow> 'memo node" where
  "push_again N trx n =
     (if is_known_transaction (transaction_id (bc_trx (ne_crypto N)) trx) (nd_chain n) then n else snd (push_transaction N trx n))"

definition restore_pending :: "'memo node_env \<Rightarrow> 'memo signed_transaction list \<Rightarrow> 'memo node \<Rightarrow> 'memo node" where
  "restore_pending N txs n =
     (let n1 = fold (push_again N) (nd_popped_tx n) n in fold (push_again N) txs (n1\<lparr>nd_popped_tx := []\<rparr>))"

section \<open>Blocks\<close>

definition fork_head_num :: "'memo node \<Rightarrow> nat option" where
  "fork_head_num n = map_option (\<lambda>h. unat (num_of (nd_fork_db n) h)) (fd_head (nd_fork_db n))"

text \<open>The sizes that applying a block gives to the undo and fork databases, also when a later step of it throws.\<close>

definition new_sizes :: "'memo node_env \<Rightarrow> 'memo signed_transaction signed_block \<Rightarrow> 'memo node \<Rightarrow> (nat \<times> nat) option" where
  "new_sizes N b n =
     (case rbind (checkpoint_skip (ne_checkpoints N) (unat (block_num (ne_hash N) b)) (block_id (ne_hash N) b) (ne_skip N)) (\<lambda>skip.
        apply_block_start (ne_safe N) (ne_crypto N) (ne_fees N) (last_checkpoint (ne_checkpoints N)) (fork_head_num n) skip b (nd_chain n)) of
        Inl _ \<Rightarrow> None
      | Inr (_, _, undo_size, fork_size) \<Rightarrow> Some (undo_size, fork_size))"

definition set_sizes :: "(nat \<times> nat) option \<Rightarrow> 'memo node \<Rightarrow> 'memo node" where
  "set_sizes s n =
     (case s of None \<Rightarrow> n
      | Some (undo_size, fork_size) \<Rightarrow> n\<lparr>nd_undo_max_size := undo_size, nd_fork_db := set_max_size (of_nat fork_size) (nd_fork_db n)\<rparr>)"

definition node_apply_block :: "'memo node_env \<Rightarrow> 'memo signed_transaction signed_block \<Rightarrow> 'memo node \<Rightarrow> (chain \<times> nat \<times> nat) result" where
  "node_apply_block N b n =
     apply_block (ne_safe N) (ne_crypto N) (ne_fees N) (ne_maint N) (ne_checkpoints N) (fork_head_num n) (ne_skip N) b (nd_chain n)"

text \<open>A session around \<open>apply_block\<close>: committed when the block applies and is stored, undone when it throws.\<close>

definition apply_in_session :: "'memo node_env \<Rightarrow> block_id_type \<Rightarrow> 'memo signed_transaction signed_block \<Rightarrow> 'memo node \<Rightarrow> (unit, 'memo) outcome" where
  "apply_in_session N i b n =
     (let n1 = start_session n; n2 = set_sizes (new_sizes N b n1) n1 in
      case node_apply_block N b n1 of
        Inl e \<Rightarrow> (Inl e, abandon_session n2)
      | Inr (ch, _) \<Rightarrow> (Inr (), n2\<lparr>nd_chain := ch, nd_block_id_to_block := store_block (ne_hash N) (ne_pack N) i b (nd_block_id_to_block n2)\<rparr>))"

definition fetch_block_by_id :: "'memo node_env \<Rightarrow> block_id_type \<Rightarrow> 'memo node \<Rightarrow> 'memo signed_transaction signed_block option" where
  "fetch_block_by_id N i n =
     (case fetch_block i (nd_fork_db n) of
        Some r \<Rightarrow> Some (fi_data (item (nd_fork_db n) r))
      | None \<Rightarrow> fetch_optional (ne_hash N) (ne_unpack N) i (nd_block_id_to_block n))"

definition node_pop_block :: "'memo node_env \<Rightarrow> 'memo node \<Rightarrow> (unit, 'memo) outcome" where
  "node_pop_block N n =
     (let n1 = reset_pending_session n in
      case fetch_block_by_id N (head_block_id n1) n1 of
        None \<Rightarrow> (Inl Pop_empty_chain, n1)
      | Some b \<Rightarrow> (case pop_block (nd_fork_db n1) of
          Inl e \<Rightarrow> (Inl e, n1)
        | Inr f \<Rightarrow> let n2 = n1\<lparr>nd_fork_db := f\<rparr> in
            (case nd_undo_stack n2 of
               [] \<Rightarrow> (Inl Assert_failed, n2)
             | s # r \<Rightarrow> (Inr (), n2\<lparr>nd_chain := s, nd_undo_stack := r, nd_popped_tx := bh_transactions b @ nd_popped_tx n2\<rparr>))))"

lemma node_pop_block_shorter:
  "node_pop_block N n = (Inr (), n') \<Longrightarrow> length (nd_undo_stack n') < length (nd_undo_stack n)"
  by (auto simp: node_pop_block_def reset_pending_session_def abandon_session_def Let_def split: option.splits sum.splits list.splits if_splits)

text \<open>Popping blocks until the head is the given one; every pop shortens the undo stack.\<close>

function pop_until :: "'memo node_env \<Rightarrow> block_id_type \<Rightarrow> 'memo node \<Rightarrow> (unit, 'memo) outcome" where
  "pop_until N target n =
     (if head_block_id n = target then (Inr (), n)
      else case node_pop_block N n of
        (Inl e, n1) \<Rightarrow> (Inl e, n1)
      | (Inr _, n1) \<Rightarrow> pop_until N target n1)"
  by auto
termination by (relation "measure (\<lambda>(N, target, n). length (nd_undo_stack n))") (auto dest: node_pop_block_shorter [OF trans [OF sym]] node_pop_block_shorter)

declare pop_until.simps [simp del]

section \<open>Switching branches\<close>

text \<open>Blocks of the new branch, lowest first; on an exception the blocks not yet applied come with it.\<close>

fun push_branch :: "'memo node_env \<Rightarrow> nat list \<Rightarrow> 'memo node \<Rightarrow> ((chain_error \<times> nat list) + unit) \<times> 'memo node" where
  "push_branch N [] n = (Inr (), n)"
| "push_branch N (r # rs) n =
     (case apply_in_session N (fi_id (item (nd_fork_db n) r)) (fi_data (item (nd_fork_db n) r)) n of
        (Inl e, n1) \<Rightarrow> (Inl (e, r # rs), n1)
      | (Inr _, n1) \<Rightarrow> push_branch N rs n1)"

text \<open>The blocks of the old branch are applied again; each is stored under the id of the block that was pushed.\<close>

fun restore_branch :: "'memo node_env \<Rightarrow> block_id_type \<Rightarrow> nat list \<Rightarrow> 'memo node \<Rightarrow> (unit, 'memo) outcome" where
  "restore_branch N new_id [] n = (Inr (), n)"
| "restore_branch N new_id (r # rs) n =
     (case apply_in_session N new_id (fi_data (item (nd_fork_db n) r)) n of
        (Inl e, n1) \<Rightarrow> (Inl e, n1)
      | (Inr _, n1) \<Rightarrow> restore_branch N new_id rs n1)"

definition remove_items :: "'memo node_env \<Rightarrow> nat list \<Rightarrow> 'memo signed_transaction fork_database \<Rightarrow> 'memo signed_transaction fork_database" where
  "remove_items N rs d = fold (\<lambda>r d. fork_remove (block_id (ne_hash N) (fi_data (item d r))) d) rs d"

definition recover_branch :: "'memo node_env \<Rightarrow> block_id_type \<Rightarrow> nat list \<Rightarrow> nat list \<Rightarrow> 'memo node \<Rightarrow> (unit, 'memo) outcome" where
  "recover_branch N new_id rest second n =
     (let n1 = n\<lparr>nd_fork_db := set_head (Some (hd second)) (remove_items N rest (nd_fork_db n))\<rparr> in
      case pop_until N (previous_id (item (nd_fork_db n1) (last second))) n1 of
        (Inl e, n2) \<Rightarrow> (Inl e, n2)
      | (Inr _, n2) \<Rightarrow> restore_branch N new_id (rev second) n2)"

definition switch_branches :: "'memo node_env \<Rightarrow> block_id_type \<Rightarrow> nat list \<Rightarrow> nat list \<Rightarrow> 'memo node \<Rightarrow> (bool, 'memo) outcome" where
  "switch_branches N new_id first second n =
     (case pop_until N (previous_id (item (nd_fork_db n) (last second))) n of
        (Inl e, n1) \<Rightarrow> (Inl e, n1)
      | (Inr _, n1) \<Rightarrow> (case push_branch N (rev first) n1 of
          (Inr _, n2) \<Rightarrow> (Inr True, n2)
        | (Inl (e, rest), n2) \<Rightarrow> (case recover_branch N new_id rest second n2 of
            (Inl e', n3) \<Rightarrow> (Inl e', n3)
          | (Inr _, n3) \<Rightarrow> (Inl e, n3))))"

text \<open>
  The branches keep their items alive while the switch lasts. A search that did not return would be the error
  \<open>Undefined_behaviour\<close>; \<open>fetch_branch_from_correct\<close> rules it out.
\<close>

definition hold :: "nat list \<Rightarrow> 'memo node \<Rightarrow> 'memo node" where
  "hold rs n = n\<lparr>nd_fork_db := (nd_fork_db n)\<lparr>fd_held := rs\<rparr>\<rparr>"

definition switch_forks :: "'memo node_env \<Rightarrow> block_id_type \<Rightarrow> nat \<Rightarrow> 'memo node \<Rightarrow> (bool, 'memo) outcome" where
  "switch_forks N new_id new_head n =
     (case fetch_branch_from (block_id (ne_hash N) (fi_data (item (nd_fork_db n) new_head))) (head_block_id n) (nd_fork_db n) of
        None \<Rightarrow> (Inl Undefined_behaviour, n)
      | Some (Inl e) \<Rightarrow> (Inl e, n)
      | Some (Inr (first, second)) \<Rightarrow>
          (let (r, n1) = switch_branches N new_id first second (hold (new_head # first @ second) n) in (r, hold [] n1)))"

definition push_on_head :: "'memo node_env \<Rightarrow> 'memo signed_transaction signed_block \<Rightarrow> 'memo node \<Rightarrow> (bool, 'memo) outcome" where
  "push_on_head N b n =
     (case apply_in_session N (block_id (ne_hash N) b) b n of
        (Inl e, n1) \<Rightarrow> (Inl e, n1\<lparr>nd_fork_db := fork_remove (block_id (ne_hash N) b) (nd_fork_db n1)\<rparr>)
      | (Inr _, n1) \<Rightarrow> (Inr False, n1))"

definition push_block_inner :: "'memo node_env \<Rightarrow> 'memo signed_transaction signed_block \<Rightarrow> 'memo node \<Rightarrow> (bool, 'memo) outcome" where
  "push_block_inner N b n =
     (if ne_skip_fork_db N then push_on_head N b n
      else case push_block (ne_hash N) b (nd_fork_db n) of
        Inl e \<Rightarrow> (Inl e, n)
      | Inr (None, f) \<Rightarrow> (Inl Undefined_behaviour, n\<lparr>nd_fork_db := f\<rparr>)
      | Inr (Some new_head, f) \<Rightarrow>
          let n1 = n\<lparr>nd_fork_db := f\<rparr> in
          if previous_id (item f new_head) \<noteq> head_block_id n1
          then if unat (block_num (ne_hash N) (fi_data (item f new_head))) > head_block_num (ch_db (nd_chain n1))
               then switch_forks N (block_id (ne_hash N) b) new_head n1
               else (Inr False, n1)
          else push_on_head N b n1)"

definition node_push_block :: "'memo node_env \<Rightarrow> 'memo signed_transaction signed_block \<Rightarrow> 'memo node \<Rightarrow> (bool, 'memo) outcome" where
  "node_push_block N b n =
     (let (r, n1) = push_block_inner N b (clear_pending n) in (r, restore_pending N (nd_pending_tx n) n1))"

section \<open>Frames\<close>

lemma start_session_sel [simp]:
  "nd_chain (start_session n) = nd_chain n" "nd_undo_stack (start_session n) = nd_chain n # take (nd_undo_max_size n) (nd_undo_stack n)"
  "nd_undo_max_size (start_session n) = nd_undo_max_size n" "nd_pending_session (start_session n) = nd_pending_session n"
  "nd_pending_tx (start_session n) = nd_pending_tx n" "nd_fork_db (start_session n) = nd_fork_db n" "nd_block_id_to_block (start_session n) = nd_block_id_to_block n"
  by (simp_all add: start_session_def)

lemma abandon_start [simp]:
  "nd_undo_stack n = s # r \<Longrightarrow> nd_chain (abandon_session n) = s" "nd_undo_stack n = s # r \<Longrightarrow> nd_undo_stack (abandon_session n) = r"
  "nd_fork_db (abandon_session n) = nd_fork_db n" "nd_pending_session (abandon_session n) = nd_pending_session n"
  "nd_block_id_to_block (abandon_session n) = nd_block_id_to_block n" "nd_pending_tx (abandon_session n) = nd_pending_tx n"
  by (simp_all add: abandon_session_def split: list.split)

lemma set_max_size_frame [simp]: "fd_store (set_max_size k d) = fd_store d" "fd_head (set_max_size k d) = fd_head d"
  by (simp_all add: set_max_size_def Let_def split: option.split)

lemma set_sizes_sel [simp]:
  "nd_chain (set_sizes z n) = nd_chain n" "nd_undo_stack (set_sizes z n) = nd_undo_stack n"
  "nd_pending_session (set_sizes z n) = nd_pending_session n" "nd_pending_tx (set_sizes z n) = nd_pending_tx n" "nd_block_id_to_block (set_sizes z n) = nd_block_id_to_block n"
  "fd_store (nd_fork_db (set_sizes z n)) = fd_store (nd_fork_db n)" "fd_head (nd_fork_db (set_sizes z n)) = fd_head (nd_fork_db n)"
  by (auto simp: set_sizes_def split: option.split prod.split)

lemma item_cong: "fd_store d' = fd_store d \<Longrightarrow> item d' = item d"
  by (simp add: item_def fun_eq_iff)

lemma apply_in_session_cases:
  assumes "apply_in_session N i b n = (r, n')"
  obtains (failed) e where "r = Inl e" "node_apply_block N b (start_session n) = Inl e" "nd_chain n' = nd_chain n"
      "nd_undo_stack n' = take (nd_undo_max_size n) (nd_undo_stack n)" "nd_block_id_to_block n' = nd_block_id_to_block n"
    | (applied) ch u f where "r = Inr ()" "node_apply_block N b (start_session n) = Inr (ch, u, f)" "nd_chain n' = ch"
      "nd_undo_stack n' = nd_chain n # take (nd_undo_max_size n) (nd_undo_stack n)"
      "nd_block_id_to_block n' = store_block (ne_hash N) (ne_pack N) i b (nd_block_id_to_block n)"
  using assms by (auto simp: apply_in_session_def Let_def split: sum.splits prod.splits)

lemma apply_in_session_frame:
  assumes "apply_in_session N i b n = (r, n')"
  shows "nd_pending_session n' = nd_pending_session n" "fd_store (nd_fork_db n') = fd_store (nd_fork_db n)"
    "fd_head (nd_fork_db n') = fd_head (nd_fork_db n)" "nd_pending_tx n' = nd_pending_tx n"
  using assms by (auto simp: apply_in_session_def Let_def split: sum.splits prod.splits)

lemma reset_pending_frame [simp]:
  "nd_pending_session (reset_pending_session n) = False" "nd_fork_db (reset_pending_session n) = nd_fork_db n"
  "nd_block_id_to_block (reset_pending_session n) = nd_block_id_to_block n" "nd_pending_tx (reset_pending_session n) = nd_pending_tx n"
  by (simp_all add: reset_pending_session_def)

lemma reset_pending_id [simp]: "\<not> nd_pending_session n \<Longrightarrow> reset_pending_session n = n"
  by (simp add: reset_pending_session_def)

lemma pop_block_frame:
  "pop_block d = Inr d' \<Longrightarrow> fd_store d' = fd_store d \<and> (\<exists>h. fd_head d = Some h \<and> fd_head d' = lock_prev d h \<and> lock_prev d h \<noteq> None)"
  by (auto simp: pop_block_def split: option.splits)

lemma node_pop_block_cases:
  assumes "node_pop_block N n = (r, n')"
  obtains (failed) e where "r = Inl e" "nd_chain n' = nd_chain (reset_pending_session n)" "nd_undo_stack n' = nd_undo_stack (reset_pending_session n)"
    | (popped) s where "r = Inr ()" "nd_undo_stack (reset_pending_session n) = s # nd_undo_stack n'" "nd_chain n' = s"
        "pop_block (nd_fork_db n) = Inr (nd_fork_db n')"
  using assms by (auto simp: node_pop_block_def Let_def split: option.splits sum.splits list.splits)

lemma node_pop_block_frame:
  assumes "node_pop_block N n = (r, n')"
  shows "nd_pending_session n' = False" "fd_store (nd_fork_db n') = fd_store (nd_fork_db n)" "nd_pending_tx n' = nd_pending_tx n"
  using assms by (auto simp: node_pop_block_def Let_def split: option.splits sum.splits list.splits dest: pop_block_frame)

lemma fork_remove_store [simp]: "fd_store (fork_remove i d) = fd_store d"
  by (auto simp: fork_remove_def Let_def split: option.split sum.split dest: pop_block_frame)

lemma remove_items_store [simp]: "fd_store (remove_items N rs d) = fd_store d"
  by (induction rs arbitrary: d) (simp_all add: remove_items_def)

lemma set_head_store [simp]: "fd_store (set_head h d) = fd_store d"
  by (simp add: set_head_def)

lemma hold_sel [simp]:
  "nd_chain (hold rs n) = nd_chain n" "nd_undo_stack (hold rs n) = nd_undo_stack n" "nd_pending_session (hold rs n) = nd_pending_session n"
  "fd_store (nd_fork_db (hold rs n)) = fd_store (nd_fork_db n)" "nd_block_id_to_block (hold rs n) = nd_block_id_to_block n"
  "nd_pending_tx (hold rs n) = nd_pending_tx n"
  by (simp_all add: hold_def)

section \<open>The history of the state\<close>

text \<open>One state is the result of applying a block to another.\<close>

definition applies :: "'memo node_env \<Rightarrow> chain \<Rightarrow> chain \<Rightarrow> bool" where
  "applies N s s' \<longleftrightarrow> (\<exists>b fork_head u f.
     apply_block (ne_safe N) (ne_crypto N) (ne_fees N) (ne_maint N) (ne_checkpoints N) fork_head (ne_skip N) b s = Inr (s', u, f))"

text \<open>The states without pending transactions, newest first.\<close>

definition base_states :: "'memo node \<Rightarrow> chain list" where
  "base_states n = (if nd_pending_session n then nd_undo_stack n else nd_chain n # nd_undo_stack n)"

definition history_ok :: "'memo node_env \<Rightarrow> 'memo node \<Rightarrow> bool" where
  "history_ok N n \<longleftrightarrow> successively (\<lambda>s' s. applies N s s') (base_states n)"

lemma successively_take: "successively P xs \<Longrightarrow> successively P (take k xs)"
  by (metis append_take_drop_id successively_append_iff)

lemma successively_tl: "successively P xs \<Longrightarrow> successively P (tl xs)"
  by (cases xs) (auto simp: successively_Cons)

lemma reset_pending_history: "history_ok N n \<Longrightarrow> history_ok N (reset_pending_session n)"
  by (cases "nd_undo_stack n") (auto simp: history_ok_def base_states_def reset_pending_session_def abandon_session_def)

lemma apply_in_session_history:
  assumes "apply_in_session N i b n = (r, n')" and "history_ok N n" "\<not> nd_pending_session n"
  shows "history_ok N n' \<and> \<not> nd_pending_session n' \<and> nd_pending_tx n' = nd_pending_tx n"
  using assms(1)
proof (cases rule: apply_in_session_cases)
  case (failed e)
  have "take (Suc (nd_undo_max_size n)) (nd_chain n # nd_undo_stack n) = nd_chain n' # nd_undo_stack n'" using failed by simp
  then show ?thesis
    using assms(2,3) apply_in_session_frame [OF assms(1)] successively_take [of _ "nd_chain n # nd_undo_stack n" "Suc (nd_undo_max_size n)"]
    by (simp add: history_ok_def base_states_def)
next
  case (applied ch u f)
  have "applies N (nd_chain n) ch" using applied(2) by (auto simp: applies_def node_apply_block_def)
  then show ?thesis
    using applied assms(2,3) apply_in_session_frame [OF assms(1)] successively_take [of _ "nd_chain n # nd_undo_stack n" "Suc (nd_undo_max_size n)"]
    by (simp add: history_ok_def base_states_def)
qed

lemma node_pop_block_history:
  assumes "node_pop_block N n = (r, n')" and "history_ok N n"
  shows "history_ok N n' \<and> \<not> nd_pending_session n' \<and> nd_pending_tx n' = nd_pending_tx n"
proof -
  have "successively (\<lambda>s' s. applies N s s') (nd_chain (reset_pending_session n) # nd_undo_stack (reset_pending_session n))"
    using reset_pending_history [OF assms(2)] by (simp add: history_ok_def base_states_def)
  with assms(1) show ?thesis
    by (cases rule: node_pop_block_cases) (auto simp: history_ok_def base_states_def node_pop_block_frame [OF assms(1)] successively_Cons)
qed

lemma pop_until_cases:
  assumes "pop_until N target n = (r, n')"
  obtains (stop) "head_block_id n = target" "r = Inr ()" "n' = n"
    | (failed) e where "head_block_id n \<noteq> target" "node_pop_block N n = (Inl e, n')" "r = Inl e"
    | (pop) n1 where "head_block_id n \<noteq> target" "node_pop_block N n = (Inr (), n1)" "pop_until N target n1 = (r, n')"
  using assms by (subst (asm) pop_until.simps) (auto split: if_splits prod.splits sum.splits)

lemma pop_until_history:
  assumes "pop_until N target n = (r, n')" and "history_ok N n" "\<not> nd_pending_session n"
  shows "history_ok N n' \<and> \<not> nd_pending_session n' \<and> nd_pending_tx n' = nd_pending_tx n"
  using assms
proof (induction N target n rule: pop_until.induct)
  case (1 N target n)
  from 1(2) show ?case
  proof (cases rule: pop_until_cases)
    case (pop n1)
    with node_pop_block_history [OF pop(2) 1(3)] 1(1) [OF pop(1) pop(2) [symmetric] refl pop(3)] show ?thesis by simp
  qed (use 1(3,4) node_pop_block_history in auto)
qed

lemma push_branch_history:
  assumes "push_branch N rs n = (r, n')" and "history_ok N n" "\<not> nd_pending_session n"
  shows "history_ok N n' \<and> \<not> nd_pending_session n' \<and> nd_pending_tx n' = nd_pending_tx n"
  using assms
  by (induction N rs n rule: push_branch.induct) (auto split: prod.splits sum.splits dest: apply_in_session_history)

lemma restore_branch_history:
  assumes "restore_branch N i rs n = (r, n')" and "history_ok N n" "\<not> nd_pending_session n"
  shows "history_ok N n' \<and> \<not> nd_pending_session n' \<and> nd_pending_tx n' = nd_pending_tx n"
  using assms
  by (induction N i rs n rule: restore_branch.induct) (auto split: prod.splits sum.splits dest: apply_in_session_history)

lemma history_fork_db [simp]: "history_ok N (n\<lparr>nd_fork_db := d\<rparr>) = history_ok N n"
  by (simp add: history_ok_def base_states_def)

lemma history_hold [simp]: "history_ok N (hold rs n) = history_ok N n"
  by (simp add: history_ok_def base_states_def)

lemma recover_branch_history:
  assumes "recover_branch N i rest second n = (r, n')" and "history_ok N n" "\<not> nd_pending_session n"
  shows "history_ok N n' \<and> \<not> nd_pending_session n' \<and> nd_pending_tx n' = nd_pending_tx n"
  using assms by (auto simp: recover_branch_def Let_def split: prod.splits sum.splits dest!: pop_until_history dest: restore_branch_history)

lemma switch_forks_history:
  assumes "switch_forks N i h n = (r, n')" and "history_ok N n" "\<not> nd_pending_session n"
  shows "history_ok N n' \<and> \<not> nd_pending_session n' \<and> nd_pending_tx n' = nd_pending_tx n"
proof -
  have "history_ok N m' \<and> \<not> nd_pending_session m' \<and> nd_pending_tx m' = nd_pending_tx m"
    if "switch_branches N i first second m = (q, m')" "history_ok N m" "\<not> nd_pending_session m" for first second m q m'
    using that by (auto simp: switch_branches_def split: prod.splits sum.splits
        dest!: pop_until_history push_branch_history recover_branch_history)
  with assms show ?thesis by (fastforce simp: switch_forks_def split: option.splits sum.splits prod.splits)
qed

lemma push_on_head_history:
  assumes "push_on_head N b n = (r, n')" and "history_ok N n" "\<not> nd_pending_session n"
  shows "history_ok N n' \<and> \<not> nd_pending_session n' \<and> nd_pending_tx n' = nd_pending_tx n"
  using assms by (auto simp: push_on_head_def split: prod.splits sum.splits dest!: apply_in_session_history)

lemma push_block_inner_history:
  assumes "push_block_inner N b n = (r, n')" and "history_ok N n" "\<not> nd_pending_session n"
  shows "history_ok N n' \<and> \<not> nd_pending_session n' \<and> nd_pending_tx n' = nd_pending_tx n"
  using assms by (auto simp: push_block_inner_def Let_def split: if_splits sum.splits prod.splits option.splits
      dest!: push_on_head_history switch_forks_history)

text \<open>A pushed transaction trims the history at most; what it starts from are the states without pending transactions.\<close>

lemma base_states_upd [simp]:
  "base_states (n\<lparr>nd_popped_tx := x\<rparr>) = base_states n" "base_states (n\<lparr>nd_pending_tx := x\<rparr>) = base_states n"
  by (simp_all add: base_states_def)

lemma history_upd [simp]:
  "history_ok N (n\<lparr>nd_popped_tx := x\<rparr>) = history_ok N n" "history_ok N (n\<lparr>nd_pending_tx := x\<rparr>) = history_ok N n"
  by (simp_all add: history_ok_def)

lemma open_pending_sel [simp]:
  "nd_chain (open_pending n) = nd_chain n" "nd_undo_max_size (open_pending n) = nd_undo_max_size n" "nd_pending_session (open_pending n)"
  "nd_pending_tx (open_pending n) = nd_pending_tx n"
  by (simp_all add: open_pending_def start_session_def)

lemma push_transaction_cases:
  assumes "push_transaction N trx n = (r, n')"
  obtains (kept) "nd_chain n' = nd_chain n" "nd_pending_tx n' = nd_pending_tx n" "\<exists>e. r = Inl e"
    | (applied) "apply_transaction (ne_safe N) (bc_trx (ne_crypto N)) (ne_fees N) (ne_skip N) trx (nd_chain n) = Inr (nd_chain n')"
        "nd_pending_tx n' = nd_pending_tx n @ [trx]" "r = Inr ()"
    | (merge) "r = Inl Assert_failed" "nd_undo_stack (open_pending n) = [] \<or> nd_undo_max_size n = 0"
  using assms
  by (auto simp: push_transaction_def merge_session_def abandon_session_def ensure_def start_session_def Let_def Suc_le_eq
      split: sum.splits if_splits)

lemma push_transaction_stack:
  assumes "push_transaction N trx n = (r, n')"
  shows "nd_undo_stack n' = take (nd_undo_max_size n) (nd_undo_stack (open_pending n))" "nd_pending_session n'"
    "nd_undo_max_size n' = nd_undo_max_size n"
  using assms by (auto simp: push_transaction_def merge_session_def ensure_def abandon_session_def start_session_def Let_def split: sum.splits if_splits)

lemma push_transaction_bases:
  assumes "push_transaction N trx n = (r, n')"
  shows "\<exists>k. base_states n' = take k (base_states n)"
proof -
  have "\<exists>k. nd_undo_stack (open_pending n) = take k (base_states n)"
    by (auto simp: base_states_def open_pending_def intro: exI [of _ "Suc (nd_undo_max_size n)"] exI [of _ "length (nd_undo_stack n)"])
  with push_transaction_stack [OF assms] show ?thesis by (auto simp: base_states_def)
qed

lemma push_transaction_history: "history_ok N n \<Longrightarrow> history_ok N (snd (push_transaction N trx n))"
proof -
  assume h: "history_ok N n"
  obtain r n' where p: "push_transaction N trx n = (r, n')" by (cases "push_transaction N trx n")
  show ?thesis using push_transaction_bases [OF p] h p by (auto simp: history_ok_def intro: successively_take)
qed

lemma push_again_history: "history_ok N n \<Longrightarrow> history_ok N (fold (push_again N) txs n)"
  by (induction txs arbitrary: n) (simp_all add: push_again_def push_transaction_history)

lemma restore_pending_history: "history_ok N n \<Longrightarrow> history_ok N (restore_pending N txs n)"
  by (simp add: restore_pending_def push_again_history)

lemma clear_pending_history: "history_ok N n \<Longrightarrow> history_ok N (clear_pending n) \<and> \<not> nd_pending_session (clear_pending n)"
  by (simp add: clear_pending_def reset_pending_history)

section \<open>The pending transactions\<close>

text \<open>The pending session is what the pending transactions make of the head block's state.\<close>

definition pending_ok :: "'memo node_env \<Rightarrow> 'memo node \<Rightarrow> bool" where
  "pending_ok N n \<longleftrightarrow>
     (if nd_pending_session n
      then nd_undo_stack n \<noteq> [] \<and>
        fold_result (apply_transaction (ne_safe N) (bc_trx (ne_crypto N)) (ne_fees N) (ne_skip N)) (nd_pending_tx n) (hd (nd_undo_stack n)) = Inr (nd_chain n)
      else nd_pending_tx n = [])"

lemma push_transaction_pending:
  assumes p: "push_transaction N trx n = (r, n')" and ok: "pending_ok N n" and m: "0 < nd_undo_max_size n"
  shows "pending_ok N n'"
proof -
  let ?run = "fold_result (apply_transaction (ne_safe N) (bc_trx (ne_crypto N)) (ne_fees N) (ne_skip N))"
  have o: "nd_undo_stack (open_pending n) \<noteq> []" "?run (nd_pending_tx n) (hd (nd_undo_stack (open_pending n))) = Inr (nd_chain n)"
    using ok by (auto simp: pending_ok_def open_pending_def split: if_splits)
  note S = push_transaction_stack [OF p]
  have st: "nd_undo_stack n' \<noteq> []" "hd (nd_undo_stack n') = hd (nd_undo_stack (open_pending n))"
    using o(1) m S(1) by (auto simp: hd_take)
  from p show ?thesis
  proof (cases rule: push_transaction_cases)
    case applied
    then show ?thesis using o st S(2) by (simp add: pending_ok_def fold_result_append fold_result_single)
  qed (use o st S(2) m in \<open>auto simp: pending_ok_def\<close>)
qed

section \<open>A switch that fails\<close>

text \<open>The number of the fork database's head decides the new size of that database, and nothing else.\<close>

lemma apply_block_start_fork_head:
  assumes "apply_block_start S E F checkpoint fork_head skip b ch = Inr (ch1, db2, u, f)"
  shows "\<exists>f'. apply_block_start S E F checkpoint fork_head' skip b ch = Inr (ch1, db2, u, f')"
  using assms by (auto simp: apply_block_start_def update_global_dynamic_data_def Let_def result_simps)

lemma apply_block_fork_head:
  assumes "apply_block S E F maint checkpoints fork_head skip b ch = Inr (ch', u, f)"
  shows "\<exists>f'. apply_block S E F maint checkpoints fork_head' skip b ch = Inr (ch', u, f')"
proof -
  obtain skip' ch1 db2 v g where c: "checkpoint_skip checkpoints (unat (block_num (bc_hash E) b)) (block_id (bc_hash E) b) skip = Inr skip'"
    and start: "apply_block_start S E F (last_checkpoint checkpoints) fork_head skip' b ch = Inr (ch1, db2, v, g)"
    using assms by (auto simp: apply_block_def apply_block_inner_def Let_def result_simps)
  obtain g' where "apply_block_start S E F (last_checkpoint checkpoints) fork_head' skip' b ch = Inr (ch1, db2, v, g')"
    using apply_block_start_fork_head [OF start] by blast
  with assms c start show ?thesis by (cases "maintenance_needed b (ch_db ch)") (auto simp: apply_block_def apply_block_inner_def Let_def result_simps)
qed

definition keeps_head_id :: "(applied_block \<Rightarrow> database \<Rightarrow> database result) \<Rightarrow> bool" where
  "keeps_head_id maint \<longleftrightarrow> (\<forall>ab db db'. maint ab db = Inr db' \<longrightarrow> dg_head_block_id (db_dynamic db') = dg_head_block_id (db_dynamic db))"

lemma update_signing_witness_head_id:
  assumes "update_signing_witness S w b db = Inr db'"
  shows "dg_head_block_id (db_dynamic db') = dg_head_block_id (db_dynamic db)"
  using assms by (auto simp: update_signing_witness_def modify_witness_def Let_def result_simps split: if_splits dest!: deposit_witness_pay_fields)

lemma block_end_head_id:
  "update_last_irreversible_block db = Inr db' \<Longrightarrow> dg_head_block_id (db_dynamic db') = dg_head_block_id (db_dynamic db)"
  "update_witness_schedule (update_maintenance_flag m db) = Inr db' \<Longrightarrow> dg_head_block_id (db_dynamic db') = dg_head_block_id (db_dynamic db)"
  by (auto simp: update_last_irreversible_block_def update_witness_schedule_def update_maintenance_flag_def Let_def result_simps split: if_splits)

lemma apply_block_start_head_id:
  assumes "apply_block_start S E F checkpoint fork_head skip b ch = Inr (ch1, db2, u, f)"
  shows "dg_head_block_id (db_dynamic db2) = block_id (bc_hash E) b"
  using assms by (auto simp: apply_block_start_def update_global_dynamic_data_def update_dynamic_def applied_of_def Let_def result_simps)

lemma apply_block_head_id:
  assumes "apply_block S E F maint checkpoints fork_head skip b ch = Inr (ch', u, f)" and m: "keeps_head_id maint"
  shows "dg_head_block_id (db_dynamic (ch_db ch')) = block_id (bc_hash E) b"
  using assms(1)
  by (auto simp: apply_block_def apply_block_inner_def create_block_summary_def Let_def result_simps split: if_splits
      dest!: update_signing_witness_head_id block_end_head_id apply_block_start_head_id dest: m [unfolded keeps_head_id_def, rule_format])

text \<open>The states a branch of blocks leads through, starting from \<open>s\<close>.\<close>

fun branch_states :: "'memo node_env \<Rightarrow> 'memo signed_transaction signed_block list \<Rightarrow> chain \<Rightarrow> chain list \<Rightarrow> bool" where
  "branch_states N [] s ss \<longleftrightarrow> ss = []"
| "branch_states N (b # bs) s [] \<longleftrightarrow> False"
| "branch_states N (b # bs) s (s1 # ss) \<longleftrightarrow>
     (\<exists>fork_head u f. apply_block (ne_safe N) (ne_crypto N) (ne_fees N) (ne_maint N) (ne_checkpoints N) fork_head (ne_skip N) b s = Inr (s1, u, f)) \<and>
     branch_states N bs s1 ss"

lemma branch_states_heads:
  assumes "branch_states N bs s ss" and "keeps_head_id (ne_maint N)" and "t \<in> set ss"
  shows "dg_head_block_id (db_dynamic (ch_db t)) \<in> block_id (ne_hash N) ` set bs"
  using assms by (induction N bs s ss rule: branch_states.induct) (auto simp: apply_block_head_id)

text \<open>Popping leads down the stack to the first state with the wanted head.\<close>

lemma pop_until_reaches:
  assumes "pop_until N target n = (Inr (), n')" and "\<not> nd_pending_session n" and "nd_chain n # nd_undo_stack n = ts @ s # below"
    and "\<forall>t \<in> set ts. dg_head_block_id (db_dynamic (ch_db t)) \<noteq> target" and "dg_head_block_id (db_dynamic (ch_db s)) = target"
  shows "nd_chain n' = s \<and> nd_undo_stack n' = below \<and> \<not> nd_pending_session n' \<and> fd_store (nd_fork_db n') = fd_store (nd_fork_db n)"
  using assms
proof (induction ts arbitrary: n)
  case Nil
  then show ?case by (cases rule: pop_until_cases) auto
next
  case (Cons t ts)
  have ne: "head_block_id n \<noteq> target" using Cons.prems(3,4) by auto
  from Cons.prems(1) show ?case
  proof (cases rule: pop_until_cases)
    case (pop n1)
    from pop(2) have n1: "nd_chain n1 # nd_undo_stack n1 = nd_undo_stack n"
      by (cases rule: node_pop_block_cases) (use Cons.prems(2) in auto)
    have st: "nd_undo_stack n = ts @ s # below" using Cons.prems(3) by simp
    have stack: "nd_chain n1 # nd_undo_stack n1 = ts @ s # below" using n1 unfolding st .
    note f = node_pop_block_frame [OF pop(2)]
    have np: "\<not> nd_pending_session n1" using f(1) by simp
    have ids: "\<forall>t \<in> set ts. dg_head_block_id (db_dynamic (ch_db t)) \<noteq> target" using Cons.prems(4) by simp
    from Cons.IH [OF pop(3) np stack ids Cons.prems(5)] f(2) show ?thesis by simp
  qed (use ne in auto)
qed

text \<open>The new states that part of a branch adds on top of the stack.\<close>

lemma take_append_take: "take k (xs @ take j ys) = take (min k (length xs + j)) (xs @ ys)"
  by (cases "k \<le> length xs + j") (auto simp: min_def)

lemma push_branch_states:
  assumes "push_branch N rs n = (r, n')" and "\<not> nd_pending_session n"
  shows "\<exists>ss bs k. branch_states N bs (nd_chain n) ss \<and> set bs \<subseteq> (\<lambda>r. fi_data (item (nd_fork_db n) r)) ` set rs \<and>
    nd_chain n' # nd_undo_stack n' = take k (rev ss @ nd_chain n # nd_undo_stack n) \<and> \<not> nd_pending_session n' \<and>
    fd_store (nd_fork_db n') = fd_store (nd_fork_db n)"
  using assms
proof (induction rs arbitrary: n)
  case Nil
  then have "branch_states N [] (nd_chain n) []"
    "nd_chain n' # nd_undo_stack n' = take (Suc (length (nd_undo_stack n))) (rev [] @ nd_chain n # nd_undo_stack n)" by simp_all
  with Nil show ?case by (intro exI [of _ "[]"] exI [of _ "Suc (length (nd_undo_stack n))"]) simp
next
  case (Cons x rs)
  let ?b = "fi_data (item (nd_fork_db n) x)"
  obtain q n1 where a: "apply_in_session N (fi_id (item (nd_fork_db n) x)) ?b n = (q, n1)" by fastforce
  note f = apply_in_session_frame [OF a]
  from a show ?case
  proof (cases rule: apply_in_session_cases)
    case (failed e)
    then have "n' = n1" using Cons.prems(1) a by simp
    moreover have "nd_chain n1 # nd_undo_stack n1 = take (Suc (nd_undo_max_size n)) (rev [] @ nd_chain n # nd_undo_stack n)" using failed by simp
    ultimately show ?thesis using f Cons.prems(2) by (intro exI [of _ "[]"] exI [of _ "Suc (nd_undo_max_size n)"]) simp
  next
    case (applied ch u g)
    have rest: "push_branch N rs n1 = (r, n')" using Cons.prems(1) a applied(1) by simp
    obtain ss bs k where IH: "branch_states N bs (nd_chain n1) ss" "set bs \<subseteq> (\<lambda>r. fi_data (item (nd_fork_db n1) r)) ` set rs"
      "nd_chain n' # nd_undo_stack n' = take k (rev ss @ nd_chain n1 # nd_undo_stack n1)" "\<not> nd_pending_session n'"
      "fd_store (nd_fork_db n') = fd_store (nd_fork_db n1)"
      using Cons.IH [OF rest] f(1) Cons.prems(2) by auto
    have top: "nd_chain n1 # nd_undo_stack n1 = take (nd_undo_max_size n + 2) (ch # nd_chain n # nd_undo_stack n)" using applied by simp
    have "branch_states N (?b # bs) (nd_chain n) (ch # ss)" using IH(1) applied by (auto simp: node_apply_block_def)
    moreover have "set (?b # bs) \<subseteq> (\<lambda>r. fi_data (item (nd_fork_db n) r)) ` set (x # rs)" using IH(2) item_cong [OF f(2)] by auto
    moreover have "\<exists>k. nd_chain n' # nd_undo_stack n' = take k (rev (ch # ss) @ nd_chain n # nd_undo_stack n)"
      unfolding IH(3) top take_append_take by auto
    ultimately show ?thesis using IH(4,5) f(2) by metis
  qed
qed

lemma pop_until_misses:
  assumes "pop_until N target n = (r, n')" and "\<not> nd_pending_session n"
    and "\<forall>t \<in> set (nd_chain n # nd_undo_stack n). dg_head_block_id (db_dynamic (ch_db t)) \<noteq> target"
  shows "r \<noteq> Inr ()"
  using assms
proof (induction N target n rule: pop_until.induct)
  case (1 N target n)
  from 1(2) show ?case
  proof (cases rule: pop_until_cases)
    case (pop n1)
    have "nd_chain n1 # nd_undo_stack n1 = nd_undo_stack n"
      using pop(2) by (cases rule: node_pop_block_cases) (use 1(3) in auto)
    then have "\<forall>t \<in> set (nd_chain n1 # nd_undo_stack n1). dg_head_block_id (db_dynamic (ch_db t)) \<noteq> target" using 1(4) by simp
    with 1(1) [OF pop(1) pop(2) [symmetric] refl pop(3)] node_pop_block_frame(1) [OF pop(2)] show ?thesis by simp
  qed (use 1(4) in auto)
qed

lemma pop_until_trimmed:
  assumes "pop_until N target n = (Inr (), n')" and "\<not> nd_pending_session n" and "nd_chain n # nd_undo_stack n = take k (ts @ s # below)"
    and "\<forall>t \<in> set ts. dg_head_block_id (db_dynamic (ch_db t)) \<noteq> target" and "dg_head_block_id (db_dynamic (ch_db s)) = target"
  shows "nd_chain n' = s \<and> \<not> nd_pending_session n' \<and> fd_store (nd_fork_db n') = fd_store (nd_fork_db n)"
proof (cases "k \<le> length ts")
  case True
  then have "set (nd_chain n # nd_undo_stack n) \<subseteq> set ts" using assms(3) by (simp add: set_take_subset)
  with pop_until_misses [OF assms(1,2)] assms(4) show ?thesis by blast
next
  case False
  then obtain j where "k - length ts = Suc j" by (cases "k - length ts") auto
  then have "nd_chain n # nd_undo_stack n = ts @ s # take j below" using assms(3) False by simp
  from pop_until_reaches [OF assms(1,2) this assms(4,5)] show ?thesis by blast
qed

lemma restore_branch_states:
  assumes "restore_branch N i rs n = (Inr (), n')" and "branch_states N (map (\<lambda>r. fi_data (item (nd_fork_db n) r)) rs) (nd_chain n) ss"
  shows "nd_chain n' = last (nd_chain n # ss)"
  using assms
proof (induction rs arbitrary: n ss)
  case (Cons x rs)
  let ?b = "fi_data (item (nd_fork_db n) x)"
  obtain q n1 where a: "apply_in_session N i ?b n = (q, n1)" by fastforce
  obtain s1 ss1 fh u f where ss: "ss = s1 # ss1"
    "apply_block (ne_safe N) (ne_crypto N) (ne_fees N) (ne_maint N) (ne_checkpoints N) fh (ne_skip N) ?b (nd_chain n) = Inr (s1, u, f)"
    "branch_states N (map (\<lambda>r. fi_data (item (nd_fork_db n) r)) rs) s1 ss1"
    using Cons.prems(2) by (cases ss) auto
  from a show ?case
  proof (cases rule: apply_in_session_cases)
    case (applied ch v g)
    have "ch = s1" using applied(2) apply_block_fork_head [OF ss(2), of "fork_head_num (start_session n)"] by (auto simp: node_apply_block_def)
    then have "branch_states N (map (\<lambda>r. fi_data (item (nd_fork_db n1) r)) rs) (nd_chain n1) ss1"
      using ss(3) applied(3) item_cong [OF apply_in_session_frame(2) [OF a]] by simp
    with Cons.IH [of n1 ss1] Cons.prems(1) a applied \<open>ch = s1\<close> ss(1) show ?thesis by simp
  qed (use Cons.prems(1) a in simp)
qed simp

lemma recover_branch_restores:
  assumes run: "recover_branch N i rest second n = (Inr (), n')" and np: "\<not> nd_pending_session n"
    and stack: "nd_chain n # nd_undo_stack n = take k (ts @ s0 # below)"
    and ids: "\<forall>t \<in> set ts. dg_head_block_id (db_dynamic (ch_db t)) \<noteq> previous_id (item (nd_fork_db n) (last second))"
    and s0: "dg_head_block_id (db_dynamic (ch_db s0)) = previous_id (item (nd_fork_db n) (last second))"
    and old: "branch_states N (map (\<lambda>r. fi_data (item (nd_fork_db n) r)) (rev second)) s0 ss"
  shows "nd_chain n' = last (s0 # ss)"
proof -
  let ?n1 = "n\<lparr>nd_fork_db := set_head (Some (hd second)) (remove_items N rest (nd_fork_db n))\<rparr>"
  have item: "item (nd_fork_db ?n1) = item (nd_fork_db n)" by (rule item_cong) simp
  obtain n2 where pop: "pop_until N (previous_id (item (nd_fork_db n) (last second))) ?n1 = (Inr (), n2)"
    and res: "restore_branch N i (rev second) n2 = (Inr (), n')"
    using run item by (auto simp: recover_branch_def Let_def split: prod.splits sum.splits)
  have "nd_chain n2 = s0 \<and> \<not> nd_pending_session n2 \<and> fd_store (nd_fork_db n2) = fd_store (nd_fork_db ?n1)"
    by (rule pop_until_trimmed [OF pop _ _ ids s0]) (use np stack in simp_all)
  then have "nd_chain n2 = s0" "item (nd_fork_db n2) = item (nd_fork_db n)" using item_cong [of "nd_fork_db n2" "nd_fork_db ?n1"] item by auto
  with restore_branch_states [OF res] old show ?thesis by simp
qed

section \<open>Properties of pushing\<close>

lemma push_again_pending:
  assumes "pending_ok N n" and "0 < nd_undo_max_size n"
  shows "pending_ok N (fold (push_again N) txs n) \<and> nd_undo_max_size (fold (push_again N) txs n) = nd_undo_max_size n"
  using assms
proof (induction txs arbitrary: n)
  case (Cons trx txs)
  obtain r n' where p: "push_transaction N trx n = (r, n')" by (cases "push_transaction N trx n")
  then have "pending_ok N (push_again N trx n) \<and> nd_undo_max_size (push_again N trx n) = nd_undo_max_size n"
    using push_transaction_pending [OF p] push_transaction_stack(3) [OF p] Cons.prems by (simp add: push_again_def)
  with Cons.IH [of "push_again N trx n"] Cons.prems show ?case by simp
qed simp

lemma push_again_size: "nd_undo_max_size (fold (push_again N) txs n) = nd_undo_max_size n"
proof (induction txs arbitrary: n)
  case (Cons trx txs)
  obtain r n' where p: "push_transaction N trx n = (r, n')" by (cases "push_transaction N trx n")
  have "nd_undo_max_size (push_again N trx n) = nd_undo_max_size n"
    using p push_transaction_stack(3) [OF p] by (simp add: push_again_def)
  with Cons.IH show ?case by simp
qed simp


text \<open>C5.
  A switch to another branch that meets an invalid block is taken back: when the way back goes through, the
  exception of the invalid block is reported and the objects of the chain (\<open>nd_chain\<close>) are exactly those from before
  the switch. Nothing is claimed of the block file and of the fork database, which are not restored: the
  restored blocks are stored again under the id of the block that was pushed. The conditions are that no session for
  pending transactions is open, that the old branch is the blocks that led from the state of the common ancestor to
  the state before the switch, that the id of the common ancestor differs from the ids of the blocks on both
  branches, and that the maintenance leaves the head id alone.
\<close>

theorem failed_switch_restores:
  assumes np: "\<not> nd_pending_session n" and maint: "keeps_head_id (ne_maint N)"
    and target: "target = previous_id (item (nd_fork_db n) (last second))" and s0: "dg_head_block_id (db_dynamic (ch_db s0)) = target"
    and data: "data = (\<lambda>r. fi_data (item (nd_fork_db n) r))"
    and ids: "\<forall>r \<in> set first \<union> set second. block_id (ne_hash N) (data r) \<noteq> target"
    and old: "branch_states N (map data (rev second)) s0 ss" and stack: "nd_chain n # nd_undo_stack n = rev ss @ s0 # below"
    and pop: "pop_until N target n = (Inr (), n1)" and push: "push_branch N (rev first) n1 = (Inl (e, rest), n2)"
    and recover: "recover_branch N new_id rest second n2 = (Inr (), n3)"
  shows "switch_branches N new_id first second n = (Inl e, n3) \<and> nd_chain n3 = nd_chain n"
proof -
  have old_ids: "\<forall>t \<in> set (rev ss). dg_head_block_id (db_dynamic (ch_db t)) \<noteq> target"
    using branch_states_heads [OF old maint] ids by fastforce
  have n1: "nd_chain n1 = s0" "nd_undo_stack n1 = below" "\<not> nd_pending_session n1" "item (nd_fork_db n1) = item (nd_fork_db n)"
    using pop_until_reaches [OF pop np stack old_ids s0] item_cong by auto
  obtain ts bs k where new: "branch_states N bs s0 ts" "set bs \<subseteq> data ` set (rev first)"
    "nd_chain n2 # nd_undo_stack n2 = take k (rev ts @ s0 # below)" "\<not> nd_pending_session n2" "fd_store (nd_fork_db n2) = fd_store (nd_fork_db n1)"
    using push_branch_states [OF push n1(3)] n1 data by auto
  have item2: "item (nd_fork_db n2) = item (nd_fork_db n)" using item_cong [OF new(5)] n1(4) by simp
  have "\<forall>t \<in> set (rev ts). dg_head_block_id (db_dynamic (ch_db t)) \<noteq> previous_id (item (nd_fork_db n2) (last second))"
    using branch_states_heads [OF new(1) maint] new(2) ids target item2 by fastforce
  from recover_branch_restores [OF recover new(4,3) this] have "nd_chain n3 = last (s0 # ss)"
    using s0 target item2 old data by simp
  moreover have "nd_chain n = last (s0 # ss)" using stack by (cases ss rule: rev_cases) auto
  ultimately show ?thesis using pop push recover target by (simp add: switch_branches_def)
qed

text \<open>C6.
  A block that extends the head is accepted exactly when it applies. Then the state is the result, the state before
  it is on top of the undo stack and the block is in the block file. Otherwise its exception is reported, the objects and the
  block file are as before, and the fork database has forgotten the block.
\<close>

theorem push_block_on_head:
  assumes fork: "push_block (ne_hash N) b (nd_fork_db n) = Inr (Some h, f)" and ext: "previous_id (item f h) = head_block_id n"
    and "\<not> ne_skip_fork_db N" and res: "push_block_inner N b n = (r, n')"
  shows "case node_apply_block N b (n\<lparr>nd_fork_db := f\<rparr>) of
      Inl e \<Rightarrow> r = Inl e \<and> nd_chain n' = nd_chain n \<and> nd_block_id_to_block n' = nd_block_id_to_block n \<and>
        find_id (nd_fork_db n') (fd_index (nd_fork_db n')) (block_id (ne_hash N) b) = None
    | Inr (ch, _, _) \<Rightarrow> r = Inr False \<and> nd_chain n' = ch \<and> hd (nd_undo_stack n') = nd_chain n \<and>
        nd_block_id_to_block n' = store_block (ne_hash N) (ne_pack N) (block_id (ne_hash N) b) b (nd_block_id_to_block n)"
proof -
  let ?n = "n\<lparr>nd_fork_db := f\<rparr>" and ?i = "block_id (ne_hash N) b"
  have r: "push_on_head N b ?n = (r, n')" using res fork ext assms(3) by (simp add: push_block_inner_def Let_def)
  obtain q n1 where a: "apply_in_session N ?i b ?n = (q, n1)" by fastforce
  have same: "node_apply_block N b (start_session ?n) = node_apply_block N b ?n" by (simp add: node_apply_block_def fork_head_num_def)
  have gone: "find_id (fork_remove ?i d) (fd_index (fork_remove ?i d)) ?i = None" for d :: "'a signed_transaction fork_database"
  proof -
    have "fd_index (fork_remove ?i d) = filter (\<lambda>r. fi_id (item d r) \<noteq> ?i) (fd_index d)"
      by (auto simp: fork_remove_def pop_block_def Let_def split: option.splits)
    then show ?thesis using item_cong [OF fork_remove_store, of ?i d] by (simp add: find_id_None)
  qed
  from a show ?thesis
  proof (cases rule: apply_in_session_cases)
    case (failed e)
    then show ?thesis using r a gone by (auto simp: push_on_head_def same)
  next
    case (applied ch u g)
    then show ?thesis using r a by (simp add: push_on_head_def same)
  qed
qed

definition sample_env :: "unit node_env" where
  "sample_env = \<lparr>ne_safe = int64_ops, ne_crypto = sample_block_crypto, ne_fees = sample_fees, ne_maint = (\<lambda>b db. Inr db),
     ne_pack = (\<lambda>b. [1]), ne_unpack = (\<lambda>bs. None), ne_checkpoints = [], ne_skip = skip_nothing\<lparr>skip_authority_check := True\<rparr>,
     ne_skip_fork_db = False\<rparr>"

definition sample_node :: "unit node" where
  "sample_node = \<lparr>nd_chain = block_chain, nd_undo_stack = [], nd_undo_max_size = 10, nd_pending_session = False, nd_pending_tx = [],
     nd_popped_tx = [], nd_fork_db = new_fork_database, nd_block_id_to_block = \<lparr>bd_block_num_to_pos = [], bd_blocks = []\<rparr>\<rparr>"

lemma next_block_applies:
  "\<exists>ch' u. \<forall>fork_head. \<exists>f. apply_block int64_ops sample_block_crypto sample_fees (\<lambda>b db. Inr db) [] fork_head
    (skip_nothing\<lparr>skip_authority_check := True\<rparr>) next_block block_chain = Inr (ch', u, f)"
  using next_block_runs apply_block_fork_head by metis

lemma next_block_node:
  obtains ch u where "\<And>n. nd_chain n = block_chain \<Longrightarrow> \<exists>f. node_apply_block sample_env next_block n = Inr (ch, u, f)"
  using next_block_applies by (auto simp: node_apply_block_def sample_env_def)


theorem push_block_on_head_witness:
  "\<exists>n'. push_block_inner sample_env next_block sample_node = (Inr False, n') \<and> hd (nd_undo_stack n') = block_chain \<and>
    nd_block_id_to_block n' = store_block (ne_hash sample_env) (ne_pack sample_env) (block_id (ne_hash sample_env) next_block) next_block
      (nd_block_id_to_block sample_node)"
proof -
  let ?f = "insert_item (new_fork_database\<lparr>fd_store := [new_fork_item (ne_hash sample_env) next_block]\<rparr>) 0"
  have f: "push_block (ne_hash sample_env) next_block (nd_fork_db sample_node) = Inr (Some 0, ?f)"
    by (simp add: push_block_def push_item_def in_range_def link_item_def sample_node_def new_fork_database_def insert_item_def Let_def)
  have e: "previous_id (item ?f 0) = head_block_id sample_node"
    by (simp add: insert_item_def new_fork_database_def Let_def previous_id_def item_def new_fork_item_def next_block_def sample_node_def block_chain_def)
  obtain ch u g where a: "node_apply_block sample_env next_block (sample_node\<lparr>nd_fork_db := ?f\<rparr>) = Inr (ch, u, g)"
    using next_block_node by (metis node.select_convs(1) node.simps(15) node.surjective node.update_convs(7) sample_node_def)
  have k: "\<not> ne_skip_fork_db sample_env" by (simp add: sample_env_def)
  obtain r n' where p: "push_block_inner sample_env next_block sample_node = (r, n')" by fastforce
  have "nd_chain sample_node = block_chain" by (simp add: sample_node_def)
  with push_block_on_head [OF f e k p] a p show ?thesis by simp
qed

text \<open>A branch of one block that is left for a branch whose block has the wrong Merkle root.\<close>

definition bad_block :: "unit signed_transaction signed_block" where
  "bad_block = next_block\<lparr>bh_transaction_merkle_root := 2\<rparr>"

definition switch_fork_db :: "unit signed_transaction fork_database" where
  "switch_fork_db =
     (let F = ne_hash sample_env; parent = next_block\<lparr>bh_previous := [99, 0, 0, 0, 0]\<rparr> in
      new_fork_database\<lparr>fd_store := [(new_fork_item F parent)\<lparr>fi_id := [100, 0, 0, 0, 0]\<rparr>, (new_fork_item F next_block)\<lparr>fi_prev := Some 0\<rparr>,
          (new_fork_item F bad_block)\<lparr>fi_prev := Some 0\<rparr>],
        fd_index := [0, 1, 2], fd_head := Some 2\<rparr>)"

definition switch_node :: "chain \<Rightarrow> unit node" where
  "switch_node ch = sample_node\<lparr>nd_chain := ch, nd_undo_stack := [block_chain], nd_fork_db := switch_fork_db\<rparr>"

lemma bad_block_refused:
  "nd_chain n = block_chain \<Longrightarrow> node_apply_block sample_env bad_block n = Inl Assert_failed"
  "nd_chain n = block_chain \<Longrightarrow> new_sizes sample_env bad_block n = None"
proof -
  have "\<not> (skip_merkle_check (ne_skip sample_env) \<or> bh_transaction_merkle_root bad_block =
      calculate_merkle_root (bc_pair_hash sample_block_crypto) (bc_checksum sample_block_crypto) (bc_merkle_digest sample_block_crypto) bad_block)"
    by code_simp
  then show "nd_chain n = block_chain \<Longrightarrow> node_apply_block sample_env bad_block n = Inl Assert_failed"
    "nd_chain n = block_chain \<Longrightarrow> new_sizes sample_env bad_block n = None"
    by (simp_all add: node_apply_block_def new_sizes_def apply_block_def apply_block_inner_def apply_block_start_def checkpoint_skip_def sample_env_def Let_def)
qed

lemma switch_items:
  "item switch_fork_db 1 = (new_fork_item (ne_hash sample_env) next_block)\<lparr>fi_prev := Some 0\<rparr>"
  "item switch_fork_db (Suc 0) = (new_fork_item (ne_hash sample_env) next_block)\<lparr>fi_prev := Some 0\<rparr>"
  "item switch_fork_db 2 = (new_fork_item (ne_hash sample_env) bad_block)\<lparr>fi_prev := Some 0\<rparr>"
  by (simp_all add: switch_fork_db_def item_def Let_def)

lemma switch_ids:
  "block_id (ne_hash sample_env) next_block = [101, 2, 3, 4, 5]" "block_id (ne_hash sample_env) bad_block = [101, 2, 3, 4, 5]"
  "bh_previous next_block = [100, 0, 0, 0, 0]" "dg_head_block_id (db_dynamic (ch_db block_chain)) = [100, 0, 0, 0, 0]"
  by code_simp+

theorem failed_switch_restores_witness:
  "\<exists>ch n3. switch_branches sample_env (block_id (ne_hash sample_env) bad_block) [2] [1] (switch_node ch) = (Inl Assert_failed, n3) \<and>
    nd_chain n3 = ch \<and> ch \<noteq> block_chain"
proof -
  let ?N = sample_env and ?t = "[100, 0, 0, 0, 0] :: u32 list"
  obtain ch u where runs: "\<And>n. nd_chain n = block_chain \<Longrightarrow> \<exists>f. node_apply_block ?N next_block n = Inr (ch, u, f)"
    using next_block_node by blast
  obtain fh f where ap: "apply_block (ne_safe ?N) (ne_crypto ?N) (ne_fees ?N) (ne_maint ?N) (ne_checkpoints ?N) fh (ne_skip ?N) next_block block_chain = Inr (ch, u, f)"
    using runs [of sample_node] by (auto simp: node_apply_block_def sample_node_def)
  have m: "keeps_head_id (ne_maint ?N)" by (simp add: keeps_head_id_def sample_env_def)
  have head: "dg_head_block_id (db_dynamic (ch_db ch)) = [101, 2, 3, 4, 5]" using apply_block_head_id [OF ap m] by (simp add: switch_ids)
  let ?n = "switch_node ch"
  define n1 where "n1 = ?n\<lparr>nd_fork_db := switch_fork_db\<lparr>fd_head := Some 0\<rparr>, nd_chain := block_chain, nd_undo_stack := [], nd_popped_tx := [lock_trx]\<rparr>"
  have "fetch_block_by_id ?N (head_block_id ?n) ?n = Some next_block"
    by (simp add: fetch_block_by_id_def fetch_block_def find_id_def switch_node_def head switch_fork_db_def item_def Let_def new_fork_item_def switch_ids)
  moreover have "pop_block switch_fork_db = Inr (switch_fork_db\<lparr>fd_head := Some 0\<rparr>)"
    by (simp add: pop_block_def lock_prev_def alive_def switch_fork_db_def item_def Let_def new_fork_item_def)
  ultimately have "node_pop_block ?N ?n = (Inr (), n1)"
    by (simp add: node_pop_block_def n1_def switch_node_def sample_node_def next_block_facts(3))
  then have pop: "pop_until ?N ?t ?n = (Inr (), n1)"
    by (subst pop_until.simps) (simp add: switch_node_def head, simp add: pop_until.simps n1_def switch_ids)
  have i1: "item (nd_fork_db n1) = item switch_fork_db" by (simp add: n1_def)
  let ?n2 = "n1\<lparr>nd_undo_stack := []\<rparr>"
  have push: "push_branch ?N (rev [2]) n1 = (Inl (Assert_failed, [2]), ?n2)"
    using bad_block_refused [of "start_session n1"]
    by (simp add: i1 switch_items new_fork_item_def apply_in_session_def Let_def) (simp add: n1_def start_session_def set_sizes_def abandon_session_def)
  obtain n3 where rec: "recover_branch ?N (block_id (ne_hash ?N) bad_block) [2] [1] ?n2 = (Inr (), n3)"
  proof -
    let ?m = "?n2\<lparr>nd_fork_db := set_head (Some 1) (remove_items ?N [2] (nd_fork_db ?n2))\<rparr>"
    have im: "item (nd_fork_db ?m) = item switch_fork_db" using item_cong [of "nd_fork_db ?m" "nd_fork_db n1"] i1 by simp
    obtain g where "node_apply_block ?N next_block (start_session ?m) = Inr (ch, u, g)" using runs [of "start_session ?m"] by (auto simp: n1_def)
    then have "\<exists>n3. restore_branch ?N (block_id (ne_hash ?N) bad_block) [1] ?m = (Inr (), n3)"
      using im by (simp add: switch_items new_fork_item_def apply_in_session_def Let_def)
    moreover have "previous_id (item (nd_fork_db ?m) 1) = head_block_id ?m"
      using im by (simp add: switch_items previous_id_def new_fork_item_def switch_ids) (simp add: n1_def switch_ids)
    then have "pop_until ?N (previous_id (item (nd_fork_db ?m) 1)) ?m = (Inr (), ?m)" by (subst pop_until.simps) simp
    ultimately show ?thesis using that by (auto simp: recover_branch_def Let_def)
  qed
  have "switch_branches ?N (block_id (ne_hash ?N) bad_block) [2] [1] ?n = (Inl Assert_failed, n3) \<and> nd_chain n3 = nd_chain ?n"
  proof (rule failed_switch_restores [where target = ?t and ss = "[ch]" and below = "[]", OF _ m _ _ refl _ _ _ pop push rec])
    show "\<not> nd_pending_session ?n" by (simp add: switch_node_def sample_node_def)
    show "?t = previous_id (item (nd_fork_db ?n) (last [1]))"
      by (simp add: switch_node_def switch_items previous_id_def new_fork_item_def switch_ids)
    show "dg_head_block_id (db_dynamic (ch_db block_chain)) = ?t" by (rule switch_ids)
    show "\<forall>r \<in> set [2] \<union> set [1]. block_id (ne_hash ?N) (fi_data (item (nd_fork_db ?n) r)) \<noteq> ?t"
      using switch_items switch_ids by (simp add: switch_node_def new_fork_item_def)
    show "branch_states ?N (map (\<lambda>r. fi_data (item (nd_fork_db ?n) r)) (rev [1])) block_chain [ch]"
      using ap switch_items by (auto simp: switch_node_def new_fork_item_def)
    show "nd_chain ?n # nd_undo_stack ?n = rev [ch] @ block_chain # []" by (simp add: switch_node_def)
  qed
  moreover have "ch \<noteq> block_chain" using head switch_ids(4) by auto
  ultimately show ?thesis by (auto simp: switch_node_def)
qed

section \<open>The head of the fork database\<close>

text \<open>
  During a switch the head of the fork database is the new branch, but every block popped from the old branch
  moves that head one block down.
\<close>

lemma pop_until_fork_head:
  assumes "pop_until N target n = (Inr (), n')" and "fork_wf F (nd_fork_db n)" and "fd_head (nd_fork_db n) = Some h"
  shows "\<exists>p. fd_head (nd_fork_db n') = Some p \<and> p \<le> h \<and> (head_block_id n \<noteq> target \<longrightarrow> p < h)"
  using assms
proof (induction N target n arbitrary: h rule: pop_until.induct)
  case (1 N target n)
  from 1(2) show ?case
  proof (cases rule: pop_until_cases)
    case (pop n1)
    have p: "pop_block (nd_fork_db n) = Inr (nd_fork_db n1)" using pop(2) by (cases rule: node_pop_block_cases) auto
    obtain q where q: "fd_head (nd_fork_db n1) = Some q" "lock_prev (nd_fork_db n) h = Some q"
      using pop_block_frame [OF p] 1(4) by auto
    have "h < length (fd_store (nd_fork_db n))" using 1(3,4) by (auto simp: fork_wf_def alive_def)
    then have "q < h" using 1(3) q(2) by (auto simp: fork_wf_def item_ok_def lock_prev_def split: option.splits if_splits)
    moreover have "fork_wf F (nd_fork_db n1)" using fork_wf_pop [OF 1(3) p] .
    ultimately show ?thesis using 1(1) [OF pop(1) pop(2) [symmetric] refl pop(3) _ q(1)] by fastforce
  qed (use 1(4) in auto)
qed

lemma push_branch_fork_head: "push_branch N rs n = (r, n') \<Longrightarrow> fd_head (nd_fork_db n') = fd_head (nd_fork_db n)"
  by (induction N rs n rule: push_branch.induct) (auto split: prod.splits sum.splits dest: apply_in_session_frame(3))

lemma switch_leaves_fork_head_behind:
  assumes "switch_branches N i first second n = (Inr True, n')" and "fork_wf F (nd_fork_db n)" and "fd_head (nd_fork_db n) = Some new_head"
    and "head_block_id n \<noteq> previous_id (item (nd_fork_db n) (last second))"
  shows "\<exists>p < new_head. fd_head (nd_fork_db n') = Some p"
  using assms by (auto simp: switch_branches_def split: prod.splits sum.splits dest!: pop_until_fork_head push_branch_fork_head)

end
